(* ===== verification/Prelude.thy ===== *)
theory Prelude
  imports Main "HOL-Library.Word" "HOL-Library.Signed_Division" "HOL-Library.Multiset"
begin

text \<open>
  Shared vocabulary of the development: the machine types of the Rust sources
  (\<open>u8\<close> .. \<open>u64\<close> as words, \<open>i128\<close> as a 128-bit two's complement value with its signed
  order, \<open>f64\<close> as its bit pattern with the IEEE comparison), little-endian byte strings,
  the outcome type of operations that may panic, iteration over hash maps and sets, and
  the generic lemmas the component theories use.

  Integer arithmetic follows the release profile of the crate (\<open>Cargo.toml\<close> leaves
  \<open>overflow-checks\<close> off there): \<open>+\<close>, \<open>-\<close>, \<open>*\<close> and negation wrap around.
\<close>

section \<open>Collections of facts\<close>

named_theorems op_defs \<open>definitions of the stores' operations, for unfolding\<close>
named_theorems frame_simps \<open>what an operation leaves unchanged\<close>

section \<open>Machine integers\<close>

type_synonym u8 = "8 word"
type_synonym u16 = "16 word"
type_synonym u32 = "32 word"
type_synonym u64 = "64 word"

type_synonym address = "u8 list"
type_synonym hash32 = "u8 list"

text \<open>\<open>saturating_sub\<close> on an unsigned word.\<close>

definition sat_sub :: "'a::len word \<Rightarrow> 'a word \<Rightarrow> 'a word" where
  "sat_sub a b = (if b \<le> a then a - b else 0)"

text \<open>
  \<open>i128\<close>: the bits, with the signed order as the order of the type, so that comparisons,
  \<open>max\<close> and sorting read as in the source.
\<close>

datatype i128 = I128 (i128_bits: "128 word")

definition i128_val :: "i128 \<Rightarrow> int" where
  "i128_val x = sint (i128_bits x)"

lemma i128_val_eq_iff: "i128_val a = i128_val b \<longleftrightarrow> a = b"
  by (cases a; cases b) (auto simp: i128_val_def intro: signed_word_eqI)

instantiation i128 :: linorder
begin

definition less_eq_i128 :: "i128 \<Rightarrow> i128 \<Rightarrow> bool" where
  "less_eq_i128 a b \<longleftrightarrow> i128_val a \<le> i128_val b"

definition less_i128 :: "i128 \<Rightarrow> i128 \<Rightarrow> bool" where
  "less_i128 a b \<longleftrightarrow> i128_val a < i128_val b"

instance
proof
  fix x y :: i128
  assume "x \<le> y" and "y \<le> x"
  then have "i128_val x = i128_val y" by (simp add: less_eq_i128_def)
  then show "x = y" by (simp only: i128_val_eq_iff)
qed (auto simp: less_eq_i128_def less_i128_def)

end

instantiation i128 :: comm_ring_1
begin

definition zero_i128 :: i128 where "zero_i128 = I128 0"
definition one_i128 :: i128 where "one_i128 = I128 1"
definition plus_i128 :: "i128 \<Rightarrow> i128 \<Rightarrow> i128" where
  "plus_i128 a b = I128 (i128_bits a + i128_bits b)"
definition minus_i128 :: "i128 \<Rightarrow> i128 \<Rightarrow> i128" where
  "minus_i128 a b = I128 (i128_bits a - i128_bits b)"
definition uminus_i128 :: "i128 \<Rightarrow> i128" where
  "uminus_i128 a = I128 (- i128_bits a)"
definition times_i128 :: "i128 \<Rightarrow> i128 \<Rightarrow> i128" where
  "times_i128 a b = I128 (i128_bits a * i128_bits b)"

instance
  by standard
    (simp_all add: zero_i128_def one_i128_def plus_i128_def minus_i128_def uminus_i128_def
      times_i128_def algebra_simps i128.expand)

end

text \<open>Truncating division, as Rust's \<open>/\<close> on signed integers.\<close>

definition i128_div :: "i128 \<Rightarrow> i128 \<Rightarrow> i128" where
  "i128_div a b = I128 (word_of_int (i128_val a sdiv i128_val b))"

definition i128_rem :: "i128 \<Rightarrow> i128 \<Rightarrow> i128" where
  "i128_rem a b = I128 (word_of_int (i128_val a smod i128_val b))"

definition i128_range :: "int \<Rightarrow> bool" where
  "i128_range n \<longleftrightarrow> - (2 ^ 127) \<le> n \<and> n < 2 ^ 127"

lemma i128_bits_simps [simp]:
  "i128_bits 0 = 0" "i128_bits 1 = 1"
  "i128_bits (a + b) = i128_bits a + i128_bits b"
  "i128_bits (a - b) = i128_bits a - i128_bits b"
  "i128_bits (- a) = - i128_bits a"
  by (simp_all add: zero_i128_def one_i128_def plus_i128_def minus_i128_def uminus_i128_def)

lemma i128_bits_numeral [simp]: "i128_bits (numeral k) = numeral k"
  by (induction k) (simp_all add: numeral_Bit0 numeral_Bit1 plus_i128_def)

lemma i128_val_0 [simp]: "i128_val 0 = 0"
  by (simp add: i128_val_def)

lemma i128_val_1 [simp]: "i128_val 1 = 1"
  by (simp add: i128_val_def)

lemma i128_range_val [simp]: "i128_range (i128_val a)"
  using sint_range_size [of "i128_bits a"]
  by (simp add: i128_range_def i128_val_def word_size)

lemma i128_val_of_int: "i128_range n \<Longrightarrow> i128_val (I128 (word_of_int n)) = n"
  by (simp add: i128_val_def i128_range_def signed_take_bit_int_eq_self sint_uint
      unsigned_of_int signed_take_bit_take_bit)

lemma i128_val_add: "i128_range (i128_val a + i128_val b) \<Longrightarrow> i128_val (a + b) = i128_val a + i128_val b"
  using i128_val_of_int [of "i128_val a + i128_val b"]
  by (simp add: plus_i128_def i128_val_def)

lemma i128_val_diff: "i128_range (i128_val a - i128_val b) \<Longrightarrow> i128_val (a - b) = i128_val a - i128_val b"
  using i128_val_of_int [of "i128_val a - i128_val b"]
  by (simp add: minus_i128_def i128_val_def)

lemma i128_val_uminus: "i128_range (- i128_val a) \<Longrightarrow> i128_val (- a) = - i128_val a"
  using i128_val_of_int [of "- i128_val a"]
  by (simp add: uminus_i128_def i128_val_def)

lemma i128_le_0_iff: "(0 \<le> (a::i128)) \<longleftrightarrow> 0 \<le> i128_val a"
  by (simp add: less_eq_i128_def)

lemma i128_less_0_iff: "(0 < (a::i128)) \<longleftrightarrow> 0 < i128_val a"
  by (simp add: less_i128_def)

lemma i128_val_max: "i128_val (max a b) = max (i128_val a) (i128_val b)"
  by (auto simp: max_def less_eq_i128_def)

section \<open>IEEE doubles\<close>

text \<open>
  A double is its 64 bits. The database compares doubles, stores them and moves them through
  \<open>to_bits\<close>/\<open>from_bits\<close>; it does no arithmetic on them (the one percentage that the command line tool
  computes is in \<open>Text_Format\<close>). The IEEE order of two numbers that are
  not NaN is the order of their magnitudes with the sign applied, and the two zeros are
  equal; every comparison with a NaN is false.
\<close>

datatype f64 = F64 (f64_bits: u64)

definition f64_mag :: "f64 \<Rightarrow> nat" where
  "f64_mag x = unat (take_bit 63 (f64_bits x))"

definition f64_key :: "f64 \<Rightarrow> int" where
  "f64_key x = (if bit (f64_bits x) 63 then - int (f64_mag x) else int (f64_mag x))"

definition f64_is_nan :: "f64 \<Rightarrow> bool" where
  "f64_is_nan x \<longleftrightarrow> 0x7FF0000000000000 < f64_mag x"

definition f64_lt :: "f64 \<Rightarrow> f64 \<Rightarrow> bool" where
  "f64_lt a b \<longleftrightarrow> \<not> f64_is_nan a \<and> \<not> f64_is_nan b \<and> f64_key a < f64_key b"

definition f64_eq :: "f64 \<Rightarrow> f64 \<Rightarrow> bool" where
  "f64_eq a b \<longleftrightarrow> \<not> f64_is_nan a \<and> \<not> f64_is_nan b \<and> f64_key a = f64_key b"

definition f64_le :: "f64 \<Rightarrow> f64 \<Rightarrow> bool" where
  "f64_le a b \<longleftrightarrow> \<not> f64_is_nan a \<and> \<not> f64_is_nan b \<and> f64_key a \<le> f64_key b"

abbreviation f64_zero :: f64 where "f64_zero \<equiv> F64 0"

lemma f64_zero_not_nan [simp]: "\<not> f64_is_nan f64_zero"
  by (simp add: f64_is_nan_def f64_mag_def)

lemma f64_le_refl: "\<not> f64_is_nan a \<Longrightarrow> f64_le a a"
  by (simp add: f64_le_def)

lemma f64_le_trans: "f64_le a b \<Longrightarrow> f64_le b c \<Longrightarrow> f64_le a c"
  by (simp add: f64_le_def)

lemma f64_not_lt: "\<not> f64_is_nan a \<Longrightarrow> \<not> f64_is_nan b \<Longrightarrow> \<not> f64_lt a b \<longleftrightarrow> f64_le b a"
  by (auto simp: f64_lt_def f64_le_def)

lemma f64_lt_imp_le: "f64_lt a b \<Longrightarrow> f64_le a b"
  by (simp add: f64_lt_def f64_le_def)

section \<open>Little-endian bytes\<close>

fun le_enc :: "nat \<Rightarrow> nat \<Rightarrow> u8 list" where
  "le_enc 0 x = []"
| "le_enc (Suc n) x = word_of_nat (x mod 256) # le_enc n (x div 256)"

fun le_val :: "u8 list \<Rightarrow> nat" where
  "le_val [] = 0"
| "le_val (b # bs) = unat b + 256 * le_val bs"

lemma length_le_enc [simp]: "length (le_enc n x) = n"
  by (induction n arbitrary: x) simp_all

lemma le_val_enc: "le_val (le_enc n x) = x mod 256 ^ n"
proof (induction n arbitrary: x)
  case (Suc n)
  have "unat (word_of_nat (x mod 256) :: u8) = x mod 256"
    by (simp add: unat_of_nat)
  with Suc show ?case
    by (simp add: mod_mult2_eq)
qed simp

lemma le_val_bound: "le_val bs < 256 ^ length bs"
proof (induction bs)
  case (Cons b bs)
  have "unat b < 256" using unsigned_less [of b, where 'a = nat] by simp
  moreover have "256 * le_val bs + 256 \<le> 256 * 256 ^ length bs"
    using Cons.IH by (metis Suc_leI mult_Suc_right mult_le_mono2 add.commute)
  ultimately show ?case by simp
qed simp

lemma le_enc_val: "le_enc (length bs) (le_val bs) = bs"
proof (induction bs)
  case (Cons b bs)
  have "unat b < 256" using unsigned_less [of b, where 'a = nat] by simp
  with Cons show ?case by simp
qed simp

definition u64_to_le :: "u64 \<Rightarrow> u8 list" where
  "u64_to_le w = le_enc 8 (unat w)"

definition u32_to_le :: "u32 \<Rightarrow> u8 list" where
  "u32_to_le w = le_enc 4 (unat w)"

definition u16_to_le :: "u16 \<Rightarrow> u8 list" where
  "u16_to_le w = le_enc 2 (unat w)"

definition u64_from_le :: "u8 list \<Rightarrow> u64" where
  "u64_from_le bs = word_of_nat (le_val bs)"

definition u32_from_le :: "u8 list \<Rightarrow> u32" where
  "u32_from_le bs = word_of_nat (le_val bs)"

definition u16_from_le :: "u8 list \<Rightarrow> u16" where
  "u16_from_le bs = word_of_nat (le_val bs)"

lemma length_to_le [simp]:
  "length (u64_to_le a) = 8" "length (u32_to_le b) = 4" "length (u16_to_le c) = 2"
  by (simp_all add: u64_to_le_def u32_to_le_def u16_to_le_def)

lemma u64_le_roundtrip [simp]: "u64_from_le (u64_to_le w) = w"
  using unsigned_less [of w, where 'a = nat]
  by (simp add: u64_from_le_def u64_to_le_def le_val_enc)

lemma u32_le_roundtrip [simp]: "u32_from_le (u32_to_le w) = w"
  using unsigned_less [of w, where 'a = nat]
  by (simp add: u32_from_le_def u32_to_le_def le_val_enc)

lemma u16_le_roundtrip [simp]: "u16_from_le (u16_to_le w) = w"
  using unsigned_less [of w, where 'a = nat]
  by (simp add: u16_from_le_def u16_to_le_def le_val_enc)

section \<open>Outcomes\<close>

text \<open>A call that may panic: \<open>None\<close> is the panic (an out-of-range index or slice).\<close>

type_synonym 'a panicking = "'a option"

section \<open>Iteration over hash containers\<close>

text \<open>
  The iteration order of a \<open>DashMap\<close>, \<open>HashMap\<close> or \<open>HashSet\<close> is not specified. An operation that
  iterates takes the order of that iteration as an argument; \<open>iterates\<close> and \<open>enumerates\<close>
  say that it yields every key once.
\<close>

definition iterates :: "'k list \<Rightarrow> ('k \<rightharpoonup> 'v) \<Rightarrow> bool" where
  "iterates ks m \<longleftrightarrow> distinct ks \<and> set ks = dom m"

definition enumerates :: "'k list \<Rightarrow> 'k set \<Rightarrow> bool" where
  "enumerates ks A \<longleftrightarrow> distinct ks \<and> set ks = A"

definition values_of :: "'k list \<Rightarrow> ('k \<rightharpoonup> 'v) \<Rightarrow> 'v list" where
  "values_of ks m = List.map_filter m ks"

lemma values_of_simps [simp]:
  "values_of [] m = []"
  "values_of (k # ks) m = (case m k of None \<Rightarrow> values_of ks m | Some v \<Rightarrow> v # values_of ks m)"
  by (simp_all add: values_of_def map_filter_simps split: option.splits)

lemma set_values_of: "set (values_of ks m) = {v. \<exists>k \<in> set ks. m k = Some v}"
  by (induction ks) (auto split: option.splits)

lemma values_of_iterates: "iterates ks m \<Longrightarrow> set (values_of ks m) = ran m"
  by (auto simp: set_values_of iterates_def ran_def domIff)

lemma length_values_of_iterates: "iterates ks m \<Longrightarrow> length (values_of ks m) = card (dom m)"
proof -
  assume "iterates ks m"
  then have d: "distinct ks" and s: "set ks = dom m" by (simp_all add: iterates_def)
  have "set ks \<subseteq> dom m \<Longrightarrow> length (values_of ks m) = length ks"
    by (induction ks) auto
  then show ?thesis using d s by (simp add: distinct_card [symmetric])
qed

lemma values_of_cong: "(\<And>k. k \<in> set ks \<Longrightarrow> m k = m' k) \<Longrightarrow> values_of ks m = values_of ks m'"
  by (induction ks) (auto split: option.splits)

section \<open>Lists\<close>

lemma fold_invariant_list:
  "P s \<Longrightarrow> (\<And>x s. x \<in> set xs \<Longrightarrow> P s \<Longrightarrow> P (f x s)) \<Longrightarrow> P (fold f xs s)"
  by (induction xs arbitrary: s) auto

lemma take_length_append [simp]: "n \<le> length xs \<Longrightarrow> take n (xs @ ys) = take n xs"
  by simp

text \<open>
  \<open>sort_by(|a, b| key(b).cmp(&key(a)))\<close>: a stable sort by descending key.
\<close>

definition sort_desc :: "('a \<Rightarrow> 'k::linorder) \<Rightarrow> 'a list \<Rightarrow> 'a list" where
  "sort_desc key xs = rev (sort_key key (rev xs))"

lemma mset_sort_desc [simp]: "mset (sort_desc key xs) = mset xs"
  by (simp add: sort_desc_def)

lemma set_sort_desc [simp]: "set (sort_desc key xs) = set xs"
  by (simp add: sort_desc_def)

lemma length_sort_desc [simp]: "length (sort_desc key xs) = length xs"
  by (simp add: sort_desc_def)

lemma distinct_sort_desc [simp]: "distinct (sort_desc key xs) = distinct xs"
  by (simp add: sort_desc_def)

lemma sorted_sort_desc: "sorted_wrt (\<lambda>a b. key b \<le> key a) (sort_desc key xs)"
proof -
  have "sorted (map key (sort_key key (rev xs)))" by simp
  then show ?thesis by (simp add: sort_desc_def sorted_wrt_rev sorted_map)
qed

lemma sort_desc_stable: "filter (\<lambda>y. key y = k) (sort_desc key xs) = filter (\<lambda>y. key y = k) xs"
proof -
  have "filter (\<lambda>y. key y = k) (sort_key key (rev xs)) = filter (\<lambda>y. key y = k) (rev xs)"
    by (metis (mono_tags) sort_key_stable)
  then show ?thesis by (simp add: sort_desc_def rev_filter [symmetric])
qed

lemma sorted_wrt_take_drop: "sorted_wrt R xs \<Longrightarrow> x \<in> set (take n xs) \<Longrightarrow> y \<in> set (drop n xs) \<Longrightarrow> R x y"
  by (metis append_take_drop_id sorted_wrt_append)

lemma sorted_wrt_mono_filter: "sorted_wrt R xs \<Longrightarrow> sorted_wrt R (filter P xs)"
  by (induction xs) auto

end
