(* ===== verification/Decimal.thy ===== *)
theory Decimal
  imports Prelude
begin

text \<open>
  Decimal formatting and parsing, the part of the standard library that the file names and
  the command line rest on: \<open>format!("{}")\<close>, \<open>format!("{:0w}")\<close> and \<open>str::parse\<close> for integers.
  A string is its list of bytes.
\<close>

definition digit_char :: "nat \<Rightarrow> char" where
  "digit_char d = char_of (48 + d)"

definition char_digit :: "char \<Rightarrow> nat option" where
  "char_digit c = (let n = of_char c in if 48 \<le> n \<and> n \<le> 57 then Some (n - 48) else None)"

fun show_nat :: "nat \<Rightarrow> string" where
  "show_nat n = (if n < 10 then [digit_char n] else show_nat (n div 10) @ [digit_char (n mod 10)])"

declare show_nat.simps [simp del]

definition show_int :: "int \<Rightarrow> string" where
  "show_int i = (if i < 0 then CHR ''-'' # show_nat (nat (- i)) else show_nat (nat i))"

definition pad0 :: "nat \<Rightarrow> string \<Rightarrow> string" where
  "pad0 w s = replicate (w - length s) (CHR ''0'') @ s"

fun digits_val :: "nat \<Rightarrow> string \<Rightarrow> nat option" where
  "digits_val acc [] = Some acc"
| "digits_val acc (c # cs) =
     (case char_digit c of None \<Rightarrow> None | Some d \<Rightarrow> digits_val (10 * acc + d) cs)"

text \<open>\<open>str::parse\<close> for an unsigned type with the given bound: an optional \<open>+\<close>, then at least one digit.\<close>

definition parse_unsigned :: "nat \<Rightarrow> string \<Rightarrow> nat option" where
  "parse_unsigned bound s =
     (let body = (case s of [] \<Rightarrow> [] | c # cs \<Rightarrow> if c = CHR ''+'' then cs else s)
      in if body = [] then None
         else case digits_val 0 body of None \<Rightarrow> None
              | Some n \<Rightarrow> if n < bound then Some n else None)"

text \<open>\<open>str::parse::<i128>\<close>: an optional sign, then at least one digit, in range.\<close>

definition parse_signed :: "(int \<Rightarrow> bool) \<Rightarrow> string \<Rightarrow> int option" where
  "parse_signed inrange s =
     (let (neg, body) = (case s of [] \<Rightarrow> (False, []) | c # cs \<Rightarrow>
            if c = CHR ''+'' then (False, cs) else if c = CHR ''-'' then (True, cs) else (False, s))
      in if body = [] then None
         else case digits_val 0 body of None \<Rightarrow> None
              | Some n \<Rightarrow> (let v = (if neg then - int n else int n) in if inrange v then Some v else None))"

lemma char_digit_digit_char [simp]: "d < 10 \<Longrightarrow> char_digit (digit_char d) = Some d"
  by (simp add: char_digit_def digit_char_def)

lemma digit_char_0: "CHR ''0'' = digit_char 0"
  by code_simp

lemma digits_val_append:
  "digits_val acc (xs @ ys) = (case digits_val acc xs of None \<Rightarrow> None | Some a \<Rightarrow> digits_val a ys)"
  by (induction xs arbitrary: acc) (auto split: option.splits)

lemma digits_val_zeros: "digits_val 0 (replicate k (CHR ''0'') @ s) = digits_val 0 s"
  by (induction k) (simp_all add: digit_char_0)

lemma digits_val_show: "digits_val 0 (show_nat n) = Some n"
proof (induction n rule: show_nat.induct)
  case (1 n)
  show ?case
  proof (cases "n < 10")
    case False
    with 1 show ?thesis by (subst show_nat.simps) (simp add: digits_val_append)
  qed (simp add: show_nat.simps)
qed

lemma show_nat_nonempty [simp]: "show_nat n \<noteq> []"
  by (subst show_nat.simps) simp

lemma set_show_nat: "set (show_nat n) \<subseteq> digit_char ` {..<10}"
proof (induction n rule: show_nat.induct)
  case (1 n)
  then show ?case by (subst show_nat.simps) auto
qed

lemma digit_char_neq: "d < 10 \<Longrightarrow> digit_char d \<noteq> CHR ''+''" "d < 10 \<Longrightarrow> digit_char d \<noteq> CHR ''-''"
  using char_digit_digit_char [of d] by (auto simp: char_digit_def)

lemma hd_pad0_show: "hd (pad0 w (show_nat n)) \<in> digit_char ` {..<10}"
proof (cases "w - length (show_nat n)")
  case 0
  have "hd (show_nat n) \<in> set (show_nat n)" by (rule hd_in_set) simp
  with 0 set_show_nat [of n] show ?thesis by (auto simp: pad0_def)
qed (auto simp: pad0_def digit_char_0)

lemma pad0_nonempty [simp]: "pad0 w (show_nat n) \<noteq> []"
  by (simp add: pad0_def)

text \<open>Printing with any zero padding and parsing back is the identity on values in range.\<close>

lemma parse_unsigned_pad0 [simp]:
  assumes "n < bound"
  shows "parse_unsigned bound (pad0 w (show_nat n)) = Some n"
proof -
  let ?s = "pad0 w (show_nat n)"
  obtain c cs where s: "?s = c # cs" by (cases ?s) auto
  with hd_pad0_show [of w n] have "c \<noteq> CHR ''+''" by (auto dest: digit_char_neq)
  moreover have "digits_val 0 ?s = Some n"
    by (simp add: pad0_def digits_val_zeros digits_val_show)
  ultimately show ?thesis using assms s by (simp add: parse_unsigned_def)
qed

lemma pad0_show_inj: "pad0 w (show_nat m) = pad0 w (show_nat n) \<Longrightarrow> m = n"
proof -
  assume eq: "pad0 w (show_nat m) = pad0 w (show_nat n)"
  have "m < Suc (max m n)" "n < Suc (max m n)" by simp_all
  then have "Some m = Some n" using eq parse_unsigned_pad0 by metis
  then show "m = n" by simp
qed

end
