(* ===== verification/Core_Types.thy ===== *)
theory Core_Types
  imports Prelude Decimal
begin

text \<open>
  The data model, \<open>src/core/types.rs\<close> and \<open>src/error.rs\<close>: fixed-layout records of the mapped
  files, positions, orders, trades, chain events, users, statistics, balances, the error
  type, and the parsers of fixed-point numbers and hexadecimal addresses. Field names carry
  a prefix naming their struct; constructors of the small enumerations carry the initials of
  their enum.
\<close>

section \<open>Errors (\<open>src/error.rs\<close>)\<close>

text \<open>The operating system's own error value inside \<open>Io\<close> is not represented.\<close>

datatype perfdb_error =
    Io string
  | Serialization string string
  | Corruption string
  | InvalidArgument string

type_synonym 'a result = "perfdb_error + 'a"

section \<open>Mapped records\<close>

datatype f32 = F32 (f32_bits: u32)

record price_tick =
  tick_timestamp_ns :: u64
  tick_market_id :: u16
  tick_pad :: "u8 list"
  tick_price :: f64

record candle_record =
  cdl_timestamp_ns :: u64
  cdl_open :: f64
  cdl_high :: f64
  cdl_low :: f64
  cdl_close :: f64
  cdl_volume :: f32
  cdl_market_id :: u16
  cdl_timeframe :: u8
  cdl_pad :: u8

section \<open>Positions, orders, trades\<close>

datatype position_status = PsOpen | PsClosed | PsLiquidated

definition position_status_from_u8 :: "u8 \<Rightarrow> position_status" where
  "position_status_from_u8 v =
     (if v = 0 then PsOpen else if v = 1 then PsClosed else if v = 2 then PsLiquidated else PsOpen)"

record position =
  pos_position_id :: hash32
  pos_user_address :: address
  pos_market_id :: u16
  pos_is_long :: bool
  pos_size_usd :: i128
  pos_collateral_usd :: i128
  pos_collateral_token :: address
  pos_collateral_amount :: i128
  pos_entry_price :: i128
  pos_exit_price :: "i128 option"
  pos_realized_pnl :: "i128 option"
  pos_leverage :: i128
  pos_status :: position_status
  pos_open_tx :: hash32
  pos_close_tx :: "hash32 option"
  pos_open_block :: u64
  pos_close_block :: "u64 option"
  pos_opened_at :: u64
  pos_closed_at :: "u64 option"

datatype order_type = OtLimit | OtStopLimit | OtTakeProfit | OtStopLoss

definition order_type_from_u8 :: "u8 \<Rightarrow> order_type" where
  "order_type_from_u8 v =
     (if v = 0 then OtLimit else if v = 1 then OtStopLimit else if v = 2 then OtTakeProfit
      else if v = 3 then OtStopLoss else OtLimit)"

datatype order_status = OsActive | OsExecuted | OsCancelled

definition order_status_from_u8 :: "u8 \<Rightarrow> order_status" where
  "order_status_from_u8 v =
     (if v = 0 then OsActive else if v = 1 then OsExecuted else if v = 2 then OsCancelled else OsActive)"

record order =
  ord_order_id :: hash32
  ord_user_address :: address
  ord_market_id :: u16
  ord_is_long :: bool
  ord_order_type :: order_type
  ord_trigger_price :: i128
  ord_limit_price :: "i128 option"
  ord_size_usd :: i128
  ord_leverage :: i128
  ord_collateral_token :: address
  ord_collateral_amount :: i128
  ord_status :: order_status
  ord_execution_price :: "i128 option"
  ord_position_id :: "hash32 option"
  ord_tx_hash :: hash32
  ord_block_number :: u64
  ord_created_at :: u64
  ord_executed_at :: "u64 option"

datatype trade_type = TtOpen | TtClose | TtPartialClose | TtLiquidation | TtIncrease

definition trade_type_from_u8 :: "u8 \<Rightarrow> trade_type" where
  "trade_type_from_u8 v =
     (if v = 0 then TtOpen else if v = 1 then TtClose else if v = 2 then TtPartialClose
      else if v = 3 then TtLiquidation else if v = 4 then TtIncrease else TtOpen)"

record trade =
  trd_trade_id :: hash32
  trd_user_address :: address
  trd_market_id :: u16
  trd_is_long :: bool
  trd_size_usd :: i128
  trd_price :: i128
  trd_pnl :: "i128 option"
  trd_fee_usd :: i128
  trd_trade_type :: trade_type
  trd_tx_hash :: hash32
  trd_block_number :: u64
  trd_timestamp :: u64

section \<open>Chain events\<close>

text \<open>Constructor arguments stand in the order of the fields of the source's variants.\<close>

datatype event =
    PositionOpened hash32 address u16 bool i128 i128 i128 address i128
      \<comment> \<open>position_id, user, market_id, is_long, size_usd, leverage, entry_price,
          collateral_token, collateral_amount\<close>
  | PositionClosed hash32 address u16 i128 i128 i128 bool
      \<comment> \<open>position_id, user, market_id, closed_size_usd, exit_price, realized_pnl, is_full_close\<close>
  | PositionModified hash32 i128 i128 i128
      \<comment> \<open>position_id, new_size_usd, new_collateral_usd, new_collateral_amount\<close>
  | OrderPlaced hash32 address u16 u8 bool i128 i128
      \<comment> \<open>order_id, user, market_id, order_type, is_long, trigger_price, size_usd\<close>
  | OrderExecuted hash32 hash32 i128
      \<comment> \<open>order_id, position_id, execution_price\<close>
  | OrderCancelled hash32 address
  | Liquidation hash32 address u16 i128 i128 address
      \<comment> \<open>position_id, user, market_id, liquidation_price, penalty, keeper\<close>
  | ADLExecuted hash32 i128
  | PriceUpdated u16 i128 u64
  | FundingSettled u16 i128 i128 i128
  | FundingRateUpdated u16 i128 i128
      \<comment> \<open>market_id, new_rate_per_second, funding_rate_24h\<close>
  | MarketCreated u16 string string
  | MarketPaused u16
  | CollateralDeposited address address i128
  | CollateralWithdrawn address address i128
  | VaultCreated address address
  | VaultDeficit address i128

record indexed_event =
  ie_block_number :: u64
  ie_block_timestamp :: u64
  ie_tx_hash :: hash32
  ie_tx_index :: u32
  ie_log_index :: u32
  ie_event :: event

section \<open>Users, statistics, balances\<close>

record user =
  usr_address :: address
  usr_vault_address :: "address option"
  usr_referral_code :: "string option"
  usr_referred_by :: "address option"
  usr_tier :: string
  usr_fee_discount_bps :: u32
  usr_created_at :: u64
  usr_first_trade_at :: "u64 option"
  usr_last_active_at :: "u64 option"

record trader_stats =
  ts_address :: address
  ts_total_pnl :: i128
  ts_total_volume :: i128
  ts_total_fees_paid :: i128
  ts_total_trades :: u32
  ts_total_positions :: u32
  ts_open_positions :: u32
  ts_win_count :: u32
  ts_loss_count :: u32
  ts_liquidation_count :: u32
  ts_best_trade_pnl :: i128
  ts_worst_trade_pnl :: i128
  ts_avg_leverage :: i128
  ts_max_leverage :: i128
  ts_total_funding_paid :: i128
  ts_total_funding_received :: i128
  ts_first_trade_at :: "u64 option"
  ts_last_trade_at :: "u64 option"

record daily_stats =
  ds_date :: u32
  ds_pnl :: i128
  ds_volume :: i128
  ds_trades :: u32
  ds_fees :: i128

record market_info =
  mi_id :: u16
  mi_name :: string
  mi_symbol :: string
  mi_enabled :: bool
  mi_mark_price :: "i128 option"
  mi_index_price :: "i128 option"
  mi_long_oi :: "i128 option"
  mi_short_oi :: "i128 option"
  mi_funding_rate :: "i128 option"
  mi_max_leverage :: "i128 option"
  mi_maintenance_margin_bps :: "u32 option"
  mi_volume_24h :: "i128 option"
  mi_trades_24h :: "u32 option"
  mi_price_change_24h :: "i128 option"
  mi_price_change_pct_24h :: "i128 option"

record balance =
  bal_user_address :: address
  bal_token :: address
  bal_amount :: i128
  bal_locked :: i128
  bal_available :: i128

record referral_info =
  ri_referral_code :: "string option"
  ri_referral_count :: u32
  ri_total_rewards :: i128
  ri_tier :: string

section \<open>Parsers\<close>

definition parse_fixed :: "string \<Rightarrow> i128" where
  "parse_fixed s = (case parse_signed i128_range s of None \<Rightarrow> 0 | Some v \<Rightarrow> I128 (word_of_int v))"

definition hex_digit :: "char \<Rightarrow> nat option" where
  "hex_digit c =
     (let n = of_char c in
      if 48 \<le> n \<and> n \<le> 57 then Some (n - 48)
      else if 97 \<le> n \<and> n \<le> 102 then Some (n - 87)
      else if 65 \<le> n \<and> n \<le> 70 then Some (n - 55)
      else None)"

text \<open>
  \<open>u8::from_str_radix\<close> on two bytes: both are hexadecimal digits, or the first is a plus sign.
\<close>

definition u8_from_hex2 :: "char \<Rightarrow> char \<Rightarrow> u8 option" where
  "u8_from_hex2 a b =
     (if a = CHR ''+'' then map_option word_of_nat (hex_digit b)
      else case (hex_digit a, hex_digit b) of
             (Some x, Some y) \<Rightarrow> Some (word_of_nat (16 * x + y))
           | _ \<Rightarrow> None)"

text \<open>
  Slicing a string at an offset that falls inside a multi-byte character panics; such an
  offset is one at which a continuation byte (\<open>0x80..0xBF\<close>) stands.
\<close>

definition continuation_byte :: "char \<Rightarrow> bool" where
  "continuation_byte c \<longleftrightarrow> 128 \<le> (of_char c :: nat) \<and> (of_char c :: nat) < 192"

definition at_boundary :: "string \<Rightarrow> bool" where
  "at_boundary s = (case s of [] \<Rightarrow> True | c # _ \<Rightarrow> \<not> continuation_byte c)"

text \<open>
  The chunks are decoded in order and the first bad one ends the work with \<open>Err\<close>
  (inner \<open>None\<close>); a slice off a character boundary panics (outer \<open>None\<close>).
\<close>

fun hex_decode_chunks :: "string \<Rightarrow> u8 list option panicking" where
  "hex_decode_chunks (a # b # cs) =
     (if \<not> at_boundary (a # b # cs) \<or> \<not> at_boundary cs then None
      else case u8_from_hex2 a b of
             None \<Rightarrow> Some None
           | Some v \<Rightarrow> map_option (map_option ((#) v)) (hex_decode_chunks cs))"
| "hex_decode_chunks _ = Some (Some [])"

definition hex_decode :: "string \<Rightarrow> u8 list option panicking" where
  "hex_decode s = (if length s mod 2 \<noteq> 0 then Some None else hex_decode_chunks s)"

definition strip_0x :: "string \<Rightarrow> string" where
  "strip_0x s = (if take 2 s = ''0x'' then drop 2 s else s)"

text \<open>The decoded bytes, at most \<open>n\<close> of them, right-aligned in a zeroed buffer of \<open>n\<close> bytes.\<close>

definition parse_bytes :: "nat \<Rightarrow> string \<Rightarrow> u8 list panicking" where
  "parse_bytes n s =
     map_option (\<lambda>r. case r of None \<Rightarrow> replicate n 0
        | Some bytes \<Rightarrow> (let len = min (length bytes) n in replicate (n - len) 0 @ take len bytes))
      (hex_decode (strip_0x s))"

definition parse_address :: "string \<Rightarrow> address panicking" where
  "parse_address s = parse_bytes 20 s"

definition parse_hash :: "string \<Rightarrow> hash32 panicking" where
  "parse_hash s = parse_bytes 32 s"

lemma length_parse_bytes: "parse_bytes n s = Some bs \<Longrightarrow> length bs = n"
  by (auto simp: parse_bytes_def Let_def split: option.splits)

end
