(* ===== verification/Secondary_Index.thy ===== *)
theory Secondary_Index
  imports Prelude
begin

text \<open>
  The secondary index that the position, order and balance tables keep beside their primary
  map: a map from an index key to the non-empty set of primary keys filed under it. The
  two updates are the \<open>entry().or_insert_with(HashSet::new).insert()\<close> and the
  \<open>get_mut / remove / remove-if-empty\<close> sequences of the tables. The locale \<open>indexed_table\<close> is the
  contract between such a table and its readers.
\<close>

definition idx_add :: "'x \<Rightarrow> 'k \<Rightarrow> ('x \<rightharpoonup> 'k set) \<Rightarrow> ('x \<rightharpoonup> 'k set)" where
  "idx_add x k m = m(x \<mapsto> insert k (case m x of None \<Rightarrow> {} | Some s \<Rightarrow> s))"

definition idx_del :: "'x \<Rightarrow> 'k \<Rightarrow> ('x \<rightharpoonup> 'k set) \<Rightarrow> ('x \<rightharpoonup> 'k set)" where
  "idx_del x k m =
     (case m x of
        None \<Rightarrow> m
      | Some s \<Rightarrow> (let s' = s - {k} in if s' = {} then m(x := None) else m(x \<mapsto> s')))"

text \<open>
  \<open>index_complete\<close>: every stored value is filed under its index key. \<open>index_sound\<close>: every
  filed key belongs to a stored value with that index key, and no empty set is kept.
\<close>

definition index_complete :: "('v \<Rightarrow> 'x) \<Rightarrow> ('k \<rightharpoonup> 'v) \<Rightarrow> ('x \<rightharpoonup> 'k set) \<Rightarrow> bool" where
  "index_complete key prim idx \<longleftrightarrow>
     (\<forall>k v. prim k = Some v \<longrightarrow> (\<exists>S. idx (key v) = Some S \<and> k \<in> S))"

definition index_sound :: "('v \<Rightarrow> 'x) \<Rightarrow> ('k \<rightharpoonup> 'v) \<Rightarrow> ('x \<rightharpoonup> 'k set) \<Rightarrow> bool" where
  "index_sound key prim idx \<longleftrightarrow>
     (\<forall>x S. idx x = Some S \<longrightarrow> S \<noteq> {} \<and> (\<forall>k \<in> S. \<exists>v. prim k = Some v \<and> key v = x))"

definition index_ok :: "('v \<Rightarrow> 'x) \<Rightarrow> ('k \<rightharpoonup> 'v) \<Rightarrow> ('x \<rightharpoonup> 'k set) \<Rightarrow> bool" where
  "index_ok key prim idx \<longleftrightarrow> index_complete key prim idx \<and> index_sound key prim idx"

definition keyed_by :: "('v \<Rightarrow> 'k) \<Rightarrow> ('k \<rightharpoonup> 'v) \<Rightarrow> bool" where
  "keyed_by kid prim \<longleftrightarrow> (\<forall>k v. prim k = Some v \<longrightarrow> kid v = k)"

lemma index_ok_empty [simp]: "index_ok key Map.empty Map.empty"
  by (simp add: index_ok_def index_complete_def index_sound_def)

lemma keyed_by_empty [simp]: "keyed_by kid Map.empty"
  by (simp add: keyed_by_def)

lemma keyed_by_upd [intro]: "keyed_by kid prim \<Longrightarrow> keyed_by kid (prim(kid v \<mapsto> v))"
  by (simp add: keyed_by_def)

lemma keyed_by_del [intro]: "keyed_by kid prim \<Longrightarrow> keyed_by kid (prim(k := None))"
  by (simp add: keyed_by_def)

lemma index_complete_add:
  assumes "index_complete key prim idx"
  shows "index_complete key (prim(k \<mapsto> v)) (idx_add (key v) k idx)"
  unfolding index_complete_def
proof (intro allI impI)
  fix k' v' assume at: "(prim(k \<mapsto> v)) k' = Some v'"
  show "\<exists>S. idx_add (key v) k idx (key v') = Some S \<and> k' \<in> S"
  proof (cases "k' = k")
    case True
    with at show ?thesis by (simp add: idx_add_def)
  next
    case False
    with at assms obtain S where "idx (key v') = Some S" "k' \<in> S"
      by (auto simp: index_complete_def)
    then show ?thesis by (auto simp: idx_add_def)
  qed
qed

lemma index_sound_add:
  assumes "index_sound key prim idx" and "\<And>w. prim k = Some w \<Longrightarrow> key w = key v"
  shows "index_sound key (prim(k \<mapsto> v)) (idx_add (key v) k idx)"
  unfolding index_sound_def
proof (intro allI impI)
  fix x S assume at: "idx_add (key v) k idx x = Some S"
  have old: "\<exists>v'. (prim(k \<mapsto> v)) k' = Some v' \<and> key v' = x"
    if "idx x = Some T" "k' \<in> T" for T k'
  proof -
    from that assms(1) obtain v' where v': "prim k' = Some v'" "key v' = x"
      unfolding index_sound_def by blast
    with assms(2) show ?thesis by (cases "k' = k") auto
  qed
  show "S \<noteq> {} \<and> (\<forall>k' \<in> S. \<exists>v'. (prim(k \<mapsto> v)) k' = Some v' \<and> key v' = x)"
  proof (cases "x = key v")
    case True
    with at have S: "S = insert k (case idx x of None \<Rightarrow> {} | Some s \<Rightarrow> s)"
      by (simp add: idx_add_def)
    have "\<exists>v'. (prim(k \<mapsto> v)) k' = Some v' \<and> key v' = x" if "k' \<in> S" for k'
    proof (cases "k' = k")
      case False
      with that S obtain T where "idx x = Some T" "k' \<in> T" by (auto split: option.splits)
      then show ?thesis by (rule old)
    qed (simp add: True)
    with S show ?thesis by blast
  next
    case False
    with at have "idx x = Some S" by (simp add: idx_add_def)
    with old assms(1) show ?thesis by (auto simp: index_sound_def)
  qed
qed

lemma index_ok_add:
  "index_ok key prim idx \<Longrightarrow> (\<And>w. prim k = Some w \<Longrightarrow> key w = key v) \<Longrightarrow>
    index_ok key (prim(k \<mapsto> v)) (idx_add (key v) k idx)"
  by (simp add: index_ok_def index_complete_add index_sound_add)

lemma idx_del_other [simp]: "x \<noteq> y \<Longrightarrow> idx_del x k m y = m y"
  by (simp add: idx_del_def Let_def split: option.splits)

lemma idx_del_same: "m x = Some S \<Longrightarrow> idx_del x k m x = (if S - {k} = {} then None else Some (S - {k}))"
  by (simp add: idx_del_def Let_def)

lemma index_ok_del:
  assumes ok: "index_ok key prim idx" and v: "prim k = Some v"
  shows "index_ok key (prim(k := None)) (idx_del (key v) k idx)"
proof -
  have sound: "idx x = Some S \<Longrightarrow> S \<noteq> {} \<and> (\<forall>k' \<in> S. \<exists>w. prim k' = Some w \<and> key w = x)" for x S
    using ok by (auto simp: index_ok_def index_sound_def)
  have comp: "prim k' = Some w \<Longrightarrow> \<exists>S. idx (key w) = Some S \<and> k' \<in> S" for k' w
    using ok by (auto simp: index_ok_def index_complete_def)
  obtain S where S: "idx (key v) = Some S" "k \<in> S" using comp [OF v] by blast
  have "\<exists>T. idx_del (key v) k idx (key w) = Some T \<and> k' \<in> T"
    if "(prim(k := None)) k' = Some w" for k' w
  proof (cases "key w = key v")
    case True
    from that have "prim k' = Some w" "k' \<noteq> k" by (auto split: if_splits)
    with comp [of k' w] True S have "k' \<in> S - {k}" by auto
    with True S show ?thesis by (auto simp: idx_del_same)
  next
    case False
    from that comp [of k' w] False show ?thesis by (auto split: if_splits)
  qed
  moreover have "T \<noteq> {} \<and> (\<forall>k' \<in> T. \<exists>w. (prim(k := None)) k' = Some w \<and> key w = x)"
    if T: "idx_del (key v) k idx x = Some T" for x T
  proof (cases "x = key v")
    case True
    with T S have "T = S - {k}" "T \<noteq> {}" by (auto simp: idx_del_same split: if_splits)
    with sound [OF S(1)] True show ?thesis by auto
  next
    case False
    with T have at: "idx x = Some T" by simp
    have "k \<notin> T" using sound [OF at] v False by auto
    with sound [OF at] show ?thesis by auto
  qed
  ultimately show ?thesis
    by (auto simp: index_ok_def index_complete_def index_sound_def)
qed

lemma index_ok_modify:
  assumes "index_ok key prim idx" and "\<And>v. key (f v) = key v"
  shows "index_ok key (prim(k := map_option f (prim k))) idx"
  using assms
  unfolding index_ok_def index_complete_def index_sound_def
  by (auto split: if_splits; metis option.simps(9))

lemma keyed_by_modify:
  "keyed_by kid prim \<Longrightarrow> (\<And>v. kid (f v) = kid v) \<Longrightarrow> keyed_by kid (prim(k := map_option f (prim k)))"
  by (auto simp: keyed_by_def)

section \<open>The interface of an indexed table\<close>

locale indexed_table =
  fixes prim :: "'s \<Rightarrow> 'k \<rightharpoonup> 'v"
    and idx :: "'s \<Rightarrow> 'x \<rightharpoonup> 'k set"
    and kid :: "'v \<Rightarrow> 'k"
    and key :: "'v \<Rightarrow> 'x"
    and ins :: "'v \<Rightarrow> 's \<Rightarrow> 's"
    and del :: "'k \<Rightarrow> 's \<Rightarrow> 's"
    and modify :: "'k \<Rightarrow> ('v \<Rightarrow> 'v) \<Rightarrow> 's \<Rightarrow> 's"
  assumes prim_ins: "prim (ins v s) = (prim s)(kid v \<mapsto> v)"
    and idx_ins: "idx (ins v s) = idx_add (key v) (kid v) (idx s)"
    and prim_del: "prim (del k s) = (prim s)(k := None)"
    and idx_del_some: "prim s k = Some v \<Longrightarrow> idx (del k s) = idx_del (key v) k (idx s)"
    and idx_del_none: "prim s k = None \<Longrightarrow> idx (del k s) = idx s"
    and prim_modify: "prim (modify k f s) = (prim s)(k := map_option f (prim s k))"
    and idx_modify: "idx (modify k f s) = idx s"
begin

lemma ok_ins:
  "index_ok key (prim s) (idx s) \<Longrightarrow> (\<And>w. prim s (kid v) = Some w \<Longrightarrow> key w = key v) \<Longrightarrow>
    index_ok key (prim (ins v s)) (idx (ins v s))"
  by (simp add: prim_ins idx_ins index_ok_add)

lemma complete_ins:
  "index_complete key (prim s) (idx s) \<Longrightarrow> index_complete key (prim (ins v s)) (idx (ins v s))"
  by (simp add: prim_ins idx_ins index_complete_add)

lemma ok_del:
  assumes "index_ok key (prim s) (idx s)"
  shows "index_ok key (prim (del k s)) (idx (del k s))"
proof (cases "prim s k")
  case None
  then have "(prim s)(k := None) = prim s" by (simp add: fun_upd_idem)
  with None assms show ?thesis by (simp add: prim_del idx_del_none)
next
  case (Some v)
  with assms show ?thesis by (simp add: prim_del idx_del_some index_ok_del)
qed

lemma ok_modify:
  "index_ok key (prim s) (idx s) \<Longrightarrow> (\<And>v. key (f v) = key v) \<Longrightarrow>
    index_ok key (prim (modify k f s)) (idx (modify k f s))"
  by (simp only: prim_modify idx_modify index_ok_modify)

lemma query_hit:
  assumes "index_ok key (prim s) (idx s)" "idx s x = Some S" "enumerates ids S"
  shows "set (values_of ids (prim s)) = {v. \<exists>k. prim s k = Some v \<and> key v = x}"
proof -
  have "k \<in> S \<longleftrightarrow> (\<exists>v. prim s k = Some v \<and> key v = x)" for k
    using assms(1,2) unfolding index_ok_def index_complete_def index_sound_def by fastforce
  with assms(3) show ?thesis by (fastforce simp: set_values_of enumerates_def)
qed

lemma query_hit_length:
  assumes "index_ok key (prim s) (idx s)" "idx s x = Some S" "enumerates ids S"
  shows "length (values_of ids (prim s)) = card {k. \<exists>v. prim s k = Some v \<and> key v = x}"
proof -
  have S: "{k. \<exists>v. prim s k = Some v \<and> key v = x} = S"
    using assms(1,2) unfolding index_ok_def index_complete_def index_sound_def by fastforce
  have sub: "set ids \<subseteq> dom (prim s)" using S assms(3) by (auto simp: enumerates_def)
  then have "length (values_of ids (prim s)) = length ids"
    by (induction ids) auto
  also have "\<dots> = card S" using assms(3) by (simp add: enumerates_def distinct_card [symmetric])
  finally show ?thesis by (simp add: S)
qed

lemma query_miss:
  assumes "index_ok key (prim s) (idx s)" "idx s x = None"
  shows "{v. \<exists>k. prim s k = Some v \<and> key v = x} = {}"
  using assms unfolding index_ok_def index_complete_def by fastforce

end

end
