(* ===== verification/Positions.thy ===== *)
theory Positions
  imports Core_Types Secondary_Index
begin

text \<open>
  The position table, \<open>src/state/positions.rs\<close>: positions by id with an index by user and one
  by market. A method that iterates a hash container takes the iteration order as its first
  argument. A \<open>&self\<close> method that mutates returns the new table.
\<close>

record position_table =
  pt_positions :: "hash32 \<rightharpoonup> position"
  pt_by_user :: "address \<rightharpoonup> hash32 set"
  pt_by_market :: "u16 \<rightharpoonup> hash32 set"

definition positions_new :: position_table where
  "positions_new = \<lparr>pt_positions = Map.empty, pt_by_user = Map.empty, pt_by_market = Map.empty\<rparr>"

definition positions_insert :: "position \<Rightarrow> position_table \<Rightarrow> position_table" where
  "positions_insert p t =
     (let pid = pos_position_id p; user = pos_user_address p; market = pos_market_id p
      in t\<lparr>pt_positions := (pt_positions t)(pid \<mapsto> p),
           pt_by_user := idx_add user pid (pt_by_user t),
           pt_by_market := idx_add market pid (pt_by_market t)\<rparr>)"

definition positions_get :: "position_table \<Rightarrow> hash32 \<Rightarrow> position option" where
  "positions_get t pid = pt_positions t pid"

definition positions_update ::
  "hash32 \<Rightarrow> (position \<Rightarrow> position) \<Rightarrow> position_table \<Rightarrow> bool \<times> position_table" where
  "positions_update pid f t =
     (case pt_positions t pid of
        Some p \<Rightarrow> (True, t\<lparr>pt_positions := (pt_positions t)(pid \<mapsto> f p)\<rparr>)
      | None \<Rightarrow> (False, t))"

definition positions_remove :: "hash32 \<Rightarrow> position_table \<Rightarrow> position option \<times> position_table" where
  "positions_remove pid t =
     (case pt_positions t pid of
        None \<Rightarrow> (None, t)
      | Some p \<Rightarrow>
          (Some p,
           t\<lparr>pt_positions := (pt_positions t)(pid := None),
             pt_by_user := idx_del (pos_user_address p) pid (pt_by_user t),
             pt_by_market := idx_del (pos_market_id p) pid (pt_by_market t)\<rparr>))"

text \<open>\<open>collect_from_index\<close>: \<open>ids\<close> is the order in which the id set of the key is iterated.\<close>

definition collect_from_index ::
  "hash32 list \<Rightarrow> position_table \<Rightarrow> ('x \<rightharpoonup> hash32 set) \<Rightarrow> 'x \<Rightarrow> position list" where
  "collect_from_index ids t index key =
     (case index key of Some _ \<Rightarrow> values_of ids (pt_positions t) | None \<Rightarrow> [])"

definition positions_by_user :: "hash32 list \<Rightarrow> position_table \<Rightarrow> address \<Rightarrow> position list" where
  "positions_by_user ids t user = collect_from_index ids t (pt_by_user t) user"

definition positions_by_market :: "hash32 list \<Rightarrow> position_table \<Rightarrow> u16 \<Rightarrow> position list" where
  "positions_by_market ids t market = collect_from_index ids t (pt_by_market t) market"

definition position_is_open :: "position \<Rightarrow> bool" where
  "position_is_open p \<longleftrightarrow> pos_status p = PsOpen"

definition positions_open_by_user :: "hash32 list \<Rightarrow> position_table \<Rightarrow> address \<Rightarrow> position list" where
  "positions_open_by_user ids t user = filter position_is_open (positions_by_user ids t user)"

definition positions_open_by_market :: "hash32 list \<Rightarrow> position_table \<Rightarrow> u16 \<Rightarrow> position list" where
  "positions_open_by_market ids t market = filter position_is_open (positions_by_market ids t market)"

definition positions_count :: "position_table \<Rightarrow> nat" where
  "positions_count t = card (dom (pt_positions t))"

definition positions_open_count :: "hash32 list \<Rightarrow> position_table \<Rightarrow> nat" where
  "positions_open_count ks t = length (filter position_is_open (values_of ks (pt_positions t)))"

definition positions_all :: "hash32 list \<Rightarrow> position_table \<Rightarrow> position list" where
  "positions_all ks t = values_of ks (pt_positions t)"

definition positions_contains :: "position_table \<Rightarrow> hash32 \<Rightarrow> bool" where
  "positions_contains t pid \<longleftrightarrow> pt_positions t pid \<noteq> None"

lemmas position_op_defs [op_defs] =
  positions_new_def positions_insert_def positions_get_def positions_update_def
  positions_remove_def positions_contains_def

section \<open>Invariant\<close>

definition positions_ok :: "position_table \<Rightarrow> bool" where
  "positions_ok t \<longleftrightarrow>
     keyed_by pos_position_id (pt_positions t) \<and>
     index_ok pos_user_address (pt_positions t) (pt_by_user t) \<and>
     index_ok pos_market_id (pt_positions t) (pt_by_market t)"

text \<open>A closure passed to \<open>update\<close> that leaves id, user and market alone.\<close>

definition keeps_position_keys :: "(position \<Rightarrow> position) \<Rightarrow> bool" where
  "keeps_position_keys f \<longleftrightarrow>
     (\<forall>p. pos_position_id (f p) = pos_position_id p \<and> pos_user_address (f p) = pos_user_address p \<and>
          pos_market_id (f p) = pos_market_id p)"

interpretation pos_user: indexed_table pt_positions pt_by_user pos_position_id pos_user_address
  positions_insert "\<lambda>k s. snd (positions_remove k s)" "\<lambda>k f s. snd (positions_update k f s)"
  by unfold_locales
    (auto simp: positions_insert_def positions_remove_def positions_update_def Let_def fun_eq_iff
      split: option.splits)

interpretation pos_market: indexed_table pt_positions pt_by_market pos_position_id pos_market_id
  positions_insert "\<lambda>k s. snd (positions_remove k s)" "\<lambda>k f s. snd (positions_update k f s)"
  by unfold_locales
    (auto simp: positions_insert_def positions_remove_def positions_update_def Let_def fun_eq_iff
      split: option.splits)

lemma positions_ok_new: "positions_ok positions_new"
  by (simp add: positions_ok_def positions_new_def)

lemma positions_ok_insert:
  assumes "positions_ok t"
    and "\<And>q. pt_positions t (pos_position_id p) = Some q \<Longrightarrow>
           pos_user_address q = pos_user_address p \<and> pos_market_id q = pos_market_id p"
  shows "positions_ok (positions_insert p t)"
  using assms pos_user.ok_ins [of t p] pos_market.ok_ins [of t p]
  unfolding positions_ok_def by (auto simp: pos_user.prim_ins)

lemma positions_ok_remove: "positions_ok t \<Longrightarrow> positions_ok (snd (positions_remove pid t))"
  unfolding positions_ok_def
  using pos_user.ok_del [of t pid] pos_market.ok_del [of t pid] by (auto simp: pos_user.prim_del)

lemma positions_ok_update:
  assumes "positions_ok t" and "keeps_position_keys f"
  shows "positions_ok (snd (positions_update pid f t))"
  using assms pos_user.ok_modify [of t f pid] pos_market.ok_modify [of t f pid]
  unfolding positions_ok_def keeps_position_keys_def
  by (auto simp: pos_user.prim_modify intro!: keyed_by_modify)

text \<open>The two readings of the index, as sets of positions.\<close>

lemma positions_by_user_set:
  assumes "positions_ok t" and "\<And>S. pt_by_user t user = Some S \<Longrightarrow> enumerates ids S"
  shows "set (positions_by_user ids t user) = {p \<in> ran (pt_positions t). pos_user_address p = user}"
proof (cases "pt_by_user t user")
  case None
  with assms(1) pos_user.query_miss [of t user] show ?thesis
    by (auto simp: positions_by_user_def collect_from_index_def positions_ok_def ran_def)
next
  case (Some S)
  with assms pos_user.query_hit [of t user S ids] show ?thesis
    by (auto simp: positions_by_user_def collect_from_index_def positions_ok_def ran_def)
qed

lemma positions_by_market_set:
  assumes "positions_ok t" and "\<And>S. pt_by_market t m = Some S \<Longrightarrow> enumerates ids S"
  shows "set (positions_by_market ids t m) = {p \<in> ran (pt_positions t). pos_market_id p = m}"
proof (cases "pt_by_market t m")
  case None
  with assms(1) pos_market.query_miss [of t m] show ?thesis
    by (auto simp: positions_by_market_def collect_from_index_def positions_ok_def ran_def)
next
  case (Some S)
  with assms pos_market.query_hit [of t m S ids] show ?thesis
    by (auto simp: positions_by_market_def collect_from_index_def positions_ok_def ran_def)
qed

end
