(* ===== verification/BTree_Map.thy ===== *)
theory BTree_Map
  imports Prelude
begin

text \<open>
  \<open>std::collections::BTreeMap\<close> as the list of its entries in ascending key order: what
  \<open>iter()\<close> yields. \<open>get\<close> is \<open>map_of\<close>.
\<close>

type_synonym ('k, 'v) btree = "('k \<times> 'v) list"

fun bt_insert :: "'k::linorder \<Rightarrow> 'v \<Rightarrow> ('k, 'v) btree \<Rightarrow> ('k, 'v) btree" where
  "bt_insert k v [] = [(k, v)]"
| "bt_insert k v ((a, b) # m) =
     (if k < a then (k, v) # (a, b) # m
      else if k = a then (k, v) # m
      else (a, b) # bt_insert k v m)"

definition bt_remove :: "'k \<Rightarrow> ('k, 'v) btree \<Rightarrow> ('k, 'v) btree" where
  "bt_remove k m = filter (\<lambda>e. fst e \<noteq> k) m"

definition bt_ok :: "('k::linorder, 'v) btree \<Rightarrow> bool" where
  "bt_ok m \<longleftrightarrow> sorted_wrt (<) (map fst m)"

definition bt_first_key :: "('k, 'v) btree \<Rightarrow> 'k option" where
  "bt_first_key m = (case m of [] \<Rightarrow> None | e # _ \<Rightarrow> Some (fst e))"

definition bt_last_key :: "('k, 'v) btree \<Rightarrow> 'k option" where
  "bt_last_key m = bt_first_key (rev m)"

lemma bt_ok_Nil [simp]: "bt_ok []"
  by (simp add: bt_ok_def)

lemma bt_lookup_insert [simp]: "map_of (bt_insert k v m) = (map_of m)(k \<mapsto> v)"
  by (induction m) (auto simp: fun_eq_iff)

lemma bt_keys_insert: "fst ` set (bt_insert k v m) = insert k (fst ` set m)"
  by (simp flip: dom_map_of_conv_image_fst)

lemma bt_ok_insert [simp]: "bt_ok m \<Longrightarrow> bt_ok (bt_insert k v m)"
proof (induction m)
  case (Cons e m)
  obtain a b where e: "e = (a, b)" by (cases e)
  from Cons.prems e have "bt_ok m" and "\<forall>x \<in> fst ` set m. a < x" by (auto simp: bt_ok_def)
  with Cons.IH e show ?case
    using bt_keys_insert [of k v m] by (fastforce simp: bt_ok_def)
qed (simp add: bt_ok_def)

lemma bt_lookup_remove [simp]: "map_of (bt_remove k m) = (map_of m)(k := None)"
  by (induction m) (auto simp: bt_remove_def fun_eq_iff)

lemma bt_ok_remove [simp]: "bt_ok m \<Longrightarrow> bt_ok (bt_remove k m)"
  unfolding bt_ok_def bt_remove_def by (induction m) auto

lemma bt_first_key_Min: "bt_ok m \<Longrightarrow> bt_first_key m = (if m = [] then None else Some (Min (fst ` set m)))"
proof (cases m)
  case (Cons e es)
  assume "bt_ok m"
  with Cons have "\<forall>x \<in> fst ` set es. fst e < x" by (auto simp: bt_ok_def)
  then have "Min (fst ` set m) = fst e" using Cons by (intro Min_eqI) auto
  with Cons show ?thesis by (simp add: bt_first_key_def)
qed (simp add: bt_first_key_def)

lemma bt_last_key_Max: "bt_ok m \<Longrightarrow> bt_last_key m = (if m = [] then None else Some (Max (fst ` set m)))"
proof (cases m rule: rev_cases)
  case (snoc es e)
  assume "bt_ok m"
  with snoc have "\<forall>x \<in> fst ` set es. x < fst e" by (auto simp: bt_ok_def sorted_wrt_append)
  then have "Max (fst ` set m) = fst e" using snoc by (intro Max_eqI) auto
  with snoc show ?thesis by (simp add: bt_last_key_def bt_first_key_def)
qed (simp add: bt_last_key_def bt_first_key_def)

lemma bt_keys_dom: "fst ` set m = dom (map_of m)"
  by (simp add: dom_map_of_conv_image_fst)

lemma bt_distinct_keys: "bt_ok m \<Longrightarrow> distinct (map fst m)"
  by (simp add: bt_ok_def strict_sorted_iff)

end
