(* ===== verification/Market.thy ===== *)
theory Market
  imports Prelude
begin

text \<open>The static market table, \<open>src/core/market.rs\<close>.\<close>

type_synonym market_id = u16

definition MARKET_COUNT :: nat where
  "MARKET_COUNT = 18"

record market_meta =
  mm_id :: market_id
  mm_symbol :: string
  mm_name :: string

definition MARKETS :: "market_meta list" where
  "MARKETS =
    [\<lparr>mm_id = 0, mm_symbol = ''BTC'', mm_name = ''Bitcoin''\<rparr>,
     \<lparr>mm_id = 1, mm_symbol = ''ETH'', mm_name = ''Ethereum''\<rparr>,
     \<lparr>mm_id = 2, mm_symbol = ''SOL'', mm_name = ''Solana''\<rparr>,
     \<lparr>mm_id = 3, mm_symbol = ''AVAX'', mm_name = ''Avalanche''\<rparr>,
     \<lparr>mm_id = 4, mm_symbol = ''LINK'', mm_name = ''Chainlink''\<rparr>,
     \<lparr>mm_id = 5, mm_symbol = ''TSLA'', mm_name = ''Tesla''\<rparr>,
     \<lparr>mm_id = 6, mm_symbol = ''NVDA'', mm_name = ''NVIDIA''\<rparr>,
     \<lparr>mm_id = 7, mm_symbol = ''NAS100'', mm_name = ''Nasdaq 100''\<rparr>,
     \<lparr>mm_id = 8, mm_symbol = ''XAU'', mm_name = ''Gold''\<rparr>,
     \<lparr>mm_id = 9, mm_symbol = ''SPX500'', mm_name = ''S&P 500''\<rparr>,
     \<lparr>mm_id = 10, mm_symbol = ''GOOGL'', mm_name = ''Alphabet''\<rparr>,
     \<lparr>mm_id = 11, mm_symbol = ''PAX'', mm_name = ''Paxeer''\<rparr>,
     \<lparr>mm_id = 12, mm_symbol = ''SID'', mm_name = ''Sidiora''\<rparr>,
     \<lparr>mm_id = 13, mm_symbol = ''HYPE'', mm_name = ''Hyperliquid''\<rparr>,
     \<lparr>mm_id = 14, mm_symbol = ''XRP'', mm_name = ''Ripple''\<rparr>,
     \<lparr>mm_id = 15, mm_symbol = ''ASTER'', mm_name = ''Aster''\<rparr>,
     \<lparr>mm_id = 16, mm_symbol = ''TRUMP'', mm_name = ''Trump''\<rparr>,
     \<lparr>mm_id = 17, mm_symbol = ''BNB'', mm_name = ''BNB''\<rparr>]"

definition market_by_id :: "market_id \<Rightarrow> market_meta option" where
  "market_by_id i = (if unat i < MARKET_COUNT then Some (MARKETS ! unat i) else None)"

definition market_by_symbol :: "string \<Rightarrow> market_meta option" where
  "market_by_symbol s = List.find (\<lambda>m. mm_symbol m = s) MARKETS"

definition is_valid_market :: "market_id \<Rightarrow> bool" where
  "is_valid_market i \<longleftrightarrow> unat i < MARKET_COUNT"

text \<open>The ids \<open>0..MARKET_COUNT\<close> as \<open>MarketId\<close> values, in the order the loops visit them.\<close>

definition all_markets :: "market_id list" where
  "all_markets = map word_of_nat [0..<MARKET_COUNT]"

lemma length_MARKETS: "length MARKETS = MARKET_COUNT"
  by (simp add: MARKETS_def MARKET_COUNT_def)

lemma unat_of_market [simp]: "n < MARKET_COUNT \<Longrightarrow> unat (word_of_nat n :: market_id) = n"
  by (simp add: unat_of_nat MARKET_COUNT_def)

lemma set_all_markets: "set all_markets = {m. unat m < MARKET_COUNT}"
proof -
  have "m = word_of_nat (unat m)" for m :: market_id by simp
  then show ?thesis by (force simp: all_markets_def)
qed

lemma distinct_all_markets: "distinct all_markets"
proof -
  have "inj_on (word_of_nat :: nat \<Rightarrow> market_id) {0..<MARKET_COUNT}"
    by (rule inj_onI) (metis atLeastLessThan_iff unat_of_market)
  then show ?thesis by (simp add: all_markets_def distinct_map)
qed

lemma markets_id_index: "n < MARKET_COUNT \<Longrightarrow> mm_id (MARKETS ! n) = word_of_nat n"
proof -
  have "map mm_id MARKETS = map word_of_nat [0..<18]"
    by (simp add: MARKETS_def upt_rec numeral_eq_Suc)
  moreover assume "n < MARKET_COUNT"
  ultimately show ?thesis
    by (metis MARKET_COUNT_def add_0 diff_zero length_MARKETS length_upt nth_map nth_upt)
qed

lemma market_by_id_mm_id: "market_by_id i = Some m \<Longrightarrow> mm_id m = i"
  by (auto simp: market_by_id_def markets_id_index split: if_splits)

lemma distinct_symbols: "distinct (map mm_symbol MARKETS)"
  by (simp add: MARKETS_def)

lemma market_by_symbol_found: "m \<in> set MARKETS \<Longrightarrow> market_by_symbol (mm_symbol m) = Some m"
proof -
  have "distinct (map f xs) \<Longrightarrow> x \<in> set xs \<Longrightarrow> List.find (\<lambda>y. f y = f x) xs = Some x"
    for f :: "market_meta \<Rightarrow> string" and x xs
    by (induction xs) force+
  then show "m \<in> set MARKETS \<Longrightarrow> market_by_symbol (mm_symbol m) = Some m"
    using distinct_symbols by (simp add: market_by_symbol_def)
qed

end
