(* ===== verification/Orders.thy ===== *)
theory Orders
  imports Core_Types Secondary_Index BTree_Map Market
begin

text \<open>
  The order table and the per-market order books, \<open>src/state/orders.rs\<close>. A book side is a
  \<open>BTreeMap\<close> from price to the ids at that price in arrival order.
\<close>

section \<open>Order books\<close>

type_synonym book_side = "(i128, hash32 list) btree"

record orderbook =
  ob_bids :: book_side
  ob_asks :: book_side

record depth_level =
  dl_price :: i128
  dl_order_count :: nat

definition orderbook_new :: orderbook where
  "orderbook_new = \<lparr>ob_bids = [], ob_asks = []\<rparr>"

text \<open>The two bodies that \<open>add_bid\<close>/\<open>add_ask\<close> and \<open>remove_bid\<close>/\<open>remove_ask\<close> share.\<close>

definition level_push :: "i128 \<Rightarrow> hash32 \<Rightarrow> book_side \<Rightarrow> book_side" where
  "level_push price oid side =
     bt_insert price ((case map_of side price of None \<Rightarrow> [] | Some ids \<Rightarrow> ids) @ [oid]) side"

definition level_remove :: "i128 \<Rightarrow> hash32 \<Rightarrow> book_side \<Rightarrow> book_side" where
  "level_remove price oid side =
     (case map_of side price of
        None \<Rightarrow> side
      | Some ids \<Rightarrow>
          (let ids' = filter (\<lambda>i. i \<noteq> oid) ids
           in if ids' = [] then bt_remove price side else bt_insert price ids' side))"

definition add_bid :: "i128 \<Rightarrow> hash32 \<Rightarrow> orderbook \<Rightarrow> orderbook" where
  "add_bid price oid b = b\<lparr>ob_bids := level_push price oid (ob_bids b)\<rparr>"

definition add_ask :: "i128 \<Rightarrow> hash32 \<Rightarrow> orderbook \<Rightarrow> orderbook" where
  "add_ask price oid b = b\<lparr>ob_asks := level_push price oid (ob_asks b)\<rparr>"

definition remove_bid :: "i128 \<Rightarrow> hash32 \<Rightarrow> orderbook \<Rightarrow> orderbook" where
  "remove_bid price oid b = b\<lparr>ob_bids := level_remove price oid (ob_bids b)\<rparr>"

definition remove_ask :: "i128 \<Rightarrow> hash32 \<Rightarrow> orderbook \<Rightarrow> orderbook" where
  "remove_ask price oid b = b\<lparr>ob_asks := level_remove price oid (ob_asks b)\<rparr>"

definition best_bid :: "orderbook \<Rightarrow> i128 option" where
  "best_bid b = bt_last_key (ob_bids b)"

definition best_ask :: "orderbook \<Rightarrow> i128 option" where
  "best_ask b = bt_first_key (ob_asks b)"

definition spread :: "orderbook \<Rightarrow> i128 option" where
  "spread b =
     (case best_ask b of None \<Rightarrow> None
      | Some a \<Rightarrow> (case best_bid b of None \<Rightarrow> None | Some d \<Rightarrow> Some (a - d)))"

definition depth_of :: "(i128 \<times> hash32 list) \<Rightarrow> depth_level" where
  "depth_of e = \<lparr>dl_price = fst e, dl_order_count = length (snd e)\<rparr>"

definition bids_depth :: "orderbook \<Rightarrow> nat \<Rightarrow> depth_level list" where
  "bids_depth b levels = map depth_of (take levels (rev (ob_bids b)))"

definition asks_depth :: "orderbook \<Rightarrow> nat \<Rightarrow> depth_level list" where
  "asks_depth b levels = map depth_of (take levels (ob_asks b))"

definition bid_count :: "orderbook \<Rightarrow> nat" where
  "bid_count b = sum_list (map (\<lambda>e. length (snd e)) (ob_bids b))"

definition ask_count :: "orderbook \<Rightarrow> nat" where
  "ask_count b = sum_list (map (\<lambda>e. length (snd e)) (ob_asks b))"

section \<open>Order table\<close>

record order_table =
  ot_orders :: "hash32 \<rightharpoonup> order"
  ot_by_user :: "address \<rightharpoonup> hash32 set"
  ot_orderbooks :: "orderbook list"

definition orders_new :: order_table where
  "orders_new = \<lparr>ot_orders = Map.empty, ot_by_user = Map.empty,
     ot_orderbooks = map (\<lambda>_. orderbook_new) [0..<MARKET_COUNT]\<rparr>"

text \<open>A write to the book of a market, if the market has one (\<open>orderbooks.get(..)\<close>).\<close>

definition with_book :: "u16 \<Rightarrow> (orderbook \<Rightarrow> orderbook) \<Rightarrow> orderbook list \<Rightarrow> orderbook list" where
  "with_book market f books =
     (if unat market < length books then books[unat market := f (books ! unat market)] else books)"

definition order_is_active :: "order \<Rightarrow> bool" where
  "order_is_active ord \<longleftrightarrow> ord_status ord = OsActive"

definition orders_insert :: "order \<Rightarrow> order_table \<Rightarrow> order_table" where
  "orders_insert ord t =
     (let oid = ord_order_id ord; user = ord_user_address ord; market = ord_market_id ord;
          is_long = ord_is_long ord; price = ord_trigger_price ord
      in t\<lparr>ot_orders := (ot_orders t)(oid \<mapsto> ord),
           ot_by_user := idx_add user oid (ot_by_user t),
           ot_orderbooks :=
             (if order_is_active ord
              then with_book market (if is_long then add_bid price oid else add_ask price oid)
                     (ot_orderbooks t)
              else ot_orderbooks t)\<rparr>)"

definition orders_get :: "order_table \<Rightarrow> hash32 \<Rightarrow> order option" where
  "orders_get t oid = ot_orders t oid"

definition remove_from_orderbook ::
  "u16 \<Rightarrow> bool \<Rightarrow> i128 \<Rightarrow> hash32 \<Rightarrow> orderbook list \<Rightarrow> orderbook list" where
  "remove_from_orderbook market is_long price oid books =
     with_book market (if is_long then remove_bid price oid else remove_ask price oid) books"

definition orders_cancel :: "hash32 \<Rightarrow> order_table \<Rightarrow> order option \<times> order_table" where
  "orders_cancel oid t =
     (case ot_orders t oid of
        None \<Rightarrow> (None, t)
      | Some ord \<Rightarrow>
          (let ord' = ord\<lparr>ord_status := OsCancelled\<rparr>
           in (Some ord',
               t\<lparr>ot_orders := (ot_orders t)(oid \<mapsto> ord'),
                 ot_orderbooks :=
                   (if order_is_active ord
                    then remove_from_orderbook (ord_market_id ord) (ord_is_long ord)
                           (ord_trigger_price ord) oid (ot_orderbooks t)
                    else ot_orderbooks t)\<rparr>)))"

definition orders_execute ::
  "hash32 \<Rightarrow> i128 \<Rightarrow> hash32 \<Rightarrow> u64 \<Rightarrow> order_table \<Rightarrow> order option \<times> order_table" where
  "orders_execute oid execution_price position_id executed_at t =
     (case ot_orders t oid of
        None \<Rightarrow> (None, t)
      | Some ord \<Rightarrow>
          (let ord' = ord\<lparr>ord_status := OsExecuted, ord_execution_price := Some execution_price,
                          ord_position_id := Some position_id, ord_executed_at := Some executed_at\<rparr>
           in (Some ord',
               t\<lparr>ot_orders := (ot_orders t)(oid \<mapsto> ord'),
                 ot_orderbooks :=
                   (if order_is_active ord
                    then remove_from_orderbook (ord_market_id ord) (ord_is_long ord)
                           (ord_trigger_price ord) oid (ot_orderbooks t)
                    else ot_orderbooks t)\<rparr>)))"

definition orders_remove :: "hash32 \<Rightarrow> order_table \<Rightarrow> order option \<times> order_table" where
  "orders_remove oid t =
     (case ot_orders t oid of
        None \<Rightarrow> (None, t)
      | Some ord \<Rightarrow>
          (Some ord,
           t\<lparr>ot_orders := (ot_orders t)(oid := None),
             ot_by_user := idx_del (ord_user_address ord) oid (ot_by_user t),
             ot_orderbooks :=
               (if order_is_active ord
                then remove_from_orderbook (ord_market_id ord) (ord_is_long ord)
                       (ord_trigger_price ord) oid (ot_orderbooks t)
                else ot_orderbooks t)\<rparr>))"

definition orders_by_user :: "hash32 list \<Rightarrow> order_table \<Rightarrow> address \<Rightarrow> order list" where
  "orders_by_user ids t user =
     (case ot_by_user t user of Some _ \<Rightarrow> values_of ids (ot_orders t) | None \<Rightarrow> [])"

definition orders_active_by_user :: "hash32 list \<Rightarrow> order_table \<Rightarrow> address \<Rightarrow> order list" where
  "orders_active_by_user ids t user = filter order_is_active (orders_by_user ids t user)"

definition orders_orderbook :: "order_table \<Rightarrow> market_id \<Rightarrow> orderbook option" where
  "orders_orderbook t market =
     (if unat market < length (ot_orderbooks t) then Some (ot_orderbooks t ! unat market) else None)"

definition orders_count :: "order_table \<Rightarrow> nat" where
  "orders_count t = card (dom (ot_orders t))"

definition orders_active_count :: "hash32 list \<Rightarrow> order_table \<Rightarrow> nat" where
  "orders_active_count ks t = length (filter order_is_active (values_of ks (ot_orders t)))"

definition orders_contains :: "order_table \<Rightarrow> hash32 \<Rightarrow> bool" where
  "orders_contains t oid \<longleftrightarrow> ot_orders t oid \<noteq> None"

definition orders_all :: "hash32 list \<Rightarrow> order_table \<Rightarrow> order list" where
  "orders_all ks t = values_of ks (ot_orders t)"

lemmas order_op_defs [op_defs] =
  orders_new_def orders_insert_def orders_get_def orders_cancel_def orders_execute_def
  orders_remove_def remove_from_orderbook_def with_book_def

section \<open>Price levels\<close>

definition side_ids :: "book_side \<Rightarrow> i128 \<Rightarrow> hash32 set" where
  "side_ids side p = (case map_of side p of None \<Rightarrow> {} | Some ids \<Rightarrow> set ids)"

text \<open>Keys ascend, no level is empty, no id stands twice at a level.\<close>

definition side_ok :: "book_side \<Rightarrow> bool" where
  "side_ok side \<longleftrightarrow> bt_ok side \<and> (\<forall>p ids. map_of side p = Some ids \<longrightarrow> ids \<noteq> [] \<and> distinct ids)"

definition book_side_of :: "bool \<Rightarrow> orderbook \<Rightarrow> book_side" where
  "book_side_of is_long b = (if is_long then ob_bids b else ob_asks b)"

lemma side_ok_Nil [simp]: "side_ok []"
  by (simp add: side_ok_def)

lemma side_ids_Nil [simp]: "side_ids [] p = {}"
  by (simp add: side_ids_def)

lemma side_ids_push: "side_ids (level_push p oid s) q = (if q = p then insert oid (side_ids s p) else side_ids s q)"
  by (auto simp: side_ids_def level_push_def split: option.splits)

lemma side_ids_remove: "side_ids (level_remove p oid s) q = (if q = p then side_ids s p - {oid} else side_ids s q)"
  by (auto simp: side_ids_def level_remove_def Let_def filter_empty_conv split: option.splits)

lemma side_ok_push: "side_ok s \<Longrightarrow> oid \<notin> side_ids s p \<Longrightarrow> side_ok (level_push p oid s)"
  by (auto simp: side_ok_def level_push_def side_ids_def split: option.splits)

lemma side_ok_remove: "side_ok s \<Longrightarrow> side_ok (level_remove p oid s)"
  by (auto simp: side_ok_def level_remove_def Let_def split: option.splits if_splits)

lemma side_keys: "side_ok s \<Longrightarrow> fst ` set s = {p. side_ids s p \<noteq> {}}"
  by (force simp: bt_keys_dom side_ids_def side_ok_def split: option.splits)

section \<open>Invariant\<close>

text \<open>
  The ids that should stand at a price level: the active orders of that market, side and
  trigger price.
\<close>

definition active_ids :: "(hash32 \<rightharpoonup> order) \<Rightarrow> nat \<Rightarrow> bool \<Rightarrow> i128 \<Rightarrow> hash32 set" where
  "active_ids ords m is_long p =
     {oid. \<exists>ord. ords oid = Some ord \<and> order_is_active ord \<and> unat (ord_market_id ord) = m \<and>
           ord_is_long ord = is_long \<and> ord_trigger_price ord = p}"

definition books_ok :: "(hash32 \<rightharpoonup> order) \<Rightarrow> orderbook list \<Rightarrow> bool" where
  "books_ok ords books \<longleftrightarrow>
     length books = MARKET_COUNT \<and>
     (\<forall>m < MARKET_COUNT. \<forall>l. side_ok (book_side_of l (books ! m)) \<and>
        (\<forall>p. side_ids (book_side_of l (books ! m)) p = active_ids ords m l p))"

definition orders_ok :: "order_table \<Rightarrow> bool" where
  "orders_ok t \<longleftrightarrow>
     keyed_by ord_order_id (ot_orders t) \<and>
     index_ok ord_user_address (ot_orders t) (ot_by_user t) \<and>
     books_ok (ot_orders t) (ot_orderbooks t)"

lemma length_with_book [simp]: "length (with_book m f books) = length books"
  by (simp add: with_book_def)

lemma length_remove_from_orderbook [simp]: "length (remove_from_orderbook m l p i books) = length books"
  by (simp add: remove_from_orderbook_def)

lemma with_book_nth:
  "i < length books \<Longrightarrow> with_book m f books ! i = (if i = unat m then f (books ! i) else books ! i)"
  by (simp add: with_book_def)

lemma book_side_of_simps:
  "book_side_of l (add_bid p i b) = (if l then level_push p i (book_side_of l b) else book_side_of l b)"
  "book_side_of l (add_ask p i b) = (if l then book_side_of l b else level_push p i (book_side_of l b))"
  "book_side_of l (remove_bid p i b) = (if l then level_remove p i (book_side_of l b) else book_side_of l b)"
  "book_side_of l (remove_ask p i b) = (if l then book_side_of l b else level_remove p i (book_side_of l b))"
  by (simp_all add: book_side_of_def add_bid_def add_ask_def remove_bid_def remove_ask_def)

lemma active_ids_upd_inactive:
  assumes "\<And>ord. ords oid = Some ord \<Longrightarrow> \<not> order_is_active ord"
    and "\<And>ord. x = Some ord \<Longrightarrow> \<not> order_is_active ord"
  shows "active_ids (ords(oid := x)) m l p = active_ids ords m l p"
  using assms by (auto simp: active_ids_def)

lemma active_ids_upd_gone:
  assumes "ords oid = Some ord" "\<And>ord'. x = Some ord' \<Longrightarrow> \<not> order_is_active ord'"
  shows "active_ids (ords(oid := x)) m l p = active_ids ords m l p - {oid}"
  using assms by (auto simp: active_ids_def split: if_splits)

lemma active_ids_upd_new:
  assumes "\<And>ord'. ords (ord_order_id ord) = Some ord' \<Longrightarrow> \<not> order_is_active ord'" "order_is_active ord"
  shows "active_ids (ords(ord_order_id ord \<mapsto> ord)) m l p =
    (if unat (ord_market_id ord) = m \<and> ord_is_long ord = l \<and> ord_trigger_price ord = p
     then insert (ord_order_id ord) (active_ids ords m l p) else active_ids ords m l p)"
  using assms by (auto simp: active_ids_def)

lemma books_ok_add:
  assumes ok: "books_ok ords books"
    and new: "\<And>ord'. ords (ord_order_id ord) = Some ord' \<Longrightarrow> \<not> order_is_active ord'"
    and act: "order_is_active ord"
  shows "books_ok (ords(ord_order_id ord \<mapsto> ord))
    (with_book (ord_market_id ord)
      (if ord_is_long ord then add_bid (ord_trigger_price ord) (ord_order_id ord)
       else add_ask (ord_trigger_price ord) (ord_order_id ord)) books)" (is "books_ok _ ?books'")
proof -
  have fresh: "ord_order_id ord \<notin> active_ids ords m l p" for m l p
    using new by (auto simp: active_ids_def)
  have ids: "active_ids (ords(ord_order_id ord \<mapsto> ord)) m l p =
      (if unat (ord_market_id ord) = m \<and> ord_is_long ord = l \<and> ord_trigger_price ord = p
       then insert (ord_order_id ord) (active_ids ords m l p) else active_ids ords m l p)" for m l p
    using new act by (intro active_ids_upd_new) auto
  show ?thesis unfolding books_ok_def
  proof (intro conjI allI impI)
    fix m l p assume m: "m < MARKET_COUNT"
    with ok have s: "side_ok (book_side_of l (books ! m))"
      and i: "side_ids (book_side_of l (books ! m)) q = active_ids ords m l q" for q
      by (simp_all add: books_ok_def)
    have len: "m < length books" using ok m by (simp add: books_ok_def)
    show "side_ok (book_side_of l (?books' ! m))"
      using s i fresh len by (auto simp: with_book_nth book_side_of_simps intro!: side_ok_push)
    show "side_ids (book_side_of l (?books' ! m)) p = active_ids (ords(ord_order_id ord \<mapsto> ord)) m l p"
      using i len unfolding ids by (auto simp: with_book_nth book_side_of_simps side_ids_push)
  qed (use ok in \<open>simp add: books_ok_def\<close>)
qed

lemma books_ok_remove:
  assumes ok: "books_ok ords books" and at: "ords oid = Some ord"
    and gone: "\<And>ord'. x = Some ord' \<Longrightarrow> \<not> order_is_active ord'"
  shows "books_ok (ords(oid := x))
    (remove_from_orderbook (ord_market_id ord) (ord_is_long ord) (ord_trigger_price ord) oid books)" (is "books_ok _ ?books'")
proof -
  have elsewhere: "oid \<notin> active_ids ords m l p"
    if "unat (ord_market_id ord) \<noteq> m \<or> ord_is_long ord \<noteq> l \<or> ord_trigger_price ord \<noteq> p" for m l p
    using that at by (auto simp: active_ids_def)
  have ids: "active_ids (ords(oid := x)) m l p = active_ids ords m l p - {oid}" for m l p
    using at gone by (intro active_ids_upd_gone) auto
  show ?thesis unfolding books_ok_def
  proof (intro conjI allI impI)
    fix m l p assume m: "m < MARKET_COUNT"
    with ok have s: "side_ok (book_side_of l (books ! m))"
      and i: "side_ids (book_side_of l (books ! m)) q = active_ids ords m l q" for q
      by (simp_all add: books_ok_def)
    have len: "m < length books" using ok m by (simp add: books_ok_def)
    show "side_ok (book_side_of l (?books' ! m))"
      using s len
      by (auto simp: remove_from_orderbook_def with_book_nth book_side_of_simps
          intro!: side_ok_remove)
    show "side_ids (book_side_of l (?books' ! m)) p = active_ids (ords(oid := x)) m l p"
      using i len elsewhere [of m l p] unfolding ids
      by (auto simp: remove_from_orderbook_def with_book_nth book_side_of_simps side_ids_remove)
  qed (use ok in \<open>simp add: books_ok_def\<close>)
qed

lemma books_ok_inactive:
  assumes "books_ok ords books"
    and "\<And>ord. ords oid = Some ord \<Longrightarrow> \<not> order_is_active ord"
    and "\<And>ord. x = Some ord \<Longrightarrow> \<not> order_is_active ord"
  shows "books_ok (ords(oid := x)) books"
proof -
  have "active_ids (ords(oid := x)) m l p = active_ids ords m l p" for m l p
    using assms(2,3) by (intro active_ids_upd_inactive) auto
  with assms(1) show ?thesis by (simp add: books_ok_def)
qed

interpretation ord_user: indexed_table ot_orders ot_by_user ord_order_id ord_user_address
  orders_insert "\<lambda>k s. snd (orders_remove k s)"
  "\<lambda>k f s. s\<lparr>ot_orders := (ot_orders s)(k := map_option f (ot_orders s k))\<rparr>"
  by unfold_locales
    (auto simp: orders_insert_def orders_remove_def Let_def fun_eq_iff split: option.splits)

lemma orders_ok_new: "orders_ok orders_new"
  by (auto simp: orders_ok_def orders_new_def books_ok_def active_ids_def book_side_of_def orderbook_new_def)

text \<open>
  An order may be inserted when its id is new, or when the stored order of that id belongs to
  the same user and is no longer active.
\<close>

definition order_insertable :: "order_table \<Rightarrow> order \<Rightarrow> bool" where
  "order_insertable t ord \<longleftrightarrow>
     (case ot_orders t (ord_order_id ord) of None \<Rightarrow> True
      | Some old \<Rightarrow> ord_user_address old = ord_user_address ord \<and> \<not> order_is_active old)"

lemma orders_ok_insert:
  assumes ok: "orders_ok t" and ins: "order_insertable t ord"
  shows "orders_ok (orders_insert ord t)"
proof -
  have same: "\<And>w. ot_orders t (ord_order_id ord) = Some w \<Longrightarrow> ord_user_address w = ord_user_address ord"
    and old: "\<And>w. ot_orders t (ord_order_id ord) = Some w \<Longrightarrow> \<not> order_is_active w"
    using ins by (auto simp: order_insertable_def)
  have "books_ok (ot_orders (orders_insert ord t)) (ot_orderbooks (orders_insert ord t))"
  proof (cases "order_is_active ord")
    case True
    with books_ok_add [of "ot_orders t" "ot_orderbooks t" ord, OF _ old True] ok show ?thesis
      by (simp add: orders_insert_def Let_def orders_ok_def)
  next
    case False
    with books_ok_inactive [of "ot_orders t" "ot_orderbooks t" "ord_order_id ord" "Some ord", OF _ old] ok show ?thesis
      by (simp add: orders_insert_def Let_def orders_ok_def)
  qed
  with ok ord_user.ok_ins [OF _ same] show ?thesis
    by (auto simp: orders_ok_def ord_user.prim_ins)
qed

text \<open>Cancel and execute share this step: the order is rewritten to an inactive one in place.\<close>

lemma orders_ok_retire:
  assumes ok: "orders_ok t" and at: "ot_orders t oid = Some ord"
    and keys: "ord_order_id ord' = ord_order_id ord" "ord_user_address ord' = ord_user_address ord"
    and ina: "\<not> order_is_active ord'"
  shows "orders_ok (t\<lparr>ot_orders := (ot_orders t)(oid \<mapsto> ord'),
      ot_orderbooks :=
        (if order_is_active ord
         then remove_from_orderbook (ord_market_id ord) (ord_is_long ord) (ord_trigger_price ord) oid
                (ot_orderbooks t)
         else ot_orderbooks t)\<rparr>)"
proof -
  let ?ords = "(ot_orders t)(oid \<mapsto> ord')"
  have "index_ok ord_user_address ?ords (ot_by_user t)"
    using ok at keys(2) unfolding orders_ok_def index_ok_def index_complete_def index_sound_def
    by (auto split: if_splits; metis option.inject)
  moreover have "keyed_by ord_order_id ?ords"
    using ok at keys(1) by (auto simp: orders_ok_def keyed_by_def)
  moreover have "books_ok ?ords (if order_is_active ord
      then remove_from_orderbook (ord_market_id ord) (ord_is_long ord) (ord_trigger_price ord) oid
             (ot_orderbooks t) else ot_orderbooks t)"
    using ok at ina books_ok_remove [of "ot_orders t" "ot_orderbooks t" oid ord "Some ord'"]
      books_ok_inactive [of "ot_orders t" "ot_orderbooks t" oid "Some ord'"]
    by (auto simp: orders_ok_def)
  ultimately show ?thesis by (simp add: orders_ok_def)
qed

lemma orders_ok_cancel: "orders_ok t \<Longrightarrow> orders_ok (snd (orders_cancel oid t))"
  using orders_ok_retire [of t oid _ "_\<lparr>ord_status := OsCancelled\<rparr>"]
  by (auto simp: orders_cancel_def Let_def order_is_active_def split: option.splits)

lemma orders_ok_execute: "orders_ok t \<Longrightarrow> orders_ok (snd (orders_execute oid px pid at t))"
proof (cases "ot_orders t oid")
  case (Some ord)
  assume "orders_ok t"
  from orders_ok_retire [OF this Some,
      of "ord\<lparr>ord_status := OsExecuted, ord_execution_price := Some px,
            ord_position_id := Some pid, ord_executed_at := Some at\<rparr>"] Some
  show ?thesis by (simp add: orders_execute_def Let_def order_is_active_def)
qed (simp add: orders_execute_def)

lemma orders_ok_remove:
  assumes ok: "orders_ok t"
  shows "orders_ok (snd (orders_remove oid t))"
proof (cases "ot_orders t oid")
  case None
  with ok show ?thesis by (simp add: orders_remove_def)
next
  case (Some ord)
  have "books_ok ((ot_orders t)(oid := None)) (ot_orderbooks (snd (orders_remove oid t)))"
    using ok Some books_ok_remove [of "ot_orders t" "ot_orderbooks t" oid ord None]
      books_ok_inactive [of "ot_orders t" "ot_orderbooks t" oid None]
    by (auto simp: orders_ok_def orders_remove_def)
  with ok ord_user.ok_del [of t oid] show ?thesis
    by (auto simp: orders_ok_def ord_user.prim_del)
qed

lemma orders_by_user_set:
  assumes "orders_ok t" and "\<And>S. ot_by_user t user = Some S \<Longrightarrow> enumerates ids S"
  shows "set (orders_by_user ids t user) = {ord \<in> ran (ot_orders t). ord_user_address ord = user}"
proof (cases "ot_by_user t user")
  case None
  with assms(1) ord_user.query_miss [of t user] show ?thesis
    by (auto simp: orders_by_user_def orders_ok_def ran_def)
next
  case (Some S)
  with assms ord_user.query_hit [of t user S ids] show ?thesis
    by (auto simp: orders_by_user_def orders_ok_def ran_def)
qed

text \<open>The prices at which a side of a consistent book has a level.\<close>

lemma orders_ok_side:
  assumes "orders_ok t" "orders_orderbook t market = Some b"
  shows "side_ok (book_side_of l b)"
    and "fst ` set (book_side_of l b) =
      {ord_trigger_price ord | ord. ord \<in> ran (ot_orders t) \<and> order_is_active ord \<and>
         ord_market_id ord = market \<and> ord_is_long ord = l}"
proof -
  from assms have m: "unat market < MARKET_COUNT" and b: "b = ot_orderbooks t ! unat market"
    by (auto simp: orders_orderbook_def orders_ok_def books_ok_def split: if_splits)
  with assms(1) show ok: "side_ok (book_side_of l b)"
    by (simp add: orders_ok_def books_ok_def)
  have ids: "side_ids (book_side_of l b) p = active_ids (ot_orders t) (unat market) l p" for p
    using assms(1) m b by (simp add: orders_ok_def books_ok_def)
  show "fst ` set (book_side_of l b) =
      {ord_trigger_price ord | ord. ord \<in> ran (ot_orders t) \<and> order_is_active ord \<and>
         ord_market_id ord = market \<and> ord_is_long ord = l}"
    unfolding side_keys [OF ok] ids active_ids_def ran_def
    by (auto simp flip: word_unat_eq_iff)
qed

end
