(* ===== verification/Balances.thy ===== *)
theory Balances
  imports Core_Types Secondary_Index
begin

text \<open>The balance cache, \<open>src/state/balances.rs\<close>: balances by (user, token), and the tokens of each user.\<close>

record balance_cache =
  bc_balances :: "(address \<times> address) \<rightharpoonup> balance"
  bc_user_tokens :: "address \<rightharpoonup> address set"

definition balances_new :: balance_cache where
  "balances_new = \<lparr>bc_balances = Map.empty, bc_user_tokens = Map.empty\<rparr>"

definition balances_set :: "balance \<Rightarrow> balance_cache \<Rightarrow> balance_cache" where
  "balances_set b c =
     (let user = bal_user_address b; token = bal_token b
      in c\<lparr>bc_user_tokens := idx_add user token (bc_user_tokens c),
           bc_balances := (bc_balances c)((user, token) \<mapsto> b)\<rparr>)"

definition balances_set_raw ::
  "address \<Rightarrow> address \<Rightarrow> i128 \<Rightarrow> i128 \<Rightarrow> i128 \<Rightarrow> balance_cache \<Rightarrow> balance_cache" where
  "balances_set_raw user token amount locked available c =
     balances_set \<lparr>bal_user_address = user, bal_token = token, bal_amount = amount,
       bal_locked = locked, bal_available = available\<rparr> c"

definition balances_get :: "balance_cache \<Rightarrow> address \<Rightarrow> address \<Rightarrow> balance option" where
  "balances_get c user token = bc_balances c (user, token)"

definition balances_update ::
  "address \<Rightarrow> address \<Rightarrow> (balance \<Rightarrow> balance) \<Rightarrow> balance_cache \<Rightarrow> bool \<times> balance_cache" where
  "balances_update user token f c =
     (case bc_balances c (user, token) of
        Some b \<Rightarrow> (True, c\<lparr>bc_balances := (bc_balances c)((user, token) \<mapsto> f b)\<rparr>)
      | None \<Rightarrow> (False, c))"

text \<open>\<open>ts\<close>: the order in which the user's token set is iterated.\<close>

definition balances_user_balances :: "address list \<Rightarrow> balance_cache \<Rightarrow> address \<Rightarrow> balance list" where
  "balances_user_balances ts c user =
     (case bc_user_tokens c user of
        Some _ \<Rightarrow> List.map_filter (\<lambda>t. bc_balances c (user, t)) ts
      | None \<Rightarrow> [])"

definition balances_user_tokens :: "address list \<Rightarrow> balance_cache \<Rightarrow> address \<Rightarrow> address list" where
  "balances_user_tokens ts c user = (case bc_user_tokens c user of Some _ \<Rightarrow> ts | None \<Rightarrow> [])"

definition balances_remove :: "address \<Rightarrow> address \<Rightarrow> balance_cache \<Rightarrow> balance option \<times> balance_cache" where
  "balances_remove user token c =
     (case bc_balances c (user, token) of
        None \<Rightarrow> (None, c)
      | Some b \<Rightarrow>
          (Some b,
           c\<lparr>bc_balances := (bc_balances c)((user, token) := None),
             bc_user_tokens := idx_del user token (bc_user_tokens c)\<rparr>))"

definition balances_count :: "balance_cache \<Rightarrow> nat" where
  "balances_count c = card (dom (bc_balances c))"

definition balances_user_count :: "balance_cache \<Rightarrow> nat" where
  "balances_user_count c = card (dom (bc_user_tokens c))"

definition balances_all :: "(address \<times> address) list \<Rightarrow> balance_cache \<Rightarrow> balance list" where
  "balances_all ks c = values_of ks (bc_balances c)"

lemmas balance_op_defs [op_defs] =
  balances_new_def balances_set_def balances_set_raw_def balances_get_def balances_update_def
  balances_remove_def

section \<open>Invariant\<close>

text \<open>
  The token index as an index of primary keys, which makes the cache an instance of
  \<open>indexed_table\<close>.
\<close>

definition bal_key :: "balance \<Rightarrow> address \<times> address" where
  "bal_key b = (bal_user_address b, bal_token b)"

definition token_index :: "balance_cache \<Rightarrow> address \<rightharpoonup> (address \<times> address) set" where
  "token_index c u = map_option (image (Pair u)) (bc_user_tokens c u)"

definition balances_ok :: "balance_cache \<Rightarrow> bool" where
  "balances_ok c \<longleftrightarrow> keyed_by bal_key (bc_balances c) \<and>
     index_ok bal_user_address (bc_balances c) (token_index c)"

text \<open>\<open>remove\<close> by primary key, when that key is consistent with the stored balance.\<close>

definition balances_remove_key :: "address \<times> address \<Rightarrow> balance_cache \<Rightarrow> balance_cache" where
  "balances_remove_key k c =
     (case bc_balances c k of
        None \<Rightarrow> c
      | Some b \<Rightarrow> c\<lparr>bc_balances := (bc_balances c)(k := None),
             bc_user_tokens :=
               (\<lambda>u. map_option (image snd) (idx_del (bal_user_address b) k (token_index c) u))\<rparr>)"

lemma snd_image_Pair [simp]: "snd ` Pair u ` S = S"
  by force

lemma token_index_add:
  "(\<lambda>u. map_option (image (Pair u)) (idx_add user t m u)) =
     idx_add user (user, t) (\<lambda>u. map_option (image (Pair u)) (m u))"
  by (auto simp: idx_add_def fun_eq_iff split: option.splits)

lemma token_index_del:
  "(\<lambda>u. map_option (image (Pair u)) (idx_del user t m u)) =
     idx_del user (user, t) (\<lambda>u. map_option (image (Pair u)) (m u))"
proof -
  have "Pair user ` s - {(user, t)} = Pair user ` (s - {t})" for s :: "'b set" by auto
  then show ?thesis by (auto simp: idx_del_def fun_eq_iff Let_def split: option.splits)
qed

lemma Pair_image_snd: "(\<And>k. k \<in> S \<Longrightarrow> fst k = u) \<Longrightarrow> Pair u ` snd ` S = S"
  by force

lemma idx_del_token_fst:
  assumes "idx_del x k (token_index c) u = Some S" "p \<in> S"
  shows "fst p = u"
proof -
  from assms have "p \<in> S" "S \<subseteq> (case token_index c u of None \<Rightarrow> {} | Some T \<Rightarrow> T)"
    by (cases "u = x"; auto simp: idx_del_def Let_def split: option.splits if_splits)+
  then show ?thesis by (auto simp: token_index_def split: option.splits)
qed

interpretation bal_user: indexed_table bc_balances token_index bal_key bal_user_address
  balances_set balances_remove_key
  "\<lambda>k f c. c\<lparr>bc_balances := (bc_balances c)(k := map_option f (bc_balances c k))\<rparr>"
proof unfold_locales
  fix c :: balance_cache and k b
  assume b: "bc_balances c k = Some b"
  have "map_option (image (Pair u)) (map_option (image snd) (idx_del (bal_user_address b) k (token_index c) u))
      = idx_del (bal_user_address b) k (token_index c) u" for u
    by (cases "idx_del (bal_user_address b) k (token_index c) u")
      (auto intro!: Pair_image_snd dest: idx_del_token_fst)
  with b show "token_index (balances_remove_key k c) = idx_del (bal_user_address b) k (token_index c)"
    by (auto simp: balances_remove_key_def fun_eq_iff token_index_def)
next
  fix b and c :: balance_cache
  have "token_index c = (\<lambda>u. map_option (image (Pair u)) (bc_user_tokens c u))"
    by (simp add: token_index_def fun_eq_iff)
  then show "token_index (balances_set b c) = idx_add (bal_user_address b) (bal_key b) (token_index c)"
    by (simp add: bal_key_def token_index_add [symmetric])
      (simp add: balances_set_def Let_def token_index_def fun_eq_iff)
qed (auto simp: balances_set_def balances_remove_key_def Let_def bal_key_def token_index_def fun_eq_iff
    split: option.splits)

lemma balances_remove_eq_key:
  assumes "balances_ok c"
  shows "snd (balances_remove user token c) = balances_remove_key (user, token) c"
proof (cases "bc_balances c (user, token)")
  case (Some b)
  with assms have u: "bal_user_address b = user"
    by (auto simp: balances_ok_def keyed_by_def bal_key_def)
  have "idx_del user (user, token) (token_index c) =
      (\<lambda>u. map_option (image (Pair u)) (idx_del user token (bc_user_tokens c) u))"
    unfolding token_index_def by (rule token_index_del [symmetric])
  then have "(\<lambda>u. map_option (image snd) (idx_del user (user, token) (token_index c) u)) =
      idx_del user token (bc_user_tokens c)"
    by (auto simp: fun_eq_iff option.map_comp comp_def option.map_ident)
  with Some u show ?thesis
    by (simp add: balances_remove_def balances_remove_key_def)
qed (simp add: balances_remove_def balances_remove_key_def)

lemma balances_ok_new: "balances_ok balances_new"
proof -
  have "token_index balances_new = Map.empty"
    by (simp add: token_index_def balances_new_def fun_eq_iff)
  then show ?thesis by (simp add: balances_ok_def) (simp add: balances_new_def)
qed

lemma balances_ok_set: "balances_ok c \<Longrightarrow> balances_ok (balances_set b c)"
  using bal_user.ok_ins [of c b]
  by (auto simp: balances_ok_def bal_user.prim_ins keyed_by_def bal_key_def)

lemma balances_ok_set_raw: "balances_ok c \<Longrightarrow> balances_ok (balances_set_raw u t a l v c)"
  by (simp add: balances_set_raw_def balances_ok_set)

lemma balances_ok_remove: "balances_ok c \<Longrightarrow> balances_ok (snd (balances_remove u t c))"
  using bal_user.ok_del [of c "(u, t)"]
  by (auto simp: balances_remove_eq_key balances_ok_def bal_user.prim_del)

lemma balances_get_set_raw:
  "balances_get (balances_set_raw u t a l v c) u' t' =
    (if u' = u \<and> t' = t
     then Some \<lparr>bal_user_address = u, bal_token = t, bal_amount = a, bal_locked = l, bal_available = v\<rparr>
     else balances_get c u' t')"
  by (auto simp: balances_get_def balances_set_raw_def balances_set_def Let_def)

lemma user_balances_values_of:
  "balances_user_balances ts c user =
    (case bc_user_tokens c user of Some _ \<Rightarrow> values_of (map (Pair user) ts) (bc_balances c) | None \<Rightarrow> [])"
  by (simp add: balances_user_balances_def values_of_def List.map_filter_def filter_map comp_def
      split: option.splits)

lemma balances_user_set:
  assumes ok: "balances_ok c" and it: "\<And>S. bc_user_tokens c user = Some S \<Longrightarrow> enumerates ts S"
  shows "set (balances_user_balances ts c user) = {b \<in> ran (bc_balances c). bal_user_address b = user}"
proof (cases "bc_user_tokens c user")
  case None
  then have "token_index c user = None" by (simp add: token_index_def)
  with ok None bal_user.query_miss [of c user] show ?thesis
    by (auto simp: balances_user_balances_def balances_ok_def ran_def)
next
  case (Some S)
  then have ti: "token_index c user = Some (Pair user ` S)" by (simp add: token_index_def)
  have "enumerates (map (Pair user) ts) (Pair user ` S)"
    using it [OF Some] by (auto simp: enumerates_def distinct_map inj_on_def)
  with ok Some ti bal_user.query_hit [of c user "Pair user ` S" "map (Pair user) ts"] show ?thesis
    by (auto simp: user_balances_values_of balances_ok_def ran_def)
qed

end
