(* ===== verification/Market_State.thy ===== *)
theory Market_State
  imports Core_Types Market
begin

text \<open>
  The per-market real-time state, \<open>src/state/market_state.rs\<close>: a slot per market with the
  latest price as the bits of a double, the time of its last update, and the fields behind
  the slot's lock. Every write to a market that has no slot is ignored.
\<close>

record market_inner =
  in_mark_price :: "i128 option"
  in_index_price :: "i128 option"
  in_funding_rate_per_second :: i128
  in_funding_rate_24h :: i128
  in_long_oi :: i128
  in_short_oi :: i128
  in_enabled :: bool
  in_paused :: bool
  in_max_leverage :: "i128 option"
  in_maintenance_margin_bps :: "u32 option"
  in_volume_24h :: "i128 option"
  in_trades_24h :: "u32 option"
  in_price_change_24h :: "i128 option"
  in_price_change_pct_24h :: "i128 option"

definition market_inner_default :: market_inner where
  "market_inner_default =
    \<lparr>in_mark_price = None, in_index_price = None, in_funding_rate_per_second = 0,
     in_funding_rate_24h = 0, in_long_oi = 0, in_short_oi = 0, in_enabled = True,
     in_paused = False, in_max_leverage = None, in_maintenance_margin_bps = None,
     in_volume_24h = None, in_trades_24h = None, in_price_change_24h = None,
     in_price_change_pct_24h = None\<rparr>"

record market_slot =
  sl_latest_price_bits :: u64
  sl_last_update_ns :: u64
  sl_inner :: market_inner

type_synonym market_state_table = "market_slot list"

record market_snapshot =
  ms_market_id :: market_id
  ms_latest_price :: f64
  ms_last_update_ns :: u64
  ms_mark_price :: "i128 option"
  ms_index_price :: "i128 option"
  ms_funding_rate_per_second :: i128
  ms_funding_rate_24h :: i128
  ms_long_oi :: i128
  ms_short_oi :: i128
  ms_enabled :: bool
  ms_paused :: bool
  ms_max_leverage :: "i128 option"
  ms_maintenance_margin_bps :: "u32 option"
  ms_volume_24h :: "i128 option"
  ms_trades_24h :: "u32 option"
  ms_price_change_24h :: "i128 option"
  ms_price_change_pct_24h :: "i128 option"

definition market_slot_new :: market_slot where
  "market_slot_new = \<lparr>sl_latest_price_bits = 0, sl_last_update_ns = 0, sl_inner = market_inner_default\<rparr>"

definition market_state_new :: market_state_table where
  "market_state_new = map (\<lambda>_. market_slot_new) [0..<MARKET_COUNT]"

text \<open>\<open>self.slots.get(market_id as usize)\<close> and a write through it.\<close>

definition slot_at :: "market_state_table \<Rightarrow> market_id \<Rightarrow> market_slot option" where
  "slot_at t m = (if unat m < length t then Some (t ! unat m) else None)"

definition on_slot :: "market_id \<Rightarrow> (market_slot \<Rightarrow> market_slot) \<Rightarrow> market_state_table \<Rightarrow> market_state_table" where
  "on_slot m f t = (if unat m < length t then t[unat m := f (t ! unat m)] else t)"

definition on_inner :: "market_id \<Rightarrow> (market_inner \<Rightarrow> market_inner) \<Rightarrow> market_state_table \<Rightarrow> market_state_table" where
  "on_inner m f t = on_slot m (\<lambda>s. s\<lparr>sl_inner := f (sl_inner s)\<rparr>) t"

definition latest_price :: "market_state_table \<Rightarrow> market_id \<Rightarrow> f64" where
  "latest_price t m = (case slot_at t m of Some s \<Rightarrow> F64 (sl_latest_price_bits s) | None \<Rightarrow> F64 0)"

definition last_update_ns :: "market_state_table \<Rightarrow> market_id \<Rightarrow> u64" where
  "last_update_ns t m = (case slot_at t m of Some s \<Rightarrow> sl_last_update_ns s | None \<Rightarrow> 0)"

definition set_price :: "market_id \<Rightarrow> f64 \<Rightarrow> u64 \<Rightarrow> market_state_table \<Rightarrow> market_state_table" where
  "set_price m price timestamp_ns t =
     on_slot m (\<lambda>s. s\<lparr>sl_latest_price_bits := f64_bits price, sl_last_update_ns := timestamp_ns\<rparr>) t"

definition set_funding_rate :: "market_id \<Rightarrow> i128 \<Rightarrow> i128 \<Rightarrow> market_state_table \<Rightarrow> market_state_table" where
  "set_funding_rate m rate_per_second rate_24h t =
     on_inner m (\<lambda>i. i\<lparr>in_funding_rate_per_second := rate_per_second, in_funding_rate_24h := rate_24h\<rparr>) t"

definition funding_rate :: "market_state_table \<Rightarrow> market_id \<Rightarrow> i128" where
  "funding_rate t m = (case slot_at t m of Some s \<Rightarrow> in_funding_rate_per_second (sl_inner s) | None \<Rightarrow> 0)"

definition funding_rate_24h :: "market_state_table \<Rightarrow> market_id \<Rightarrow> i128" where
  "funding_rate_24h t m = (case slot_at t m of Some s \<Rightarrow> in_funding_rate_24h (sl_inner s) | None \<Rightarrow> 0)"

definition set_open_interest :: "market_id \<Rightarrow> i128 \<Rightarrow> i128 \<Rightarrow> market_state_table \<Rightarrow> market_state_table" where
  "set_open_interest m long_oi short_oi t =
     on_inner m (\<lambda>i. i\<lparr>in_long_oi := long_oi, in_short_oi := short_oi\<rparr>) t"

definition add_long_oi :: "market_id \<Rightarrow> i128 \<Rightarrow> market_state_table \<Rightarrow> market_state_table" where
  "add_long_oi m delta t = on_inner m (\<lambda>i. i\<lparr>in_long_oi := in_long_oi i + delta\<rparr>) t"

definition add_short_oi :: "market_id \<Rightarrow> i128 \<Rightarrow> market_state_table \<Rightarrow> market_state_table" where
  "add_short_oi m delta t = on_inner m (\<lambda>i. i\<lparr>in_short_oi := in_short_oi i + delta\<rparr>) t"

definition open_interest :: "market_state_table \<Rightarrow> market_id \<Rightarrow> i128 \<times> i128" where
  "open_interest t m =
     (case slot_at t m of Some s \<Rightarrow> (in_long_oi (sl_inner s), in_short_oi (sl_inner s)) | None \<Rightarrow> (0, 0))"

definition set_oracle_prices ::
  "market_id \<Rightarrow> i128 option \<Rightarrow> i128 option \<Rightarrow> market_state_table \<Rightarrow> market_state_table" where
  "set_oracle_prices m mark index t =
     on_inner m (\<lambda>i. (let i1 = (if mark \<noteq> None then i\<lparr>in_mark_price := mark\<rparr> else i)
                      in if index \<noteq> None then i1\<lparr>in_index_price := index\<rparr> else i1)) t"

definition set_enabled :: "market_id \<Rightarrow> bool \<Rightarrow> market_state_table \<Rightarrow> market_state_table" where
  "set_enabled m enabled t = on_inner m (\<lambda>i. i\<lparr>in_enabled := enabled\<rparr>) t"

definition set_paused :: "market_id \<Rightarrow> bool \<Rightarrow> market_state_table \<Rightarrow> market_state_table" where
  "set_paused m paused t = on_inner m (\<lambda>i. i\<lparr>in_paused := paused\<rparr>) t"

definition is_enabled :: "market_state_table \<Rightarrow> market_id \<Rightarrow> bool" where
  "is_enabled t m = (case slot_at t m of Some s \<Rightarrow> in_enabled (sl_inner s) | None \<Rightarrow> False)"

definition is_paused :: "market_state_table \<Rightarrow> market_id \<Rightarrow> bool" where
  "is_paused t m = (case slot_at t m of Some s \<Rightarrow> in_paused (sl_inner s) | None \<Rightarrow> False)"

definition set_config ::
  "market_id \<Rightarrow> i128 option \<Rightarrow> u32 option \<Rightarrow> market_state_table \<Rightarrow> market_state_table" where
  "set_config m max_leverage maintenance_margin_bps t =
     on_inner m (\<lambda>i. i\<lparr>in_max_leverage := max_leverage,
                       in_maintenance_margin_bps := maintenance_margin_bps\<rparr>) t"

definition set_24h_stats ::
  "market_id \<Rightarrow> i128 option \<Rightarrow> u32 option \<Rightarrow> i128 option \<Rightarrow> i128 option \<Rightarrow> market_state_table \<Rightarrow>
     market_state_table" where
  "set_24h_stats m volume trades price_change price_change_pct t =
     on_inner m (\<lambda>i. i\<lparr>in_volume_24h := volume, in_trades_24h := trades,
                       in_price_change_24h := price_change, in_price_change_pct_24h := price_change_pct\<rparr>) t"

definition market_snapshot_of :: "market_state_table \<Rightarrow> market_id \<Rightarrow> market_snapshot option" where
  "market_snapshot_of t m =
     (case slot_at t m of
        None \<Rightarrow> None
      | Some slot \<Rightarrow> (let i = sl_inner slot in Some
          \<lparr>ms_market_id = m, ms_latest_price = F64 (sl_latest_price_bits slot),
           ms_last_update_ns = sl_last_update_ns slot, ms_mark_price = in_mark_price i,
           ms_index_price = in_index_price i,
           ms_funding_rate_per_second = in_funding_rate_per_second i,
           ms_funding_rate_24h = in_funding_rate_24h i, ms_long_oi = in_long_oi i,
           ms_short_oi = in_short_oi i, ms_enabled = in_enabled i, ms_paused = in_paused i,
           ms_max_leverage = in_max_leverage i,
           ms_maintenance_margin_bps = in_maintenance_margin_bps i,
           ms_volume_24h = in_volume_24h i, ms_trades_24h = in_trades_24h i,
           ms_price_change_24h = in_price_change_24h i,
           ms_price_change_pct_24h = in_price_change_pct_24h i\<rparr>))"

definition active_markets :: "market_state_table \<Rightarrow> market_id list" where
  "active_markets t =
     List.map_filter (\<lambda>(i, slot). let inner = sl_inner slot in
         if in_enabled inner \<and> \<not> in_paused inner then Some (word_of_nat i) else None)
       (enumerate 0 t)"

definition all_prices :: "market_state_table \<Rightarrow> (market_id \<times> f64) list" where
  "all_prices t =
     List.map_filter (\<lambda>(i, slot). let price = F64 (sl_latest_price_bits slot) in
         if \<not> f64_eq price f64_zero then Some (word_of_nat i, price) else None)
       (enumerate 0 t)"

lemmas market_write_defs [op_defs] =
  set_price_def set_funding_rate_def set_open_interest_def add_long_oi_def add_short_oi_def
  set_oracle_prices_def set_enabled_def set_paused_def set_config_def set_24h_stats_def on_inner_def

section \<open>Lemmas\<close>

lemma length_on_slot [simp]: "length (on_slot m f t) = length t"
  by (simp add: on_slot_def)

lemma length_on_inner [simp]: "length (on_inner m f t) = length t"
  by (simp add: on_inner_def)

lemma length_market_state_new [simp]: "length market_state_new = MARKET_COUNT"
  by (simp add: market_state_new_def)

lemma length_market_writes [simp]:
  "length (set_price m pr ts t) = length t"
  "length (set_funding_rate m a b t) = length t"
  "length (set_open_interest m a b t) = length t"
  "length (add_long_oi m a t) = length t"
  "length (add_short_oi m a t) = length t"
  "length (set_oracle_prices m oa ob t) = length t"
  "length (set_enabled m bo t) = length t"
  "length (set_paused m bo t) = length t"
  "length (set_config m oa oc t) = length t"
  "length (set_24h_stats m oa oc ob od t) = length t"
  by (simp_all add: market_write_defs)

lemma slot_at_on_slot:
  "slot_at (on_slot m f t) n = (if n = m then map_option f (slot_at t n) else slot_at t n)"
  by (auto simp: slot_at_def on_slot_def nth_list_update simp flip: word_unat_eq_iff)

lemma slot_at_on_inner:
  "slot_at (on_inner m f t) n =
    (if n = m then map_option (\<lambda>s. s\<lparr>sl_inner := f (sl_inner s)\<rparr>) (slot_at t n) else slot_at t n)"
  by (simp add: on_inner_def slot_at_on_slot)

lemma slot_at_new [simp]:
  "slot_at market_state_new m = (if unat m < MARKET_COUNT then Some market_slot_new else None)"
  by (simp add: slot_at_def market_state_new_def)

lemma market_table_eqI:
  assumes "length t = MARKET_COUNT" "length t' = MARKET_COUNT" "\<And>m. slot_at t m = slot_at t' m"
  shows "t = t'"
proof (rule nth_equalityI)
  fix i assume "i < length t"
  then have "i < MARKET_COUNT" using assms(1) by simp
  with assms show "t ! i = t' ! i"
    using assms(3) [of "word_of_nat i"] by (simp add: slot_at_def)
qed (simp add: assms)

lemma latest_price_set_price:
  "latest_price (set_price m price ts t) n =
    (if n = m \<and> unat m < length t then price else latest_price t n)"
proof -
  have "slot_at t m = None \<longleftrightarrow> \<not> unat m < length t" by (simp add: slot_at_def)
  then show ?thesis
    by (cases "slot_at t n") (auto simp: latest_price_def set_price_def slot_at_on_slot)
qed

lemma on_inner_on_inner: "on_inner m f (on_inner m g t) = on_inner m (f \<circ> g) t"
  by (simp add: on_inner_def on_slot_def)

lemma enumerate_filter_map_markets:
  assumes "length t = MARKET_COUNT"
  shows "set (List.map_filter (\<lambda>(i, slot). if P slot then Some (word_of_nat i :: market_id) else None)
     (enumerate 0 t)) = {m. \<exists>s. slot_at t m = Some s \<and> P s}"
proof -
  have "m \<in> {m. \<exists>s. slot_at t m = Some s \<and> P s} \<longleftrightarrow> (\<exists>i < length t. P (t ! i) \<and> m = word_of_nat i)" for m
  proof
    assume "m \<in> {m. \<exists>s. slot_at t m = Some s \<and> P s}"
    then show "\<exists>i < length t. P (t ! i) \<and> m = word_of_nat i"
      by (intro exI [of _ "unat m"]) (auto simp: slot_at_def split: if_splits)
  qed (use assms in \<open>auto simp: slot_at_def\<close>)
  then show ?thesis
    by (auto simp: List.map_filter_def in_set_enumerate_eq image_iff split: if_splits)
qed

end
