(* ===== verification/Pubsub.thy ===== *)
theory Pubsub
  imports Core_Types
begin

text \<open>
  The publish/subscribe bus, \<open>src/state/pubsub.rs\<close>. The senders are \<open>tokio::sync::broadcast\<close>
  channels, which are not part of this repository: the model keeps their capacity and, per sender, the
  messages handed to it in order; the result of \<open>send\<close> is an argument.
\<close>

datatype channel = Prices | Positions | Orders | Trades | Liquidations | Funding | Balances

definition channel_ALL :: "channel list" where
  "channel_ALL = [Prices, Positions, Orders, Trades, Liquidations, Funding, Balances]"

fun channel_as_str :: "channel \<Rightarrow> string" where
  "channel_as_str Prices = ''stream:prices''"
| "channel_as_str Positions = ''stream:positions''"
| "channel_as_str Orders = ''stream:orders''"
| "channel_as_str Trades = ''stream:trades''"
| "channel_as_str Liquidations = ''stream:liquidations''"
| "channel_as_str Funding = ''stream:funding''"
| "channel_as_str Balances = ''stream:balances''"

datatype pubsub_message =
    PriceUpdate u16 f64 u64
  | PositionUpdate position
  | OrderUpdate order
  | TradeExecuted trade
  | LiquidationEvent hash32 address u16 i128 i128
  | FundingUpdate u16 i128 i128
  | BalanceUpdateMsg balance

record pubsub_bus =
  ps_capacity :: nat
  ps_sent :: "channel \<Rightarrow> pubsub_message list"

text \<open>
  The documentation of \<open>broadcast::channel\<close>: it panics if the capacity is 0 or larger than \<open>usize::MAX / 2\<close>.
\<close>

definition capacity_ok :: "nat \<Rightarrow> bool" where
  "capacity_ok c \<longleftrightarrow> 0 < c \<and> c \<le> (2 ^ 64 - 1) div 2"

definition pubsub_empty :: "nat \<Rightarrow> pubsub_bus" where
  "pubsub_empty capacity = \<lparr>ps_capacity = capacity, ps_sent = (\<lambda>_. [])\<rparr>"

definition pubsub_with_capacity :: "nat \<Rightarrow> pubsub_bus panicking" where
  "pubsub_with_capacity capacity = (if capacity_ok capacity then Some (pubsub_empty capacity) else None)"

definition pubsub_send :: "channel \<Rightarrow> pubsub_message \<Rightarrow> pubsub_bus \<Rightarrow> pubsub_bus" where
  "pubsub_send ch msg bus = bus\<lparr>ps_sent := (ps_sent bus)(ch := ps_sent bus ch @ [msg])\<rparr>"

text \<open>\<open>send_result\<close>: what \<open>Sender::send\<close> returned, \<open>None\<close> for its error (no receivers).\<close>

definition pubsub_publish ::
  "nat option \<Rightarrow> channel \<Rightarrow> pubsub_message \<Rightarrow> pubsub_bus \<Rightarrow> nat \<times> pubsub_bus" where
  "pubsub_publish send_result ch msg bus =
     (case send_result of Some n \<Rightarrow> n | None \<Rightarrow> 0, pubsub_send ch msg bus)"

lemma channel_as_str_inj: "channel_as_str a = channel_as_str b \<longleftrightarrow> a = b"
  by (cases a; cases b) simp_all

lemma set_channel_ALL: "set channel_ALL = UNIV"
proof -
  have "c \<in> set channel_ALL" for c by (cases c) (simp_all add: channel_ALL_def)
  then show ?thesis by blast
qed

end
