(* ===== verification/Users.thy ===== *)
theory Users
  imports Core_Types
begin

text \<open>The user store, \<open>src/relational/users.rs\<close>: users by address and an index from referral code to address.\<close>

record user_store =
  us_users :: "address \<rightharpoonup> user"
  us_by_referral_code :: "string \<rightharpoonup> address"

definition users_new :: user_store where
  "users_new = \<lparr>us_users = Map.empty, us_by_referral_code = Map.empty\<rparr>"

text \<open>The index writes guarded by \<open>!code.is_empty()\<close>.\<close>

definition index_code :: "string option \<Rightarrow> address \<Rightarrow> (string \<rightharpoonup> address) \<Rightarrow> (string \<rightharpoonup> address)" where
  "index_code code addr m =
     (case code of None \<Rightarrow> m | Some c \<Rightarrow> if c \<noteq> [] then m(c \<mapsto> addr) else m)"

definition unindex_code :: "string option \<Rightarrow> (string \<rightharpoonup> address) \<Rightarrow> (string \<rightharpoonup> address)" where
  "unindex_code code m =
     (case code of None \<Rightarrow> m | Some c \<Rightarrow> if c \<noteq> [] then m(c := None) else m)"

definition users_upsert :: "user \<Rightarrow> user_store \<Rightarrow> user_store" where
  "users_upsert u s =
     (let addr = usr_address u
      in s\<lparr>us_by_referral_code := index_code (usr_referral_code u) addr (us_by_referral_code s),
           us_users := (us_users s)(addr \<mapsto> u)\<rparr>)"

definition users_get :: "user_store \<Rightarrow> address \<Rightarrow> user option" where
  "users_get s addr = us_users s addr"

definition users_update :: "address \<Rightarrow> (user \<Rightarrow> user) \<Rightarrow> user_store \<Rightarrow> bool \<times> user_store" where
  "users_update addr f s =
     (case us_users s addr of
        None \<Rightarrow> (False, s)
      | Some u \<Rightarrow>
          (let old_code = usr_referral_code u; u' = f u; new_code = usr_referral_code u'
           in (True,
               s\<lparr>us_users := (us_users s)(addr \<mapsto> u'),
                 us_by_referral_code :=
                   (if old_code \<noteq> new_code
                    then index_code new_code addr (unindex_code old_code (us_by_referral_code s))
                    else us_by_referral_code s)\<rparr>)))"

definition user_default :: "address \<Rightarrow> u64 \<Rightarrow> user" where
  "user_default addr now =
     \<lparr>usr_address = addr, usr_vault_address = None, usr_referral_code = None,
      usr_referred_by = None, usr_tier = ''bronze'', usr_fee_discount_bps = 0,
      usr_created_at = now, usr_first_trade_at = None, usr_last_active_at = Some now\<rparr>"

text \<open>\<open>entry().or_insert_with(..)\<close>, then the separate write of \<open>last_active_at\<close>.\<close>

definition users_ensure :: "address \<Rightarrow> u64 \<Rightarrow> user_store \<Rightarrow> user_store" where
  "users_ensure addr now s =
     (let s1 = (case us_users s addr of
                  Some _ \<Rightarrow> s
                | None \<Rightarrow> s\<lparr>us_users := (us_users s)(addr \<mapsto> user_default addr now)\<rparr>)
      in case us_users s1 addr of
           None \<Rightarrow> s1
         | Some u \<Rightarrow> s1\<lparr>us_users := (us_users s1)(addr \<mapsto> u\<lparr>usr_last_active_at := Some now\<rparr>)\<rparr>)"

definition users_by_referral_code :: "user_store \<Rightarrow> string \<Rightarrow> user option" where
  "users_by_referral_code s code =
     (case us_by_referral_code s code of None \<Rightarrow> None | Some addr \<Rightarrow> users_get s addr)"

definition users_set_vault :: "address \<Rightarrow> address \<Rightarrow> user_store \<Rightarrow> user_store" where
  "users_set_vault addr vault s =
     (case us_users s addr of
        None \<Rightarrow> s
      | Some u \<Rightarrow> s\<lparr>us_users := (us_users s)(addr \<mapsto> u\<lparr>usr_vault_address := Some vault\<rparr>)\<rparr>)"

definition users_set_referral_code :: "address \<Rightarrow> string \<Rightarrow> user_store \<Rightarrow> bool \<times> user_store" where
  "users_set_referral_code addr code s = users_update addr (\<lambda>u. u\<lparr>usr_referral_code := Some code\<rparr>) s"

definition users_set_referred_by :: "address \<Rightarrow> address \<Rightarrow> user_store \<Rightarrow> bool \<times> user_store" where
  "users_set_referred_by addr referrer s =
     (case us_users s addr of
        Some u \<Rightarrow> (True, s\<lparr>us_users := (us_users s)(addr \<mapsto> u\<lparr>usr_referred_by := Some referrer\<rparr>)\<rparr>)
      | None \<Rightarrow> (False, s))"

definition users_referral_count :: "address list \<Rightarrow> user_store \<Rightarrow> address \<Rightarrow> u32" where
  "users_referral_count ks s referrer =
     word_of_nat (length (filter (\<lambda>u. usr_referred_by u = Some referrer) (values_of ks (us_users s))))"

definition users_remove :: "address \<Rightarrow> user_store \<Rightarrow> user option \<times> user_store" where
  "users_remove addr s =
     (case us_users s addr of
        None \<Rightarrow> (None, s)
      | Some u \<Rightarrow>
          (Some u,
           s\<lparr>us_users := (us_users s)(addr := None),
             us_by_referral_code := unindex_code (usr_referral_code u) (us_by_referral_code s)\<rparr>))"

definition users_count :: "user_store \<Rightarrow> nat" where
  "users_count s = card (dom (us_users s))"

definition users_all :: "address list \<Rightarrow> user_store \<Rightarrow> user list" where
  "users_all ks s = values_of ks (us_users s)"

definition users_contains :: "user_store \<Rightarrow> address \<Rightarrow> bool" where
  "users_contains s addr \<longleftrightarrow> us_users s addr \<noteq> None"

definition users_created_between :: "address list \<Rightarrow> user_store \<Rightarrow> u64 \<Rightarrow> u64 \<Rightarrow> user list" where
  "users_created_between ks s from to =
     filter (\<lambda>u. from \<le> usr_created_at u \<and> usr_created_at u < to) (values_of ks (us_users s))"

lemmas user_op_defs [op_defs] =
  users_new_def users_upsert_def users_get_def users_update_def users_ensure_def users_set_vault_def
  users_remove_def users_set_referral_code_def users_set_referred_by_def

section \<open>Invariant\<close>

text \<open>
  Users are filed under their own address; a code of the index belongs to the user it leads
  to; and every user with a non-empty code is found by it. The last two together make codes
  unique.
\<close>

definition users_ok :: "user_store \<Rightarrow> bool" where
  "users_ok s \<longleftrightarrow>
     (\<forall>a u. us_users s a = Some u \<longrightarrow> usr_address u = a) \<and>
     (\<forall>c a. us_by_referral_code s c = Some a \<longrightarrow>
        c \<noteq> [] \<and> (\<exists>u. us_users s a = Some u \<and> usr_referral_code u = Some c)) \<and>
     (\<forall>a u c. us_users s a = Some u \<longrightarrow> usr_referral_code u = Some c \<longrightarrow> c \<noteq> [] \<longrightarrow>
        us_by_referral_code s c = Some a)"

lemma users_okI:
  assumes "\<And>a u. us_users s a = Some u \<Longrightarrow> usr_address u = a"
    and "\<And>c a. us_by_referral_code s c = Some a \<Longrightarrow>
        c \<noteq> [] \<and> (\<exists>u. us_users s a = Some u \<and> usr_referral_code u = Some c)"
    and "\<And>a u c. us_users s a = Some u \<Longrightarrow> usr_referral_code u = Some c \<Longrightarrow> c \<noteq> [] \<Longrightarrow>
        us_by_referral_code s c = Some a"
  shows "users_ok s"
  unfolding users_ok_def using assms by (intro conjI allI impI) blast+

lemma users_ok_addr: "users_ok s \<Longrightarrow> us_users s a = Some u \<Longrightarrow> usr_address u = a"
  unfolding users_ok_def by blast

lemma users_ok_code: "users_ok s \<Longrightarrow> us_by_referral_code s c = Some a \<Longrightarrow>
    c \<noteq> [] \<and> (\<exists>u. us_users s a = Some u \<and> usr_referral_code u = Some c)"
  unfolding users_ok_def by blast

lemma users_ok_found: "users_ok s \<Longrightarrow> us_users s a = Some u \<Longrightarrow> usr_referral_code u = Some c \<Longrightarrow> c \<noteq> [] \<Longrightarrow>
    us_by_referral_code s c = Some a"
  unfolding users_ok_def by blast

lemma users_ok_new: "users_ok users_new"
  by (rule users_okI) (simp_all add: users_new_def)

text \<open>Storing a user with the referral code it had (none, when it is new) keeps the invariant.\<close>

lemma users_ok_modify:
  assumes ok: "users_ok s" and addr: "usr_address u' = addr"
    and code: "usr_referral_code u' = (case us_users s addr of None \<Rightarrow> None | Some u \<Rightarrow> usr_referral_code u)"
  shows "users_ok (s\<lparr>us_users := (us_users s)(addr \<mapsto> u')\<rparr>)" (is "users_ok ?s'")
proof (rule users_okI)
  fix a u assume "us_users ?s' a = Some u"
  then show "usr_address u = a" using users_ok_addr [OF ok, of a u] addr by (cases "a = addr") simp_all
next
  fix c a assume "us_by_referral_code ?s' c = Some a"
  then have "c \<noteq> [] \<and> (\<exists>u. us_users s a = Some u \<and> usr_referral_code u = Some c)"
    using users_ok_code [OF ok] by simp
  then show "c \<noteq> [] \<and> (\<exists>u. us_users ?s' a = Some u \<and> usr_referral_code u = Some c)"
    using code by (cases "a = addr") auto
next
  fix a u c assume "us_users ?s' a = Some u" "usr_referral_code u = Some c" "c \<noteq> []"
  then show "us_by_referral_code ?s' c = Some a"
    using users_ok_found [OF ok, of a _ c] code by (cases "a = addr") (auto split: option.splits)
qed

lemma users_ensure_eq:
  "users_ensure addr now s =
    s\<lparr>us_users := (us_users s)(addr \<mapsto>
       (case us_users s addr of None \<Rightarrow> user_default addr now | Some u \<Rightarrow> u)\<lparr>usr_last_active_at := Some now\<rparr>)\<rparr>"
  by (simp add: users_ensure_def Let_def split: option.splits)

lemma users_ok_ensure: "users_ok s \<Longrightarrow> users_ok (users_ensure addr now s)"
  unfolding users_ensure_eq
  by (rule users_ok_modify) (auto simp: user_default_def users_ok_addr split: option.splits)

lemma users_ok_set_vault: "users_ok s \<Longrightarrow> users_ok (users_set_vault addr v s)"
  by (cases "us_users s addr")
    (simp_all add: users_set_vault_def users_ok_modify users_ok_addr)

lemma users_ensure_get:
  "users_get (users_ensure addr now s) a =
    (if a = addr
     then Some ((case us_users s addr of None \<Rightarrow> user_default addr now | Some u \<Rightarrow> u)
                  \<lparr>usr_last_active_at := Some now\<rparr>)
     else users_get s a)"
  by (auto simp: users_get_def users_ensure_def Let_def split: option.splits)

text \<open>A referral code taken by nobody else can be given to a user, and then finds that user.\<close>

lemma users_ok_set_referral_code:
  assumes ok: "users_ok s" and u: "us_users s addr = Some u"
    and free: "\<And>a. us_by_referral_code s code = Some a \<Longrightarrow> a = addr"
  shows "users_ok (snd (users_set_referral_code addr code s))"
proof (cases "usr_referral_code u = Some code")
  case True
  with users_ok_modify [OF ok, of "u\<lparr>usr_referral_code := Some code\<rparr>" addr] u users_ok_addr [OF ok u]
  show ?thesis
    by (simp add: users_set_referral_code_def users_update_def Let_def)
next
  case False
  let ?u' = "u\<lparr>usr_referral_code := Some code\<rparr>"
  let ?m = "index_code (Some code) addr (unindex_code (usr_referral_code u) (us_by_referral_code s))"
  have s': "snd (users_set_referral_code addr code s) =
      s\<lparr>us_users := (us_users s)(addr \<mapsto> ?u'), us_by_referral_code := ?m\<rparr>"
    using u False by (simp add: users_set_referral_code_def users_update_def Let_def)
  have m: "?m c = (if c \<noteq> [] \<and> c = code then Some addr
      else if c \<noteq> [] \<and> usr_referral_code u = Some c then None else us_by_referral_code s c)" for c
    using False by (auto simp: index_code_def unindex_code_def split: option.splits)
  have B': "c \<noteq> [] \<and> (\<exists>w. ((us_users s)(addr \<mapsto> ?u')) a = Some w \<and> usr_referral_code w = Some c)"
    if "?m c = Some a" for c a
  proof (cases "c \<noteq> [] \<and> c = code")
    case True
    then have "?m c = Some addr" by (auto simp: m)
    with that True show ?thesis by auto
  next
    case f: False
    with that m [of c] have old: "us_by_referral_code s c = Some a" "usr_referral_code u \<noteq> Some c \<or> c = []"
      by (auto split: if_splits)
    with users_ok_code [OF ok old(1)] obtain w
      where w: "us_users s a = Some w" "usr_referral_code w = Some c" "c \<noteq> []"
      by blast
    with old(2) u have "a \<noteq> addr" by auto
    with w show ?thesis by simp
  qed
  have C': "?m c = Some a"
    if "((us_users s)(addr \<mapsto> ?u')) a = Some w" "usr_referral_code w = Some c" "c \<noteq> []" for a w c
  proof (cases "a = addr")
    case True
    with that show ?thesis by (auto simp: m)
  next
    case f: False
    with that have c: "us_by_referral_code s c = Some a" using users_ok_found [OF ok, of a w c] by simp
    have "usr_referral_code u \<noteq> Some c" using users_ok_found [OF ok u _ that(3)] c f by auto
    moreover have "c \<noteq> code" using free c f by auto
    ultimately show ?thesis using c by (simp add: m)
  qed
  have A': "usr_address w = a" if "((us_users s)(addr \<mapsto> ?u')) a = Some w" for a w
    using that users_ok_addr [OF ok, of a] users_ok_addr [OF ok u] by (cases "a = addr") auto
  have sel: "us_users (snd (users_set_referral_code addr code s)) = (us_users s)(addr \<mapsto> ?u')"
    "us_by_referral_code (snd (users_set_referral_code addr code s)) = ?m"
    unfolding s' by simp_all
  show ?thesis
  proof (rule users_okI, unfold sel)
    fix a w assume "((us_users s)(addr \<mapsto> ?u')) a = Some w"
    then show "usr_address w = a" by (rule A')
  next
    fix c a assume "?m c = Some a"
    then show "c \<noteq> [] \<and> (\<exists>w. ((us_users s)(addr \<mapsto> ?u')) a = Some w \<and> usr_referral_code w = Some c)"
      by (rule B')
  next
    fix a w c assume "((us_users s)(addr \<mapsto> ?u')) a = Some w" "usr_referral_code w = Some c" "c \<noteq> []"
    then show "?m c = Some a" by (rule C')
  qed
qed

end
