(* ===== verification/Checkpoint.thy ===== *)
theory Checkpoint
  imports Prelude
begin

text \<open>The indexer checkpoint, \<open>src/relational/checkpoint.rs\<close>.\<close>

record checkpoint_store =
  cp_last_block :: u64
  cp_last_block_timestamp :: u64
  cp_last_block_hash :: string

text \<open>\<open>Checkpoint\<close>, the read-only copy.\<close>

record checkpoint_snapshot =
  cs_last_block :: u64
  cs_last_block_hash :: string
  cs_last_block_timestamp :: u64

definition checkpoint_new :: "u64 \<Rightarrow> string \<Rightarrow> u64 \<Rightarrow> checkpoint_store" where
  "checkpoint_new block hash timestamp =
     \<lparr>cp_last_block = block, cp_last_block_timestamp = timestamp, cp_last_block_hash = hash\<rparr>"

definition checkpoint_empty :: checkpoint_store where
  "checkpoint_empty = checkpoint_new 0 '''' 0"

definition checkpoint_snapshot_of :: "checkpoint_store \<Rightarrow> checkpoint_snapshot" where
  "checkpoint_snapshot_of c =
     \<lparr>cs_last_block = cp_last_block c, cs_last_block_hash = cp_last_block_hash c,
      cs_last_block_timestamp = cp_last_block_timestamp c\<rparr>"

definition checkpoint_save :: "u64 \<Rightarrow> string \<Rightarrow> u64 \<Rightarrow> checkpoint_store \<Rightarrow> checkpoint_store" where
  "checkpoint_save block hash timestamp c =
     c\<lparr>cp_last_block := block, cp_last_block_timestamp := timestamp, cp_last_block_hash := hash\<rparr>"

definition advance_block :: "u64 \<Rightarrow> checkpoint_store \<Rightarrow> checkpoint_store" where
  "advance_block block c = c\<lparr>cp_last_block := block\<rparr>"

lemma checkpoint_save_snapshot:
  "checkpoint_snapshot_of (checkpoint_save b h t c) =
    \<lparr>cs_last_block = b, cs_last_block_hash = h, cs_last_block_timestamp = t\<rparr>"
  by (simp add: checkpoint_snapshot_of_def checkpoint_save_def)

lemma advance_block_simps [simp]:
  "cp_last_block (advance_block b c) = b"
  "cp_last_block_hash (advance_block b c) = cp_last_block_hash c"
  "cp_last_block_timestamp (advance_block b c) = cp_last_block_timestamp c"
  by (simp_all add: advance_block_def)

end
