(* ===== verification/Event_Store.thy ===== *)
theory Event_Store
  imports Core_Types
begin

text \<open>
  The dual-partitioned event log, \<open>src/storage/event_store.rs\<close>. The counter is an
  \<open>AtomicU64\<close>, which wraps.
\<close>

record event_store =
  es_by_market :: "u16 \<rightharpoonup> indexed_event list"
  es_by_trader :: "address \<rightharpoonup> indexed_event list"
  es_total_count :: u64

definition events_new :: event_store where
  "events_new = \<lparr>es_by_market = Map.empty, es_by_trader = Map.empty, es_total_count = 0\<rparr>"

text \<open>\<open>entry(k).or_default().push(v)\<close>.\<close>

definition push_entry :: "'k \<Rightarrow> 'v \<Rightarrow> ('k \<rightharpoonup> 'v list) \<Rightarrow> ('k \<rightharpoonup> 'v list)" where
  "push_entry k v m = m(k \<mapsto> (case m k of None \<Rightarrow> [] | Some vs \<Rightarrow> vs) @ [v])"

definition events_append ::
  "indexed_event \<Rightarrow> u16 option \<Rightarrow> address option \<Rightarrow> event_store \<Rightarrow> event_store" where
  "events_append ev market_id trader s =
     (let s1 = (case market_id of
                  Some mid \<Rightarrow> s\<lparr>es_by_market := push_entry mid ev (es_by_market s)\<rparr>
                | None \<Rightarrow> s);
          s2 = (case trader of
                  Some addr \<Rightarrow> s1\<lparr>es_by_trader := push_entry addr ev (es_by_trader s1)\<rparr>
                | None \<Rightarrow> s1)
      in s2\<lparr>es_total_count := es_total_count s2 + 1\<rparr>)"

definition in_block_range :: "u64 option \<Rightarrow> u64 option \<Rightarrow> indexed_event \<Rightarrow> bool" where
  "in_block_range from_block to_block e =
     (if (case from_block of Some from \<Rightarrow> ie_block_number e < from | None \<Rightarrow> False) then False
      else if (case to_block of Some to \<Rightarrow> to \<le> ie_block_number e | None \<Rightarrow> False) then False
      else True)"

definition filter_by_block_range ::
  "indexed_event list \<Rightarrow> u64 option \<Rightarrow> u64 option \<Rightarrow> indexed_event list" where
  "filter_by_block_range evs from_block to_block = filter (in_block_range from_block to_block) evs"

definition events_by_market ::
  "event_store \<Rightarrow> u16 \<Rightarrow> u64 option \<Rightarrow> u64 option \<Rightarrow> indexed_event list" where
  "events_by_market s m from_block to_block =
     (case es_by_market s m of
        Some evs \<Rightarrow> filter_by_block_range evs from_block to_block | None \<Rightarrow> [])"

definition events_by_trader ::
  "event_store \<Rightarrow> address \<Rightarrow> u64 option \<Rightarrow> u64 option \<Rightarrow> indexed_event list" where
  "events_by_trader s a from_block to_block =
     (case es_by_trader s a of
        Some evs \<Rightarrow> filter_by_block_range evs from_block to_block | None \<Rightarrow> [])"

text \<open>\<open>saturating_sub\<close> on lengths is the subtraction of \<open>nat\<close>.\<close>

definition latest_of :: "'a list \<Rightarrow> nat \<Rightarrow> 'a list" where
  "latest_of evs n = rev (drop (length evs - n) evs)"

definition events_latest_by_market :: "event_store \<Rightarrow> u16 \<Rightarrow> nat \<Rightarrow> indexed_event list" where
  "events_latest_by_market s m n =
     (case es_by_market s m of Some evs \<Rightarrow> latest_of evs n | None \<Rightarrow> [])"

definition events_latest_by_trader :: "event_store \<Rightarrow> address \<Rightarrow> nat \<Rightarrow> indexed_event list" where
  "events_latest_by_trader s a n =
     (case es_by_trader s a of Some evs \<Rightarrow> latest_of evs n | None \<Rightarrow> [])"

definition market_event_count :: "event_store \<Rightarrow> u16 \<Rightarrow> nat" where
  "market_event_count s m = (case es_by_market s m of None \<Rightarrow> 0 | Some v \<Rightarrow> length v)"

definition trader_event_count :: "event_store \<Rightarrow> address \<Rightarrow> nat" where
  "trader_event_count s a = (case es_by_trader s a of None \<Rightarrow> 0 | Some v \<Rightarrow> length v)"

definition market_partition_count :: "event_store \<Rightarrow> nat" where
  "market_partition_count s = card (dom (es_by_market s))"

definition trader_partition_count :: "event_store \<Rightarrow> nat" where
  "trader_partition_count s = card (dom (es_by_trader s))"

definition events_by_market_filtered ::
  "event_store \<Rightarrow> u16 \<Rightarrow> (indexed_event \<Rightarrow> bool) \<Rightarrow> indexed_event list" where
  "events_by_market_filtered s m P =
     (case es_by_market s m of Some evs \<Rightarrow> filter P evs | None \<Rightarrow> [])"

definition events_by_trader_filtered ::
  "event_store \<Rightarrow> address \<Rightarrow> (indexed_event \<Rightarrow> bool) \<Rightarrow> indexed_event list" where
  "events_by_trader_filtered s a P =
     (case es_by_trader s a of Some evs \<Rightarrow> filter P evs | None \<Rightarrow> [])"

section \<open>The log the store represents\<close>

text \<open>
  The abstract state is the sequence of appends. A partition is the subsequence with its
  key, in order.
\<close>

type_synonym event_log = "(indexed_event \<times> u16 option \<times> address option) list"

definition run_appends :: "event_log \<Rightarrow> event_store \<Rightarrow> event_store" where
  "run_appends log s = fold (\<lambda>(ev, m, a). events_append ev m a) log s"

definition log_market :: "event_log \<Rightarrow> u16 \<Rightarrow> indexed_event list" where
  "log_market log m = map fst (filter (\<lambda>e. fst (snd e) = Some m) log)"

definition log_trader :: "event_log \<Rightarrow> address \<Rightarrow> indexed_event list" where
  "log_trader log a = map fst (filter (\<lambda>e. snd (snd e) = Some a) log)"

definition event_store_repr :: "event_log \<Rightarrow> event_store \<Rightarrow> bool" where
  "event_store_repr log s \<longleftrightarrow>
     (\<forall>m. es_by_market s m = (if log_market log m = [] then None else Some (log_market log m))) \<and>
     (\<forall>a. es_by_trader s a = (if log_trader log a = [] then None else Some (log_trader log a))) \<and>
     es_total_count s = word_of_nat (length log)"

lemma event_store_repr_new: "event_store_repr [] events_new"
  by (simp add: event_store_repr_def events_new_def log_market_def log_trader_def)

lemma event_store_repr_append:
  assumes "event_store_repr log s"
  shows "event_store_repr (log @ [(ev, m, a)]) (events_append ev m a s)"
proof -
  have m': "log_market (log @ [(ev, m, a)]) k = log_market log k @ (if m = Some k then [ev] else [])" for k
    by (simp add: log_market_def)
  have a': "log_trader (log @ [(ev, m, a)]) k = log_trader log k @ (if a = Some k then [ev] else [])" for k
    by (simp add: log_trader_def)
  show ?thesis
    using assms unfolding event_store_repr_def m' a'
    by (auto simp: events_append_def push_entry_def Let_def split: option.splits)
qed

lemma event_store_repr_run:
  "event_store_repr log s \<Longrightarrow> event_store_repr (log @ es) (run_appends es s)"
proof (induction es arbitrary: log s)
  case (Cons e es)
  obtain ev m a where e: "e = (ev, m, a)" by (cases e)
  from event_store_repr_append [OF Cons.prems, of ev m a]
  have "event_store_repr ((log @ [(ev, m, a)]) @ es) (run_appends es (events_append ev m a s))"
    by (rule Cons.IH)
  then show ?case by (simp add: e run_appends_def)
qed (simp add: run_appends_def)

lemma latest_of_length: "length (latest_of xs n) = min n (length xs)"
  by (simp add: latest_of_def)

lemma latest_of_take: "latest_of xs n = take n (rev xs)"
  by (simp add: latest_of_def take_rev)

end
