(* ===== verification/Stats.thy ===== *)
theory Stats
  imports Core_Types
begin

text \<open>Lifetime and daily trader statistics, \<open>src/aggregation/stats.rs\<close>.\<close>

section \<open>Lifetime statistics\<close>

type_synonym trader_stats_store = "address \<rightharpoonup> trader_stats"

definition stats_new :: trader_stats_store where
  "stats_new = Map.empty"

definition trader_stats_zero :: "address \<Rightarrow> trader_stats" where
  "trader_stats_zero a =
     \<lparr>ts_address = a, ts_total_pnl = 0, ts_total_volume = 0, ts_total_fees_paid = 0,
      ts_total_trades = 0, ts_total_positions = 0, ts_open_positions = 0, ts_win_count = 0,
      ts_loss_count = 0, ts_liquidation_count = 0, ts_best_trade_pnl = 0,
      ts_worst_trade_pnl = 0, ts_avg_leverage = 0, ts_max_leverage = 0,
      ts_total_funding_paid = 0, ts_total_funding_received = 0, ts_first_trade_at = None,
      ts_last_trade_at = None\<rparr>"

definition stats_ensure :: "address \<Rightarrow> trader_stats_store \<Rightarrow> trader_stats_store" where
  "stats_ensure a s = (case s a of Some _ \<Rightarrow> s | None \<Rightarrow> s(a \<mapsto> trader_stats_zero a))"

definition stats_get :: "trader_stats_store \<Rightarrow> address \<Rightarrow> trader_stats option" where
  "stats_get s a = s a"

definition stats_update ::
  "address \<Rightarrow> (trader_stats \<Rightarrow> trader_stats) \<Rightarrow> trader_stats_store \<Rightarrow> bool \<times> trader_stats_store" where
  "stats_update a f s = (case s a of Some t \<Rightarrow> (True, s(a \<mapsto> f t)) | None \<Rightarrow> (False, s))"

text \<open>The body of \<open>increment_trade\<close> on one entry, in the order of its statements.\<close>

definition bump_trade :: "i128 \<Rightarrow> i128 \<Rightarrow> i128 \<Rightarrow> bool \<Rightarrow> bool \<Rightarrow> u64 \<Rightarrow> trader_stats \<Rightarrow> trader_stats" where
  "bump_trade volume pnl fee is_win is_liquidation timestamp s0 =
     (let s1 = s0\<lparr>ts_total_trades := ts_total_trades s0 + 1,
                  ts_total_volume := ts_total_volume s0 + volume,
                  ts_total_pnl := ts_total_pnl s0 + pnl,
                  ts_total_fees_paid := ts_total_fees_paid s0 + fee\<rparr>;
          s2 = (if is_win then s1\<lparr>ts_win_count := ts_win_count s1 + 1\<rparr>
                else if \<not> is_liquidation then s1\<lparr>ts_loss_count := ts_loss_count s1 + 1\<rparr>
                else s1);
          s3 = (if is_liquidation then s2\<lparr>ts_liquidation_count := ts_liquidation_count s2 + 1\<rparr> else s2);
          s4 = (if ts_best_trade_pnl s3 < pnl then s3\<lparr>ts_best_trade_pnl := pnl\<rparr> else s3);
          s5 = (if pnl < ts_worst_trade_pnl s4 then s4\<lparr>ts_worst_trade_pnl := pnl\<rparr> else s4);
          s6 = (if ts_first_trade_at s5 = None then s5\<lparr>ts_first_trade_at := Some timestamp\<rparr> else s5)
      in s6\<lparr>ts_last_trade_at := Some timestamp\<rparr>)"

definition increment_trade ::
  "address \<Rightarrow> i128 \<Rightarrow> i128 \<Rightarrow> i128 \<Rightarrow> bool \<Rightarrow> bool \<Rightarrow> u64 \<Rightarrow> trader_stats_store \<Rightarrow> bool \<times> trader_stats_store" where
  "increment_trade a volume pnl fee is_win is_liquidation timestamp s =
     (case s a of
        Some t \<Rightarrow> (True, s(a \<mapsto> bump_trade volume pnl fee is_win is_liquidation timestamp t))
      | None \<Rightarrow> (False, s))"

definition increment_open_positions :: "address \<Rightarrow> trader_stats_store \<Rightarrow> trader_stats_store" where
  "increment_open_positions a s =
     (case s a of
        Some t \<Rightarrow> s(a \<mapsto> t\<lparr>ts_total_positions := ts_total_positions t + 1,
                           ts_open_positions := ts_open_positions t + 1\<rparr>)
      | None \<Rightarrow> s)"

definition decrement_open_positions :: "address \<Rightarrow> trader_stats_store \<Rightarrow> trader_stats_store" where
  "decrement_open_positions a s =
     (case s a of
        Some t \<Rightarrow> s(a \<mapsto> t\<lparr>ts_open_positions := sat_sub (ts_open_positions t) 1\<rparr>)
      | None \<Rightarrow> s)"

definition stats_count :: "trader_stats_store \<Rightarrow> nat" where
  "stats_count s = card (dom s)"

definition stats_all :: "address list \<Rightarrow> trader_stats_store \<Rightarrow> trader_stats list" where
  "stats_all ks s = values_of ks s"

definition stats_remove :: "address \<Rightarrow> trader_stats_store \<Rightarrow> trader_stats option \<times> trader_stats_store" where
  "stats_remove a s = (s a, s(a := None))"

section \<open>Daily statistics\<close>

type_synonym daily_stats_store = "(address \<times> u32) \<rightharpoonup> daily_stats"

definition daily_new :: daily_stats_store where
  "daily_new = Map.empty"

definition daily_zero :: "u32 \<Rightarrow> daily_stats" where
  "daily_zero date = \<lparr>ds_date = date, ds_pnl = 0, ds_volume = 0, ds_trades = 0, ds_fees = 0\<rparr>"

definition set_trader_daily :: "address \<Rightarrow> u32 \<Rightarrow> daily_stats \<Rightarrow> daily_stats_store \<Rightarrow> daily_stats_store" where
  "set_trader_daily a date st s = s((a, date) \<mapsto> st)"

definition get_trader_daily :: "daily_stats_store \<Rightarrow> address \<Rightarrow> u32 \<Rightarrow> daily_stats option" where
  "get_trader_daily s a date = s (a, date)"

definition update_trader_daily ::
  "address \<Rightarrow> u32 \<Rightarrow> (daily_stats \<Rightarrow> daily_stats) \<Rightarrow> daily_stats_store \<Rightarrow> bool \<times> daily_stats_store" where
  "update_trader_daily a date f s =
     (case s (a, date) of Some t \<Rightarrow> (True, s((a, date) \<mapsto> f t)) | None \<Rightarrow> (False, s))"

definition ensure_trader_daily :: "address \<Rightarrow> u32 \<Rightarrow> daily_stats_store \<Rightarrow> daily_stats_store" where
  "ensure_trader_daily a date s =
     (case s (a, date) of Some _ \<Rightarrow> s | None \<Rightarrow> s((a, date) \<mapsto> daily_zero date))"

definition accumulate_trade ::
  "address \<Rightarrow> u32 \<Rightarrow> i128 \<Rightarrow> i128 \<Rightarrow> i128 \<Rightarrow> daily_stats_store \<Rightarrow> daily_stats_store" where
  "accumulate_trade a date volume pnl fee s =
     (case s (a, date) of
        Some t \<Rightarrow> s((a, date) \<mapsto>
          t\<lparr>ds_volume := ds_volume t + volume, ds_pnl := ds_pnl t + pnl,
            ds_trades := ds_trades t + 1, ds_fees := ds_fees t + fee\<rparr>)
      | None \<Rightarrow> s((a, date) \<mapsto>
          \<lparr>ds_date = date, ds_pnl = pnl, ds_volume = volume, ds_trades = 1, ds_fees = fee\<rparr>))"

definition trader_daily_history ::
  "(address \<times> u32) list \<Rightarrow> daily_stats_store \<Rightarrow> address \<Rightarrow> nat \<Rightarrow> daily_stats list" where
  "trader_daily_history ks s a limit =
     take limit (sort_desc ds_date (values_of (filter (\<lambda>k. fst k = a) ks) s))"

definition add_daily :: "daily_stats \<Rightarrow> daily_stats \<Rightarrow> daily_stats" where
  "add_daily s agg =
     agg\<lparr>ds_volume := ds_volume agg + ds_volume s, ds_pnl := ds_pnl agg + ds_pnl s,
         ds_trades := ds_trades agg + ds_trades s, ds_fees := ds_fees agg + ds_fees s\<rparr>"

definition protocol_daily :: "(address \<times> u32) list \<Rightarrow> daily_stats_store \<Rightarrow> u32 \<Rightarrow> daily_stats" where
  "protocol_daily ks s date =
     fold add_daily (values_of (filter (\<lambda>k. snd k = date) ks) s) (daily_zero date)"

definition unique_traders_on_date :: "(address \<times> u32) list \<Rightarrow> daily_stats_store \<Rightarrow> u32 \<Rightarrow> nat" where
  "unique_traders_on_date ks s date =
     length (filter (\<lambda>t. 0 < ds_trades t) (values_of (filter (\<lambda>k. snd k = date) ks) s))"

definition daily_count :: "daily_stats_store \<Rightarrow> nat" where
  "daily_count s = card (dom s)"

lemmas stats_op_defs [op_defs] =
  stats_ensure_def stats_update_def increment_trade_def increment_open_positions_def
  decrement_open_positions_def accumulate_trade_def set_trader_daily_def

section \<open>Lemmas\<close>

definition stats_ok :: "trader_stats_store \<Rightarrow> bool" where
  "stats_ok s \<longleftrightarrow> (\<forall>a t. s a = Some t \<longrightarrow> ts_address t = a)"

definition daily_ok :: "daily_stats_store \<Rightarrow> bool" where
  "daily_ok s \<longleftrightarrow> (\<forall>a d t. s (a, d) = Some t \<longrightarrow> ds_date t = d)"

lemma ts_address_bump_trade [simp]: "ts_address (bump_trade v p f w l t s) = ts_address s"
  by (simp add: bump_trade_def Let_def)

lemma stats_ok_ensure: "stats_ok s \<Longrightarrow> stats_ok (stats_ensure a s)"
  by (auto simp: stats_ok_def stats_ensure_def trader_stats_zero_def split: option.splits)

lemma stats_ok_increment_trade: "stats_ok s \<Longrightarrow> stats_ok (snd (increment_trade a v p f w l t s))"
  by (auto simp: stats_ok_def increment_trade_def split: option.splits)

lemma stats_ok_increment_open: "stats_ok s \<Longrightarrow> stats_ok (increment_open_positions a s)"
  by (auto simp: stats_ok_def increment_open_positions_def split: option.splits)

lemma stats_ok_decrement_open: "stats_ok s \<Longrightarrow> stats_ok (decrement_open_positions a s)"
  by (auto simp: stats_ok_def decrement_open_positions_def split: option.splits)

lemma daily_ok_accumulate: "daily_ok s \<Longrightarrow> daily_ok (accumulate_trade a d v p f s)"
  by (auto simp: daily_ok_def accumulate_trade_def split: option.splits)

lemma best_worst_bounds:
  "ts_best_trade_pnl (bump_trade v p f w l t s) = max (ts_best_trade_pnl s) p"
  "ts_worst_trade_pnl (bump_trade v p f w l t s) = min (ts_worst_trade_pnl s) p"
  by (auto simp: bump_trade_def Let_def max_def min_def)

lemma fold_add_daily:
  "ds_pnl (fold add_daily ts agg) = ds_pnl agg + sum_list (map ds_pnl ts)"
  "ds_volume (fold add_daily ts agg) = ds_volume agg + sum_list (map ds_volume ts)"
  "ds_fees (fold add_daily ts agg) = ds_fees agg + sum_list (map ds_fees ts)"
  "ds_trades (fold add_daily ts agg) = ds_trades agg + sum_list (map ds_trades ts)"
  "ds_date (fold add_daily ts agg) = ds_date agg"
  by (induction ts arbitrary: agg) (simp_all add: add_daily_def algebra_simps)

end
