(* ===== verification/Leaderboard.thy ===== *)
theory Leaderboard
  imports Stats
begin

text \<open>The cached leaderboards, \<open>src/aggregation/leaderboard.rs\<close>.\<close>

record leaderboard_entry =
  le_rank :: u32
  le_address :: address
  le_value :: i128
  le_total_trades :: u32
  le_win_count :: u32
  le_loss_count :: u32

record leaderboard_data =
  lb_entries :: "leaderboard_entry list"
  lb_last_rebuilt_at :: u64

record leaderboard =
  lb_pnl_board :: leaderboard_data
  lb_volume_board :: leaderboard_data
  lb_max_entries :: nat

definition leaderboard_data_default :: leaderboard_data where
  "leaderboard_data_default = \<lparr>lb_entries = [], lb_last_rebuilt_at = 0\<rparr>"

definition leaderboard_new :: "nat \<Rightarrow> leaderboard" where
  "leaderboard_new max_entries =
     \<lparr>lb_pnl_board = leaderboard_data_default, lb_volume_board = leaderboard_data_default,
      lb_max_entries = max_entries\<rparr>"

definition rebuild_pnl :: "trader_stats list \<Rightarrow> u64 \<Rightarrow> leaderboard \<Rightarrow> leaderboard" where
  "rebuild_pnl all_stats now lb =
     (let sorted = take (lb_max_entries lb) (sort_desc ts_total_pnl (filter (\<lambda>s. 0 < ts_total_trades s) all_stats));
          entries = map (\<lambda>(i, s).
            \<lparr>le_rank = word_of_nat (i + 1), le_address = ts_address s, le_value = ts_total_pnl s,
             le_total_trades = ts_total_trades s, le_win_count = ts_win_count s, le_loss_count = ts_loss_count s\<rparr>)
            (zip [0..<length sorted] sorted)
      in lb\<lparr>lb_pnl_board := \<lparr>lb_entries = entries, lb_last_rebuilt_at = now\<rparr>\<rparr>)"

definition rebuild_volume :: "trader_stats list \<Rightarrow> u64 \<Rightarrow> leaderboard \<Rightarrow> leaderboard" where
  "rebuild_volume all_stats now lb =
     (let sorted = take (lb_max_entries lb) (sort_desc ts_total_volume (filter (\<lambda>s. 0 < ts_total_trades s) all_stats));
          entries = map (\<lambda>(i, s).
            \<lparr>le_rank = word_of_nat (i + 1), le_address = ts_address s, le_value = ts_total_volume s,
             le_total_trades = ts_total_trades s, le_win_count = ts_win_count s, le_loss_count = ts_loss_count s\<rparr>)
            (zip [0..<length sorted] sorted)
      in lb\<lparr>lb_volume_board := \<lparr>lb_entries = entries, lb_last_rebuilt_at = now\<rparr>\<rparr>)"

definition leaderboard_rebuild :: "trader_stats list \<Rightarrow> u64 \<Rightarrow> leaderboard \<Rightarrow> leaderboard" where
  "leaderboard_rebuild all_stats now lb = rebuild_volume all_stats now (rebuild_pnl all_stats now lb)"

definition pnl_board :: "leaderboard \<Rightarrow> nat \<Rightarrow> leaderboard_entry list" where
  "pnl_board lb limit = take limit (lb_entries (lb_pnl_board lb))"

definition volume_board :: "leaderboard \<Rightarrow> nat \<Rightarrow> leaderboard_entry list" where
  "volume_board lb limit = take limit (lb_entries (lb_volume_board lb))"

definition pnl_last_rebuilt_at :: "leaderboard \<Rightarrow> u64" where
  "pnl_last_rebuilt_at lb = lb_last_rebuilt_at (lb_pnl_board lb)"

definition volume_last_rebuilt_at :: "leaderboard \<Rightarrow> u64" where
  "volume_last_rebuilt_at lb = lb_last_rebuilt_at (lb_volume_board lb)"

definition pnl_rank :: "leaderboard \<Rightarrow> address \<Rightarrow> u32 option" where
  "pnl_rank lb a = map_option le_rank (List.find (\<lambda>e. le_address e = a) (lb_entries (lb_pnl_board lb)))"

definition volume_rank :: "leaderboard \<Rightarrow> address \<Rightarrow> u32 option" where
  "volume_rank lb a = map_option le_rank (List.find (\<lambda>e. le_address e = a) (lb_entries (lb_volume_board lb)))"

section \<open>Both boards are rankings\<close>

text \<open>
  The contract of a board over a metric: the entries are the best traders with at least one
  trade, in descending order, ranked from 1.
\<close>

definition board_entry :: "(trader_stats \<Rightarrow> i128) \<Rightarrow> nat \<Rightarrow> trader_stats \<Rightarrow> leaderboard_entry" where
  "board_entry metric i s =
     \<lparr>le_rank = word_of_nat (i + 1), le_address = ts_address s, le_value = metric s,
      le_total_trades = ts_total_trades s, le_win_count = ts_win_count s, le_loss_count = ts_loss_count s\<rparr>"

definition ranked_by :: "(trader_stats \<Rightarrow> i128) \<Rightarrow> nat \<Rightarrow> trader_stats list \<Rightarrow> leaderboard_entry list \<Rightarrow> bool" where
  "ranked_by metric n all_stats es \<longleftrightarrow>
     (\<exists>chosen rest.
        mset (chosen @ rest) = mset (filter (\<lambda>s. 0 < ts_total_trades s) all_stats) \<and>
        length chosen = min n (length (filter (\<lambda>s. 0 < ts_total_trades s) all_stats)) \<and>
        sorted_wrt (\<lambda>a b. metric b \<le> metric a) chosen \<and>
        (\<forall>a \<in> set chosen. \<forall>b \<in> set rest. metric b \<le> metric a) \<and>
        es = map2 (board_entry metric) [0..<length chosen] chosen)"

lemma ranked_by_rebuild:
  defines "active all \<equiv> filter (\<lambda>s. 0 < ts_total_trades s) all"
  shows "ranked_by metric n all_stats
    (map2 (board_entry metric) [0..<length (take n (sort_desc metric (active all_stats)))]
       (take n (sort_desc metric (active all_stats))))"
proof -
  let ?xs = "sort_desc metric (active all_stats)"
  have "mset (take n ?xs @ drop n ?xs) = mset (active all_stats)"
    by (simp only: append_take_drop_id mset_sort_desc)
  moreover have "sorted_wrt (\<lambda>a b. metric b \<le> metric a) (take n ?xs)"
    by (rule sorted_wrt_take [OF sorted_sort_desc])
  moreover have "\<forall>a \<in> set (take n ?xs). \<forall>b \<in> set (drop n ?xs). metric b \<le> metric a"
    using sorted_wrt_take_drop [OF sorted_sort_desc] by fast
  ultimately show ?thesis
    unfolding ranked_by_def active_def [symmetric]
    by (intro exI [of _ "take n ?xs"] exI [of _ "drop n ?xs"]) (simp add: min.commute)
qed

lemma rebuild_pnl_ranked:
  "ranked_by ts_total_pnl (lb_max_entries lb) all_stats (lb_entries (lb_pnl_board (rebuild_pnl all_stats now lb)))"
  using ranked_by_rebuild [of ts_total_pnl "lb_max_entries lb" all_stats]
  by (simp add: rebuild_pnl_def Let_def board_entry_def)

lemma rebuild_volume_ranked:
  "ranked_by ts_total_volume (lb_max_entries lb) all_stats
     (lb_entries (lb_volume_board (rebuild_volume all_stats now lb)))"
  using ranked_by_rebuild [of ts_total_volume "lb_max_entries lb" all_stats]
  by (simp add: rebuild_volume_def Let_def board_entry_def)

lemma rebuild_frame [simp]:
  "lb_max_entries (rebuild_pnl st now lb) = lb_max_entries lb"
  "lb_max_entries (rebuild_volume st now lb) = lb_max_entries lb"
  "lb_pnl_board (rebuild_volume st now lb) = lb_pnl_board lb"
  by (simp_all add: rebuild_pnl_def rebuild_volume_def Let_def)

end
