(* ===== verification/Wal.thy ===== *)
theory Wal
  imports Core_Types
begin

text \<open>
  The write-ahead log, \<open>src/storage/wal.rs\<close>. A WAL directory is a map from file names to
  contents on disk. The serializer (\<open>bincode\<close>) and the checksum (\<open>crc32fast\<close>) are arguments
  \<open>ser\<close>, \<open>de\<close> and \<open>crc\<close>; the order in which \<open>read_dir\<close> lists the names, and whether the sync
  interval has elapsed at an append (\<open>due\<close>), are arguments too. System calls are taken to
  succeed; a crash is a segment cut at an arbitrary byte.
\<close>

section \<open>Entries and configuration\<close>

datatype wal_entry =
    WalIndexedEvent indexed_event
  | WalPriceTick u64 u16 f64
      \<comment> \<open>timestamp_ns, market_id, price\<close>
  | WalCandleUpdate u64 u16 u8 f64 f64 f64 f64 f32
      \<comment> \<open>timestamp_ns, market_id, timeframe, open, high, low, close, volume\<close>
  | WalBalanceUpdate address address i128 i128 i128
      \<comment> \<open>user, token, amount, locked, available\<close>
  | WalCheckpoint u64
  | WalBatchEnd

datatype sync_policy = EveryWrite | Interval u64 | NoSync

record wal_config =
  wc_max_segment_size :: u64
  wc_sync_policy :: sync_policy

definition wal_config_default :: wal_config where
  "wal_config_default = \<lparr>wc_max_segment_size = 64 * 1024 * 1024, wc_sync_policy = Interval 10\<rparr>"

definition ENTRY_HEADER_SIZE :: nat where
  "ENTRY_HEADER_SIZE = 8"

definition MAX_ENTRY_LEN :: nat where
  "MAX_ENTRY_LEN = 128 * 1024 * 1024"

section \<open>Segment files\<close>

type_synonym dir = "string \<rightharpoonup> u8 list"

definition segment_path :: "u64 \<Rightarrow> string" where
  "segment_path i = ''wal_'' @ pad0 8 (show_nat (unat i)) @ ''.bin''"

definition strip_prefix :: "string \<Rightarrow> string \<Rightarrow> string option" where
  "strip_prefix p s = (if take (length p) s = p then Some (drop (length p) s) else None)"

definition strip_suffix :: "string \<Rightarrow> string \<Rightarrow> string option" where
  "strip_suffix p s =
     (if length p \<le> length s \<and> drop (length s - length p) s = p
      then Some (take (length s - length p) s) else None)"

text \<open>The id in a file name \<open>prefix<digits>.bin\<close>, as WAL segments and snapshots are named.\<close>

definition parse_numbered :: "string \<Rightarrow> string \<Rightarrow> u64 option" where
  "parse_numbered prefix name =
     Option.bind (strip_prefix prefix name) (\<lambda>s.
     Option.bind (strip_suffix ''.bin'' s) (\<lambda>num.
     map_option word_of_nat (parse_unsigned (2 ^ 64) num)))"

definition list_segments :: "string list \<Rightarrow> u64 list" where
  "list_segments names = List.map_filter (parse_numbered ''wal_'') names"

definition find_latest_segment :: "string list \<Rightarrow> u64" where
  "find_latest_segment names = fold max (list_segments names) 0"

section \<open>Writer\<close>

text \<open>\<open>ww_buf\<close> holds the bytes the \<open>BufWriter\<close> has not handed to the file yet.\<close>

record wal_writer =
  ww_config :: wal_config
  ww_current_segment :: u64
  ww_buf :: "u8 list"
  ww_segment_bytes :: u64

type_synonym wal_state = "wal_writer \<times> dir"

definition BUF_CAPACITY :: nat where
  "BUF_CAPACITY = 64 * 1024"

definition open_append :: "string \<Rightarrow> dir \<Rightarrow> dir" where
  "open_append path d = (case d path of None \<Rightarrow> d(path \<mapsto> []) | Some _ \<Rightarrow> d)"

definition disk_append :: "string \<Rightarrow> u8 list \<Rightarrow> dir \<Rightarrow> dir" where
  "disk_append path bs d = d(path \<mapsto> (case d path of None \<Rightarrow> [] | Some c \<Rightarrow> c) @ bs)"

definition flush_buf :: "wal_state \<Rightarrow> wal_state" where
  "flush_buf = (\<lambda>(w, d).
     (w\<lparr>ww_buf := []\<rparr>, disk_append (segment_path (ww_current_segment w)) (ww_buf w) d))"

text \<open>\<open>BufWriter::write_all\<close>.\<close>

definition write_all :: "u8 list \<Rightarrow> wal_state \<Rightarrow> wal_state" where
  "write_all data st =
     (let spare = (\<lambda>st. BUF_CAPACITY - length (ww_buf (fst st)))
      in if length data < spare st
         then ((fst st)\<lparr>ww_buf := ww_buf (fst st) @ data\<rparr>, snd st)
         else (let st1 = (if spare st < length data then flush_buf st else st)
               in if BUF_CAPACITY \<le> length data
                  then (fst st1, disk_append (segment_path (ww_current_segment (fst st1))) data (snd st1))
                  else ((fst st1)\<lparr>ww_buf := ww_buf (fst st1) @ data\<rparr>, snd st1)))"

definition wal_open :: "wal_config \<Rightarrow> string list \<Rightarrow> dir \<Rightarrow> wal_state" where
  "wal_open config names d =
     (let current_segment = find_latest_segment names;
          path = segment_path current_segment;
          d' = open_append path d
      in (\<lparr>ww_config = config, ww_current_segment = current_segment, ww_buf = [],
           ww_segment_bytes = word_of_nat (case d' path of None \<Rightarrow> 0 | Some c \<Rightarrow> length c)\<rparr>, d'))"

definition wal_sync :: "wal_state \<Rightarrow> wal_state" where
  "wal_sync st = flush_buf st"

definition wal_rotate :: "wal_state \<Rightarrow> wal_state" where
  "wal_rotate st =
     (let (w, d) = wal_sync st;
          current = ww_current_segment w + 1
      in (w\<lparr>ww_current_segment := current, ww_buf := [], ww_segment_bytes := 0\<rparr>,
          open_append (segment_path current) d))"

definition wal_append ::
  "(wal_entry \<Rightarrow> u8 list option) \<Rightarrow> (u8 list \<Rightarrow> u32) \<Rightarrow> bool \<Rightarrow> wal_entry \<Rightarrow> wal_state \<Rightarrow>
     unit result \<times> wal_state" where
  "wal_append ser crc due e st =
     (case ser e of
        None \<Rightarrow> (Inl (Serialization ''WAL entry serialize'' ''''), st)
      | Some payload \<Rightarrow>
          (let len = word_of_nat (length payload) :: u32;
               st1 = write_all payload (write_all (u32_to_le (crc payload)) (write_all (u32_to_le len) st));
               st2 = ((fst st1)\<lparr>ww_segment_bytes := ww_segment_bytes (fst st1) +
                        word_of_nat ENTRY_HEADER_SIZE + word_of_nat (length payload)\<rparr>, snd st1);
               st3 = (case wc_sync_policy (ww_config (fst st2)) of
                        EveryWrite \<Rightarrow> wal_sync st2
                      | Interval _ \<Rightarrow> if due then wal_sync st2 else st2
                      | NoSync \<Rightarrow> st2);
               st4 = (if wc_max_segment_size (ww_config (fst st3)) \<le> ww_segment_bytes (fst st3)
                      then wal_rotate st3 else st3)
           in (Inr (), st4)))"

section \<open>Replay\<close>

text \<open>
  The loop over one segment, on the bytes from the current position to the end: the
  entries it hands to the callback.
\<close>

function replay_bytes ::
  "(u8 list \<Rightarrow> wal_entry option) \<Rightarrow> (u8 list \<Rightarrow> u32) \<Rightarrow> u8 list \<Rightarrow> wal_entry list" where
  "replay_bytes de crc bs =
     (if length bs < ENTRY_HEADER_SIZE then []
      else let len = unat (u32_from_le (take 4 bs));
               expected_crc = u32_from_le (take 4 (drop 4 bs))
           in if MAX_ENTRY_LEN < len then []
              else if length bs < ENTRY_HEADER_SIZE + len then []
              else let payload = take len (drop ENTRY_HEADER_SIZE bs)
                   in if crc payload \<noteq> expected_crc then []
                      else case de payload of
                             None \<Rightarrow> []
                           | Some entry \<Rightarrow>
                               entry # replay_bytes de crc (drop (ENTRY_HEADER_SIZE + len) bs))"
  by pat_completeness auto
termination
  by (relation "measure (\<lambda>(de, crc, bs). length bs)") (auto simp: ENTRY_HEADER_SIZE_def)

declare replay_bytes.simps [simp del]

fun run_callback ::
  "(wal_entry \<Rightarrow> 's \<Rightarrow> 's result) \<Rightarrow> wal_entry list \<Rightarrow> u64 \<times> 's \<Rightarrow> (u64 \<times> 's) result" where
  "run_callback cb [] acc = Inr acc"
| "run_callback cb (e # es) acc =
     (case cb e (snd acc) of Inl err \<Rightarrow> Inl err | Inr s \<Rightarrow> run_callback cb es (fst acc + 1, s))"

fun replay_segments ::
  "(u8 list \<Rightarrow> wal_entry option) \<Rightarrow> (u8 list \<Rightarrow> u32) \<Rightarrow> (wal_entry \<Rightarrow> 's \<Rightarrow> 's result) \<Rightarrow> dir \<Rightarrow>
     u64 list \<Rightarrow> u64 \<times> 's \<Rightarrow> (u64 \<times> 's) result" where
  "replay_segments de crc cb d [] acc = Inr acc"
| "replay_segments de crc cb d (i # is) acc =
     (case d (segment_path i) of
        None \<Rightarrow> Inl (Io (''open WAL segment for replay: '' @ segment_path i))
      | Some bs \<Rightarrow>
          (case run_callback cb (replay_bytes de crc bs) acc of
             Inl err \<Rightarrow> Inl err
           | Inr acc' \<Rightarrow> replay_segments de crc cb d is acc'))"

definition wal_replay ::
  "(u8 list \<Rightarrow> wal_entry option) \<Rightarrow> (u8 list \<Rightarrow> u32) \<Rightarrow> (wal_entry \<Rightarrow> 's \<Rightarrow> 's result) \<Rightarrow> string list \<Rightarrow>
     dir \<Rightarrow> 's \<Rightarrow> (u64 \<times> 's) result" where
  "wal_replay de crc cb names d s = replay_segments de crc cb d (sort (list_segments names)) (0, s)"

text \<open>\<open>truncate_before\<close>: removal of a segment file that is not there is an I/O error.\<close>

fun remove_segments :: "u64 \<Rightarrow> u64 list \<Rightarrow> u64 \<times> dir \<Rightarrow> (u64 \<times> dir) result" where
  "remove_segments keep_from [] acc = Inr acc"
| "remove_segments keep_from (i # is) acc =
     (if i < keep_from
      then (case snd acc (segment_path i) of
              None \<Rightarrow> Inl (Io (''remove WAL segment: '' @ segment_path i))
            | Some _ \<Rightarrow> remove_segments keep_from is (fst acc + 1, (snd acc)(segment_path i := None)))
      else remove_segments keep_from is acc)"

definition truncate_before :: "u64 \<Rightarrow> string list \<Rightarrow> dir \<Rightarrow> (u64 \<times> dir) result" where
  "truncate_before keep_from names d = remove_segments keep_from (list_segments names) (0, d)"

section \<open>Frames\<close>

text \<open>The bytes of one entry: length, checksum, payload.\<close>

definition frame :: "(u8 list \<Rightarrow> u32) \<Rightarrow> u8 list \<Rightarrow> u8 list" where
  "frame crc p = u32_to_le (word_of_nat (length p)) @ u32_to_le (crc p) @ p"

text \<open>
  What the log needs of the serializer at an entry: it succeeds, the bytes read back as the
  entry, and they fit the size limit of replay.
\<close>

definition entry_codec_ok ::
  "(wal_entry \<Rightarrow> u8 list option) \<Rightarrow> (u8 list \<Rightarrow> wal_entry option) \<Rightarrow> wal_entry \<Rightarrow> bool" where
  "entry_codec_ok ser de e \<longleftrightarrow>
     (case ser e of None \<Rightarrow> False | Some p \<Rightarrow> de p = Some e \<and> length p \<le> MAX_ENTRY_LEN)"

definition frames :: "(wal_entry \<Rightarrow> u8 list option) \<Rightarrow> (u8 list \<Rightarrow> u32) \<Rightarrow> wal_entry list \<Rightarrow> u8 list" where
  "frames ser crc es = concat (map (\<lambda>e. frame crc (the (ser e))) es)"

text \<open>The entries whose frames lie wholly in the first \<open>n\<close> bytes.\<close>

fun complete_entries ::
  "(wal_entry \<Rightarrow> u8 list option) \<Rightarrow> (u8 list \<Rightarrow> u32) \<Rightarrow> nat \<Rightarrow> wal_entry list \<Rightarrow> wal_entry list" where
  "complete_entries ser crc n [] = []"
| "complete_entries ser crc n (e # es) =
     (let k = length (frame crc (the (ser e)))
      in if k \<le> n then e # complete_entries ser crc (n - k) es else [])"

lemma length_frame [simp]: "length (frame crc p) = ENTRY_HEADER_SIZE + length p"
  by (simp add: frame_def ENTRY_HEADER_SIZE_def)

lemma frames_simps [simp]:
  "frames ser crc [] = []"
  "frames ser crc (e # es) = frame crc (the (ser e)) @ frames ser crc es"
  by (simp_all add: frames_def)

lemma frames_append [simp]: "frames ser crc (xs @ ys) = frames ser crc xs @ frames ser crc ys"
  by (simp add: frames_def)

lemma entry_codec_okD:
  assumes "entry_codec_ok ser de e"
  obtains p where "ser e = Some p" "de p = Some e" "length p \<le> MAX_ENTRY_LEN"
  using assms by (auto simp: entry_codec_ok_def split: option.splits)

lemma unat_entry_len: "length p \<le> MAX_ENTRY_LEN \<Longrightarrow> unat (word_of_nat (length p) :: u32) = length p"
  by (simp add: unat_of_nat MAX_ENTRY_LEN_def)

lemma frame_parts:
  assumes "length p \<le> MAX_ENTRY_LEN"
  shows "unat (u32_from_le (take 4 (frame crc p @ rest))) = length p"
    and "u32_from_le (take 4 (drop 4 (frame crc p @ rest))) = crc p"
    and "take (length p) (drop ENTRY_HEADER_SIZE (frame crc p @ rest)) = p"
    and "drop (ENTRY_HEADER_SIZE + length p) (frame crc p @ rest) = rest"
  using assms by (simp_all add: frame_def ENTRY_HEADER_SIZE_def unat_entry_len)

lemma replay_frame:
  assumes "de p = Some e" "length p \<le> MAX_ENTRY_LEN"
  shows "replay_bytes de crc (frame crc p @ rest) = e # replay_bytes de crc rest"
  using assms
  by (subst replay_bytes.simps) (simp add: frame_parts Let_def del: take_append drop_append)

lemma replay_frames:
  "\<forall>e \<in> set es. entry_codec_ok ser de e \<Longrightarrow>
    replay_bytes de crc (frames ser crc es @ rest) = es @ replay_bytes de crc rest"
proof (induction es)
  case (Cons e es)
  then obtain p where "ser e = Some p" "de p = Some e" "length p \<le> MAX_ENTRY_LEN"
    by (auto elim: entry_codec_okD)
  with Cons show ?case by (simp add: replay_frame)
qed simp

lemma replay_empty [simp]: "replay_bytes de crc [] = []"
  by (subst replay_bytes.simps) (simp add: ENTRY_HEADER_SIZE_def)

text \<open>A frame cut short yields nothing: either its header or its payload is missing bytes.\<close>

lemma take_frame_len:
  assumes "ENTRY_HEADER_SIZE \<le> n" "length p \<le> MAX_ENTRY_LEN"
  shows "unat (u32_from_le (take (min 4 n) (frame crc p))) = length p"
  using assms by (simp add: frame_def ENTRY_HEADER_SIZE_def unat_entry_len min_def)

lemma replay_torn_frame:
  assumes "n < length (frame crc p)" "length p \<le> MAX_ENTRY_LEN"
  shows "replay_bytes de crc (take n (frame crc p)) = []"
proof (cases "n < ENTRY_HEADER_SIZE")
  case True
  then show ?thesis by (subst replay_bytes.simps) simp
next
  case False
  with assms show ?thesis
    by (subst replay_bytes.simps) (simp add: take_frame_len Let_def)
qed

lemma replay_truncated:
  "\<forall>e \<in> set es. entry_codec_ok ser de e \<Longrightarrow>
    replay_bytes de crc (take n (frames ser crc es)) = complete_entries ser crc n es"
proof (induction es arbitrary: n)
  case (Cons e es)
  then obtain p where p: "ser e = Some p" "de p = Some e" "length p \<le> MAX_ENTRY_LEN"
    by (auto elim: entry_codec_okD)
  show ?case
  proof (cases "length (frame crc p) \<le> n")
    case True
    with Cons p show ?thesis by (simp add: replay_frame Let_def)
  next
    case False
    with p replay_torn_frame [of n crc p de] show ?thesis by (simp add: Let_def)
  qed
qed simp

lemma complete_entries_take: "\<exists>k. complete_entries ser crc n es = take k es"
proof (induction es arbitrary: n)
  case (Cons e es)
  let ?k = "length (frame crc (the (ser e)))"
  from Cons.IH [of "n - ?k"] obtain k where "complete_entries ser crc (n - ?k) es = take k es" by blast
  then show ?case
    by (cases "?k \<le> n") (auto intro: exI [of _ "Suc k"] exI [of _ 0])
qed simp

lemma complete_entries_all: "length (frames ser crc es) \<le> n \<Longrightarrow> complete_entries ser crc n es = es"
  by (induction es arbitrary: n) (auto simp: Let_def)

section \<open>Segment names\<close>

lemma parse_numbered_name [simp]:
  "parse_numbered pre (pre @ pad0 w (show_nat (unat (i :: u64))) @ ''.bin'') = Some i"
proof -
  have "unat i < 2 ^ 64" using unsigned_less [of i, where 'a = nat] by simp
  then show ?thesis by (simp add: parse_numbered_def strip_prefix_def strip_suffix_def)
qed

lemma parse_segment_path [simp]: "parse_numbered ''wal_'' (segment_path i) = Some i"
  unfolding segment_path_def by (rule parse_numbered_name)

lemma segment_path_inj [simp]: "segment_path i = segment_path j \<longleftrightarrow> i = j"
  by (metis option.inject parse_segment_path)

lemma list_segments_paths: "list_segments (map segment_path is) = is"
  by (induction "is") (simp_all add: list_segments_def map_filter_simps)

text \<open>A directory that holds segment files only, listed in any order, gives the segment ids.\<close>

lemma list_segments_enumerates:
  assumes "enumerates names (segment_path ` A)"
  shows "enumerates (list_segments names) A"
proof -
  have sub: "set names \<subseteq> segment_path ` A" using assms by (simp add: enumerates_def)
  have eq: "names = map segment_path (list_segments names)" using sub
    by (induction names) (auto simp: list_segments_def map_filter_simps)
  have "distinct (map segment_path (list_segments names))"
    using assms eq by (simp add: enumerates_def)
  then have "distinct (list_segments names)" by (simp only: distinct_map)
  moreover have "segment_path ` set (list_segments names) = segment_path ` A"
    using assms eq by (metis enumerates_def image_set)
  moreover have "inj segment_path" by (simp add: inj_def)
  ultimately show ?thesis by (simp add: enumerates_def inj_image_eq_iff)
qed

end
