(* ===== verification/Snapshot.thy ===== *)
theory Snapshot
  imports Wal Market_State Checkpoint
begin

text \<open>
  State snapshots on disk, \<open>src/storage/snapshot.rs\<close>. The directory is a map from file names to
  contents and \<open>names\<close> is the order in which \<open>read_dir\<close> lists it; \<open>ser\<close> and \<open>de\<close> stand for
  \<open>bincode\<close> on \<open>StateSnapshot\<close>. A directory that does not exist is an empty one.
\<close>

record snapshot_checkpoint =
  sc_last_block :: u64
  sc_last_block_hash :: string
  sc_last_block_timestamp :: u64

definition snapshot_checkpoint_of :: "checkpoint_snapshot \<Rightarrow> snapshot_checkpoint" where
  "snapshot_checkpoint_of cp =
     \<lparr>sc_last_block = cs_last_block cp, sc_last_block_hash = cs_last_block_hash cp,
      sc_last_block_timestamp = cs_last_block_timestamp cp\<rparr>"

record daily_stats_entry =
  de_address :: address
  de_stats :: daily_stats

record snapshot_market_state =
  sm_market_id :: market_id
  sm_latest_price :: f64
  sm_last_update_ns :: u64
  sm_mark_price :: "i128 option"
  sm_index_price :: "i128 option"
  sm_funding_rate_per_second :: i128
  sm_funding_rate_24h :: i128
  sm_long_oi :: i128
  sm_short_oi :: i128
  sm_enabled :: bool
  sm_paused :: bool
  sm_max_leverage :: "i128 option"
  sm_maintenance_margin_bps :: "u32 option"
  sm_volume_24h :: "i128 option"
  sm_trades_24h :: "u32 option"
  sm_price_change_24h :: "i128 option"
  sm_price_change_pct_24h :: "i128 option"

definition snapshot_market_state_of :: "market_snapshot \<Rightarrow> snapshot_market_state" where
  "snapshot_market_state_of ms =
     \<lparr>sm_market_id = ms_market_id ms, sm_latest_price = ms_latest_price ms,
      sm_last_update_ns = ms_last_update_ns ms, sm_mark_price = ms_mark_price ms,
      sm_index_price = ms_index_price ms, sm_funding_rate_per_second = ms_funding_rate_per_second ms,
      sm_funding_rate_24h = ms_funding_rate_24h ms, sm_long_oi = ms_long_oi ms, sm_short_oi = ms_short_oi ms,
      sm_enabled = ms_enabled ms, sm_paused = ms_paused ms, sm_max_leverage = ms_max_leverage ms,
      sm_maintenance_margin_bps = ms_maintenance_margin_bps ms, sm_volume_24h = ms_volume_24h ms,
      sm_trades_24h = ms_trades_24h ms, sm_price_change_24h = ms_price_change_24h ms,
      sm_price_change_pct_24h = ms_price_change_pct_24h ms\<rparr>"

record state_snapshot =
  ss_checkpoint :: snapshot_checkpoint
  ss_positions :: "position list"
  ss_orders :: "order list"
  ss_balances :: "balance list"
  ss_users :: "user list"
  ss_trader_stats :: "trader_stats list"
  ss_daily_stats :: "daily_stats_entry list"
  ss_market_states :: "snapshot_market_state list"
  ss_snapshot_timestamp :: u64

definition snapshot_filename :: "u64 \<Rightarrow> string" where
  "snapshot_filename block = ''snapshot_'' @ pad0 12 (show_nat (unat block)) @ ''.bin''"

text \<open>\<open>fs::write\<close> creates or replaces the file.\<close>

definition write_snapshot ::
  "(state_snapshot \<Rightarrow> u8 list option) \<Rightarrow> state_snapshot \<Rightarrow> dir \<Rightarrow> string result \<times> dir" where
  "write_snapshot ser snapshot d =
     (let path = snapshot_filename (sc_last_block (ss_checkpoint snapshot))
      in case ser snapshot of
           None \<Rightarrow> (Inl (Serialization ''snapshot serialize'' ''''), d)
         | Some data \<Rightarrow> (Inr path, d(path \<mapsto> data)))"

definition list_snapshots :: "string list \<Rightarrow> (u64 \<times> string) list" where
  "list_snapshots names =
     List.map_filter (\<lambda>name. map_option (\<lambda>block. (block, name)) (parse_numbered ''snapshot_'' name)) names"

text \<open>\<open>fs::read\<close> and \<open>bincode::deserialize\<close> of one file.\<close>

definition read_snapshot :: "(u8 list \<Rightarrow> state_snapshot option) \<Rightarrow> dir \<Rightarrow> string \<Rightarrow> state_snapshot result" where
  "read_snapshot de d path =
     (case d path of
        None \<Rightarrow> Inl (Io (''read snapshot: '' @ path))
      | Some data \<Rightarrow>
          (case de data of
             None \<Rightarrow> Inl (Serialization ''snapshot deserialize'' '''')
           | Some snapshot \<Rightarrow> Inr snapshot))"

definition load_latest_snapshot ::
  "(u8 list \<Rightarrow> state_snapshot option) \<Rightarrow> string list \<Rightarrow> dir \<Rightarrow> state_snapshot option result" where
  "load_latest_snapshot de names d =
     (case sort_desc fst (list_snapshots names) of
        [] \<Rightarrow> Inr None
      | (block, path) # _ \<Rightarrow>
          (case read_snapshot de d path of Inl e \<Rightarrow> Inl e | Inr snapshot \<Rightarrow> Inr (Some snapshot)))"

definition load_snapshot :: "(u8 list \<Rightarrow> state_snapshot option) \<Rightarrow> dir \<Rightarrow> u64 \<Rightarrow> state_snapshot option result" where
  "load_snapshot de d block =
     (let path = snapshot_filename block
      in if d path = None then Inr None
         else (case read_snapshot de d path of Inl e \<Rightarrow> Inl e | Inr snapshot \<Rightarrow> Inr (Some snapshot)))"

fun remove_snapshots :: "u64 \<Rightarrow> (u64 \<times> string) list \<Rightarrow> u64 \<times> dir \<Rightarrow> (u64 \<times> dir) result" where
  "remove_snapshots keep_from [] acc = Inr acc"
| "remove_snapshots keep_from ((block, path) # rest) acc =
     (if block < keep_from
      then (case snd acc path of
              None \<Rightarrow> Inl (Io (''remove snapshot: '' @ path))
            | Some _ \<Rightarrow> remove_snapshots keep_from rest (fst acc + 1, (snd acc)(path := None)))
      else remove_snapshots keep_from rest acc)"

definition cleanup_snapshots :: "u64 \<Rightarrow> string list \<Rightarrow> dir \<Rightarrow> (u64 \<times> dir) result" where
  "cleanup_snapshots keep_from names d = remove_snapshots keep_from (list_snapshots names) (0, d)"

section \<open>Lemmas\<close>

lemma parse_snapshot_filename [simp]: "parse_numbered ''snapshot_'' (snapshot_filename i) = Some i"
  unfolding snapshot_filename_def by (rule parse_numbered_name)

lemma snapshot_filename_inj [simp]: "snapshot_filename i = snapshot_filename j \<longleftrightarrow> i = j"
  by (metis option.inject parse_snapshot_filename)

lemma in_list_snapshots:
  "(b, p) \<in> set (list_snapshots names) \<longleftrightarrow> p \<in> set names \<and> parse_numbered ''snapshot_'' p = Some b"
  by (induction names) (auto simp: list_snapshots_def map_filter_simps split: option.splits)

text \<open>A directory in which the only file of a block number is the one named for it.\<close>

definition snapshot_dir_ok :: "dir \<Rightarrow> bool" where
  "snapshot_dir_ok d \<longleftrightarrow>
     (\<forall>p b. d p \<noteq> None \<longrightarrow> parse_numbered ''snapshot_'' p = Some b \<longrightarrow> p = snapshot_filename b)"

lemma snapshot_dir_ok_write:
  assumes "snapshot_dir_ok d"
  shows "snapshot_dir_ok (snd (write_snapshot ser s d))"
  using assms by (auto simp: snapshot_dir_ok_def write_snapshot_def Let_def split: option.splits)

text \<open>What \<open>load_latest_snapshot\<close> reads: the file of the greatest block number.\<close>

lemma load_latest_max:
  assumes ok: "snapshot_dir_ok d" and names: "enumerates names (dom d)"
    and b: "d (snapshot_filename b) \<noteq> None" and mx: "\<And>c. d (snapshot_filename c) \<noteq> None \<Longrightarrow> c \<le> b"
  shows "load_latest_snapshot de names d =
    (case read_snapshot de d (snapshot_filename b) of Inl e \<Rightarrow> Inl e | Inr s \<Rightarrow> Inr (Some s))"
proof -
  let ?l = "sort_desc fst (list_snapshots names)"
  have mem: "(c, p) \<in> set ?l \<longleftrightarrow> d p \<noteq> None \<and> p = snapshot_filename c" for c p
    using ok names by (auto simp: in_list_snapshots snapshot_dir_ok_def enumerates_def domIff)
  have "(b, snapshot_filename b) \<in> set ?l" using b by (simp only: mem) simp
  then obtain c p rest where l: "?l = (c, p) # rest" by (cases ?l) auto
  have "b \<le> c"
    using sorted_sort_desc [of fst "list_snapshots names"] \<open>(b, snapshot_filename b) \<in> set ?l\<close>
    by (auto simp: l)
  moreover have cp: "d p \<noteq> None" "p = snapshot_filename c" using mem [of c p] by (auto simp: l)
  moreover have "c \<le> b" using mx [of c] cp by simp
  ultimately show ?thesis by (simp add: load_latest_snapshot_def l)
qed

text \<open>Cleaning up removes the older files and nothing else.\<close>

lemma remove_snapshots_ok:
  assumes "distinct (map snd xs)" "\<And>b p. (b, p) \<in> set xs \<Longrightarrow> d p \<noteq> None"
  shows "\<exists>n. remove_snapshots keep xs (k, d) =
    Inr (n, \<lambda>p. if \<exists>b. (b, p) \<in> set xs \<and> b < keep then None else d p)"
  using assms
proof (induction xs arbitrary: k d)
  case (Cons x xs)
  obtain b p where x: "x = (b, p)" by (cases x)
  have p: "d p \<noteq> None" using Cons.prems(2) [of b p] by (simp add: x)
  have fresh: "(c, p) \<notin> set xs" for c using Cons.prems(1) by (force simp: x)
  show ?case
  proof (cases "b < keep")
    case True
    have "\<exists>n. remove_snapshots keep xs (k + 1, d(p := None)) =
        Inr (n, \<lambda>q. if \<exists>b. (b, q) \<in> set xs \<and> b < keep then None else (d(p := None)) q)"
      using Cons.prems fresh by (intro Cons.IH) (auto simp: x)
    moreover have "(\<lambda>q. if \<exists>b. (b, q) \<in> set xs \<and> b < keep then None else (d(p := None)) q) =
        (\<lambda>q. if \<exists>b. (b, q) \<in> set (x # xs) \<and> b < keep then None else d q)"
    proof
      fix q
      show "(if \<exists>b. (b, q) \<in> set xs \<and> b < keep then None else (d(p := None)) q) =
          (if \<exists>b. (b, q) \<in> set (x # xs) \<and> b < keep then None else d q)"
        using True by (cases "q = p") (auto simp: x)
    qed
    ultimately show ?thesis using True p by (auto simp: x)
  next
    case False
    have "\<exists>n. remove_snapshots keep xs (k, d) =
        Inr (n, \<lambda>q. if \<exists>b. (b, q) \<in> set xs \<and> b < keep then None else d q)"
      using Cons.prems by (intro Cons.IH) (auto simp: x)
    moreover have "(\<exists>b'. (b', q) \<in> set (x # xs) \<and> b' < keep) \<longleftrightarrow> (\<exists>b'. (b', q) \<in> set xs \<and> b' < keep)" for q
      using False by (auto simp: x)
    ultimately show ?thesis using False by (simp add: x)
  qed
qed simp

lemma distinct_list_snapshots: "distinct names \<Longrightarrow> distinct (map snd (list_snapshots names))"
proof (induction names)
  case (Cons a names)
  have "snd ` set (list_snapshots names) \<subseteq> set names" by (auto simp: in_list_snapshots)
  with Cons show ?case by (auto simp: list_snapshots_def map_filter_simps split: option.splits)
qed (simp add: list_snapshots_def map_filter_simps)

lemma cleanup_snapshots_ok:
  assumes ok: "snapshot_dir_ok d" and names: "enumerates names (dom d)"
  shows "\<exists>n d'. cleanup_snapshots keep names d = Inr (n, d') \<and>
    (\<forall>b. d' (snapshot_filename b) = (if b < keep then None else d (snapshot_filename b))) \<and>
    (\<forall>p. parse_numbered ''snapshot_'' p = None \<longrightarrow> d' p = d p)"
proof -
  let ?d = "\<lambda>p. if \<exists>b. (b, p) \<in> set (list_snapshots names) \<and> b < keep then None else d p"
  have "\<exists>n. remove_snapshots keep (list_snapshots names) (0, d) = Inr (n, ?d)"
    using names by (intro remove_snapshots_ok) (auto simp: distinct_list_snapshots in_list_snapshots enumerates_def)
  moreover have "?d (snapshot_filename b) = (if b < keep then None else d (snapshot_filename b))" for b
    using names by (auto simp: in_list_snapshots enumerates_def domIff)
  moreover have "?d p = d p" if "parse_numbered ''snapshot_'' p = None" for p
    using that by (auto simp: in_list_snapshots)
  ultimately show ?thesis by (auto simp: cleanup_snapshots_def)
qed

end
