(* ===== verification/Mmap.thy ===== *)
theory Mmap
  imports Core_Types
begin

text \<open>
  The memory-mapped record file, \<open>src/storage/mmap.rs\<close>. The mapping is shared, so its bytes
  are also the bytes of the file. An index or slice outside the mapping panics
  (\<open>None\<close>); \<open>set_len\<close>, the mapping calls and the flushes are taken to succeed.
\<close>

definition INITIAL_FILE_SIZE :: u64 where
  "INITIAL_FILE_SIZE = 4 * 1024 * 1024"

definition HEADER_SIZE :: u64 where
  "HEADER_SIZE = 8"

record mmap_file =
  mf_mmap :: "u8 list"
  mf_logical_len :: u64
  mf_capacity :: u64

text \<open>\<open>File::set_len\<close>: cut, or extend with zeros.\<close>

definition resize :: "nat \<Rightarrow> u8 list \<Rightarrow> u8 list" where
  "resize n xs = take n xs @ replicate (n - length xs) 0"

text \<open>\<open>&xs[a..b]\<close> and \<open>xs[a..a + data.len()].copy_from_slice(data)\<close>.\<close>

definition slice :: "nat \<Rightarrow> nat \<Rightarrow> 'a list \<Rightarrow> 'a list panicking" where
  "slice a b xs = (if a \<le> b \<and> b \<le> length xs then Some (take (b - a) (drop a xs)) else None)"

definition copy_at :: "nat \<Rightarrow> 'a list \<Rightarrow> 'a list \<Rightarrow> 'a list panicking" where
  "copy_at a data xs =
     (if a + length data \<le> length xs then Some (take a xs @ data @ drop (a + length data) xs) else None)"

definition sat_mul :: "u64 \<Rightarrow> u64 \<Rightarrow> u64" where
  "sat_mul a b = (if unat a * unat b < 2 ^ 64 then a * b else - 1)"

text \<open>\<open>file\<close>: the content of the file at the path, if there is one.\<close>

definition mmap_open :: "u8 list option \<Rightarrow> bool \<Rightarrow> mmap_file result panicking" where
  "mmap_open file create =
     (case (if file = None \<and> create then Some [] else file) of
        None \<Rightarrow> Some (Inl (Io ''open mmap file''))
      | Some bytes \<Rightarrow>
          (let mm = (if length bytes = 0 then resize (unat (HEADER_SIZE + INITIAL_FILE_SIZE)) bytes
                     else bytes);
               total_len = word_of_nat (length mm) :: u64
           in if length bytes = 0
              then Some (Inr \<lparr>mf_mmap = mm, mf_logical_len = 0, mf_capacity = total_len - HEADER_SIZE\<rparr>)
              else (case slice 0 8 mm of
                      None \<Rightarrow> None
                    | Some header \<Rightarrow>
                        Some (Inr \<lparr>mf_mmap = mm, mf_logical_len = u64_from_le header,
                                   mf_capacity = total_len - HEADER_SIZE\<rparr>))))"

definition mmap_len :: "mmap_file \<Rightarrow> u64" where
  "mmap_len f = mf_logical_len f"

definition mmap_is_empty :: "mmap_file \<Rightarrow> bool" where
  "mmap_is_empty f \<longleftrightarrow> mmap_len f = 0"

text \<open>The loop of \<open>grow\<close>.\<close>

lemma grow_step_increases:
  assumes "(cap :: u64) < needed"
  shows "cap < max (sat_mul cap 2) INITIAL_FILE_SIZE"
proof (cases "unat cap * 2 < 2 ^ 64")
  case True
  then have "unat (sat_mul cap 2) = unat cap * 2" by (simp add: sat_mul_def unat_word_ariths)
  then have "cap < sat_mul cap 2 \<or> cap < INITIAL_FILE_SIZE"
    by (cases "cap = 0") (auto simp: word_less_nat_alt INITIAL_FILE_SIZE_def unat_eq_0 unat_gt_0)
  then show ?thesis by (simp add: less_max_iff_disj)
next
  case False
  then have "sat_mul cap 2 = - 1" by (simp add: sat_mul_def)
  moreover have "cap \<noteq> - 1" using assms by auto
  then have "cap < - 1" by (metis max_word_max order.not_eq_order_implies_strict word_n1_ge)
  ultimately show ?thesis by (simp add: less_max_iff_disj)
qed

function grow_capacity :: "u64 \<Rightarrow> u64 \<Rightarrow> u64" where
  "grow_capacity cap needed =
     (if cap < needed then grow_capacity (max (sat_mul cap 2) INITIAL_FILE_SIZE) needed else cap)"
  by pat_completeness auto
termination
proof (relation "measure (\<lambda>(cap, needed). 2 ^ 64 - unat cap)")
  fix cap needed :: u64 assume "cap < needed"
  from grow_step_increases [OF this]
  have "unat cap < unat (max (sat_mul cap 2) INITIAL_FILE_SIZE)" by (simp add: word_less_nat_alt)
  moreover have "unat (max (sat_mul cap 2) INITIAL_FILE_SIZE) < 2 ^ 64"
    using unsigned_less [of "max (sat_mul cap 2) INITIAL_FILE_SIZE", where 'a = nat] by simp
  ultimately show "((max (sat_mul cap 2) INITIAL_FILE_SIZE, needed), (cap, needed))
      \<in> measure (\<lambda>(cap, needed). 2 ^ 64 - unat cap)" by simp
qed simp

declare grow_capacity.simps [simp del]

definition mmap_grow :: "u64 \<Rightarrow> mmap_file \<Rightarrow> mmap_file" where
  "mmap_grow needed f =
     (let new_capacity = grow_capacity (mf_capacity f) needed;
          new_file_size = HEADER_SIZE + new_capacity
      in f\<lparr>mf_mmap := resize (unat new_file_size) (mf_mmap f), mf_capacity := new_capacity\<rparr>)"

definition mmap_append :: "u8 list \<Rightarrow> mmap_file \<Rightarrow> (u64 result \<times> mmap_file) panicking" where
  "mmap_append data f =
     (let data_len = word_of_nat (length data) :: u64
      in if data_len = 0 then Some (Inr (mf_logical_len f), f)
         else
           let current_len = mf_logical_len f;
               needed = current_len + data_len;
               f1 = (if mf_capacity f < needed then mmap_grow needed f else f);
               offset = unat (HEADER_SIZE + current_len)
           in case copy_at offset data (mf_mmap f1) of
                None \<Rightarrow> None
              | Some mm \<Rightarrow>
                  (let new_len = current_len + data_len
                   in case copy_at 0 (u64_to_le new_len) mm of
                        None \<Rightarrow> None
                      | Some mm' \<Rightarrow>
                          Some (Inr new_len, f1\<lparr>mf_mmap := mm', mf_logical_len := new_len\<rparr>)))"

definition mmap_read_at :: "mmap_file \<Rightarrow> u64 \<Rightarrow> u64 \<Rightarrow> u8 list option panicking" where
  "mmap_read_at f offset len =
     (if mf_logical_len f < offset + len then Some None
      else let start = unat (HEADER_SIZE + offset); stop = start + unat len
           in map_option Some (slice start stop (mf_mmap f)))"

definition mmap_write_at :: "u64 \<Rightarrow> u8 list \<Rightarrow> mmap_file \<Rightarrow> (unit result \<times> mmap_file) panicking" where
  "mmap_write_at offset data f =
     (let data_len = word_of_nat (length data) :: u64
      in if mf_logical_len f < offset + data_len
         then Some (Inl (InvalidArgument
                (''write_at: offset '' @ show_nat (unat offset) @ '' + len '' @ show_nat (unat data_len) @
                 '' exceeds logical len '' @ show_nat (unat (mf_logical_len f)))), f)
         else map_option (\<lambda>mm. (Inr (), f\<lparr>mf_mmap := mm\<rparr>))
                (copy_at (unat (HEADER_SIZE + offset)) data (mf_mmap f)))"

section \<open>Typed records\<close>

text \<open>
  \<open>T: bytemuck::Pod\<close> enters as its size and the reading of its bytes (\<open>dec\<close>) or its bytes
  (\<open>enc\<close>).
\<close>

definition mmap_append_record :: "('r \<Rightarrow> u8 list) \<Rightarrow> 'r \<Rightarrow> mmap_file \<Rightarrow> (u64 result \<times> mmap_file) panicking" where
  "mmap_append_record enc r f =
     (let offset = mf_logical_len f
      in case mmap_append (enc r) f of
           None \<Rightarrow> None
         | Some (Inl e, f') \<Rightarrow> Some (Inl e, f')
         | Some (Inr _, f') \<Rightarrow> Some (Inr offset, f'))"

definition mmap_read_record :: "nat \<Rightarrow> (u8 list \<Rightarrow> 'r) \<Rightarrow> mmap_file \<Rightarrow> u64 \<Rightarrow> 'r option panicking" where
  "mmap_read_record sz dec f offset =
     map_option (map_option dec) (mmap_read_at f offset (word_of_nat sz))"

definition mmap_record_count :: "nat \<Rightarrow> mmap_file \<Rightarrow> u64" where
  "mmap_record_count sz f = mmap_len f div word_of_nat sz"

text \<open>\<open>bytemuck::cast_slice\<close>: consecutive records of the given size.\<close>

definition cast_records :: "nat \<Rightarrow> (u8 list \<Rightarrow> 'r) \<Rightarrow> u8 list \<Rightarrow> 'r list" where
  "cast_records sz dec bs = map (\<lambda>i. dec (take sz (drop (i * sz) bs))) [0..<length bs div sz]"

definition mmap_as_slice :: "nat \<Rightarrow> (u8 list \<Rightarrow> 'r) \<Rightarrow> mmap_file \<Rightarrow> 'r list panicking" where
  "mmap_as_slice sz dec f =
     (let logical_len = unat (mf_logical_len f)
      in if sz = 0 \<or> logical_len = 0 then Some []
         else let cnt = logical_len div sz;
                  usable = cnt * sz;
                  start = unat HEADER_SIZE
              in map_option (cast_records sz dec) (slice start (start + usable) (mf_mmap f)))"

text \<open>\<open>RecordIter\<close>: \<open>next\<close> reads the record at the offset and advances; \<open>n\<close> steps of it.\<close>

fun record_iter :: "nat \<Rightarrow> nat \<Rightarrow> (u8 list \<Rightarrow> 'r) \<Rightarrow> mmap_file \<Rightarrow> u64 \<Rightarrow> 'r list panicking" where
  "record_iter 0 sz dec f offset = Some []"
| "record_iter (Suc n) sz dec f offset =
     (case mmap_read_record sz dec f offset of
        None \<Rightarrow> None
      | Some None \<Rightarrow> Some []
      | Some (Some r) \<Rightarrow> map_option ((#) r) (record_iter n sz dec f (offset + word_of_nat sz)))"

section \<open>Well-formed files and their data\<close>

definition mmap_data :: "mmap_file \<Rightarrow> u8 list" where
  "mmap_data f = take (unat (mf_logical_len f)) (drop 8 (mf_mmap f))"

definition mmap_ok :: "mmap_file \<Rightarrow> bool" where
  "mmap_ok f \<longleftrightarrow>
     length (mf_mmap f) = 8 + unat (mf_capacity f) \<and> 8 + unat (mf_capacity f) < 2 ^ 64 \<and>
     unat (mf_logical_len f) \<le> unat (mf_capacity f) \<and> take 8 (mf_mmap f) = u64_to_le (mf_logical_len f)"

text \<open>The size below which the doubling of \<open>grow\<close> cannot reach the end of the 64-bit range.\<close>

definition MMAP_LIMIT :: nat where
  "MMAP_LIMIT = 2 ^ 62"

lemma length_mmap_data: "mmap_ok f \<Longrightarrow> length (mmap_data f) = unat (mf_logical_len f)"
  by (simp add: mmap_ok_def mmap_data_def)

lemma length_resize [simp]: "length (resize n xs) = n"
  by (simp add: resize_def)

lemma take_resize: "m \<le> n \<Longrightarrow> m \<le> length xs \<Longrightarrow> take m (resize n xs) = take m xs"
  by (simp add: resize_def min_def)

lemma take_drop_resize:
  "a + m \<le> n \<Longrightarrow> a + m \<le> length xs \<Longrightarrow> take m (drop a (resize n xs)) = take m (drop a xs)"
  by (simp add: take_drop take_resize)

lemma grow_capacity_ge: "needed \<le> grow_capacity cap needed"
proof (induction cap needed rule: grow_capacity.induct)
  case (1 cap needed)
  then show ?case by (subst grow_capacity.simps) (simp add: not_less)
qed

lemma grow_capacity_bound:
  assumes "unat cap \<le> max (2 * unat needed) (unat INITIAL_FILE_SIZE)" "unat needed < 2 ^ 62"
  shows "unat (grow_capacity cap needed) \<le> max (2 * unat needed) (unat INITIAL_FILE_SIZE)"
  using assms
proof (induction cap needed rule: grow_capacity.induct)
  case (1 cap needed)
  show ?case
  proof (cases "cap < needed")
    case True
    then have lt: "unat cap < unat needed" by (simp add: word_less_nat_alt)
    with 1 have "unat cap * 2 < 2 ^ 64" by simp
    then have "unat (sat_mul cap 2) = unat cap * 2" by (simp add: sat_mul_def unat_word_ariths)
    then have "unat (max (sat_mul cap 2) INITIAL_FILE_SIZE) \<le> max (2 * unat needed) (unat INITIAL_FILE_SIZE)"
      using lt by (auto simp: max_def word_le_nat_alt)
    with 1 True show ?thesis by (subst grow_capacity.simps) simp
  next
    case False
    with 1 show ?thesis by (subst grow_capacity.simps) simp
  qed
qed

lemma unat_header_plus: "8 + unat x < 2 ^ 64 \<Longrightarrow> unat (HEADER_SIZE + x) = 8 + unat x"
  by (simp add: HEADER_SIZE_def unat_word_ariths)

lemma mmap_grow_ok:
  assumes ok: "mmap_ok f" and lt: "mf_capacity f < needed" and lim: "unat needed < 2 ^ 62"
  shows "mmap_ok (mmap_grow needed f)" and "mmap_data (mmap_grow needed f) = mmap_data f"
    and "mf_logical_len (mmap_grow needed f) = mf_logical_len f"
    and "unat needed \<le> unat (mf_capacity (mmap_grow needed f))"
proof -
  let ?c = "grow_capacity (mf_capacity f) needed"
  have "unat (mf_capacity f) < unat needed" using lt by (simp add: word_less_nat_alt)
  then have "unat ?c \<le> max (2 * unat needed) (unat INITIAL_FILE_SIZE)"
    using lim by (intro grow_capacity_bound) auto
  then have c: "8 + unat ?c < 2 ^ 64" using lim by (auto simp: INITIAL_FILE_SIZE_def)
  have ge: "unat needed \<le> unat ?c" using grow_capacity_ge [of needed] by (simp add: word_le_nat_alt)
  then have grew: "unat (mf_capacity f) \<le> unat ?c" using lt by (simp add: word_less_nat_alt)
  have g: "mmap_grow needed f = f\<lparr>mf_mmap := resize (8 + unat ?c) (mf_mmap f), mf_capacity := ?c\<rparr>"
    using c by (simp add: mmap_grow_def Let_def unat_header_plus)
  show "mmap_ok (mmap_grow needed f)"
    using ok c grew by (simp add: g mmap_ok_def take_resize)
  show "mmap_data (mmap_grow needed f) = mmap_data f"
    using ok grew by (simp add: g mmap_data_def mmap_ok_def take_drop_resize)
  show "mf_logical_len (mmap_grow needed f) = mf_logical_len f" by (simp add: g)
  show "unat needed \<le> unat (mf_capacity (mmap_grow needed f))" using ge by (simp add: g)
qed

lemma mmap_append_in_place:
  assumes ok: "mmap_ok f" and fits: "unat (mf_logical_len f) + length data \<le> unat (mf_capacity f)"
  shows "\<exists>mm mm'. copy_at (unat (HEADER_SIZE + mf_logical_len f)) data (mf_mmap f) = Some mm \<and>
    copy_at 0 (u64_to_le n) mm = Some mm' \<and> length mm' = length (mf_mmap f) \<and>
    take 8 mm' = u64_to_le n \<and>
    take (unat (mf_logical_len f) + length data) (drop 8 mm') = mmap_data f @ data"
proof -
  let ?L = "unat (mf_logical_len f)"
  have off: "unat (HEADER_SIZE + mf_logical_len f) = 8 + ?L"
    using ok by (intro unat_header_plus) (simp add: mmap_ok_def)
  have len: "8 + ?L + length data \<le> length (mf_mmap f)" using ok fits by (simp add: mmap_ok_def)
  let ?mm = "take (8 + ?L) (mf_mmap f) @ data @ drop (8 + ?L + length data) (mf_mmap f)"
  let ?mm' = "u64_to_le n @ drop 8 ?mm"
  have "drop 8 ?mm = mmap_data f @ data @ drop (8 + ?L + length data) (mf_mmap f)"
    using len by (simp add: mmap_data_def drop_take)
  moreover have "length (mmap_data f) = ?L" using length_mmap_data [OF ok] .
  moreover have "copy_at (8 + ?L) data (mf_mmap f) = Some ?mm" using len by (simp add: copy_at_def)
  moreover have "copy_at 0 (u64_to_le n) ?mm = Some ?mm'" using len by (simp add: copy_at_def)
  moreover have "length ?mm' = length (mf_mmap f)" using len by simp
  ultimately show ?thesis unfolding off by (intro exI [of _ ?mm] exI [of _ ?mm']) auto
qed

text \<open>Appending succeeds, keeps the file well-formed and adds exactly the bytes given.\<close>

lemma mmap_append_ok:
  assumes ok: "mmap_ok f" and lim: "unat (mf_logical_len f) + length data < MMAP_LIMIT"
  shows "\<exists>f'. mmap_append data f = Some (Inr (mf_logical_len f'), f') \<and> mmap_ok f' \<and>
    mmap_data f' = mmap_data f @ data \<and>
    unat (mf_logical_len f') = unat (mf_logical_len f) + length data"
proof (cases "data = []")
  case True
  with ok show ?thesis by (simp add: mmap_append_def)
next
  case False
  let ?n = "word_of_nat (length data) :: u64"
  let ?needed = "mf_logical_len f + ?n"
  have n: "unat ?n = length data" using lim by (simp add: unat_of_nat MMAP_LIMIT_def)
  then have nz: "?n \<noteq> 0" using False by (metis length_0_conv unat_0)
  have needed: "unat ?needed = unat (mf_logical_len f) + length data"
    using lim n by (simp add: unat_word_ariths MMAP_LIMIT_def)
  define f1 where "f1 = (if mf_capacity f < ?needed then mmap_grow ?needed f else f)"
  have nl: "unat ?needed < 2 ^ 62" using needed lim by (simp add: MMAP_LIMIT_def)
  have f1: "mmap_ok f1" "mmap_data f1 = mmap_data f" "mf_logical_len f1 = mf_logical_len f"
    "unat ?needed \<le> unat (mf_capacity f1)"
    using ok mmap_grow_ok [OF ok _ nl] unfolding f1_def
    by (auto simp: not_less word_le_nat_alt)
  then obtain mm mm' where mm: "copy_at (unat (HEADER_SIZE + mf_logical_len f)) data (mf_mmap f1) = Some mm"
    "copy_at 0 (u64_to_le ?needed) mm = Some mm'" "length mm' = length (mf_mmap f1)"
    "take 8 mm' = u64_to_le ?needed"
    "take (unat (mf_logical_len f) + length data) (drop 8 mm') = mmap_data f @ data"
    using mmap_append_in_place [OF f1(1), of data ?needed] needed by auto
  let ?f' = "f1\<lparr>mf_mmap := mm', mf_logical_len := ?needed\<rparr>"
  have "mmap_append data f = Some (Inr ?needed, ?f')"
    using nz mm(1,2) unfolding mmap_append_def f1_def by (simp add: Let_def)
  moreover have "mmap_ok ?f'" using f1 mm(3,4) by (simp add: mmap_ok_def)
  moreover have "mmap_data ?f' = mmap_data f @ data" using mm(5) needed by (simp add: mmap_data_def)
  ultimately show ?thesis using needed by (intro exI [of _ ?f']) simp
qed

lemma le_enc_zero: "le_enc n 0 = replicate n 0"
  by (induction n) simp_all

lemma mmap_ok_zeros:
  assumes "8 + unat cap < 2 ^ 64"
  shows "mmap_ok \<lparr>mf_mmap = resize (8 + unat cap) [], mf_logical_len = 0, mf_capacity = cap\<rparr>"
proof -
  have "take 8 (resize (8 + unat cap) []) = replicate 8 (0 :: u8)"
    by (simp only: resize_def take_Nil append_Nil list.size take_replicate diff_zero) simp
  then show ?thesis using assms by (simp add: mmap_ok_def u64_to_le_def le_enc_zero)
qed

lemma mmap_open_new:
  "\<exists>f. mmap_open None True = Some (Inr f) \<and> mmap_ok f \<and> mmap_data f = []"
proof -
  have cap: "8 + unat INITIAL_FILE_SIZE < 2 ^ 64" by (simp add: INITIAL_FILE_SIZE_def)
  then have sz: "unat (HEADER_SIZE + INITIAL_FILE_SIZE) = 8 + unat INITIAL_FILE_SIZE"
    by (rule unat_header_plus)
  have c: "(word_of_nat (8 + unat INITIAL_FILE_SIZE) :: u64) - HEADER_SIZE = INITIAL_FILE_SIZE"
    by (simp add: HEADER_SIZE_def)
  let ?f = "\<lparr>mf_mmap = resize (8 + unat INITIAL_FILE_SIZE) [], mf_logical_len = 0,
      mf_capacity = INITIAL_FILE_SIZE\<rparr>"
  have "mmap_open None True = Some (Inr ?f)"
    by (simp only: mmap_open_def Let_def sz length_resize c) (simp add: HEADER_SIZE_def)
  moreover have "mmap_data ?f = []" by (simp add: mmap_data_def)
  ultimately show ?thesis using mmap_ok_zeros [OF cap] by blast
qed

text \<open>Opening the bytes of a well-formed file gives that file back.\<close>

lemma mmap_open_existing:
  assumes "mmap_ok f"
  shows "mmap_open (Some (mf_mmap f)) create = Some (Inr f)"
proof -
  have len: "length (mf_mmap f) = 8 + unat (mf_capacity f)" "8 + unat (mf_capacity f) < 2 ^ 64"
    using assms by (simp_all add: mmap_ok_def)
  have "(word_of_nat (8 + unat (mf_capacity f)) :: u64) - HEADER_SIZE = mf_capacity f"
    by (simp add: HEADER_SIZE_def)
  moreover have "slice 0 8 (mf_mmap f) = Some (u64_to_le (mf_logical_len f))"
    using assms len by (simp add: slice_def mmap_ok_def)
  moreover have "length (mf_mmap f) \<noteq> 0" using len by simp
  ultimately show ?thesis using len by (simp add: mmap_open_def Let_def)
qed

lemma mmap_read_at_ok:
  assumes ok: "mmap_ok f" and lim: "unat off + unat len < 2 ^ 64"
  shows "mmap_read_at f off len =
    Some (if unat off + unat len \<le> unat (mf_logical_len f)
          then Some (take (unat len) (drop (unat off) (mmap_data f))) else None)"
proof -
  have sum: "unat (off + len) = unat off + unat len" using lim by (simp add: unat_word_ariths)
  show ?thesis
  proof (cases "unat off + unat len \<le> unat (mf_logical_len f)")
    case True
    then have off: "unat (HEADER_SIZE + off) = 8 + unat off"
      using ok by (intro unat_header_plus) (simp add: mmap_ok_def)
    have "8 + unat off + unat len \<le> length (mf_mmap f)" using True ok by (simp add: mmap_ok_def)
    moreover have "take (unat len) (drop (8 + unat off) (mf_mmap f)) =
        take (unat len) (drop (unat off) (mmap_data f))"
      using True by (simp add: mmap_data_def drop_take add.commute min_def)
    ultimately show ?thesis
      using True sum by (simp add: mmap_read_at_def Let_def off slice_def word_less_nat_alt)
  next
    case False
    then show ?thesis using sum by (simp add: mmap_read_at_def word_less_nat_alt)
  qed
qed

lemma take_splice:
  assumes "a + length x \<le> n" "n \<le> length ys"
  shows "take n (take a ys @ x @ drop (a + length x) ys) = take a (take n ys) @ x @ drop (a + length x) (take n ys)"
proof (cases "n \<le> a")
  case True
  with assms show ?thesis by (cases x) auto
next
  case False
  with assms show ?thesis by (simp add: min_def drop_take)
qed

lemma mmap_write_at_ok:
  assumes ok: "mmap_ok f" and fits: "unat off + length data \<le> unat (mf_logical_len f)"
  shows "\<exists>f'. mmap_write_at off data f = Some (Inr (), f') \<and> mmap_ok f' \<and>
    mf_logical_len f' = mf_logical_len f \<and>
    mmap_data f' = take (unat off) (mmap_data f) @ data @ drop (unat off + length data) (mmap_data f)"
proof -
  let ?n = "word_of_nat (length data) :: u64"
  have L: "unat (mf_logical_len f) < 2 ^ 64"
    using unsigned_less [of "mf_logical_len f", where 'a = nat] by simp
  then have n: "unat ?n = length data" using fits by (simp add: unat_of_nat)
  have sum: "unat (off + ?n) = unat off + length data" using fits n L by (simp add: unat_word_ariths)
  have off: "unat (HEADER_SIZE + off) = 8 + unat off"
    using ok fits by (intro unat_header_plus) (simp add: mmap_ok_def)
  have len: "8 + unat off + length data \<le> length (mf_mmap f)" using ok fits by (simp add: mmap_ok_def)
  let ?mm = "take (8 + unat off) (mf_mmap f) @ data @ drop (8 + unat off + length data) (mf_mmap f)"
  let ?f' = "f\<lparr>mf_mmap := ?mm\<rparr>"
  have "mmap_write_at off data f = Some (Inr (), ?f')"
    using sum fits len by (simp add: mmap_write_at_def Let_def off copy_at_def word_less_nat_alt)
  moreover have "mmap_ok ?f'" using ok len by (simp add: mmap_ok_def)
  moreover have "mmap_data ?f' = take (unat off) (mmap_data f) @ data @ drop (unat off + length data) (mmap_data f)"
  proof -
    have "drop 8 ?mm = take (unat off) (drop 8 (mf_mmap f)) @ data @ drop (unat off + length data) (drop 8 (mf_mmap f))"
      using len by (simp add: drop_take add_ac)
    moreover have "unat (mf_logical_len f) \<le> length (drop 8 (mf_mmap f))" using ok by (simp add: mmap_ok_def)
    ultimately show ?thesis
      using fits take_splice [of "unat off" data "unat (mf_logical_len f)" "drop 8 (mf_mmap f)"]
      by (simp add: mmap_data_def)
  qed
  ultimately show ?thesis by (intro exI [of _ ?f']) simp
qed

end
