(* ===== verification/Record_File.thy ===== *)
theory Record_File
  imports Mmap
begin

text \<open>
  Files of fixed-size records on top of the memory-mapped file. The locale \<open>pod\<close> is the
  contract of a plain-old-data record type: its size, its bytes and the reading of its
  bytes. What it gives is the file as a list of records: appending a record, overwriting
  one, reading one, iterating and casting the whole file.
\<close>

section \<open>A directory of mapped files\<close>

text \<open>
  \<open>TickStore\<close> and \<open>CandleStore\<close> have the same shape: a directory, and a vector of files that
  are opened when they exist and created on the first append. \<open>mfs_disk\<close> is the content of the
  directory when the store was opened; the bytes of a mapped file are those of the mapping.
\<close>

record mapped_files =
  mfs_disk :: "string \<rightharpoonup> u8 list"
  mfs_files :: "mmap_file option list"

text \<open>The loop of \<open>open\<close>: each existing file is mapped into its slot.\<close>

fun open_slots :: "(string \<rightharpoonup> u8 list) \<Rightarrow> (nat \<times> string) list \<Rightarrow> mmap_file option list \<Rightarrow>
    mmap_file option list result panicking" where
  "open_slots disk [] files = Some (Inr files)"
| "open_slots disk ((i, p) # ps) files =
     (case disk p of
        None \<Rightarrow> open_slots disk ps files
      | Some bytes \<Rightarrow>
          (case mmap_open (Some bytes) False of
             None \<Rightarrow> None
           | Some (Inl e) \<Rightarrow> Some (Inl e)
           | Some (Inr f) \<Rightarrow> open_slots disk ps (files[i := Some f])))"

text \<open>The file of a slot, opened or created first if the slot is empty.\<close>

definition ensure_slot :: "nat \<Rightarrow> string \<Rightarrow> mapped_files \<Rightarrow> (mmap_file result \<times> mapped_files) panicking" where
  "ensure_slot i p s =
     (case mfs_files s ! i of
        Some f \<Rightarrow> Some (Inr f, s)
      | None \<Rightarrow>
          (case mmap_open (mfs_disk s p) True of
             None \<Rightarrow> None
           | Some (Inl e) \<Rightarrow> Some (Inl e, s)
           | Some (Inr f) \<Rightarrow> Some (Inr f, s\<lparr>mfs_files := (mfs_files s)[i := Some f]\<rparr>)))"

text \<open>A call on the mutable file of a slot, its result without the value.\<close>

definition on_file_slot :: "nat \<Rightarrow> (mmap_file \<Rightarrow> ('a result \<times> mmap_file) panicking) \<Rightarrow> mmap_file \<Rightarrow>
    mapped_files \<Rightarrow> (unit result \<times> mapped_files) panicking" where
  "on_file_slot i g f s =
     (case g f of
        None \<Rightarrow> None
      | Some (r, f') \<Rightarrow>
          Some (map_sum id (\<lambda>_. ()) r, s\<lparr>mfs_files := (mfs_files s)[i := Some f']\<rparr>))"

text \<open>The content of the directory while the store is open, and after it is closed.\<close>

definition store_image :: "string list \<Rightarrow> mapped_files \<Rightarrow> string \<rightharpoonup> u8 list" where
  "store_image paths s =
     fold (\<lambda>(p, f) d. case f of None \<Rightarrow> d | Some f \<Rightarrow> d(p \<mapsto> mf_mmap f)) (zip paths (mfs_files s)) (mfs_disk s)"

lemma store_image_other:
  "p \<notin> set ps \<Longrightarrow>
   fold (\<lambda>(p, f) d. case f of None \<Rightarrow> d | Some f \<Rightarrow> d(p \<mapsto> mf_mmap f)) (zip ps fs) d p = d p"
proof (induction ps arbitrary: fs d)
  case (Cons q ps)
  then show ?case by (cases fs) (auto split: option.splits)
qed simp

lemma store_image_at:
  "distinct ps \<Longrightarrow> i < length ps \<Longrightarrow> length fs = length ps \<Longrightarrow>
   fold (\<lambda>(p, f) d. case f of None \<Rightarrow> d | Some f \<Rightarrow> d(p \<mapsto> mf_mmap f)) (zip ps fs) d (ps ! i) =
     (case fs ! i of None \<Rightarrow> d (ps ! i) | Some f \<Rightarrow> Some (mf_mmap f))"
proof (induction ps arbitrary: fs d i)
  case (Cons q ps)
  then obtain f fs' where fs: "fs = f # fs'" by (cases fs) auto
  show ?case
  proof (cases i)
    case 0
    then show ?thesis using Cons.prems by (simp add: fs store_image_other split: option.splits)
  next
    case (Suc j)
    then show ?thesis
      using Cons.prems Cons.IH [of j fs'] by (auto simp: fs split: option.splits)
  qed
qed simp

lemma open_slots_none:
  "\<forall>(i, p) \<in> set slots. disk p = None \<Longrightarrow> open_slots disk slots files = Some (Inr files)"
  by (induction slots) auto

lemma open_slots_files:
  assumes "\<And>j. j < length fs \<Longrightarrow> disk (ps ! j) = map_option mf_mmap (fs ! j)"
    and "\<And>f. Some f \<in> set fs \<Longrightarrow> mmap_ok f" and "length ps = length fs"
  shows "length acc = k \<Longrightarrow>
    open_slots disk (zip [k..<k + length fs] ps) (acc @ replicate (length fs) None) = Some (Inr (acc @ fs))"
  using assms
proof (induction fs arbitrary: k ps acc)
  case (Cons f fs)
  then obtain p ps' where ps: "ps = p # ps'" by (cases ps) auto
  have zip: "zip [k..<k + length (f # fs)] ps = (k, p) # zip [Suc k..<Suc k + length fs] ps'"
    by (simp add: ps upt_conv_Cons del: upt_Suc)
  have p: "disk p = map_option mf_mmap f" using Cons.prems(2) [of 0] by (simp add: ps)
  have IH: "open_slots disk (zip [Suc k..<Suc k + length fs] ps') ((acc @ [f]) @ replicate (length fs) None) =
      Some (Inr ((acc @ [f]) @ fs))"
    using Cons.prems Cons.prems(2) [of "Suc j" for j] by (intro Cons.IH) (auto simp: ps)
  show ?case
  proof (cases f)
    case None
    then show ?thesis using IH p unfolding zip by (simp del: upt_Suc)
  next
    case (Some g)
    then have "mmap_ok g" using Cons.prems by simp
    then show ?thesis
      using IH p Some Cons.prems(1) unfolding zip by (simp add: mmap_open_existing list_update_append del: upt_Suc)
  qed
qed simp

section \<open>Plain-old-data records\<close>

locale pod =
  fixes sz :: nat and enc :: "'r \<Rightarrow> u8 list" and dec :: "u8 list \<Rightarrow> 'r" and valid :: "'r \<Rightarrow> bool"
  assumes sz_pos: "0 < sz"
    and sz_small: "sz < 2 ^ 16"
    and length_enc: "valid r \<Longrightarrow> length (enc r) = sz"
    and dec_enc: "valid r \<Longrightarrow> dec (enc r) = r"
begin

definition holds :: "mmap_file \<Rightarrow> 'r list \<Rightarrow> bool" where
  "holds f rs \<longleftrightarrow> mmap_ok f \<and> mmap_data f = concat (map enc rs) \<and> list_all valid rs"

lemma length_concat_enc: "list_all valid rs \<Longrightarrow> length (concat (map enc rs)) = length rs * sz"
  by (induction rs) (simp_all add: length_enc)

lemma drop_concat_enc:
  "list_all valid rs \<Longrightarrow> i \<le> length rs \<Longrightarrow> drop (i * sz) (concat (map enc rs)) = concat (map enc (drop i rs))"
proof (induction rs arbitrary: i)
  case (Cons r rs)
  then show ?case by (cases i) (simp_all add: length_enc)
qed simp

lemma take_concat_enc:
  "list_all valid rs \<Longrightarrow> i \<le> length rs \<Longrightarrow> take (i * sz) (concat (map enc rs)) = concat (map enc (take i rs))"
proof (induction rs arbitrary: i)
  case (Cons r rs)
  then show ?case by (cases i) (simp_all add: length_enc)
qed simp

lemma record_bytes:
  assumes "list_all valid rs" "i < length rs"
  shows "take sz (drop (i * sz) (concat (map enc rs))) = enc (rs ! i)"
proof -
  have "drop i rs = rs ! i # drop (Suc i) rs" using assms(2) by (simp add: Cons_nth_drop_Suc)
  moreover have "valid (rs ! i)" using assms by (simp add: list_all_length)
  ultimately show ?thesis using assms by (simp add: drop_concat_enc length_enc)
qed

lemma cast_records_enc: "list_all valid rs \<Longrightarrow> cast_records sz dec (concat (map enc rs)) = rs"
  using sz_pos
  by (intro nth_equalityI)
     (auto simp: cast_records_def length_concat_enc record_bytes list_all_length dec_enc)

lemma holds_len: "holds f rs \<Longrightarrow> unat (mf_logical_len f) = length rs * sz"
  using length_mmap_data [of f] by (auto simp: holds_def length_concat_enc)

lemma holds_len_lt: "holds f rs \<Longrightarrow> length rs * sz < 2 ^ 64"
  using holds_len [of f rs] unsigned_less [of "mf_logical_len f", where 'a = nat] by simp

lemma unat_sz: "unat (word_of_nat sz :: u64) = sz"
  using sz_small by (simp add: unat_of_nat)

lemma unat_offset: "i * sz < 2 ^ 64 \<Longrightarrow> unat (word_of_nat (i * sz) :: u64) = i * sz"
  by (simp add: unat_of_nat del: of_nat_mult)

lemma mmap_as_slice_eq:
  assumes "mmap_ok f" "unat (mf_logical_len f) = n * sz"
  shows "mmap_as_slice sz dec f = Some (cast_records sz dec (mmap_data f))"
proof (cases "n = 0")
  case True
  with assms show ?thesis by (simp add: mmap_as_slice_def mmap_data_def cast_records_def)
next
  case False
  with assms sz_pos show ?thesis
    by (simp add: mmap_as_slice_def mmap_data_def slice_def mmap_ok_def HEADER_SIZE_def)
qed

lemma holds_as_slice: "holds f rs \<Longrightarrow> mmap_as_slice sz dec f = Some rs"
  using mmap_as_slice_eq [of f "length rs"] holds_len [of f rs]
  by (simp add: holds_def cast_records_enc)

lemma holds_record_count:
  assumes "holds f rs"
  shows "unat (mmap_record_count sz f) = length rs"
  using holds_len [OF assms] sz_pos
  by (simp add: mmap_record_count_def mmap_len_def unat_div unat_sz)

lemma holds_read_record:
  assumes h: "holds f rs" and i: "i < length rs"
  shows "mmap_read_record sz dec f (word_of_nat (i * sz)) = Some (Some (rs ! i))"
proof -
  have ok: "mmap_ok f" and v: "list_all valid rs" and d: "mmap_data f = concat (map enc rs)"
    using h by (simp_all add: holds_def)
  have le: "i * sz + sz \<le> length rs * sz"
    using mult_le_mono1 [of "Suc i" "length rs" sz] i by simp
  then have lt: "i * sz + sz < 2 ^ 64" using holds_len_lt [OF h] by simp
  then have "unat (word_of_nat (i * sz) :: u64) = i * sz" using unat_offset [of i] by simp
  moreover have "valid (rs ! i)" using v i by (simp add: list_all_length)
  ultimately show ?thesis
    using mmap_read_at_ok [OF ok, of "word_of_nat (i * sz)" "word_of_nat sz"] lt le holds_len [OF h]
    by (simp add: mmap_read_record_def unat_sz d record_bytes [OF v i] dec_enc)
qed

lemma holds_read_past:
  assumes h: "holds f rs" and i: "length rs \<le> i" "i * sz + sz < 2 ^ 64"
  shows "mmap_read_record sz dec f (word_of_nat (i * sz)) = Some None"
proof -
  have ok: "mmap_ok f" using h by (simp add: holds_def)
  have "unat (word_of_nat (i * sz) :: u64) = i * sz" using i unat_offset [of i] by simp
  moreover have "length rs * sz < i * sz + sz" using mult_le_mono1 [OF i(1), of sz] sz_pos by linarith
  ultimately show ?thesis
    using mmap_read_at_ok [OF ok, of "word_of_nat (i * sz)" "word_of_nat sz"] i holds_len [OF h]
    by (simp add: mmap_read_record_def unat_sz)
qed

lemma holds_append:
  assumes h: "holds f rs" and v: "valid r" and lim: "length rs * sz + sz < MMAP_LIMIT"
  shows "\<exists>f'. mmap_append_record enc r f = Some (Inr (mf_logical_len f), f') \<and> holds f' (rs @ [r])"
proof -
  have "unat (mf_logical_len f) + length (enc r) < MMAP_LIMIT"
    using holds_len [OF h] v lim by (simp add: length_enc)
  then obtain f' where "mmap_append (enc r) f = Some (Inr (mf_logical_len f'), f')"
    "mmap_ok f'" "mmap_data f' = mmap_data f @ enc r"
    using mmap_append_ok [of f "enc r"] h by (auto simp: holds_def)
  then show ?thesis using h v by (auto simp: mmap_append_record_def holds_def)
qed

lemma holds_write:
  assumes h: "holds f rs" and v: "valid r" and i: "i < length rs"
  shows "\<exists>f'. mmap_write_at (word_of_nat (i * sz)) (enc r) f = Some (Inr (), f') \<and> holds f' (rs[i := r])"
proof -
  have ok: "mmap_ok f" and vs: "list_all valid rs" and d: "mmap_data f = concat (map enc rs)"
    using h by (simp_all add: holds_def)
  have le: "Suc i * sz \<le> length rs * sz" using mult_le_mono1 [of "Suc i" "length rs" sz] i by simp
  then have off: "unat (word_of_nat (i * sz) :: u64) = i * sz"
    using unat_offset [of i] holds_len_lt [OF h] by simp
  then obtain f' where f': "mmap_write_at (word_of_nat (i * sz)) (enc r) f = Some (Inr (), f')"
    "mmap_ok f'" "mmap_data f' = take (i * sz) (mmap_data f) @ enc r @ drop (i * sz + sz) (mmap_data f)"
    using mmap_write_at_ok [OF ok, of "word_of_nat (i * sz)" "enc r"] le holds_len [OF h] v
    by (auto simp: length_enc add.commute)
  have "mmap_data f' = concat (map enc (take i rs @ r # drop (Suc i) rs))"
    using f'(3) i take_concat_enc [OF vs, of i] drop_concat_enc [OF vs, of "Suc i"]
    by (simp add: d add.commute)
  moreover have "list_all valid (rs[i := r])"
    using vs v i by (auto simp: list_all_length nth_list_update)
  ultimately show ?thesis using f' i by (auto simp: holds_def upd_conv_take_nth_drop)
qed

lemma holds_iter:
  assumes h: "holds f rs" and lim: "(length rs + 1) * sz < 2 ^ 64"
  shows "i \<le> length rs \<Longrightarrow> length rs - i < n \<Longrightarrow>
    record_iter n sz dec f (word_of_nat (i * sz)) = Some (drop i rs)"
proof (induction n arbitrary: i)
  case (Suc n)
  show ?case
  proof (cases "i = length rs")
    case True
    then show ?thesis using holds_read_past [OF h, of i] lim by (simp add: add.commute)
  next
    case False
    then have i: "i < length rs" using Suc.prems by simp
    have next_off: "(word_of_nat (i * sz) :: u64) + word_of_nat sz = word_of_nat (Suc i * sz)"
      by (simp add: add.commute)
    have "record_iter n sz dec f (word_of_nat (Suc i * sz)) = Some (drop (Suc i) rs)"
      using Suc.IH [of "Suc i"] Suc.prems i by (simp del: of_nat_mult)
    then show ?thesis
      using i holds_read_record [OF h i]
      by (simp add: next_off Cons_nth_drop_Suc del: of_nat_mult)
  qed
qed simp

lemma holds_open_new:
  "\<exists>f. mmap_open None True = Some (Inr f) \<and> holds f []"
  using mmap_open_new by (auto simp: holds_def)

lemma holds_reopen: "holds f rs \<Longrightarrow> mmap_open (Some (mf_mmap f)) create = Some (Inr f)"
  by (simp add: holds_def mmap_open_existing)

definition store_holds :: "string list \<Rightarrow> mapped_files \<Rightarrow> 'r list list \<Rightarrow> bool" where
  "store_holds paths s rss \<longleftrightarrow>
     length (mfs_files s) = length paths \<and> length rss = length paths \<and>
     (\<forall>i < length paths. case mfs_files s ! i of
        None \<Rightarrow> rss ! i = [] \<and> mfs_disk s (paths ! i) = None
      | Some f \<Rightarrow> holds f (rss ! i))"

lemma store_holds_empty:
  assumes "\<And>p. p \<in> set paths \<Longrightarrow> disk p = None"
  shows "open_slots disk (zip [0..<length paths] paths) (replicate (length paths) None) =
      Some (Inr (replicate (length paths) None))"
    and "store_holds paths \<lparr>mfs_disk = disk, mfs_files = replicate (length paths) None\<rparr>
      (replicate (length paths) [])"
proof -
  have "\<forall>(i, p) \<in> set (zip [0..<length paths] paths). disk p = None"
    using assms by (auto dest: set_zip_rightD)
  then show "open_slots disk (zip [0..<length paths] paths) (replicate (length paths) None) =
      Some (Inr (replicate (length paths) None))" by (rule open_slots_none)
  show "store_holds paths \<lparr>mfs_disk = disk, mfs_files = replicate (length paths) None\<rparr>
      (replicate (length paths) [])" using assms by (simp add: store_holds_def)
qed

lemma store_holds_reopen:
  assumes h: "store_holds paths s rss" and d: "distinct paths"
  shows "open_slots (store_image paths s) (zip [0..<length paths] paths) (replicate (length paths) None) =
      Some (Inr (mfs_files s))"
    and "store_holds paths \<lparr>mfs_disk = store_image paths s, mfs_files = mfs_files s\<rparr> rss"
proof -
  have len: "length (mfs_files s) = length paths" using h by (simp add: store_holds_def)
  have at: "store_image paths s (paths ! i) = map_option mf_mmap (mfs_files s ! i)" if "i < length paths" for i
    using store_image_at [OF d that, of "mfs_files s" "mfs_disk s"] h that
    by (auto simp: store_image_def store_holds_def split: option.splits)
  have "mmap_ok f" if f: "Some f \<in> set (mfs_files s)" for f
  proof -
    obtain i where "i < length paths" "mfs_files s ! i = Some f"
      using f len by (auto simp: in_set_conv_nth)
    with h show ?thesis by (auto simp: store_holds_def holds_def dest!: spec [of _ i])
  qed
  then have "open_slots (store_image paths s) (zip [0..<0 + length (mfs_files s)] paths)
      ([] @ replicate (length (mfs_files s)) None) = Some (Inr ([] @ mfs_files s))"
    by (intro open_slots_files) (simp_all add: at len)
  then show "open_slots (store_image paths s) (zip [0..<length paths] paths) (replicate (length paths) None) =
      Some (Inr (mfs_files s))" by (simp only: len add_0 append_Nil)
  show "store_holds paths \<lparr>mfs_disk = store_image paths s, mfs_files = mfs_files s\<rparr> rss"
    using h at by (auto simp: store_holds_def split: option.splits)
qed

lemma store_holds_ensure:
  assumes h: "store_holds paths s rss" and i: "i < length paths"
  shows "\<exists>f s'. ensure_slot i (paths ! i) s = Some (Inr f, s') \<and> store_holds paths s' rss \<and>
    mfs_files s' ! i = Some f \<and> holds f (rss ! i)"
proof (cases "mfs_files s ! i")
  case None
  then have e: "rss ! i = []" "mfs_disk s (paths ! i) = None" using h i by (auto simp: store_holds_def)
  obtain f where f: "mmap_open None True = Some (Inr f)" "holds f []" using holds_open_new by auto
  let ?s = "s\<lparr>mfs_files := (mfs_files s)[i := Some f]\<rparr>"
  have "store_holds paths ?s rss"
    using h i f e by (auto simp: store_holds_def nth_list_update split: option.splits)
  moreover have "ensure_slot i (paths ! i) s = Some (Inr f, ?s)"
    using None f e by (simp add: ensure_slot_def)
  moreover have "mfs_files ?s ! i = Some f" using h i by (simp add: store_holds_def)
  ultimately show ?thesis using e f by auto
next
  case (Some f)
  then have "holds f (rss ! i)" using h i by (auto simp: store_holds_def)
  then show ?thesis using Some h by (simp add: ensure_slot_def)
qed

lemma store_holds_update:
  assumes "store_holds paths s rss" "i < length paths" "holds f rs"
  shows "store_holds paths (s\<lparr>mfs_files := (mfs_files s)[i := Some f]\<rparr>) (rss[i := rs])"
  using assms by (auto simp: store_holds_def nth_list_update split: option.splits)

lemma store_holds_append:
  assumes h: "store_holds paths s rss" and i: "i < length paths" and f: "holds f (rss ! i)"
    and v: "valid r" and lim: "length (rss ! i) * sz + sz < MMAP_LIMIT"
  shows "\<exists>s'. on_file_slot i (mmap_append_record enc r) f s = Some (Inr (), s') \<and>
    store_holds paths s' (rss[i := rss ! i @ [r]])"
proof -
  obtain f' where "mmap_append_record enc r f = Some (Inr (mf_logical_len f), f')" "holds f' (rss ! i @ [r])"
    using holds_append [OF f v lim] by auto
  then show ?thesis using store_holds_update [OF h i, of f' "rss ! i @ [r]"] by (simp add: on_file_slot_def)
qed

lemma store_holds_write:
  assumes h: "store_holds paths s rss" and i: "i < length paths" and f: "holds f (rss ! i)"
    and v: "valid r" and k: "k < length (rss ! i)"
  shows "\<exists>s'. on_file_slot i (mmap_write_at (word_of_nat (k * sz)) (enc r)) f s = Some (Inr (), s') \<and>
    store_holds paths s' (rss[i := (rss ! i)[k := r]])"
proof -
  obtain f' where "mmap_write_at (word_of_nat (k * sz)) (enc r) f = Some (Inr (), f')" "holds f' ((rss ! i)[k := r])"
    using holds_write [OF f v k] by auto
  then show ?thesis using store_holds_update [OF h i, of f' "(rss ! i)[k := r]"] by (simp add: on_file_slot_def)
qed

lemma store_holds_slice:
  assumes "store_holds paths s rss" "i < length paths"
  shows "(case mfs_files s ! i of None \<Rightarrow> Some [] | Some f \<Rightarrow> mmap_as_slice sz dec f) = Some (rss ! i)"
  using assms by (auto simp: store_holds_def holds_as_slice split: option.splits)

lemma store_holds_count:
  assumes "store_holds paths s rss" "i < length paths"
  shows "unat (case mfs_files s ! i of None \<Rightarrow> 0 | Some f \<Rightarrow> mmap_record_count sz f) = length (rss ! i)"
  using assms by (auto simp: store_holds_def holds_record_count split: option.splits)

end

end
