(* ===== verification/Tick_Store.thy ===== *)
theory Tick_Store
  imports Record_File Market
begin

text \<open>
  The per-market tick files, \<open>src/storage/tick_store.rs\<close>: an array of mapped files, one per
  market, with the 24-byte \<open>PriceTick\<close> of \<open>src/core/types.rs\<close> as the record.
\<close>

definition PRICE_TICK_SIZE :: nat where
  "PRICE_TICK_SIZE = 24"

text \<open>The \<open>repr(C)\<close> layout.\<close>

definition price_tick_bytes :: "price_tick \<Rightarrow> u8 list" where
  "price_tick_bytes t =
     u64_to_le (tick_timestamp_ns t) @ u16_to_le (tick_market_id t) @ tick_pad t @
     u64_to_le (f64_bits (tick_price t))"

definition price_tick_of_bytes :: "u8 list \<Rightarrow> price_tick" where
  "price_tick_of_bytes bs =
     \<lparr>tick_timestamp_ns = u64_from_le (take 8 bs), tick_market_id = u16_from_le (take 2 (drop 8 bs)),
      tick_pad = take 6 (drop 10 bs), tick_price = F64 (u64_from_le (take 8 (drop 16 bs)))\<rparr>"

text \<open>\<open>_pad: [u8; 6]\<close>.\<close>

definition price_tick_valid :: "price_tick \<Rightarrow> bool" where
  "price_tick_valid t \<longleftrightarrow> length (tick_pad t) = 6"

interpretation tick: pod PRICE_TICK_SIZE price_tick_bytes price_tick_of_bytes price_tick_valid
  by unfold_locales
     (simp_all add: PRICE_TICK_SIZE_def price_tick_bytes_def price_tick_of_bytes_def price_tick_valid_def)

type_synonym tick_store = mapped_files

definition tick_market_path :: "market_id \<Rightarrow> string" where
  "tick_market_path market_id = ''market_'' @ pad0 4 (show_nat (unat market_id)) @ ''.tick''"

definition tick_store_open :: "(string \<rightharpoonup> u8 list) \<Rightarrow> tick_store result panicking" where
  "tick_store_open disk =
     (case open_slots disk (map (\<lambda>mid. (unat mid, tick_market_path mid)) all_markets)
             (replicate MARKET_COUNT None) of
        None \<Rightarrow> None
      | Some (Inl e) \<Rightarrow> Some (Inl e)
      | Some (Inr files) \<Rightarrow> Some (Inr \<lparr>mfs_disk = disk, mfs_files = files\<rparr>))"

definition tick_ensure_file :: "market_id \<Rightarrow> tick_store \<Rightarrow> (mmap_file result \<times> tick_store) panicking" where
  "tick_ensure_file market_id s = ensure_slot (unat market_id) (tick_market_path market_id) s"

definition tick_store_append :: "price_tick \<Rightarrow> tick_store \<Rightarrow> (unit result \<times> tick_store) panicking" where
  "tick_store_append tick s =
     (let mid = unat (tick_market_id tick)
      in if MARKET_COUNT \<le> mid
         then Some (Inl (InvalidArgument (''market_id '' @ show_nat mid @ '' out of range (max '' @
                show_nat (MARKET_COUNT - 1) @ '')'')), s)
         else case tick_ensure_file (tick_market_id tick) s of
                None \<Rightarrow> None
              | Some (Inl e, s1) \<Rightarrow> Some (Inl e, s1)
              | Some (Inr f, s1) \<Rightarrow> on_file_slot mid (mmap_append_record price_tick_bytes tick) f s1)"

text \<open>\<open>self.files.get(i).and_then(|f| f.as_ref())\<close>.\<close>

definition file_at :: "nat \<Rightarrow> mapped_files \<Rightarrow> mmap_file option" where
  "file_at i s = (if i < length (mfs_files s) then mfs_files s ! i else None)"

definition tick_store_ticks :: "tick_store \<Rightarrow> market_id \<Rightarrow> price_tick list panicking" where
  "tick_store_ticks s market_id =
     (case file_at (unat market_id) s of
        None \<Rightarrow> Some []
      | Some f \<Rightarrow> mmap_as_slice PRICE_TICK_SIZE price_tick_of_bytes f)"

definition tick_store_tick_count :: "tick_store \<Rightarrow> market_id \<Rightarrow> u64" where
  "tick_store_tick_count s market_id =
     (case file_at (unat market_id) s of
        None \<Rightarrow> 0
      | Some f \<Rightarrow> mmap_record_count PRICE_TICK_SIZE f)"

text \<open>\<open>slice.last()\<close>.\<close>

definition last_opt :: "'a list \<Rightarrow> 'a option" where
  "last_opt xs = (if xs = [] then None else Some (last xs))"

definition tick_store_latest :: "tick_store \<Rightarrow> market_id \<Rightarrow> price_tick option panicking" where
  "tick_store_latest s market_id = map_option last_opt (tick_store_ticks s market_id)"

section \<open>The store as one list of ticks per market\<close>

definition tick_paths :: "string list" where
  "tick_paths = map tick_market_path all_markets"

text \<open>\<open>log\<close>: the ticks of each market, in the order they were appended.\<close>

definition tick_store_repr :: "tick_store \<Rightarrow> (market_id \<Rightarrow> price_tick list) \<Rightarrow> bool" where
  "tick_store_repr s log \<longleftrightarrow> tick.store_holds tick_paths s (map log all_markets)"

lemma length_all_markets [simp]: "length all_markets = MARKET_COUNT"
  by (simp add: all_markets_def)

lemma nth_all_markets: "i < MARKET_COUNT \<Longrightarrow> all_markets ! i = word_of_nat i"
  by (simp add: all_markets_def)

lemma nth_all_markets_unat: "unat m < MARKET_COUNT \<Longrightarrow> all_markets ! unat m = m"
  by (simp add: nth_all_markets)

lemma length_tick_paths [simp]: "length tick_paths = MARKET_COUNT"
  by (simp add: tick_paths_def)

lemma nth_tick_paths: "unat m < MARKET_COUNT \<Longrightarrow> tick_paths ! unat m = tick_market_path m"
  by (simp add: tick_paths_def nth_all_markets_unat)

lemma tick_market_path_inj: "tick_market_path a = tick_market_path b \<Longrightarrow> a = b"
  by (auto simp: tick_market_path_def simp flip: word_unat_eq_iff dest: pad0_show_inj)

lemma distinct_tick_paths: "distinct tick_paths"
  by (simp add: tick_paths_def distinct_map distinct_all_markets inj_on_def tick_market_path_inj)

lemma tick_slots: "map (\<lambda>mid. (unat mid, tick_market_path mid)) all_markets = zip [0..<MARKET_COUNT] tick_paths"
  by (intro nth_equalityI) (simp_all add: tick_paths_def nth_all_markets)

lemma map_log_update:
  assumes "unat m < MARKET_COUNT"
  shows "(map log all_markets)[unat m := v] = map (log(m := v)) all_markets"
proof (intro nth_equalityI)
  fix i assume "i < length ((map log all_markets)[unat m := v])"
  then have i: "i < MARKET_COUNT" by simp
  have "word_of_nat i = m \<longleftrightarrow> i = unat m" using i by auto
  then show "(map log all_markets)[unat m := v] ! i = map (log(m := v)) all_markets ! i"
    using i by (auto simp: nth_list_update nth_all_markets)
qed simp

lemma map_log_const: "map (\<lambda>_. []) all_markets = replicate MARKET_COUNT []"
  by (simp add: map_replicate_const)

lemma tick_store_open_empty:
  assumes "\<And>m. disk (tick_market_path m) = None"
  shows "\<exists>s. tick_store_open disk = Some (Inr s) \<and> tick_store_repr s (\<lambda>_. [])"
proof -
  have "disk p = None" if "p \<in> set tick_paths" for p using that assms by (auto simp: tick_paths_def)
  note e = tick.store_holds_empty [of tick_paths disk, OF this]
  show ?thesis
    using e by (simp add: tick_store_open_def tick_slots tick_store_repr_def map_log_const)
qed

lemma tick_store_reopen:
  assumes "tick_store_repr s log"
  shows "\<exists>s'. tick_store_open (store_image tick_paths s) = Some (Inr s') \<and> tick_store_repr s' log \<and>
    mfs_files s' = mfs_files s"
  using tick.store_holds_reopen [of tick_paths s "map log all_markets"] assms distinct_tick_paths
  by (simp add: tick_store_open_def tick_slots tick_store_repr_def)

lemma tick_store_append_ok:
  assumes r: "tick_store_repr s log" and v: "price_tick_valid t" and m: "unat (tick_market_id t) < MARKET_COUNT"
    and lim: "length (log (tick_market_id t)) * 24 + 24 < MMAP_LIMIT"
  shows "\<exists>s'. tick_store_append t s = Some (Inr (), s') \<and>
    tick_store_repr s' (log(tick_market_id t := log (tick_market_id t) @ [t]))"
proof -
  let ?m = "tick_market_id t" and ?i = "unat (tick_market_id t)" and ?rss = "map log all_markets"
  have h: "tick.store_holds tick_paths s ?rss" using r by (simp add: tick_store_repr_def)
  have at: "?rss ! ?i = log ?m" using m by (simp add: nth_all_markets_unat)
  obtain f s1 where 1: "ensure_slot ?i (tick_paths ! ?i) s = Some (Inr f, s1)"
    "tick.store_holds tick_paths s1 ?rss" "tick.holds f (?rss ! ?i)"
    using tick.store_holds_ensure [OF h, of ?i] m by auto
  obtain s2 where 2: "on_file_slot ?i (mmap_append_record price_tick_bytes t) f s1 = Some (Inr (), s2)"
    "tick.store_holds tick_paths s2 (?rss[?i := ?rss ! ?i @ [t]])"
    using tick.store_holds_append [OF 1(2) _ 1(3) v] m lim at by (auto simp: PRICE_TICK_SIZE_def)
  have "tick_store_append t s = Some (Inr (), s2)"
    using 1 2 m by (simp add: tick_store_append_def Let_def tick_ensure_file_def nth_tick_paths)
  moreover have "tick_store_repr s2 (log(?m := log ?m @ [t]))"
    using 2(2) m at by (simp add: tick_store_repr_def map_log_update)
  ultimately show ?thesis by blast
qed

lemma tick_store_ticks_repr:
  assumes "tick_store_repr s log"
  shows "tick_store_ticks s m = Some (if unat m < MARKET_COUNT then log m else [])"
proof (cases "unat m < MARKET_COUNT")
  case True
  have h: "tick.store_holds tick_paths s (map log all_markets)" using assms by (simp add: tick_store_repr_def)
  then have "length (mfs_files s) = MARKET_COUNT" by (simp add: tick.store_holds_def)
  then show ?thesis
    using tick.store_holds_slice [OF h, of "unat m"] True
    by (simp add: tick_store_ticks_def file_at_def nth_all_markets_unat)
next
  case False
  then show ?thesis using assms by (simp add: tick_store_ticks_def file_at_def tick_store_repr_def tick.store_holds_def)
qed

lemma tick_store_tick_count_repr:
  assumes "tick_store_repr s log" "unat m < MARKET_COUNT"
  shows "unat (tick_store_tick_count s m) = length (log m)"
proof -
  have h: "tick.store_holds tick_paths s (map log all_markets)" using assms by (simp add: tick_store_repr_def)
  then have "length (mfs_files s) = MARKET_COUNT" by (simp add: tick.store_holds_def)
  then show ?thesis
    using tick.store_holds_count [OF h, of "unat m"] assms
    by (simp add: tick_store_tick_count_def file_at_def nth_all_markets_unat)
qed

lemma tick_store_latest_repr:
  "tick_store_repr s log \<Longrightarrow> unat m < MARKET_COUNT \<Longrightarrow> tick_store_latest s m = Some (last_opt (log m))"
  by (simp add: tick_store_latest_def tick_store_ticks_repr)

lemma tick_store_append_invalid:
  "MARKET_COUNT \<le> unat (tick_market_id t) \<Longrightarrow> \<exists>e. tick_store_append t s = Some (Inl (InvalidArgument e), s)"
  by (simp add: tick_store_append_def Let_def)

section \<open>Runs of appends\<close>

text \<open>A client that appends ticks one after another, whatever the results.\<close>

fun append_ticks :: "price_tick list \<Rightarrow> tick_store \<Rightarrow> tick_store panicking" where
  "append_ticks [] s = Some s"
| "append_ticks (t # ts) s =
     (case tick_store_append t s of None \<Rightarrow> None | Some (_, s') \<Rightarrow> append_ticks ts s')"

lemma append_ticks_repr:
  assumes "tick_store_repr s log" "\<And>m. length (log m) \<le> n"
    and "\<forall>t \<in> set ts. price_tick_valid t \<and> unat (tick_market_id t) < MARKET_COUNT" "n + length ts < 2 ^ 48"
  shows "\<exists>s'. append_ticks ts s = Some s' \<and> tick_store_repr s' (\<lambda>m. log m @ filter (\<lambda>t. tick_market_id t = m) ts)"
  using assms
proof (induction ts arbitrary: s log n)
  case (Cons t ts)
  let ?log = "log(tick_market_id t := log (tick_market_id t) @ [t])"
  have "length (log (tick_market_id t)) \<le> n" by (rule Cons.prems(2))
  then have "length (log (tick_market_id t)) * 24 + 24 < MMAP_LIMIT"
    using Cons.prems(4) by (simp add: MMAP_LIMIT_def)
  then obtain s1 where s1: "tick_store_append t s = Some (Inr (), s1)" "tick_store_repr s1 ?log"
    using tick_store_append_ok [OF Cons.prems(1)] Cons.prems(3) by auto
  have "length (?log m) \<le> Suc n" for m using Cons.prems(2) [of m] by auto
  then obtain s' where "append_ticks ts s1 = Some s'"
    "tick_store_repr s' (\<lambda>m. ?log m @ filter (\<lambda>t. tick_market_id t = m) ts)"
    using Cons.IH [OF s1(2), of "Suc n"] Cons.prems(3,4) by auto
  moreover have "(\<lambda>m. ?log m @ filter (\<lambda>t. tick_market_id t = m) ts) =
      (\<lambda>m. log m @ filter (\<lambda>t. tick_market_id t = m) (t # ts))" by auto
  ultimately show ?case using s1(1) by simp
qed simp

end
