(* ===== verification/Timeframes.thy ===== *)
theory Timeframes
  imports Prelude
begin

text \<open>The candle timeframes, \<open>src/core/timeframe.rs\<close>.\<close>

datatype timeframe =
    Sec1 | Sec5 | Sec15 | Sec30
  | Min1 | Min2 | Min3 | Min5 | Min15 | Min30
  | Hour1 | Hour2 | Hour4 | Hour8
  | Day1 | Week1

definition timeframe_ALL :: "timeframe list" where
  "timeframe_ALL = [Sec1, Sec5, Sec15, Sec30, Min1, Min2, Min3, Min5, Min15, Min30,
     Hour1, Hour2, Hour4, Hour8, Day1, Week1]"

text \<open>The discriminant, \<open>tf as u8\<close>.\<close>

fun timeframe_u8 :: "timeframe \<Rightarrow> u8" where
  "timeframe_u8 Sec1 = 0"
| "timeframe_u8 Sec5 = 1"
| "timeframe_u8 Sec15 = 2"
| "timeframe_u8 Sec30 = 3"
| "timeframe_u8 Min1 = 4"
| "timeframe_u8 Min2 = 5"
| "timeframe_u8 Min3 = 6"
| "timeframe_u8 Min5 = 7"
| "timeframe_u8 Min15 = 8"
| "timeframe_u8 Min30 = 9"
| "timeframe_u8 Hour1 = 10"
| "timeframe_u8 Hour2 = 11"
| "timeframe_u8 Hour4 = 12"
| "timeframe_u8 Hour8 = 13"
| "timeframe_u8 Day1 = 14"
| "timeframe_u8 Week1 = 15"

text \<open>\<open>i64\<close> values are their 64 bits, read with \<open>sint\<close>.\<close>

fun duration_ms :: "timeframe \<Rightarrow> 64 word" where
  "duration_ms Sec1 = 1000"
| "duration_ms Sec5 = 5000"
| "duration_ms Sec15 = 15000"
| "duration_ms Sec30 = 30000"
| "duration_ms Min1 = 60000"
| "duration_ms Min2 = 120000"
| "duration_ms Min3 = 180000"
| "duration_ms Min5 = 300000"
| "duration_ms Min15 = 900000"
| "duration_ms Min30 = 1800000"
| "duration_ms Hour1 = 3600000"
| "duration_ms Hour2 = 7200000"
| "duration_ms Hour4 = 14400000"
| "duration_ms Hour8 = 28800000"
| "duration_ms Day1 = 86400000"
| "duration_ms Week1 = 604800000"

definition duration_secs :: "timeframe \<Rightarrow> u64" where
  "duration_secs tf = duration_ms tf div 1000"

text \<open>\<open>rem_euclid\<close> by a positive divisor is the mathematical modulus.\<close>

definition bucket_start_ms :: "timeframe \<Rightarrow> 64 word \<Rightarrow> 64 word" where
  "bucket_start_ms tf t =
     (let d = duration_ms tf in t - word_of_int (sint t mod sint d))"

definition bucket_start_ns :: "timeframe \<Rightarrow> u64 \<Rightarrow> u64" where
  "bucket_start_ns tf t =
     (let d_ns = duration_ms tf * 1000000 in t - (t mod d_ns))"

definition timeframe_from_str :: "string \<Rightarrow> timeframe option" where
  "timeframe_from_str s =
     (if s = ''1s'' then Some Sec1
      else if s = ''5s'' then Some Sec5
      else if s = ''15s'' then Some Sec15
      else if s = ''30s'' then Some Sec30
      else if s = ''1m'' then Some Min1
      else if s = ''2m'' then Some Min2
      else if s = ''3m'' then Some Min3
      else if s = ''5m'' then Some Min5
      else if s = ''15m'' then Some Min15
      else if s = ''30m'' then Some Min30
      else if s = ''1h'' then Some Hour1
      else if s = ''2h'' then Some Hour2
      else if s = ''4h'' then Some Hour4
      else if s = ''8h'' then Some Hour8
      else if s = ''1D'' \<or> s = ''1d'' then Some Day1
      else if s = ''1W'' \<or> s = ''1w'' then Some Week1
      else None)"

fun timeframe_as_str :: "timeframe \<Rightarrow> string" where
  "timeframe_as_str Sec1 = ''1s''"
| "timeframe_as_str Sec5 = ''5s''"
| "timeframe_as_str Sec15 = ''15s''"
| "timeframe_as_str Sec30 = ''30s''"
| "timeframe_as_str Min1 = ''1m''"
| "timeframe_as_str Min2 = ''2m''"
| "timeframe_as_str Min3 = ''3m''"
| "timeframe_as_str Min5 = ''5m''"
| "timeframe_as_str Min15 = ''15m''"
| "timeframe_as_str Min30 = ''30m''"
| "timeframe_as_str Hour1 = ''1h''"
| "timeframe_as_str Hour2 = ''2h''"
| "timeframe_as_str Hour4 = ''4h''"
| "timeframe_as_str Hour8 = ''8h''"
| "timeframe_as_str Day1 = ''1D''"
| "timeframe_as_str Week1 = ''1W''"

definition timeframe_from_u8 :: "u8 \<Rightarrow> timeframe option" where
  "timeframe_from_u8 v =
     (if v = 0 then Some Sec1
      else if v = 1 then Some Sec5
      else if v = 2 then Some Sec15
      else if v = 3 then Some Sec30
      else if v = 4 then Some Min1
      else if v = 5 then Some Min2
      else if v = 6 then Some Min3
      else if v = 7 then Some Min5
      else if v = 8 then Some Min15
      else if v = 9 then Some Min30
      else if v = 10 then Some Hour1
      else if v = 11 then Some Hour2
      else if v = 12 then Some Hour4
      else if v = 13 then Some Hour8
      else if v = 14 then Some Day1
      else if v = 15 then Some Week1
      else None)"

section \<open>Lemmas\<close>

lemma length_timeframe_ALL [simp]: "length timeframe_ALL = 16"
  by (simp add: timeframe_ALL_def)

lemma set_timeframe_ALL [simp]: "set timeframe_ALL = UNIV"
proof -
  have "tf \<in> set timeframe_ALL" for tf by (cases tf) (simp_all add: timeframe_ALL_def)
  then show ?thesis by blast
qed

lemma distinct_timeframe_ALL [simp]: "distinct timeframe_ALL"
  by (simp add: timeframe_ALL_def)

lemma timeframe_u8_bound: "unat (timeframe_u8 tf) < 16"
  by (cases tf) simp_all

lemma timeframe_ALL_nth: "timeframe_ALL ! unat (timeframe_u8 tf) = tf"
  by (cases tf) (simp_all add: timeframe_ALL_def)

lemma timeframe_from_u8_u8: "timeframe_from_u8 (timeframe_u8 tf) = Some tf"
  by (cases tf) (simp_all add: timeframe_from_u8_def)

lemma timeframe_u8_inj: "timeframe_u8 a = timeframe_u8 b \<longleftrightarrow> a = b"
  by (metis timeframe_ALL_nth)

lemma timeframe_from_str_as_str: "timeframe_from_str (timeframe_as_str tf) = Some tf"
  by (cases tf) (simp_all add: timeframe_from_str_def)

definition bucket_ns :: "timeframe \<Rightarrow> nat" where
  "bucket_ns tf = unat (duration_ms tf) * 1000000"

lemma bucket_ns_pos [simp]: "0 < bucket_ns tf"
  by (cases tf) (simp_all add: bucket_ns_def)

lemma unat_bucket_width: "unat (duration_ms tf * 1000000) = bucket_ns tf"
  by (cases tf) (simp_all add: bucket_ns_def)

lemma unat_bucket_start_ns: "unat (bucket_start_ns tf t) = unat t - unat t mod bucket_ns tf"
proof -
  have "t mod (duration_ms tf * 1000000) \<le> t"
    by (simp add: word_le_nat_alt unat_mod_distrib)
  then show ?thesis
    by (simp add: bucket_start_ns_def Let_def unat_sub unat_mod_distrib unat_bucket_width)
qed

lemma bucket_start_ns_le: "unat (bucket_start_ns tf t) \<le> unat t"
  by (simp add: unat_bucket_start_ns)

lemma bucket_start_ns_dvd: "bucket_ns tf dvd unat (bucket_start_ns tf t)"
  by (simp add: unat_bucket_start_ns)

lemma bucket_start_ns_width: "unat t < unat (bucket_start_ns tf t) + bucket_ns tf"
proof -
  have "unat t mod bucket_ns tf < bucket_ns tf" "unat t mod bucket_ns tf \<le> unat t" by simp_all
  then show ?thesis unfolding unat_bucket_start_ns by linarith
qed

end
