(* ===== verification/Candle_Store.thy ===== *)
theory Candle_Store
  imports Tick_Store Timeframes
begin

text \<open>
  The candle files, \<open>src/storage/candle_store.rs\<close>: one mapped file of 48-byte \<open>CandleRecord\<close>s
  per market and timeframe.
\<close>

definition TF_COUNT :: nat where
  "TF_COUNT = 16"

definition CANDLE_SIZE :: nat where
  "CANDLE_SIZE = 48"

definition candle_bytes :: "candle_record \<Rightarrow> u8 list" where
  "candle_bytes c =
     u64_to_le (cdl_timestamp_ns c) @ u64_to_le (f64_bits (cdl_open c)) @ u64_to_le (f64_bits (cdl_high c)) @
     u64_to_le (f64_bits (cdl_low c)) @ u64_to_le (f64_bits (cdl_close c)) @ u32_to_le (f32_bits (cdl_volume c)) @
     u16_to_le (cdl_market_id c) @ [cdl_timeframe c, cdl_pad c]"

definition candle_of_bytes :: "u8 list \<Rightarrow> candle_record" where
  "candle_of_bytes bs =
     \<lparr>cdl_timestamp_ns = u64_from_le (take 8 bs), cdl_open = F64 (u64_from_le (take 8 (drop 8 bs))),
      cdl_high = F64 (u64_from_le (take 8 (drop 16 bs))), cdl_low = F64 (u64_from_le (take 8 (drop 24 bs))),
      cdl_close = F64 (u64_from_le (take 8 (drop 32 bs))), cdl_volume = F32 (u32_from_le (take 4 (drop 40 bs))),
      cdl_market_id = u16_from_le (take 2 (drop 44 bs)), cdl_timeframe = bs ! 46, cdl_pad = bs ! 47\<rparr>"

lemma candle_codec: "length (candle_bytes c) = 48" "candle_of_bytes (candle_bytes c) = c"
  by (simp_all add: candle_bytes_def candle_of_bytes_def nth_append)

interpretation candle: pod CANDLE_SIZE candle_bytes candle_of_bytes "\<lambda>_. True"
  by unfold_locales (simp_all add: CANDLE_SIZE_def candle_codec)

type_synonym candle_store = mapped_files

definition candle_flat_index :: "market_id \<Rightarrow> timeframe \<Rightarrow> nat" where
  "candle_flat_index market_id tf = unat market_id * TF_COUNT + unat (timeframe_u8 tf)"

definition candle_file_path :: "market_id \<Rightarrow> timeframe \<Rightarrow> string" where
  "candle_file_path market_id tf =
     ''m'' @ pad0 4 (show_nat (unat market_id)) @ ''_tf'' @ pad0 2 (show_nat (unat (timeframe_u8 tf))) @ ''.candle''"

text \<open>The pairs the nested loops of \<open>open\<close> and \<open>flush_all\<close> visit.\<close>

definition market_timeframes :: "(market_id \<times> timeframe) list" where
  "market_timeframes = concat (map (\<lambda>mid. map (\<lambda>tf. (mid, tf)) timeframe_ALL) all_markets)"

definition candle_store_open :: "(string \<rightharpoonup> u8 list) \<Rightarrow> candle_store result panicking" where
  "candle_store_open disk =
     (case open_slots disk (map (\<lambda>(mid, tf). (candle_flat_index mid tf, candle_file_path mid tf)) market_timeframes)
             (replicate (MARKET_COUNT * TF_COUNT) None) of
        None \<Rightarrow> None
      | Some (Inl e) \<Rightarrow> Some (Inl e)
      | Some (Inr files) \<Rightarrow> Some (Inr \<lparr>mfs_disk = disk, mfs_files = files\<rparr>))"

definition candle_ensure_file :: "market_id \<Rightarrow> timeframe \<Rightarrow> candle_store \<Rightarrow> (mmap_file result \<times> candle_store) panicking" where
  "candle_ensure_file market_id tf s =
     (let idx = candle_flat_index market_id tf
      in if length (mfs_files s) \<le> idx
         then Some (Inl (InvalidArgument (''market_id '' @ show_nat (unat market_id) @ '' out of range'')), s)
         else ensure_slot idx (candle_file_path market_id tf) s)"

definition candle_store_append :: "candle_record \<Rightarrow> candle_store \<Rightarrow> (unit result \<times> candle_store) panicking" where
  "candle_store_append candle s =
     (case timeframe_from_u8 (cdl_timeframe candle) of
        None \<Rightarrow> Some (Inl (InvalidArgument (''invalid timeframe: '' @ show_nat (unat (cdl_timeframe candle)))), s)
      | Some tf \<Rightarrow>
          (case candle_ensure_file (cdl_market_id candle) tf s of
             None \<Rightarrow> None
           | Some (Inl e, s1) \<Rightarrow> Some (Inl e, s1)
           | Some (Inr f, s1) \<Rightarrow>
               on_file_slot (candle_flat_index (cdl_market_id candle) tf) (mmap_append_record candle_bytes candle) f s1))"

definition candle_store_upsert :: "candle_record \<Rightarrow> candle_store \<Rightarrow> (unit result \<times> candle_store) panicking" where
  "candle_store_upsert candle s =
     (case timeframe_from_u8 (cdl_timeframe candle) of
        None \<Rightarrow> Some (Inl (InvalidArgument (''invalid timeframe: '' @ show_nat (unat (cdl_timeframe candle)))), s)
      | Some tf \<Rightarrow>
          (case candle_ensure_file (cdl_market_id candle) tf s of
             None \<Rightarrow> None
           | Some (Inl e, s1) \<Rightarrow> Some (Inl e, s1)
           | Some (Inr f, s1) \<Rightarrow>
               (let idx = candle_flat_index (cdl_market_id candle) tf;
                    cnt = mmap_record_count CANDLE_SIZE f;
                    last_offset = (cnt - 1) * word_of_nat CANDLE_SIZE;
                    app = on_file_slot idx (mmap_append_record candle_bytes candle) f s1
                in if 0 < cnt
                   then (case mmap_read_record CANDLE_SIZE candle_of_bytes f last_offset of
                           None \<Rightarrow> None
                         | Some None \<Rightarrow> app
                         | Some (Some lst) \<Rightarrow>
                             if cdl_timestamp_ns lst = cdl_timestamp_ns candle
                             then on_file_slot idx (mmap_write_at last_offset (candle_bytes candle)) f s1
                             else app)
                   else app)))"

definition candle_store_candles :: "candle_store \<Rightarrow> market_id \<Rightarrow> timeframe \<Rightarrow> candle_record list panicking" where
  "candle_store_candles s market_id tf =
     (case file_at (candle_flat_index market_id tf) s of
        None \<Rightarrow> Some []
      | Some f \<Rightarrow> mmap_as_slice CANDLE_SIZE candle_of_bytes f)"

definition candle_store_candle_count :: "candle_store \<Rightarrow> market_id \<Rightarrow> timeframe \<Rightarrow> u64" where
  "candle_store_candle_count s market_id tf =
     (case file_at (candle_flat_index market_id tf) s of
        None \<Rightarrow> 0
      | Some f \<Rightarrow> mmap_record_count CANDLE_SIZE f)"

definition candle_store_latest :: "candle_store \<Rightarrow> market_id \<Rightarrow> timeframe \<Rightarrow> candle_record option panicking" where
  "candle_store_latest s market_id tf = map_option last_opt (candle_store_candles s market_id tf)"

section \<open>The store as one list of candles per market and timeframe\<close>

definition candle_paths :: "string list" where
  "candle_paths = map (\<lambda>(mid, tf). candle_file_path mid tf) market_timeframes"

definition candle_store_repr :: "candle_store \<Rightarrow> (market_id \<times> timeframe \<Rightarrow> candle_record list) \<Rightarrow> bool" where
  "candle_store_repr s log \<longleftrightarrow> candle.store_holds candle_paths s (map log market_timeframes)"

text \<open>What \<open>upsert\<close> means on the list: replace the last candle of the same bucket, or append.\<close>

definition upsert_last :: "candle_record \<Rightarrow> candle_record list \<Rightarrow> candle_record list" where
  "upsert_last c cs =
     (if cs \<noteq> [] \<and> cdl_timestamp_ns (last cs) = cdl_timestamp_ns c then butlast cs @ [c] else cs @ [c])"

lemma length_concat_const: "(\<And>x. x \<in> set xs \<Longrightarrow> length (f x) = k) \<Longrightarrow> length (concat (map f xs)) = length xs * k"
  by (induction xs) auto

lemma nth_concat_const:
  "(\<And>x. length (f x) = k) \<Longrightarrow> i < length xs \<Longrightarrow> j < k \<Longrightarrow> concat (map f xs) ! (i * k + j) = f (xs ! i) ! j"
proof (induction xs arbitrary: i)
  case (Cons x xs)
  then show ?case by (cases i) (simp_all add: nth_append)
qed simp

lemma length_market_timeframes [simp]: "length market_timeframes = MARKET_COUNT * TF_COUNT"
  by (simp add: market_timeframes_def length_concat_const TF_COUNT_def)

lemma flat_index_bound: "candle_flat_index m tf < MARKET_COUNT * TF_COUNT \<longleftrightarrow> unat m < MARKET_COUNT"
  using timeframe_u8_bound [of tf] by (auto simp: candle_flat_index_def TF_COUNT_def MARKET_COUNT_def)

lemma nth_market_timeframes: "unat m < MARKET_COUNT \<Longrightarrow> market_timeframes ! candle_flat_index m tf = (m, tf)"
  using nth_concat_const [of "\<lambda>mid. map (\<lambda>tf. (mid, tf)) timeframe_ALL" 16 "unat m" all_markets "unat (timeframe_u8 tf)"]
    timeframe_u8_bound [of tf]
  by (simp add: market_timeframes_def candle_flat_index_def TF_COUNT_def nth_all_markets_unat timeframe_ALL_nth)

lemma in_market_timeframes: "(m, tf) \<in> set market_timeframes \<longleftrightarrow> unat m < MARKET_COUNT"
  by (auto simp: market_timeframes_def set_all_markets)

lemma flat_index_inj:
  "candle_flat_index m tf = candle_flat_index m' tf' \<Longrightarrow> m = m' \<and> tf = tf'"
proof -
  assume "candle_flat_index m tf = candle_flat_index m' tf'"
  then have eq: "unat m * 16 + unat (timeframe_u8 tf) = unat m' * 16 + unat (timeframe_u8 tf')"
    by (simp add: candle_flat_index_def TF_COUNT_def)
  have "(unat m * 16 + unat (timeframe_u8 tf)) div 16 = unat m"
    "(unat m' * 16 + unat (timeframe_u8 tf')) div 16 = unat m'"
    using timeframe_u8_bound [of tf] timeframe_u8_bound [of tf'] by simp_all
  with eq have "unat m = unat m'" by simp
  with eq show ?thesis by (simp add: timeframe_u8_inj flip: word_unat_eq_iff)
qed

lemma flat_index_nth:
  assumes "i < MARKET_COUNT * TF_COUNT"
  shows "(case market_timeframes ! i of (m, tf) \<Rightarrow> candle_flat_index m tf) = i"
proof -
  let ?m = "word_of_nat (i div 16) :: market_id" and ?tf = "timeframe_ALL ! (i mod 16)"
  have "i div 16 < MARKET_COUNT" using assms by (simp add: TF_COUNT_def less_mult_imp_div_less)
  then have m: "unat ?m = i div 16" "unat ?m < MARKET_COUNT" by simp_all
  have "map (\<lambda>tf. unat (timeframe_u8 tf)) timeframe_ALL = [0..<16]" by (simp add: timeframe_ALL_def upt_rec)
  then have tf: "unat (timeframe_u8 ?tf) = i mod 16"
    using nth_map [of "i mod 16" timeframe_ALL "\<lambda>tf. unat (timeframe_u8 tf)"] by simp
  have "candle_flat_index ?m ?tf = i" using m tf by (simp add: candle_flat_index_def TF_COUNT_def)
  then show ?thesis using nth_market_timeframes [OF m(2), of ?tf] by simp
qed

lemma candle_slots:
  "map (\<lambda>(mid, tf). (candle_flat_index mid tf, candle_file_path mid tf)) market_timeframes =
     zip [0..<MARKET_COUNT * TF_COUNT] candle_paths"
  using flat_index_nth by (intro nth_equalityI) (auto simp: candle_paths_def split_beta)

lemma distinct_market_timeframes: "distinct market_timeframes"
  using flat_index_nth by (metis distinct_conv_nth length_market_timeframes)

lemma length_candle_paths [simp]: "length candle_paths = MARKET_COUNT * TF_COUNT"
  by (simp add: candle_paths_def)

lemma nth_candle_paths: "unat m < MARKET_COUNT \<Longrightarrow> candle_paths ! candle_flat_index m tf = candle_file_path m tf"
  using flat_index_bound [of m tf] by (simp add: candle_paths_def nth_market_timeframes)

lemma pad0_show_no_underscore: "CHR ''_'' \<notin> set (pad0 w (show_nat n))"
proof -
  have "digit_char d \<noteq> CHR ''_''" if "d < 10" for d
    using char_digit_digit_char [OF that] by (auto simp: char_digit_def)
  then have "CHR ''_'' \<notin> digit_char ` {..<10}" by (metis imageE lessThan_iff)
  then show ?thesis using set_show_nat [of n] by (auto simp: pad0_def)
qed

lemma candle_file_path_inj:
  assumes "candle_file_path m tf = candle_file_path m' tf'"
  shows "m = m' \<and> tf = tf'"
proof -
  have split: "takeWhile (\<lambda>c. c \<noteq> CHR ''_'') (tl (candle_file_path m tf)) = pad0 4 (show_nat (unat m))" for m tf
    using pad0_show_no_underscore [of 4 "unat m"] by (subst candle_file_path_def, subst append_Cons, subst list.sel, subst append_Nil, subst takeWhile_append2) auto
  have "pad0 4 (show_nat (unat m)) = pad0 4 (show_nat (unat m'))" using assms by (metis split)
  moreover from this have "pad0 2 (show_nat (unat (timeframe_u8 tf))) = pad0 2 (show_nat (unat (timeframe_u8 tf')))"
    using assms by (simp add: candle_file_path_def)
  ultimately have "unat m = unat m'" "unat (timeframe_u8 tf) = unat (timeframe_u8 tf')"
    by (auto dest: pad0_show_inj)
  then show ?thesis by (simp add: timeframe_u8_inj flip: word_unat_eq_iff)
qed

lemma distinct_candle_paths: "distinct candle_paths"
  by (auto simp: candle_paths_def distinct_map distinct_market_timeframes inj_on_def dest: candle_file_path_inj)

lemma map_candle_log_update:
  assumes "unat m < MARKET_COUNT"
  shows "(map log market_timeframes)[candle_flat_index m tf := v] = map (log((m, tf) := v)) market_timeframes"
proof (intro nth_equalityI)
  fix i assume "i < length ((map log market_timeframes)[candle_flat_index m tf := v])"
  then have i: "i < MARKET_COUNT * TF_COUNT" by simp
  have "market_timeframes ! i = (m, tf) \<longleftrightarrow> i = candle_flat_index m tf"
    using flat_index_nth [OF i] nth_market_timeframes [OF assms, of tf] by auto
  then show "(map log market_timeframes)[candle_flat_index m tf := v] ! i =
      map (log((m, tf) := v)) market_timeframes ! i"
    using i by (auto simp: nth_list_update)
qed simp

lemma candle_store_open_empty:
  assumes "\<And>m tf. disk (candle_file_path m tf) = None"
  shows "\<exists>s. candle_store_open disk = Some (Inr s) \<and> candle_store_repr s (\<lambda>_. [])"
proof -
  have "disk p = None" if "p \<in> set candle_paths" for p using that assms by (auto simp: candle_paths_def)
  note e = candle.store_holds_empty [of candle_paths disk, OF this]
  show ?thesis
    using e by (simp add: candle_store_open_def candle_slots candle_store_repr_def map_replicate_const)
qed

lemma candle_store_reopen:
  assumes "candle_store_repr s log"
  shows "\<exists>s'. candle_store_open (store_image candle_paths s) = Some (Inr s') \<and> candle_store_repr s' log \<and>
    mfs_files s' = mfs_files s"
  using candle.store_holds_reopen [of candle_paths s "map log market_timeframes"] assms distinct_candle_paths
  by (simp add: candle_store_open_def candle_slots candle_store_repr_def)

lemma candle_ensure_ok:
  assumes r: "candle_store_repr s log" and m: "unat m < MARKET_COUNT"
  shows "\<exists>f s'. candle_ensure_file m tf s = Some (Inr f, s') \<and> candle_store_repr s' log \<and> candle.holds f (log (m, tf))"
proof -
  let ?i = "candle_flat_index m tf"
  have h: "candle.store_holds candle_paths s (map log market_timeframes)"
    using r by (simp add: candle_store_repr_def)
  have i: "?i < length candle_paths" using m flat_index_bound [of m tf] by simp
  obtain f s1 where "ensure_slot ?i (candle_paths ! ?i) s = Some (Inr f, s1)"
    "candle.store_holds candle_paths s1 (map log market_timeframes)"
    "candle.holds f (map log market_timeframes ! ?i)"
    using candle.store_holds_ensure [OF h i] by auto
  moreover have "length (mfs_files s) = length candle_paths" using h by (simp only: candle.store_holds_def)
  ultimately show ?thesis
    using i m
    by (auto simp: candle_ensure_file_def candle_store_repr_def Let_def nth_candle_paths nth_market_timeframes)
qed

lemma candle_slot_append:
  assumes r: "candle_store_repr s log" and m: "unat m < MARKET_COUNT" and f: "candle.holds f (log (m, tf))"
    and lim: "length (log (m, tf)) * 48 + 48 < MMAP_LIMIT"
  shows "\<exists>s'. on_file_slot (candle_flat_index m tf) (mmap_append_record candle_bytes c) f s = Some (Inr (), s') \<and>
    candle_store_repr s' (log((m, tf) := log (m, tf) @ [c]))"
  using candle.store_holds_append [of candle_paths s "map log market_timeframes" "candle_flat_index m tf" f c]
    r m f lim flat_index_bound [of m tf]
  by (simp add: candle_store_repr_def nth_market_timeframes CANDLE_SIZE_def map_candle_log_update)

lemma candle_slot_write:
  assumes r: "candle_store_repr s log" and m: "unat m < MARKET_COUNT" and f: "candle.holds f (log (m, tf))"
    and k: "k < length (log (m, tf))"
  shows "\<exists>s'. on_file_slot (candle_flat_index m tf) (mmap_write_at (word_of_nat (k * CANDLE_SIZE)) (candle_bytes c)) f s =
      Some (Inr (), s') \<and> candle_store_repr s' (log((m, tf) := (log (m, tf))[k := c]))"
  using candle.store_holds_write [of candle_paths s "map log market_timeframes" "candle_flat_index m tf" f k c]
    r m f k flat_index_bound [of m tf]
  by (simp add: candle_store_repr_def nth_market_timeframes map_candle_log_update del: of_nat_mult)

lemma candle_store_append_ok:
  assumes r: "candle_store_repr s log" and m: "unat (cdl_market_id c) < MARKET_COUNT"
    and tf: "cdl_timeframe c = timeframe_u8 tf"
    and lim: "length (log (cdl_market_id c, tf)) * 48 + 48 < MMAP_LIMIT"
  shows "\<exists>s'. candle_store_append c s = Some (Inr (), s') \<and>
    candle_store_repr s' (log((cdl_market_id c, tf) := log (cdl_market_id c, tf) @ [c]))"
proof -
  obtain f s1 where "candle_ensure_file (cdl_market_id c) tf s = Some (Inr f, s1)"
    "candle_store_repr s1 log" "candle.holds f (log (cdl_market_id c, tf))"
    using candle_ensure_ok [OF r m] by blast
  then show ?thesis
    using candle_slot_append [of s1 log "cdl_market_id c" f tf c] m lim
    by (simp add: candle_store_append_def tf timeframe_from_u8_u8)
qed

lemma list_update_last: "xs \<noteq> [] \<Longrightarrow> xs[length xs - 1 := x] = butlast xs @ [x]"
  by (metis append_butlast_last_id length_butlast list_update_length)

lemma candle_store_upsert_ok:
  assumes r: "candle_store_repr s log" and m: "unat (cdl_market_id c) < MARKET_COUNT"
    and tf: "cdl_timeframe c = timeframe_u8 tf"
    and lim: "length (log (cdl_market_id c, tf)) * 48 + 48 < MMAP_LIMIT"
  shows "\<exists>s'. candle_store_upsert c s = Some (Inr (), s') \<and>
    candle_store_repr s' (log((cdl_market_id c, tf) := upsert_last c (log (cdl_market_id c, tf))))"
proof -
  let ?m = "cdl_market_id c" and ?cs = "log (cdl_market_id c, tf)" and ?k = "length (log (cdl_market_id c, tf)) - 1"
  obtain f s1 where e: "candle_ensure_file ?m tf s = Some (Inr f, s1)" and r1: "candle_store_repr s1 log"
    and f: "candle.holds f ?cs"
    using candle_ensure_ok [OF r m] by blast
  note app = candle_slot_append [OF r1 m f lim, of c]
  have cnt: "unat (mmap_record_count CANDLE_SIZE f) = length ?cs" by (rule candle.holds_record_count [OF f])
  show ?thesis
  proof (cases "?cs = []")
    case True
    then have "\<not> 0 < mmap_record_count CANDLE_SIZE f" using cnt by (simp add: word_less_nat_alt)
    then show ?thesis using e app True
      by (simp add: candle_store_upsert_def tf timeframe_from_u8_u8 upsert_last_def Let_def)
  next
    case False
    then have pos: "0 < mmap_record_count CANDLE_SIZE f" using cnt by (simp add: word_less_nat_alt)
    have "mmap_record_count CANDLE_SIZE f = word_of_nat (length ?cs)" using cnt by (simp flip: word_unat_eq_iff cnt)
    then have off: "(mmap_record_count CANDLE_SIZE f - 1) * word_of_nat CANDLE_SIZE = word_of_nat (?k * CANDLE_SIZE)"
      using False by (simp add: of_nat_diff Suc_leI)
    have k: "?k < length ?cs" using False by simp
    have rd: "mmap_read_record CANDLE_SIZE candle_of_bytes f (word_of_nat (?k * CANDLE_SIZE)) = Some (Some (last ?cs))"
      using candle.holds_read_record [OF f k] False by (simp add: last_conv_nth del: of_nat_mult)
    show ?thesis
      using e app candle_slot_write [OF r1 m f k, of c] False pos rd
      by (auto simp: candle_store_upsert_def tf timeframe_from_u8_u8 upsert_last_def Let_def off
            list_update_last [simplified One_nat_def]
          simp del: of_nat_mult)
  qed
qed

lemma candle_store_candles_repr:
  assumes "candle_store_repr s log"
  shows "candle_store_candles s m tf = Some (if unat m < MARKET_COUNT then log (m, tf) else [])"
proof -
  have h: "candle.store_holds candle_paths s (map log market_timeframes)"
    using assms by (simp add: candle_store_repr_def)
  then have len: "length (mfs_files s) = MARKET_COUNT * TF_COUNT" by (simp add: candle.store_holds_def)
  show ?thesis
    using candle.store_holds_slice [OF h, of "candle_flat_index m tf"] flat_index_bound [of m tf] len
    by (simp add: candle_store_candles_def file_at_def nth_market_timeframes)
qed

lemma candle_store_candle_count_repr:
  assumes "candle_store_repr s log" "unat m < MARKET_COUNT"
  shows "unat (candle_store_candle_count s m tf) = length (log (m, tf))"
proof -
  have h: "candle.store_holds candle_paths s (map log market_timeframes)"
    using assms by (simp add: candle_store_repr_def)
  then have len: "length (mfs_files s) = MARKET_COUNT * TF_COUNT" by (simp add: candle.store_holds_def)
  show ?thesis
    using candle.store_holds_count [OF h, of "candle_flat_index m tf"] flat_index_bound [of m tf] len assms(2)
    by (simp add: candle_store_candle_count_def file_at_def nth_market_timeframes)
qed

lemma candle_store_append_errors:
  "timeframe_from_u8 (cdl_timeframe c) = None \<Longrightarrow> \<exists>e. candle_store_append c s = Some (Inl (InvalidArgument e), s)"
  "candle_store_repr s log \<Longrightarrow> timeframe_from_u8 (cdl_timeframe c) = Some tf \<Longrightarrow> MARKET_COUNT \<le> unat (cdl_market_id c) \<Longrightarrow>
    \<exists>e. candle_store_append c s = Some (Inl (InvalidArgument e), s)"
  using flat_index_bound [of "cdl_market_id c" tf]
  by (simp_all add: candle_store_append_def candle_ensure_file_def candle_store_repr_def candle.store_holds_def Let_def)

section \<open>Runs of upserts\<close>

fun upsert_candles :: "candle_record list \<Rightarrow> candle_store \<Rightarrow> candle_store panicking" where
  "upsert_candles [] s = Some s"
| "upsert_candles (c # cs) s =
     (case candle_store_upsert c s of None \<Rightarrow> None | Some (_, s') \<Rightarrow> upsert_candles cs s')"

lemma length_upsert_last: "length (upsert_last c cs) \<le> Suc (length cs)"
  by (simp add: upsert_last_def)

lemma upsert_candles_repr:
  assumes "candle_store_repr s log" "\<forall>c \<in> set cs. cdl_market_id c = m \<and> cdl_timeframe c = timeframe_u8 tf"
    and "unat m < MARKET_COUNT" "length (log (m, tf)) + length cs < 2 ^ 48"
  shows "\<exists>s'. upsert_candles cs s = Some s' \<and>
    candle_store_repr s' (log((m, tf) := fold upsert_last cs (log (m, tf))))"
  using assms
proof (induction cs arbitrary: s log)
  case (Cons c cs)
  let ?log = "log((m, tf) := upsert_last c (log (m, tf)))"
  have "length (log (m, tf)) * 48 + 48 < MMAP_LIMIT" using Cons.prems(4) by (simp add: MMAP_LIMIT_def)
  then obtain s1 where s1: "candle_store_upsert c s = Some (Inr (), s1)" "candle_store_repr s1 ?log"
    using candle_store_upsert_ok [OF Cons.prems(1), of c tf] Cons.prems(2,3) by auto
  have "length (?log (m, tf)) + length cs < 2 ^ 48"
    using Cons.prems(4) length_upsert_last [of c "log (m, tf)"] by simp
  then obtain s' where "upsert_candles cs s1 = Some s'"
    "candle_store_repr s' (?log((m, tf) := fold upsert_last cs (?log (m, tf))))"
    using Cons.IH [OF s1(2) _ Cons.prems(3)] Cons.prems(2) by (auto simp del: fun_upd_apply)
  then show ?case using s1(1) by (simp add: fun_upd_same del: fun_upd_apply)
qed simp

end
