(* ===== verification/Candle_Builder.thy ===== *)
theory Candle_Builder
  imports Candle_Store
begin

text \<open>
  The real-time candle builder, \<open>src/aggregation/candle_builder.rs\<close>, and its meaning: the
  candles of a market and timeframe are the summaries of the maximal runs of ticks that
  fall into the same bucket.
\<close>

record candle_buffer =
  cb_bucket_start_ns :: u64
  cb_open :: f64
  cb_high :: f64
  cb_low :: f64
  cb_close :: f64
  cb_volume :: f32
  cb_tick_count :: u32

definition candle_buffer_new :: "u64 \<Rightarrow> f64 \<Rightarrow> candle_buffer" where
  "candle_buffer_new bucket_start price =
     \<lparr>cb_bucket_start_ns = bucket_start, cb_open = price, cb_high = price, cb_low = price, cb_close = price,
      cb_volume = F32 0, cb_tick_count = 1\<rparr>"

definition candle_buffer_update :: "f64 \<Rightarrow> candle_buffer \<Rightarrow> candle_buffer" where
  "candle_buffer_update price buf =
     (let buf = (if f64_lt (cb_high buf) price then buf\<lparr>cb_high := price\<rparr> else buf);
          buf = (if f64_lt price (cb_low buf) then buf\<lparr>cb_low := price\<rparr> else buf)
      in buf\<lparr>cb_close := price, cb_tick_count := cb_tick_count buf + 1\<rparr>)"

definition candle_to_record :: "market_id \<Rightarrow> timeframe \<Rightarrow> candle_buffer \<Rightarrow> candle_record" where
  "candle_to_record market_id tf buf =
     \<lparr>cdl_timestamp_ns = cb_bucket_start_ns buf, cdl_open = cb_open buf, cdl_high = cb_high buf,
      cdl_low = cb_low buf, cdl_close = cb_close buf, cdl_volume = cb_volume buf,
      cdl_market_id = market_id, cdl_timeframe = timeframe_u8 tf, cdl_pad = 0\<rparr>"

datatype candle_output = ClosedCandle candle_record | LiveCandle candle_record

text \<open>\<open>buffers\<close>; its length never changes, so the indexing below stays in range.\<close>

type_synonym candle_builder = "candle_buffer option list"

definition candle_builder_new :: candle_builder where
  "candle_builder_new = replicate (MARKET_COUNT * TF_COUNT) None"

text \<open>The \<open>match\<close> of the loop of \<open>on_tick\<close> on the buffer of one timeframe.\<close>

definition on_tick_buffer :: "price_tick \<Rightarrow> timeframe \<Rightarrow> candle_buffer option \<Rightarrow> candle_buffer \<times> candle_output list" where
  "on_tick_buffer tick tf slot =
     (let mid = tick_market_id tick;
          bucket = bucket_start_ns tf (tick_timestamp_ns tick)
      in case slot of
           Some buf \<Rightarrow>
             if cb_bucket_start_ns buf = bucket
             then (let buf' = candle_buffer_update (tick_price tick) buf
                   in (buf', [LiveCandle (candle_to_record mid tf buf')]))
             else (let buf' = candle_buffer_new bucket (tick_price tick)
                   in (buf', [ClosedCandle (candle_to_record mid tf buf), LiveCandle (candle_to_record mid tf buf')]))
         | None \<Rightarrow>
             (let buf' = candle_buffer_new bucket (tick_price tick)
              in (buf', [LiveCandle (candle_to_record mid tf buf')])))"

definition on_tick :: "price_tick \<Rightarrow> candle_builder \<Rightarrow> candle_output list \<times> candle_builder" where
  "on_tick tick buffers =
     (if MARKET_COUNT \<le> unat (tick_market_id tick) then ([], buffers)
      else fold (\<lambda>tf (out, bufs).
             let idx = candle_flat_index (tick_market_id tick) tf;
                 (buf', o') = on_tick_buffer tick tf (bufs ! idx)
             in (out @ o', bufs[idx := Some buf'])) timeframe_ALL ([], buffers))"

definition builder_current :: "candle_builder \<Rightarrow> market_id \<Rightarrow> timeframe \<Rightarrow> candle_record option" where
  "builder_current buffers market_id tf =
     (let idx = candle_flat_index market_id tf
      in if idx < length buffers then map_option (candle_to_record market_id tf) (buffers ! idx) else None)"

definition builder_flush_all :: "candle_builder \<Rightarrow> candle_record list" where
  "builder_flush_all buffers =
     List.map_filter (\<lambda>(mid, tf). map_option (candle_to_record mid tf) (buffers ! candle_flat_index mid tf))
       market_timeframes"

definition builder_seed :: "market_id \<Rightarrow> timeframe \<Rightarrow> candle_record \<Rightarrow> candle_builder \<Rightarrow> candle_builder" where
  "builder_seed market_id tf candle buffers =
     (let idx = candle_flat_index market_id tf
      in if idx < length buffers
         then buffers[idx := Some \<lparr>cb_bucket_start_ns = cdl_timestamp_ns candle, cb_open = cdl_open candle,
                cb_high = cdl_high candle, cb_low = cdl_low candle, cb_close = cdl_close candle,
                cb_volume = cdl_volume candle, cb_tick_count = 0\<rparr>]
         else buffers)"

section \<open>One tick, seen from one market and timeframe\<close>

definition builder_ok :: "candle_builder \<Rightarrow> bool" where
  "builder_ok buffers \<longleftrightarrow> length buffers = MARKET_COUNT * TF_COUNT"

fun output_record :: "candle_output \<Rightarrow> candle_record" where
  "output_record (ClosedCandle c) = c"
| "output_record (LiveCandle c) = c"

text \<open>The outputs that belong to a market and timeframe.\<close>

definition outputs_of :: "market_id \<Rightarrow> timeframe \<Rightarrow> candle_output list \<Rightarrow> candle_output list" where
  "outputs_of m tf =
     filter (\<lambda>o'. cdl_market_id (output_record o') = m \<and> cdl_timeframe (output_record o') = timeframe_u8 tf)"

lemma outputs_of_append [simp]: "outputs_of m tf (xs @ ys) = outputs_of m tf xs @ outputs_of m tf ys"
  by (simp add: outputs_of_def)

lemma builder_ok_new [simp]: "builder_ok candle_builder_new"
  by (simp add: builder_ok_def candle_builder_new_def)

lemma builder_ok_seed: "builder_ok b \<Longrightarrow> builder_ok (builder_seed m tf c b)"
  by (simp add: builder_ok_def builder_seed_def Let_def)

lemma outputs_of_on_tick_buffer:
  "outputs_of m tf' (snd (on_tick_buffer t tf slot)) =
     (if tick_market_id t = m \<and> tf' = tf then snd (on_tick_buffer t tf slot) else [])"
  by (auto simp: on_tick_buffer_def outputs_of_def candle_to_record_def Let_def timeframe_u8_inj split: option.splits)

text \<open>The loop over a list of distinct timeframes.\<close>

lemma on_tick_loop:
  assumes m: "unat (tick_market_id t) < MARKET_COUNT" and b: "builder_ok b" and d: "distinct tfs"
  shows "case fold (\<lambda>tf (out, bufs).
             let idx = candle_flat_index (tick_market_id t) tf;
                 (buf', o') = on_tick_buffer t tf (bufs ! idx)
             in (out @ o', bufs[idx := Some buf'])) tfs (out, b) of
      (out', b') \<Rightarrow>
        out' = out @ concat (map (\<lambda>tf. snd (on_tick_buffer t tf (b ! candle_flat_index (tick_market_id t) tf))) tfs) \<and>
        builder_ok b' \<and>
        (\<forall>m tf. unat m < MARKET_COUNT \<longrightarrow> b' ! candle_flat_index m tf =
          (if m = tick_market_id t \<and> tf \<in> set tfs
           then Some (fst (on_tick_buffer t tf (b ! candle_flat_index m tf)))
           else b ! candle_flat_index m tf))"
  using b d
proof (induction tfs arbitrary: out b)
  case (Cons tf tfs)
  let ?i = "candle_flat_index (tick_market_id t) tf"
  let ?b = "b[?i := Some (fst (on_tick_buffer t tf (b ! ?i)))]"
  have ok: "builder_ok ?b" using Cons.prems by (simp add: builder_ok_def)
  have len: "length b = MARKET_COUNT * TF_COUNT" using Cons.prems by (simp add: builder_ok_def)
  have upd: "?b ! candle_flat_index m' tf' =
      (if m' = tick_market_id t \<and> tf' = tf then Some (fst (on_tick_buffer t tf (b ! ?i)))
       else b ! candle_flat_index m' tf')" if "unat m' < MARKET_COUNT" for m' tf'
  proof -
    have "candle_flat_index m' tf' = ?i \<longleftrightarrow> m' = tick_market_id t \<and> tf' = tf"
      using flat_index_inj [of m' tf' "tick_market_id t" tf] by auto
    then show ?thesis using that len flat_index_bound [of m' tf'] by (cases "candle_flat_index m' tf' = ?i") auto
  qed
  have keep: "map (\<lambda>tf'. snd (on_tick_buffer t tf' (?b ! candle_flat_index (tick_market_id t) tf'))) tfs =
      map (\<lambda>tf'. snd (on_tick_buffer t tf' (b ! candle_flat_index (tick_market_id t) tf'))) tfs"
    using Cons.prems upd m by auto
  show ?case
    using Cons.IH [OF ok, of "out @ snd (on_tick_buffer t tf (b ! ?i))"] Cons.prems upd keep
    by (auto simp: Let_def split_beta)
qed simp

lemma on_tick_outputs:
  assumes "unat (tick_market_id t) < MARKET_COUNT" "builder_ok b"
  shows "fst (on_tick t b) =
    concat (map (\<lambda>tf. snd (on_tick_buffer t tf (b ! candle_flat_index (tick_market_id t) tf))) timeframe_ALL)"
  using on_tick_loop [OF assms, of timeframe_ALL "[]"] assms(1) by (auto simp: on_tick_def split: prod.splits)

lemma builder_ok_on_tick: "builder_ok b \<Longrightarrow> builder_ok (snd (on_tick t b))"
  using on_tick_loop [of t b timeframe_ALL "[]"] by (auto simp: on_tick_def not_le split: prod.splits)

lemma on_tick_slot:
  assumes "builder_ok b" "unat m < MARKET_COUNT"
  shows "snd (on_tick t b) ! candle_flat_index m tf =
    (if tick_market_id t = m then Some (fst (on_tick_buffer t tf (b ! candle_flat_index m tf)))
     else b ! candle_flat_index m tf)"
  using on_tick_loop [of t b timeframe_ALL "[]"] assms by (auto simp: on_tick_def not_le split: prod.splits)

lemma filter_concat_single:
  "distinct xs \<Longrightarrow> x \<in> set xs \<Longrightarrow> (\<And>y. y \<in> set xs \<Longrightarrow> filter P (f y) = (if y = x then f x else [])) \<Longrightarrow>
   filter P (concat (map f xs)) = f x"
proof (induction xs)
  case (Cons a xs)
  have none: "filter P (concat (map f ys)) = []" if "x \<notin> set ys" "\<And>y. y \<in> set ys \<Longrightarrow> filter P (f y) = (if y = x then f x else [])" for ys
    using that by (induction ys) (auto split: if_splits)
  show ?case
  proof (cases "a = x")
    case True
    then show ?thesis using Cons.prems none [of xs] by auto
  next
    case False
    then show ?thesis using Cons.prems Cons.IH by auto
  qed
qed simp

lemma outputs_of_on_tick:
  assumes b: "builder_ok b" and m: "unat m < MARKET_COUNT"
  shows "outputs_of m tf (fst (on_tick t b)) =
    (if tick_market_id t = m then snd (on_tick_buffer t tf (b ! candle_flat_index m tf)) else [])"
proof (cases "tick_market_id t = m")
  case True
  then have out: "fst (on_tick t b) =
      concat (map (\<lambda>tf. snd (on_tick_buffer t tf (b ! candle_flat_index m tf))) timeframe_ALL)"
    using on_tick_outputs [of t b] b m by simp
  show ?thesis
    using True outputs_of_on_tick_buffer [of m tf t]
    by (simp add: out) (simp add: outputs_of_def, subst filter_concat_single [where x = tf], auto)
next
  case False
  have none: "outputs_of m tf (concat (map f tfs)) = []"
    if "\<And>tf'. outputs_of m tf (f tf') = []" for f and tfs :: "timeframe list"
    using that by (induction tfs) (auto simp: outputs_of_def)
  show ?thesis
  proof (cases "unat (tick_market_id t) < MARKET_COUNT")
    case True
    then show ?thesis
      using False b by (simp add: on_tick_outputs none outputs_of_on_tick_buffer)
  qed (use False in \<open>simp add: on_tick_def outputs_of_def\<close>)
qed

section \<open>Candles as summaries of runs of ticks\<close>

text \<open>The maximal runs of consecutive elements with the same key.\<close>

fun runs :: "('a \<Rightarrow> 'k) \<Rightarrow> 'a list \<Rightarrow> 'a list list" where
  "runs k [] = []"
| "runs k (x # xs) =
     (case runs k xs of
        [] \<Rightarrow> [[x]]
      | g # gs \<Rightarrow> if k (hd g) = k x then (x # g) # gs else [x] # g # gs)"

lemma runs_eq_Nil [simp]: "runs k xs = [] \<longleftrightarrow> xs = []"
  by (cases xs) (auto split: list.splits)

lemma concat_runs: "concat (runs k xs) = xs"
  by (induction xs) (auto split: list.splits)

lemma runs_nonempty: "[] \<notin> set (runs k xs)"
  by (induction xs) (auto split: list.splits)

lemma runs_hd: "xs \<noteq> [] \<Longrightarrow> hd (hd (runs k xs)) = hd xs"
  by (cases xs) (auto split: list.splits)

lemma runs_same_key: "g \<in> set (runs k xs) \<Longrightarrow> x \<in> set g \<Longrightarrow> k x = k (hd g)"
proof (induction xs arbitrary: g x)
  case (Cons y ys)
  show ?case
  proof (cases "runs k ys")
    case (Cons h hs)
    then show ?thesis
      using Cons.prems Cons.IH [of h x] Cons.IH [of g x] by (auto split: if_splits)
  qed (use Cons.prems in auto)
qed simp

lemma runs_snoc:
  "runs k (xs @ [x]) =
     (if xs \<noteq> [] \<and> k (hd (last (runs k xs))) = k x then butlast (runs k xs) @ [last (runs k xs) @ [x]]
      else runs k xs @ [[x]])"
proof (induction xs)
  case (Cons y ys)
  show ?case
  proof (cases "ys = []")
    case False
    then obtain g gs where "runs k ys = g # gs" by (metis list.exhaust runs_eq_Nil)
    moreover have "g \<noteq> []" using runs_nonempty [of k ys] calculation by auto
    ultimately show ?thesis using Cons.IH False by (cases gs) auto
  qed simp
qed simp

text \<open>Upserting a stream keeps the last candle of every run of equal timestamps.\<close>

lemma fold_upsert_last: "fold upsert_last cs [] = map last (runs cdl_timestamp_ns cs)"
proof (induction cs rule: rev_induct)
  case (snoc c cs)
  show ?case
  proof (cases "cs = []")
    case False
    let ?g = "last (runs cdl_timestamp_ns cs)"
    have g: "?g \<in> set (runs cdl_timestamp_ns cs)" using False by simp
    then have "?g \<noteq> []" using runs_nonempty by metis
    then have key: "cdl_timestamp_ns (last ?g) = cdl_timestamp_ns (hd ?g)"
      by (intro runs_same_key [OF g]) simp
    have lst: "last (map last (runs cdl_timestamp_ns cs)) = last ?g" using False by (simp add: last_map)
    have step: "fold upsert_last (cs @ [c]) [] = upsert_last c (map last (runs cdl_timestamp_ns cs))" by (simp add: snoc)
    show ?thesis
    proof (cases "cdl_timestamp_ns (hd ?g) = cdl_timestamp_ns c")
      case True
      with False lst key show ?thesis unfolding step by (simp add: runs_snoc upsert_last_def map_butlast)
    next
      case neq: False
      with False lst key show ?thesis unfolding step by (simp add: runs_snoc upsert_last_def)
    qed
  qed (simp add: upsert_last_def)
qed simp

definition run_high :: "price_tick list \<Rightarrow> f64" where
  "run_high g = fold (\<lambda>t h. if f64_lt h (tick_price t) then tick_price t else h) (tl g) (tick_price (hd g))"

definition run_low :: "price_tick list \<Rightarrow> f64" where
  "run_low g = fold (\<lambda>t l. if f64_lt (tick_price t) l then tick_price t else l) (tl g) (tick_price (hd g))"

definition candle_of_run :: "market_id \<Rightarrow> timeframe \<Rightarrow> price_tick list \<Rightarrow> candle_record" where
  "candle_of_run m tf g =
     \<lparr>cdl_timestamp_ns = bucket_start_ns tf (tick_timestamp_ns (hd g)), cdl_open = tick_price (hd g),
      cdl_high = run_high g, cdl_low = run_low g, cdl_close = tick_price (last g), cdl_volume = F32 0,
      cdl_market_id = m, cdl_timeframe = timeframe_u8 tf, cdl_pad = 0\<rparr>"

abbreviation tick_bucket :: "timeframe \<Rightarrow> price_tick \<Rightarrow> u64" where
  "tick_bucket tf t \<equiv> bucket_start_ns tf (tick_timestamp_ns t)"

text \<open>A sequence of ticks through the builder, with all outputs.\<close>

fun on_ticks :: "price_tick list \<Rightarrow> candle_builder \<Rightarrow> candle_output list \<times> candle_builder" where
  "on_ticks [] b = ([], b)"
| "on_ticks (t # ts) b =
     (let (out, b') = on_tick t b; (out', b'') = on_ticks ts b' in (out @ out', b''))"

fun closed_record :: "candle_output \<Rightarrow> candle_record list" where
  "closed_record (ClosedCandle c) = [c]"
| "closed_record (LiveCandle c) = []"

definition closed_candles :: "market_id \<Rightarrow> timeframe \<Rightarrow> candle_output list \<Rightarrow> candle_record list" where
  "closed_candles m tf out = concat (map closed_record (outputs_of m tf out))"

lemma on_ticks_snoc:
  "on_ticks (ts @ [t]) b =
     (let (out, b') = on_ticks ts b; (out', b'') = on_tick t b' in (out @ out', b''))"
  by (induction ts arbitrary: b) (auto simp: Let_def split_beta)

lemma builder_ok_on_ticks: "builder_ok b \<Longrightarrow> builder_ok (snd (on_ticks ts b))"
  by (induction ts arbitrary: b) (auto simp: Let_def split_beta builder_ok_on_tick)

lemma run_high_snoc: "g \<noteq> [] \<Longrightarrow> run_high (g @ [t]) = (if f64_lt (run_high g) (tick_price t) then tick_price t else run_high g)"
  by (simp add: run_high_def)

lemma run_low_snoc: "g \<noteq> [] \<Longrightarrow> run_low (g @ [t]) = (if f64_lt (tick_price t) (run_low g) then tick_price t else run_low g)"
  by (simp add: run_low_def)

lemma run_single [simp]: "run_high [t] = tick_price t" "run_low [t] = tick_price t"
  by (simp_all add: run_high_def run_low_def)

lemma candle_of_run_update:
  assumes "candle_to_record m tf buf = candle_of_run m tf g" "g \<noteq> []"
  shows "candle_to_record m tf (candle_buffer_update (tick_price t) buf) = candle_of_run m tf (g @ [t])"
  using assms
  by (auto simp: candle_to_record_def candle_of_run_def candle_buffer_update_def run_high_snoc run_low_snoc Let_def)

text \<open>The buffer of a slot holds the last run; the closed candles are the earlier runs.\<close>

definition slot_of_runs :: "market_id \<Rightarrow> timeframe \<Rightarrow> price_tick list list \<Rightarrow> candle_buffer option \<Rightarrow> bool" where
  "slot_of_runs m tf gs slot \<longleftrightarrow>
     map_option (candle_to_record m tf) slot = (if gs = [] then None else Some (candle_of_run m tf (last gs)))"

lemma slot_of_runs_step:
  assumes s: "slot_of_runs m tf (runs (tick_bucket tf) ts) slot" and m: "tick_market_id t = m"
  shows "slot_of_runs m tf (runs (tick_bucket tf) (ts @ [t])) (Some (fst (on_tick_buffer t tf slot)))"
    and "concat (map closed_record (snd (on_tick_buffer t tf slot))) =
      (if ts \<noteq> [] \<and> length (runs (tick_bucket tf) (ts @ [t])) \<noteq> length (runs (tick_bucket tf) ts)
       then [candle_of_run m tf (last (runs (tick_bucket tf) ts))] else [])"
proof -
  let ?gs = "runs (tick_bucket tf) ts" and ?b = "tick_bucket tf t"
  have new: "candle_to_record m tf (candle_buffer_new ?b (tick_price t)) = candle_of_run m tf [t]"
    by (simp add: candle_to_record_def candle_buffer_new_def candle_of_run_def)
  consider (none) "slot = None" "ts = []"
    | (same) buf where "slot = Some buf" "ts \<noteq> []" "candle_to_record m tf buf = candle_of_run m tf (last ?gs)" "cb_bucket_start_ns buf = ?b"
    | (new) buf where "slot = Some buf" "ts \<noteq> []" "candle_to_record m tf buf = candle_of_run m tf (last ?gs)" "cb_bucket_start_ns buf \<noteq> ?b"
    using s by (cases slot) (auto simp: slot_of_runs_def split: if_splits)
  then have "slot_of_runs m tf (runs (tick_bucket tf) (ts @ [t])) (Some (fst (on_tick_buffer t tf slot))) \<and>
    concat (map closed_record (snd (on_tick_buffer t tf slot))) =
      (if ts \<noteq> [] \<and> length (runs (tick_bucket tf) (ts @ [t])) \<noteq> length (runs (tick_bucket tf) ts)
       then [candle_of_run m tf (last (runs (tick_bucket tf) ts))] else [])"
  proof cases
    case none
    then show ?thesis using new by (simp add: slot_of_runs_def on_tick_buffer_def Let_def)
  next
    case same
    have "tick_bucket tf (hd (last ?gs)) = ?b"
      using same by (simp add: candle_to_record_def candle_of_run_def)
    moreover have "last ?gs \<noteq> []" using same(2) runs_nonempty [of "tick_bucket tf" ts] by (metis last_in_set runs_eq_Nil)
    ultimately show ?thesis
      using same candle_of_run_update [OF same(3)]
      by (simp add: slot_of_runs_def on_tick_buffer_def Let_def runs_snoc m)
  next
    case new
    have "tick_bucket tf (hd (last ?gs)) \<noteq> ?b"
      using new by (simp add: candle_to_record_def candle_of_run_def)
    then show ?thesis
      using new \<open>candle_to_record m tf (candle_buffer_new ?b (tick_price t)) = candle_of_run m tf [t]\<close>
      by (simp add: slot_of_runs_def on_tick_buffer_def Let_def runs_snoc m)
  qed
  then show "slot_of_runs m tf (runs (tick_bucket tf) (ts @ [t])) (Some (fst (on_tick_buffer t tf slot)))"
    and "concat (map closed_record (snd (on_tick_buffer t tf slot))) =
      (if ts \<noteq> [] \<and> length (runs (tick_bucket tf) (ts @ [t])) \<noteq> length (runs (tick_bucket tf) ts)
       then [candle_of_run m tf (last (runs (tick_bucket tf) ts))] else [])"
    by blast+
qed

lemma on_ticks_slot:
  assumes m: "unat m < MARKET_COUNT"
  defines "ticks ts \<equiv> filter (\<lambda>t. tick_market_id t = m) ts"
  shows "slot_of_runs m tf (runs (tick_bucket tf) (ticks ts))
      (snd (on_ticks ts candle_builder_new) ! candle_flat_index m tf)"
    and "closed_candles m tf (fst (on_ticks ts candle_builder_new)) =
      map (candle_of_run m tf) (butlast (runs (tick_bucket tf) (ticks ts)))"
proof (induction ts rule: rev_induct)
  case Nil
  case 1
  have "candle_builder_new ! candle_flat_index m tf = None"
    using flat_index_bound [of m tf] m by (simp add: candle_builder_new_def)
  then show ?case by (simp add: ticks_def slot_of_runs_def)
next
  case Nil
  case 2
  show ?case by (simp add: ticks_def closed_candles_def outputs_of_def)
next
  case (snoc t ts)
  case 1
  let ?b = "snd (on_ticks ts candle_builder_new)"
  have ok: "builder_ok ?b" by (simp add: builder_ok_on_ticks)
  show ?case
    using on_tick_slot [OF ok m, of t tf] slot_of_runs_step(1) [OF snoc(1), of t]  snoc(1)
    by (auto simp: on_ticks_snoc Let_def split_beta ticks_def)
next
  case (snoc t ts)
  case 2
  let ?b = "snd (on_ticks ts candle_builder_new)"
  have ok: "builder_ok ?b" by (simp add: builder_ok_on_ticks)
  show ?case
    using outputs_of_on_tick [OF ok m, of tf t] slot_of_runs_step(2) [OF snoc(1), of t] snoc(2)
    by (auto simp: on_ticks_snoc Let_def split_beta ticks_def closed_candles_def runs_snoc
        map_butlast [symmetric] snoc_eq_iff_butlast last_map)
qed

section \<open>Bounds of a candle\<close>

definition candle_bounds :: "candle_record \<Rightarrow> bool" where
  "candle_bounds c \<longleftrightarrow> f64_le (cdl_low c) (cdl_open c) \<and> f64_le (cdl_open c) (cdl_high c) \<and>
     f64_le (cdl_low c) (cdl_close c) \<and> f64_le (cdl_close c) (cdl_high c)"

lemma run_bounds:
  assumes "\<And>t. t \<in> set g \<Longrightarrow> \<not> f64_is_nan (tick_price t)" "t \<in> set g"
  shows "f64_le (run_low g) (tick_price t) \<and> f64_le (tick_price t) (run_high g)"
  using assms
proof (induction g arbitrary: t rule: rev_induct)
  case (snoc x g)
  show ?case
  proof (cases "g = []")
    case True
    then show ?thesis using snoc.prems by (simp add: f64_le_refl)
  next
    case False
    then have "hd g \<in> set g" by simp
    then have n: "\<not> f64_is_nan (run_low g)" "\<not> f64_is_nan (run_high g)" "\<not> f64_is_nan (tick_price x)"
      using snoc.IH [of "hd g"] snoc.prems(1) by (auto simp: f64_le_def)
    show ?thesis
      using snoc.IH [of t] snoc.prems n False
      by (auto simp: run_high_snoc run_low_snoc f64_lt_def f64_le_def)
  qed
qed simp

end
