(* ===== verification/Referrals.thy ===== *)
theory Referrals
  imports Core_Types
begin

text \<open>The referral tiers, \<open>src/relational/referrals.rs\<close>.\<close>

record referral_tier =
  rt_tier :: string
  rt_min_referrals :: u32
  rt_min_volume :: i128
  rt_reward_bps :: u32
  rt_fee_discount_bps :: u32

definition DEFAULT_TIERS :: "referral_tier list" where
  "DEFAULT_TIERS =
    [\<lparr>rt_tier = ''bronze'', rt_min_referrals = 0, rt_min_volume = 0,
      rt_reward_bps = 5, rt_fee_discount_bps = 0\<rparr>,
     \<lparr>rt_tier = ''silver'', rt_min_referrals = 5, rt_min_volume = 100000000000000000000000,
      rt_reward_bps = 10, rt_fee_discount_bps = 5\<rparr>,
     \<lparr>rt_tier = ''gold'', rt_min_referrals = 20, rt_min_volume = 1000000000000000000000000,
      rt_reward_bps = 15, rt_fee_discount_bps = 10\<rparr>,
     \<lparr>rt_tier = ''platinum'', rt_min_referrals = 50, rt_min_volume = 10000000000000000000000000,
      rt_reward_bps = 20, rt_fee_discount_bps = 15\<rparr>]"

type_synonym referral_engine = "referral_tier list"

definition referrals_new :: referral_engine where
  "referrals_new = DEFAULT_TIERS"

definition referrals_with_tiers :: "referral_tier list \<Rightarrow> referral_engine" where
  "referrals_with_tiers tiers = tiers"

definition referrals_set_tiers :: "referral_tier list \<Rightarrow> referral_engine \<Rightarrow> referral_engine" where
  "referrals_set_tiers tiers e = tiers"

text \<open>The test of the loop of \<open>compute_tier\<close>.\<close>

definition qualifies :: "u32 \<Rightarrow> i128 \<Rightarrow> referral_tier \<Rightarrow> bool" where
  "qualifies referral_count total_volume t \<longleftrightarrow>
     rt_min_referrals t \<le> referral_count \<and> rt_min_volume t \<le> total_volume"

text \<open>\<open>&self.tiers[0]\<close> panics on an empty table.\<close>

definition compute_tier :: "referral_engine \<Rightarrow> u32 \<Rightarrow> i128 \<Rightarrow> referral_tier panicking" where
  "compute_tier tiers referral_count total_volume =
     (case List.find (qualifies referral_count total_volume) (rev tiers) of
        Some t \<Rightarrow> Some t
      | None \<Rightarrow> (case tiers of [] \<Rightarrow> None | t # _ \<Rightarrow> Some t))"

definition fee_discount_bps :: "referral_engine \<Rightarrow> u32 \<Rightarrow> i128 \<Rightarrow> u32 panicking" where
  "fee_discount_bps e referral_count total_volume =
     map_option rt_fee_discount_bps (compute_tier e referral_count total_volume)"

definition reward_bps :: "referral_engine \<Rightarrow> u32 \<Rightarrow> i128 \<Rightarrow> u32 panicking" where
  "reward_bps e referral_count total_volume =
     map_option rt_reward_bps (compute_tier e referral_count total_volume)"

section \<open>Lemmas\<close>

lemma find_rev_last:
  "List.find P (rev xs) = (if \<exists>x \<in> set xs. P x then Some (last (filter P xs)) else None)"
proof (induction xs)
  case (Cons a xs)
  have app: "List.find P (us @ vs) = (case List.find P us of Some u \<Rightarrow> Some u | None \<Rightarrow> List.find P vs)" for us vs
    by (induction us) auto
  have "filter P xs \<noteq> []" if "\<exists>x \<in> set xs. P x" using that by (simp add: filter_empty_conv)
  then show ?case using Cons by (auto simp: app)
qed simp

text \<open>The tier is the last one of the table that the user qualifies for.\<close>

lemma compute_tier_last:
  assumes "tiers \<noteq> []"
  shows "compute_tier tiers n v =
    Some (if filter (qualifies n v) tiers = [] then hd tiers else last (filter (qualifies n v) tiers))"
  using assms by (cases tiers) (auto simp: compute_tier_def find_rev_last filter_empty_conv simp del: rev.simps)

definition tier_le :: "referral_tier \<Rightarrow> referral_tier \<Rightarrow> bool" where
  "tier_le s t \<longleftrightarrow> rt_min_referrals s \<le> rt_min_referrals t \<and> rt_min_volume s \<le> rt_min_volume t \<and>
     rt_reward_bps s \<le> rt_reward_bps t \<and> rt_fee_discount_bps s \<le> rt_fee_discount_bps t"

lemma default_tiers_ascending: "sorted_wrt tier_le DEFAULT_TIERS"
  by (simp add: DEFAULT_TIERS_def tier_le_def less_eq_i128_def i128_val_def)

text \<open>More referrals and more volume never lower the tier of an ascending table.\<close>

lemma qualifies_mono: "qualifies n v t \<Longrightarrow> n \<le> n' \<Longrightarrow> v \<le> v' \<Longrightarrow> qualifies n' v' t"
  by (auto simp: qualifies_def)

lemma compute_tier_mono:
  assumes sorted: "sorted_wrt tier_le tiers" and ne: "tiers \<noteq> []" and le: "n \<le> n'" "v \<le> v'"
    and t: "compute_tier tiers n v = Some t" and t': "compute_tier tiers n' v' = Some t'"
  shows "t = t' \<or> tier_le t t'"
proof -
  let ?f = "filter (qualifies n v) tiers" and ?f' = "filter (qualifies n' v') tiers"
  have order: "a = last xs \<or> tier_le a (last xs)" if "sorted_wrt tier_le xs" "a \<in> set xs" for a and xs :: "referral_tier list"
    using that by (induction xs) auto
  have hd_le: "hd xs = a \<or> tier_le (hd xs) a" if "sorted_wrt tier_le xs" "a \<in> set xs" for a and xs :: "referral_tier list"
    using that by (cases xs) auto
  have s': "sorted_wrt tier_le ?f'" by (rule sorted_wrt_mono_filter [OF sorted])
  show ?thesis
  proof (cases "?f = []")
    case True
    then have "t = hd tiers" using t ne by (simp add: compute_tier_last)
    moreover have "t' \<in> set tiers"
    proof (cases "?f' = []")
      case False
      then have "last ?f' \<in> set ?f'" by (rule last_in_set)
      then show ?thesis using t' ne False by (simp add: compute_tier_last)
    qed (use t' ne hd_in_set [of tiers] in \<open>simp add: compute_tier_last\<close>)
    ultimately show ?thesis using hd_le [OF sorted] by blast
  next
    case False
    then have "last ?f \<in> set ?f" by (rule last_in_set)
    moreover have tl: "t = last ?f" using t ne False by (simp add: compute_tier_last)
    ultimately have "t \<in> set ?f'" using le by (auto intro: qualifies_mono)
    moreover from this have "t' = last ?f'" using t' ne by (auto simp: compute_tier_last filter_empty_conv split: if_splits)
    ultimately show ?thesis using order [OF s'] by blast
  qed
qed

end
