(* ===== verification/List_Index.thy ===== *)
theory List_Index
  imports Secondary_Index
begin

text \<open>
  Secondary indices kept as vectors: \<open>by_user.entry(a).or_default().push(id)\<close> and
  \<open>and_modify(|v| v.retain(..))\<close>, as \<open>AlertStore\<close> and \<open>ApiKeyStore\<close> use them.
\<close>

definition vec_push :: "'x \<Rightarrow> 'k \<Rightarrow> ('x \<rightharpoonup> 'k list) \<Rightarrow> ('x \<rightharpoonup> 'k list)" where
  "vec_push x k idx = idx(x \<mapsto> (case idx x of None \<Rightarrow> [] | Some ks \<Rightarrow> ks) @ [k])"

definition vec_retain :: "'x \<Rightarrow> 'k \<Rightarrow> ('x \<rightharpoonup> 'k list) \<Rightarrow> ('x \<rightharpoonup> 'k list)" where
  "vec_retain x k idx = (case idx x of None \<Rightarrow> idx | Some ks \<Rightarrow> idx(x \<mapsto> filter (\<lambda>i. i \<noteq> k) ks))"

definition vec_at :: "('x \<rightharpoonup> 'k list) \<Rightarrow> 'x \<Rightarrow> 'k list" where
  "vec_at idx x = (case idx x of None \<Rightarrow> [] | Some ks \<Rightarrow> ks)"

definition vec_query :: "('k \<rightharpoonup> 'v) \<Rightarrow> ('x \<rightharpoonup> 'k list) \<Rightarrow> 'x \<Rightarrow> 'v list" where
  "vec_query prim idx x = (case idx x of Some ks \<Rightarrow> List.map_filter prim ks | None \<Rightarrow> [])"

definition vec_index_ok :: "('v \<Rightarrow> 'x) \<Rightarrow> ('k \<rightharpoonup> 'v) \<Rightarrow> ('x \<rightharpoonup> 'k list) \<Rightarrow> bool" where
  "vec_index_ok key prim idx \<longleftrightarrow>
     (\<forall>x. distinct (vec_at idx x) \<and> set (vec_at idx x) = {k. \<exists>v. prim k = Some v \<and> key v = x})"

lemma vec_at_push: "vec_at (vec_push x k idx) y = (if y = x then vec_at idx x @ [k] else vec_at idx y)"
  by (simp add: vec_at_def vec_push_def)

lemma vec_at_retain: "vec_at (vec_retain x k idx) y = (if y = x then filter (\<lambda>i. i \<noteq> k) (vec_at idx x) else vec_at idx y)"
  by (auto simp: vec_at_def vec_retain_def split: option.splits)

lemma vec_index_ok_empty [simp]: "vec_index_ok key Map.empty Map.empty"
  by (simp add: vec_index_ok_def vec_at_def)

lemma vec_query_at: "vec_query prim idx x = List.map_filter prim (vec_at idx x)"
  by (simp add: vec_query_def vec_at_def map_filter_simps split: option.splits)

text \<open>
  A table with such an index: a fresh row is inserted, a row is removed, a row is changed
  without its key.
\<close>

locale vec_indexed =
  fixes kid :: "'v \<Rightarrow> 'k" and key :: "'v \<Rightarrow> 'x" and prim_of :: "'t \<Rightarrow> 'k \<rightharpoonup> 'v" and idx_of :: "'t \<Rightarrow> 'x \<rightharpoonup> 'k list"
    and ins :: "'v \<Rightarrow> 't \<Rightarrow> 't" and del :: "'k \<Rightarrow> 't \<Rightarrow> 't"
  assumes prim_ins: "prim_of (ins v t) = (prim_of t)(kid v \<mapsto> v)"
    and idx_ins: "idx_of (ins v t) = vec_push (key v) (kid v) (idx_of t)"
    and prim_del: "prim_of (del k t) = (prim_of t)(k := None)"
    and idx_del: "prim_of t k = Some v \<Longrightarrow> idx_of (del k t) = vec_retain (key v) k (idx_of t)"
begin

definition table_ok :: "'t \<Rightarrow> bool" where
  "table_ok t \<longleftrightarrow> vec_index_ok key (prim_of t) (idx_of t) \<and> keyed_by kid (prim_of t)"

lemma ok_ins:
  assumes "table_ok t" "prim_of t (kid v) = None"
  shows "table_ok (ins v t)"
  using assms by (auto simp: table_ok_def prim_ins idx_ins vec_index_ok_def vec_at_push keyed_by_def)

lemma ok_del:
  assumes ok: "table_ok t" and v: "prim_of t k = Some v"
  shows "table_ok (del k t)"
  using ok v unfolding table_ok_def prim_del idx_del [OF v]
  by (auto simp: vec_index_ok_def vec_at_retain keyed_by_def)

lemma ok_modify:
  assumes ok: "table_ok t" and at: "prim_of t k = Some v" and same: "kid w = kid v" "key w = key v"
    and p: "prim_of t' = (prim_of t)(k \<mapsto> w)" and i: "idx_of t' = idx_of t"
  shows "table_ok t'"
proof -
  have "{k'. \<exists>u. ((prim_of t)(k \<mapsto> w)) k' = Some u \<and> key u = x} = {k'. \<exists>u. prim_of t k' = Some u \<and> key u = x}" for x
    using at same by auto
  moreover have "kid w = k" using ok at same by (auto simp: table_ok_def keyed_by_def)
  ultimately show ?thesis using ok by (auto simp: table_ok_def p i vec_index_ok_def keyed_by_def)
qed

lemma query_set:
  assumes "table_ok t"
  shows "set (vec_query (prim_of t) (idx_of t) x) = {v. v \<in> ran (prim_of t) \<and> key v = x}"
proof -
  have "set (vec_at (idx_of t) x) = {k. \<exists>v. prim_of t k = Some v \<and> key v = x}"
    using assms by (simp add: table_ok_def vec_index_ok_def)
  moreover have "set (List.map_filter m ks) = {v. \<exists>k \<in> set ks. m k = Some v}" for m :: "'k \<rightharpoonup> 'v" and ks
    by (induction ks) (auto simp: map_filter_simps split: option.splits)
  ultimately show ?thesis by (auto simp: vec_query_at ran_def)
qed

lemma query_distinct:
  assumes ok: "table_ok t"
  shows "distinct (vec_query (prim_of t) (idx_of t) x)"
proof -
  have k: "keyed_by kid (prim_of t)" and d: "distinct (vec_at (idx_of t) x)"
    using ok by (simp_all add: table_ok_def vec_index_ok_def)
  have "distinct ks \<Longrightarrow> distinct (List.map_filter (prim_of t) ks) \<and> kid ` set (List.map_filter (prim_of t) ks) \<subseteq> set ks" for ks
    using k by (induction ks) (auto simp: map_filter_simps keyed_by_def split: option.splits)
  then show ?thesis using d by (simp add: vec_query_at)
qed

end

end
