(* ===== verification/Alerts.thy ===== *)
theory Alerts
  imports Core_Types List_Index
begin

text \<open>The alert store, \<open>src/relational/alerts.rs\<close>.\<close>

record alert =
  al_id :: u64
  al_address :: address
  al_alert_type :: string
  al_market_id :: "u16 option"
  al_threshold :: "string option"
  al_enabled :: bool
  al_triggered_at :: "u64 option"
  al_created_at :: u64

record alert_store =
  as_primary :: "u64 \<rightharpoonup> alert"
  as_by_user :: "address \<rightharpoonup> u64 list"
  as_next_id :: u64

definition alerts_new :: alert_store where
  "alerts_new = \<lparr>as_primary = Map.empty, as_by_user = Map.empty, as_next_id = 1\<rparr>"

text \<open>\<open>next_id.fetch_add(1)\<close> wraps at 64 bits.\<close>

definition alerts_insert :: "alert \<Rightarrow> alert_store \<Rightarrow> u64 \<times> alert_store" where
  "alerts_insert alert s =
     (let i = as_next_id s;
          alert' = alert\<lparr>al_id := i\<rparr>
      in (i, s\<lparr>as_next_id := i + 1, as_primary := (as_primary s)(i \<mapsto> alert'),
                as_by_user := vec_push (al_address alert') i (as_by_user s)\<rparr>))"

definition alerts_get :: "alert_store \<Rightarrow> u64 \<Rightarrow> alert option" where
  "alerts_get s i = as_primary s i"

definition alerts_by_user :: "alert_store \<Rightarrow> address \<Rightarrow> alert list" where
  "alerts_by_user s a = vec_query (as_primary s) (as_by_user s) a"

definition alerts_remove :: "u64 \<Rightarrow> alert_store \<Rightarrow> alert option \<times> alert_store" where
  "alerts_remove i s =
     (case as_primary s i of
        Some alert \<Rightarrow>
          (Some alert, s\<lparr>as_primary := (as_primary s)(i := None),
                         as_by_user := vec_retain (al_address alert) i (as_by_user s)\<rparr>)
      | None \<Rightarrow> (None, s))"

definition alerts_remove_by_user_and_id :: "address \<Rightarrow> u64 \<Rightarrow> alert_store \<Rightarrow> alert option \<times> alert_store" where
  "alerts_remove_by_user_and_id a i s =
     (case as_primary s i of
        Some alert \<Rightarrow> if al_address alert \<noteq> a then (None, s) else alerts_remove i s
      | None \<Rightarrow> (None, s))"

definition alerts_update_triggered :: "u64 \<Rightarrow> u64 \<Rightarrow> alert_store \<Rightarrow> bool \<times> alert_store" where
  "alerts_update_triggered i timestamp s =
     (case as_primary s i of
        Some alert \<Rightarrow> (True, s\<lparr>as_primary := (as_primary s)(i \<mapsto> alert\<lparr>al_triggered_at := Some timestamp\<rparr>)\<rparr>)
      | None \<Rightarrow> (False, s))"

definition alerts_set_enabled :: "u64 \<Rightarrow> bool \<Rightarrow> alert_store \<Rightarrow> bool \<times> alert_store" where
  "alerts_set_enabled i enabled s =
     (case as_primary s i of
        Some alert \<Rightarrow> (True, s\<lparr>as_primary := (as_primary s)(i \<mapsto> alert\<lparr>al_enabled := enabled\<rparr>)\<rparr>)
      | None \<Rightarrow> (False, s))"

definition alerts_all :: "u64 list \<Rightarrow> alert_store \<Rightarrow> alert list" where
  "alerts_all ks s = values_of ks (as_primary s)"

definition alerts_count :: "alert_store \<Rightarrow> nat" where
  "alerts_count s = card (dom (as_primary s))"

definition alerts_set_next_id :: "u64 \<Rightarrow> alert_store \<Rightarrow> alert_store" where
  "alerts_set_next_id i s = s\<lparr>as_next_id := i\<rparr>"

section \<open>Invariant\<close>

text \<open>The two writes of \<open>insert\<close> for an alert that already has its i, and those of \<open>remove\<close>.\<close>

interpretation alert_user: vec_indexed al_id al_address as_primary as_by_user
  "\<lambda>v t. t\<lparr>as_primary := (as_primary t)(al_id v \<mapsto> v), as_by_user := vec_push (al_address v) (al_id v) (as_by_user t)\<rparr>"
  "\<lambda>k t. t\<lparr>as_primary := (as_primary t)(k := None),
      as_by_user := (case as_primary t k of None \<Rightarrow> as_by_user t | Some v \<Rightarrow> vec_retain (al_address v) k (as_by_user t))\<rparr>"
  by unfold_locales simp_all

text \<open>The index is exact, and every i in use is below the next one.\<close>

definition alerts_ok :: "alert_store \<Rightarrow> bool" where
  "alerts_ok s \<longleftrightarrow> alert_user.table_ok s \<and> (\<forall>i. as_primary s i \<noteq> None \<longrightarrow> i < as_next_id s)"

lemma table_ok_next_id [simp]: "alert_user.table_ok (s\<lparr>as_next_id := n\<rparr>) = alert_user.table_ok s"
  by (simp add: alert_user.table_ok_def)

lemma alerts_ok_new: "alerts_ok alerts_new"
  by (simp add: alerts_ok_def alert_user.table_ok_def alerts_new_def)

lemma alerts_ok_insert:
  assumes ok: "alerts_ok s" and room: "as_next_id s \<noteq> - 1"
  shows "alerts_ok (snd (alerts_insert a s))"
proof -
  let ?n = "as_next_id s" and ?a = "a\<lparr>al_id := as_next_id s\<rparr>"
  have fresh: "as_primary s ?n = None" using ok by (auto simp: alerts_ok_def)
  have "1 + ?n \<noteq> 0" using room max_word_wrap [of ?n] by (auto simp: add.commute)
  from unatSuc [OF this] have inc: "?n < ?n + 1" by (simp add: word_less_nat_alt add.commute)
  have "alert_user.table_ok (s\<lparr>as_primary := (as_primary s)(?n \<mapsto> ?a), as_by_user := vec_push (al_address a) ?n (as_by_user s)\<rparr>)"
    using alert_user.ok_ins [of s ?a] ok fresh by (simp add: alerts_ok_def)
  then have "alert_user.table_ok (snd (alerts_insert a s))"
    by (simp add: alerts_insert_def Let_def alert_user.table_ok_def)
  moreover have "i < ?n + 1" if "((as_primary s)(?n \<mapsto> ?a)) i \<noteq> None" for i
  proof -
    have "i = ?n \<or> i < ?n" using that ok by (auto simp: alerts_ok_def split: if_splits)
    then show ?thesis using inc by auto
  qed
  ultimately show ?thesis by (simp add: alerts_ok_def alerts_insert_def Let_def)
qed

lemma alerts_ok_remove:
  assumes ok: "alerts_ok s"
  shows "alerts_ok (snd (alerts_remove i s))"
proof (cases "as_primary s i")
  case None
  then show ?thesis using ok by (simp add: alerts_remove_def)
next
  case (Some v)
  then show ?thesis
    using ok alert_user.ok_del [of s i v] by (auto simp: alerts_ok_def alerts_remove_def)
qed

lemma alerts_ok_modify:
  assumes ok: "alerts_ok s" and at: "as_primary s i = Some v" and same: "al_id w = al_id v" "al_address w = al_address v"
  shows "alerts_ok (s\<lparr>as_primary := (as_primary s)(i \<mapsto> w)\<rparr>)"
  using ok at alert_user.ok_modify [OF _ at same, of "s\<lparr>as_primary := (as_primary s)(i \<mapsto> w)\<rparr>"]
  by (auto simp: alerts_ok_def)

lemma alerts_ok_updates:
  assumes "alerts_ok s"
  shows "alerts_ok (snd (alerts_update_triggered i t s))" "alerts_ok (snd (alerts_set_enabled i b s))"
    "alerts_ok (snd (alerts_remove_by_user_and_id a i s))"
  using assms alerts_ok_remove [of s i]
  by (auto simp: alerts_update_triggered_def alerts_set_enabled_def alerts_remove_by_user_and_id_def
      intro: alerts_ok_modify split: option.splits)

lemma alerts_by_user_set: "alerts_ok s \<Longrightarrow> set (alerts_by_user s a) = {v. v \<in> ran (as_primary s) \<and> al_address v = a}"
  using alert_user.query_set [of s a] by (simp add: alerts_ok_def alerts_by_user_def)

lemma alerts_by_user_distinct: "alerts_ok s \<Longrightarrow> distinct (alerts_by_user s a)"
  using alert_user.query_distinct [of s a] by (simp add: alerts_ok_def alerts_by_user_def)

end
