(* ===== verification/Api_Keys.thy ===== *)
theory Api_Keys
  imports Core_Types List_Index
begin

text \<open>The API key store, \<open>src/relational/api_keys.rs\<close>.\<close>

record api_key =
  ak_id :: string
  ak_address :: address
  ak_key_hash :: string
  ak_label :: "string option"
  ak_rate_limit_rpm :: u32
  ak_last_used_at :: "u64 option"
  ak_expires_at :: "u64 option"
  ak_created_at :: u64

record api_key_store =
  ks_primary :: "string \<rightharpoonup> api_key"
  ks_by_user :: "address \<rightharpoonup> string list"
  ks_by_hash :: "string \<rightharpoonup> string"

definition api_keys_new :: api_key_store where
  "api_keys_new = \<lparr>ks_primary = Map.empty, ks_by_user = Map.empty, ks_by_hash = Map.empty\<rparr>"

definition api_keys_insert :: "api_key \<Rightarrow> api_key_store \<Rightarrow> api_key_store" where
  "api_keys_insert key s =
     s\<lparr>ks_by_hash := (ks_by_hash s)(ak_key_hash key \<mapsto> ak_id key),
       ks_by_user := vec_push (ak_address key) (ak_id key) (ks_by_user s),
       ks_primary := (ks_primary s)(ak_id key \<mapsto> key)\<rparr>"

definition api_keys_get :: "api_key_store \<Rightarrow> string \<Rightarrow> api_key option" where
  "api_keys_get s i = ks_primary s i"

definition api_keys_get_by_hash :: "api_key_store \<Rightarrow> string \<Rightarrow> api_key option" where
  "api_keys_get_by_hash s hash = (case ks_by_hash s hash of None \<Rightarrow> None | Some i \<Rightarrow> ks_primary s i)"

definition api_keys_by_user :: "api_key_store \<Rightarrow> address \<Rightarrow> api_key list" where
  "api_keys_by_user s a = vec_query (ks_primary s) (ks_by_user s) a"

definition api_keys_remove :: "string \<Rightarrow> api_key_store \<Rightarrow> api_key option \<times> api_key_store" where
  "api_keys_remove i s =
     (case ks_primary s i of
        Some key \<Rightarrow>
          (Some key, s\<lparr>ks_primary := (ks_primary s)(i := None),
                       ks_by_hash := (ks_by_hash s)(ak_key_hash key := None),
                       ks_by_user := vec_retain (ak_address key) i (ks_by_user s)\<rparr>)
      | None \<Rightarrow> (None, s))"

definition api_keys_remove_by_user_and_id :: "address \<Rightarrow> string \<Rightarrow> api_key_store \<Rightarrow> api_key option \<times> api_key_store" where
  "api_keys_remove_by_user_and_id a i s =
     (case ks_primary s i of
        Some key \<Rightarrow> if ak_address key \<noteq> a then (None, s) else api_keys_remove i s
      | None \<Rightarrow> (None, s))"

definition api_keys_touch_last_used :: "string \<Rightarrow> u64 \<Rightarrow> api_key_store \<Rightarrow> bool \<times> api_key_store" where
  "api_keys_touch_last_used i timestamp s =
     (case ks_primary s i of
        Some key \<Rightarrow> (True, s\<lparr>ks_primary := (ks_primary s)(i \<mapsto> key\<lparr>ak_last_used_at := Some timestamp\<rparr>)\<rparr>)
      | None \<Rightarrow> (False, s))"

definition api_keys_all :: "string list \<Rightarrow> api_key_store \<Rightarrow> api_key list" where
  "api_keys_all ids s = values_of ids (ks_primary s)"

definition api_keys_count :: "api_key_store \<Rightarrow> nat" where
  "api_keys_count s = card (dom (ks_primary s))"

section \<open>Invariant\<close>

interpretation key_user: vec_indexed ak_id ak_address ks_primary ks_by_user
  api_keys_insert "\<lambda>k t. snd (api_keys_remove k t)"
  by unfold_locales (auto simp: api_keys_insert_def api_keys_remove_def split: option.splits)

text \<open>The user index is exact, and the hash index leads to the key with that hash and to no other.\<close>

definition hash_ok :: "(string \<rightharpoonup> api_key) \<Rightarrow> (string \<rightharpoonup> string) \<Rightarrow> bool" where
  "hash_ok prim by_hash \<longleftrightarrow>
     (\<forall>h i. by_hash h = Some i \<longrightarrow> (\<exists>k. prim i = Some k \<and> ak_key_hash k = h)) \<and>
     (\<forall>i k. prim i = Some k \<longrightarrow> by_hash (ak_key_hash k) = Some i)"

definition api_keys_ok :: "api_key_store \<Rightarrow> bool" where
  "api_keys_ok s \<longleftrightarrow> key_user.table_ok s \<and> hash_ok (ks_primary s) (ks_by_hash s)"

lemma hash_ok_insert:
  assumes "hash_ok prim bh" "prim i = None" "bh (ak_key_hash k) = None"
  shows "hash_ok (prim(i \<mapsto> k)) (bh(ak_key_hash k \<mapsto> i))"
  using assms unfolding hash_ok_def by (auto; metis option.distinct(1))

lemma hash_ok_remove:
  assumes h: "hash_ok prim bh" and at: "prim i = Some k"
  shows "hash_ok (prim(i := None)) (bh(ak_key_hash k := None))"
proof -
  have "j = i" if "prim j = Some l" "ak_key_hash l = ak_key_hash k" for j l
    using h at that unfolding hash_ok_def by (metis option.inject)
  then have "(prim(i := None)) j = Some l \<Longrightarrow> (bh(ak_key_hash k := None)) (ak_key_hash l) = Some j" for j l
    using h unfolding hash_ok_def by (auto split: if_splits)
  moreover have "\<exists>l. (prim(i := None)) j = Some l \<and> ak_key_hash l = g"
    if "(bh(ak_key_hash k := None)) g = Some j" for g j
  proof -
    have g: "g \<noteq> ak_key_hash k" "bh g = Some j" using that by (auto split: if_splits)
    then obtain l where l: "prim j = Some l" "ak_key_hash l = g" using h unfolding hash_ok_def by blast
    with g at have "j \<noteq> i" by auto
    with l show ?thesis by auto
  qed
  ultimately show ?thesis unfolding hash_ok_def by blast
qed

lemma hash_ok_modify:
  assumes "hash_ok prim bh" "prim i = Some k" "ak_key_hash l = ak_key_hash k"
  shows "hash_ok (prim(i \<mapsto> l)) bh"
  using assms unfolding hash_ok_def by (auto; metis option.inject)

lemma api_keys_ok_new: "api_keys_ok api_keys_new"
  by (simp add: api_keys_ok_def key_user.table_ok_def api_keys_new_def hash_ok_def)

lemma api_keys_ok_insert:
  assumes "api_keys_ok s" "ks_primary s (ak_id k) = None" "ks_by_hash s (ak_key_hash k) = None"
  shows "api_keys_ok (api_keys_insert k s)"
proof -
  have "hash_ok (ks_primary (api_keys_insert k s)) (ks_by_hash (api_keys_insert k s))"
    using assms hash_ok_insert by (simp add: api_keys_insert_def api_keys_ok_def)
  then show ?thesis using assms key_user.ok_ins [of s k] by (simp add: api_keys_ok_def)
qed

lemma api_keys_ok_remove:
  assumes ok: "api_keys_ok s"
  shows "api_keys_ok (snd (api_keys_remove i s))"
proof (cases "ks_primary s i")
  case None
  then show ?thesis using ok by (simp add: api_keys_remove_def)
next
  case (Some k)
  have "hash_ok (ks_primary (snd (api_keys_remove i s))) (ks_by_hash (snd (api_keys_remove i s)))"
    using ok Some hash_ok_remove by (simp add: api_keys_remove_def api_keys_ok_def)
  then show ?thesis using ok key_user.ok_del [of s i k] Some by (simp add: api_keys_ok_def)
qed

lemma api_keys_ok_touch:
  assumes ok: "api_keys_ok s"
  shows "api_keys_ok (snd (api_keys_touch_last_used i t s))"
proof (cases "ks_primary s i")
  case (Some k)
  let ?k = "k\<lparr>ak_last_used_at := Some t\<rparr>"
  have "key_user.table_ok (s\<lparr>ks_primary := (ks_primary s)(i \<mapsto> ?k)\<rparr>)"
    using ok key_user.ok_modify [OF _ Some, of ?k "s\<lparr>ks_primary := (ks_primary s)(i \<mapsto> ?k)\<rparr>"]
    by (simp add: api_keys_ok_def)
  moreover have "hash_ok ((ks_primary s)(i \<mapsto> ?k)) (ks_by_hash s)"
    using ok Some hash_ok_modify [of "ks_primary s" "ks_by_hash s" i k ?k] by (simp add: api_keys_ok_def)
  ultimately show ?thesis using Some by (simp add: api_keys_ok_def api_keys_touch_last_used_def)
qed (use ok in \<open>simp add: api_keys_touch_last_used_def\<close>)

lemma api_keys_get_by_hash_ok:
  assumes "api_keys_ok s"
  shows "api_keys_get_by_hash s h = Some k \<longleftrightarrow> ks_primary s (ak_id k) = Some k \<and> ak_key_hash k = h"
proof -
  have h: "hash_ok (ks_primary s) (ks_by_hash s)" and i: "keyed_by ak_id (ks_primary s)"
    using assms by (simp_all add: api_keys_ok_def key_user.table_ok_def)
  show ?thesis
  proof
    assume "api_keys_get_by_hash s h = Some k"
    then obtain j where j: "ks_by_hash s h = Some j" "ks_primary s j = Some k"
      by (auto simp: api_keys_get_by_hash_def split: option.splits)
    moreover obtain k' where "ks_primary s j = Some k'" "ak_key_hash k' = h"
      using h j(1) unfolding hash_ok_def by blast
    ultimately show "ks_primary s (ak_id k) = Some k \<and> ak_key_hash k = h"
      using i by (auto simp: keyed_by_def)
  next
    assume "ks_primary s (ak_id k) = Some k \<and> ak_key_hash k = h"
    then show "api_keys_get_by_hash s h = Some k"
      using h by (auto simp: hash_ok_def api_keys_get_by_hash_def)
  qed
qed

lemma api_keys_by_user_set: "api_keys_ok s \<Longrightarrow> set (api_keys_by_user s a) = {v. v \<in> ran (ks_primary s) \<and> ak_address v = a}"
  using key_user.query_set [of s a] by (simp add: api_keys_ok_def api_keys_by_user_def)

end
