(* ===== verification/Competitions.thy ===== *)
theory Competitions
  imports Core_Types List_Index
begin

text \<open>The competition store, \<open>src/relational/competitions.rs\<close>.\<close>

record competition =
  co_id :: string
  co_name :: string
  co_description :: "string option"
  co_start_at :: u64
  co_end_at :: u64
  co_metric :: string
  co_prize_pool :: "string option"
  co_active :: bool
  co_created_at :: u64

record competition_entry =
  ce_competition_id :: string
  ce_address :: address
  ce_score :: i128
  ce_rank :: "u32 option"
  ce_joined_at :: u64

record competition_store =
  cst_competitions :: "string \<rightharpoonup> competition"
  cst_entries :: "string \<rightharpoonup> competition_entry list"
  cst_by_user :: "address \<rightharpoonup> string list"

definition competitions_new :: competition_store where
  "competitions_new = \<lparr>cst_competitions = Map.empty, cst_entries = Map.empty, cst_by_user = Map.empty\<rparr>"

definition insert_competition :: "competition \<Rightarrow> competition_store \<Rightarrow> competition_store" where
  "insert_competition c s = s\<lparr>cst_competitions := (cst_competitions s)(co_id c \<mapsto> c)\<rparr>"

definition get_competition :: "competition_store \<Rightarrow> string \<Rightarrow> competition option" where
  "get_competition s i = cst_competitions s i"

definition list_competitions :: "string list \<Rightarrow> competition_store \<Rightarrow> nat \<Rightarrow> competition list" where
  "list_competitions ks s limit = take limit (sort_desc co_start_at (values_of ks (cst_competitions s)))"

text \<open>\<open>entry(..).or_default()\<close> leaves an empty vector behind even when the join is refused.\<close>

definition competition_join :: "string \<Rightarrow> address \<Rightarrow> u64 \<Rightarrow> competition_store \<Rightarrow> bool \<times> competition_store" where
  "competition_join cid a timestamp s =
     (if cst_competitions s cid = None then (False, s)
      else let entries = (case cst_entries s cid of None \<Rightarrow> [] | Some es \<Rightarrow> es);
               s1 = s\<lparr>cst_entries := (cst_entries s)(cid \<mapsto> entries)\<rparr>
           in if \<exists>e \<in> set entries. ce_address e = a then (False, s1)
              else (True,
                s1\<lparr>cst_entries := (cst_entries s1)(cid \<mapsto> entries @
                     [\<lparr>ce_competition_id = cid, ce_address = a, ce_score = 0, ce_rank = None, ce_joined_at = timestamp\<rparr>]),
                   cst_by_user := vec_push a cid (cst_by_user s1)\<rparr>))"

definition competition_get_entries :: "competition_store \<Rightarrow> string \<Rightarrow> nat \<Rightarrow> competition_entry list" where
  "competition_get_entries s cid limit =
     (case cst_entries s cid of
        Some entries \<Rightarrow> take limit (sort_desc ce_score entries)
      | None \<Rightarrow> [])"

text \<open>\<open>iter_mut().find(..)\<close> and the write to the entry found.\<close>

fun set_score :: "address \<Rightarrow> i128 \<Rightarrow> competition_entry list \<Rightarrow> bool \<times> competition_entry list" where
  "set_score a score [] = (False, [])"
| "set_score a score (e # es) =
     (if ce_address e = a then (True, e\<lparr>ce_score := score\<rparr> # es)
      else let (found, es') = set_score a score es in (found, e # es'))"

definition competition_update_score :: "string \<Rightarrow> address \<Rightarrow> i128 \<Rightarrow> competition_store \<Rightarrow> bool \<times> competition_store" where
  "competition_update_score cid a score s =
     (case cst_entries s cid of
        Some entries \<Rightarrow>
          (let (found, entries') = set_score a score entries
           in (found, s\<lparr>cst_entries := (cst_entries s)(cid \<mapsto> entries')\<rparr>))
      | None \<Rightarrow> (False, s))"

definition user_competitions :: "competition_store \<Rightarrow> address \<Rightarrow> string list" where
  "user_competitions s a = (case cst_by_user s a of None \<Rightarrow> [] | Some ids \<Rightarrow> ids)"

definition all_competitions :: "string list \<Rightarrow> competition_store \<Rightarrow> competition list" where
  "all_competitions ks s = values_of ks (cst_competitions s)"

definition all_entries :: "string list \<Rightarrow> competition_store \<Rightarrow> competition_entry list" where
  "all_entries ks s = concat (values_of ks (cst_entries s))"

definition competition_count :: "competition_store \<Rightarrow> nat" where
  "competition_count s = card (dom (cst_competitions s))"

section \<open>Invariant\<close>

definition entries_at :: "competition_store \<Rightarrow> string \<Rightarrow> competition_entry list" where
  "entries_at s cid = (case cst_entries s cid of None \<Rightarrow> [] | Some es \<Rightarrow> es)"

text \<open>
  A trader has at most one entry per competition, entries belong to known competitions, and
  the competitions listed for a trader are those it has an entry in, each once.
\<close>

definition competitions_ok :: "competition_store \<Rightarrow> bool" where
  "competitions_ok s \<longleftrightarrow>
     (\<forall>cid. distinct (map ce_address (entries_at s cid)) \<and>
       (\<forall>e \<in> set (entries_at s cid). ce_competition_id e = cid) \<and>
       (entries_at s cid \<noteq> [] \<longrightarrow> cst_competitions s cid \<noteq> None)) \<and>
     (\<forall>a. distinct (user_competitions s a) \<and>
       set (user_competitions s a) = {cid. a \<in> ce_address ` set (entries_at s cid)})"

lemma set_score_addresses [simp]: "map ce_address (snd (set_score a v es)) = map ce_address es"
  by (induction es) (auto simp: split_beta)

lemma set_score_ids [simp]: "map ce_competition_id (snd (set_score a v es)) = map ce_competition_id es"
  by (induction es) (auto simp: split_beta)

lemma set_score_found: "fst (set_score a v es) \<longleftrightarrow> a \<in> ce_address ` set es"
  by (induction es) (auto simp: split_beta)

lemma set_score_hit:
  "distinct (map ce_address es) \<Longrightarrow>
   snd (set_score a v es) = map (\<lambda>e. if ce_address e = a then e\<lparr>ce_score := v\<rparr> else e) es"
proof (induction es)
  case (Cons e es)
  have "map (\<lambda>e. if ce_address e = a then e\<lparr>ce_score := v\<rparr> else e) es = es" if "a \<notin> ce_address ` set es"
    using that by (intro map_idI) auto
  then show ?case using Cons by (auto simp: split_beta)
qed simp

lemma competitions_ok_new: "competitions_ok competitions_new"
  by (simp add: competitions_ok_def competitions_new_def entries_at_def user_competitions_def)

lemma competitions_ok_insert: "competitions_ok s \<Longrightarrow> competitions_ok (insert_competition c s)"
  by (auto simp: competitions_ok_def insert_competition_def entries_at_def user_competitions_def)

lemma entries_at_join:
  "entries_at (snd (competition_join cid a t s)) c =
     (if c = cid \<and> fst (competition_join cid a t s)
      then entries_at s cid @ [\<lparr>ce_competition_id = cid, ce_address = a, ce_score = 0, ce_rank = None, ce_joined_at = t\<rparr>]
      else entries_at s c)"
  by (auto simp: competition_join_def entries_at_def Let_def)

lemma user_competitions_join:
  "user_competitions (snd (competition_join cid a t s)) b =
     (if b = a \<and> fst (competition_join cid a t s) then user_competitions s a @ [cid] else user_competitions s b)"
  by (auto simp: competition_join_def user_competitions_def vec_push_def Let_def)

lemma join_result:
  "fst (competition_join cid a t s) \<longleftrightarrow>
     cst_competitions s cid \<noteq> None \<and> a \<notin> ce_address ` set (entries_at s cid)"
  by (auto simp: competition_join_def entries_at_def Let_def)

lemma join_competitions [simp]: "cst_competitions (snd (competition_join cid a t s)) = cst_competitions s"
  by (simp add: competition_join_def Let_def)

lemma competitions_ok_join:
  assumes "competitions_ok s"
  shows "competitions_ok (snd (competition_join cid a t s))"
  using assms
  by (auto simp: competitions_ok_def entries_at_join user_competitions_join join_result split: if_splits)

lemma entries_at_update_score:
  "entries_at (snd (competition_update_score cid a v s)) c =
     (if c = cid then snd (set_score a v (entries_at s cid)) else entries_at s c)"
  by (auto simp: competition_update_score_def entries_at_def split_beta split: option.splits)

lemma competitions_ok_update_score:
  assumes ok: "competitions_ok s"
  shows "competitions_ok (snd (competition_update_score cid a v s))"
proof -
  let ?s = "snd (competition_update_score cid a v s)"
  have frame: "cst_competitions ?s = cst_competitions s" "user_competitions ?s b = user_competitions s b" for b
    by (auto simp: competition_update_score_def user_competitions_def split_beta split: option.splits)
  have addr: "map ce_address (entries_at ?s c) = map ce_address (entries_at s c)"
    "map ce_competition_id (entries_at ?s c) = map ce_competition_id (entries_at s c)" for c
    by (simp_all add: entries_at_update_score)
  have same: "ce_address ` set (entries_at ?s c) = ce_address ` set (entries_at s c)"
    "ce_competition_id ` set (entries_at ?s c) = ce_competition_id ` set (entries_at s c)"
    "entries_at ?s c = [] \<longleftrightarrow> entries_at s c = []" for c
    using arg_cong [OF addr(1), of set c] arg_cong [OF addr(2), of set c] arg_cong [OF addr(1), of length c]
    by (simp_all flip: length_0_conv)
  have ids: "(\<forall>e \<in> set es. ce_competition_id e = c) \<longleftrightarrow> ce_competition_id ` set es \<subseteq> {c}" for es c by auto
  show ?thesis using ok unfolding competitions_ok_def ids frame addr same .
qed

end
