(* ===== verification/Engine.thy ===== *)
theory Engine
  imports Positions Orders Balances Market_State Pubsub Users Checkpoint Event_Store Stats Leaderboard
    Wal Snapshot Tick_Store Candle_Store Candle_Builder Referrals Alerts Api_Keys Competitions
begin

text \<open>
  The engine that coordinates the stores, \<open>src/engine.rs\<close>: opening and recovery, ingestion of
  ticks, processing of chain events, snapshots and shutdown. \<open>stores\<close> groups the in-memory
  stores that a snapshot and a replay rebuild; the locks around the fields of \<open>PerfDb\<close> are not
  represented, the operations are run one after another.
\<close>

record stores =
  st_market_state :: market_state_table
  st_positions :: position_table
  st_orders :: order_table
  st_balances :: balance_cache
  st_users :: user_store
  st_checkpoint :: checkpoint_store
  st_trader_stats :: trader_stats_store
  st_daily_stats :: daily_stats_store
  st_events :: event_store

record perf_db_config =
  pc_wal :: wal_config
  pc_leaderboard_max :: nat
  pc_pubsub_capacity :: nat

definition perf_db_config_new :: perf_db_config where
  "perf_db_config_new =
     \<lparr>pc_wal = wal_config_default, pc_leaderboard_max = 500, pc_pubsub_capacity = 4096\<rparr>"

text \<open>\<open>db_snapshots\<close> is the content of the snapshot directory; \<open>db_wal\<close> pairs the writer with its directory.\<close>

record perf_db =
  db_config :: perf_db_config
  db_tick_store :: tick_store
  db_candle_store :: candle_store
  db_candle_builder :: candle_builder
  db_stores :: stores
  db_pubsub :: pubsub_bus
  db_referrals :: referral_engine
  db_leaderboard :: leaderboard
  db_alerts :: alert_store
  db_api_keys :: api_key_store
  db_competitions :: competition_store
  db_wal :: wal_state
  db_snapshots :: dir

definition stores_new :: stores where
  "stores_new =
     \<lparr>st_market_state = market_state_new, st_positions = positions_new, st_orders = orders_new,
      st_balances = balances_new, st_users = users_new, st_checkpoint = checkpoint_empty,
      st_trader_stats = stats_new, st_daily_stats = daily_new, st_events = events_new\<rparr>"

section \<open>Dates\<close>

definition timestamp_to_date :: "u64 \<Rightarrow> u32" where
  "timestamp_to_date ts =
     (let days = ts div 86400;
          z = days + 719468;
          era = z div 146097;
          doe = z - era * 146097;
          yoe = (doe - doe div 1460 + doe div 36524 - doe div 146096) div 365;
          y = yoe + era * 400;
          doy = doe - (365 * yoe + yoe div 4 - yoe div 100);
          mp = (5 * doy + 2) div 153;
          d = doy - (153 * mp + 2) div 5 + 1;
          m = (if mp < 10 then mp + 3 else mp - 9);
          y' = (if m \<le> 2 then y + 1 else y)
      in ucast y' * 10000 + ucast m * 100 + ucast d)"

section \<open>Event routing\<close>

fun extract_event_keys :: "event \<Rightarrow> u16 option \<times> address option" where
  "extract_event_keys (PositionOpened _ user market_id _ _ _ _ _ _) = (Some market_id, Some user)"
| "extract_event_keys (PositionClosed _ user market_id _ _ _ _) = (Some market_id, Some user)"
| "extract_event_keys (PositionModified _ _ _ _) = (None, None)"
| "extract_event_keys (OrderPlaced _ user market_id _ _ _ _) = (Some market_id, Some user)"
| "extract_event_keys (OrderExecuted _ _ _) = (None, None)"
| "extract_event_keys (OrderCancelled _ user) = (None, Some user)"
| "extract_event_keys (Liquidation _ user market_id _ _ _) = (Some market_id, Some user)"
| "extract_event_keys (ADLExecuted _ _) = (None, None)"
| "extract_event_keys (PriceUpdated market_id _ _) = (Some market_id, None)"
| "extract_event_keys (FundingSettled market_id _ _ _) = (Some market_id, None)"
| "extract_event_keys (FundingRateUpdated market_id _ _) = (Some market_id, None)"
| "extract_event_keys (MarketCreated market_id _ _) = (Some market_id, None)"
| "extract_event_keys (MarketPaused market_id) = (Some market_id, None)"
| "extract_event_keys (CollateralDeposited user _ _) = (None, Some user)"
| "extract_event_keys (CollateralWithdrawn user _ _) = (None, Some user)"
| "extract_event_keys (VaultCreated user _) = (None, Some user)"
| "extract_event_keys (VaultDeficit _ _) = (None, None)"

definition append_event :: "indexed_event \<Rightarrow> stores \<Rightarrow> stores" where
  "append_event ev s =
     (let (mid, trader) = extract_event_keys (ie_event ev)
      in s\<lparr>st_events := events_append ev mid trader (st_events s)\<rparr>)"

section \<open>Live handlers of the chain events\<close>

type_synonym live = "stores \<times> pubsub_bus"

text \<open>A publication; the number of receivers is not used by the engine.\<close>

definition publish :: "channel \<Rightarrow> pubsub_message \<Rightarrow> live \<Rightarrow> live" where
  "publish ch msg = (\<lambda>(s, bus). (s, pubsub_send ch msg bus))"

definition opened_position ::
  "indexed_event \<Rightarrow> hash32 \<Rightarrow> address \<Rightarrow> u16 \<Rightarrow> bool \<Rightarrow> i128 \<Rightarrow> i128 \<Rightarrow> i128 \<Rightarrow> address \<Rightarrow> i128 \<Rightarrow> position" where
  "opened_position ev position_id user market_id is_long size_usd leverage entry_price
     collateral_token collateral_amount =
     \<lparr>pos_position_id = position_id, pos_user_address = user, pos_market_id = market_id,
      pos_is_long = is_long, pos_size_usd = size_usd,
      pos_collateral_usd = i128_div size_usd (max leverage 1),
      pos_collateral_token = collateral_token, pos_collateral_amount = collateral_amount,
      pos_entry_price = entry_price, pos_exit_price = None, pos_realized_pnl = None,
      pos_leverage = leverage, pos_status = PsOpen, pos_open_tx = ie_tx_hash ev, pos_close_tx = None,
      pos_open_block = ie_block_number ev, pos_close_block = None,
      pos_opened_at = ie_block_timestamp ev, pos_closed_at = None\<rparr>"

definition on_position_opened ::
  "indexed_event \<Rightarrow> hash32 \<Rightarrow> address \<Rightarrow> u16 \<Rightarrow> bool \<Rightarrow> i128 \<Rightarrow> i128 \<Rightarrow> i128 \<Rightarrow> address \<Rightarrow> i128 \<Rightarrow> live \<Rightarrow> live" where
  "on_position_opened ev position_id user market_id is_long size_usd leverage entry_price
     collateral_token collateral_amount l =
     (let (s, bus) = l;
          pos = opened_position ev position_id user market_id is_long size_usd leverage entry_price
                  collateral_token collateral_amount;
          s1 = s\<lparr>st_positions := positions_insert pos (st_positions s)\<rparr>;
          s2 = s1\<lparr>st_users := users_ensure user (ie_block_timestamp ev) (st_users s1)\<rparr>;
          s3 = s2\<lparr>st_trader_stats := stats_ensure user (st_trader_stats s2)\<rparr>;
          s4 = s3\<lparr>st_trader_stats := increment_open_positions user (st_trader_stats s3)\<rparr>;
          s5 = s4\<lparr>st_market_state :=
                 (if is_long then add_long_oi market_id size_usd (st_market_state s4)
                  else add_short_oi market_id size_usd (st_market_state s4))\<rparr>
      in publish Positions (PositionUpdate pos) (s5, bus))"

text \<open>The closure of the live handler on the position that is closed.\<close>

definition close_position :: "indexed_event \<Rightarrow> i128 \<Rightarrow> i128 \<Rightarrow> i128 \<Rightarrow> bool \<Rightarrow> position \<Rightarrow> position" where
  "close_position ev closed_size_usd exit_price realized_pnl is_full_close p =
     (let p1 = p\<lparr>pos_exit_price := Some exit_price, pos_realized_pnl := Some realized_pnl,
                 pos_close_tx := Some (ie_tx_hash ev), pos_close_block := Some (ie_block_number ev),
                 pos_closed_at := Some (ie_block_timestamp ev)\<rparr>
      in if is_full_close then p1\<lparr>pos_status := PsClosed\<rparr>
         else p1\<lparr>pos_size_usd := pos_size_usd p1 - closed_size_usd\<rparr>)"

definition on_position_closed ::
  "indexed_event \<Rightarrow> hash32 \<Rightarrow> address \<Rightarrow> u16 \<Rightarrow> i128 \<Rightarrow> i128 \<Rightarrow> i128 \<Rightarrow> bool \<Rightarrow> live \<Rightarrow> live" where
  "on_position_closed ev position_id user market_id closed_size_usd exit_price realized_pnl is_full_close l =
     (let (s, bus) = l;
          is_win = 0 < realized_pnl;
          s1 = s\<lparr>st_positions := snd (positions_update position_id
                  (close_position ev closed_size_usd exit_price realized_pnl is_full_close) (st_positions s))\<rparr>;
          s2 = s1\<lparr>st_trader_stats := stats_ensure user (st_trader_stats s1)\<rparr>;
          s3 = s2\<lparr>st_trader_stats := snd (increment_trade user closed_size_usd realized_pnl 0 is_win False
                    (ie_block_timestamp ev) (st_trader_stats s2))\<rparr>;
          s4 = (if is_full_close
                then s3\<lparr>st_trader_stats := decrement_open_positions user (st_trader_stats s3)\<rparr> else s3);
          s5 = s4\<lparr>st_daily_stats := accumulate_trade user (timestamp_to_date (ie_block_timestamp ev))
                    closed_size_usd realized_pnl 0 (st_daily_stats s4)\<rparr>
      in case positions_get (st_positions s5) position_id of
           None \<Rightarrow> (s5, bus)
         | Some pos \<Rightarrow>
             (let s6 = s5\<lparr>st_market_state :=
                         (if pos_is_long pos then add_long_oi market_id (- closed_size_usd) (st_market_state s5)
                          else add_short_oi market_id (- closed_size_usd) (st_market_state s5))\<rparr>
              in publish Positions (PositionUpdate pos) (s6, bus)))"

definition on_position_modified :: "hash32 \<Rightarrow> i128 \<Rightarrow> i128 \<Rightarrow> i128 \<Rightarrow> live \<Rightarrow> live" where
  "on_position_modified position_id new_size_usd new_collateral_usd new_collateral_amount l =
     (let (s, bus) = l;
          s1 = s\<lparr>st_positions := snd (positions_update position_id
                  (\<lambda>p. p\<lparr>pos_size_usd := new_size_usd, pos_collateral_usd := new_collateral_usd,
                         pos_collateral_amount := new_collateral_amount\<rparr>) (st_positions s))\<rparr>
      in case positions_get (st_positions s1) position_id of
           None \<Rightarrow> (s1, bus)
         | Some pos \<Rightarrow> publish Positions (PositionUpdate pos) (s1, bus))"

definition placed_order ::
  "indexed_event \<Rightarrow> hash32 \<Rightarrow> address \<Rightarrow> u16 \<Rightarrow> u8 \<Rightarrow> bool \<Rightarrow> i128 \<Rightarrow> i128 \<Rightarrow> order" where
  "placed_order ev order_id user market_id order_type is_long trigger_price size_usd =
     \<lparr>ord_order_id = order_id, ord_user_address = user, ord_market_id = market_id, ord_is_long = is_long,
      ord_order_type = order_type_from_u8 order_type, ord_trigger_price = trigger_price,
      ord_limit_price = None, ord_size_usd = size_usd, ord_leverage = 0,
      ord_collateral_token = replicate 20 0, ord_collateral_amount = 0, ord_status = OsActive,
      ord_execution_price = None, ord_position_id = None, ord_tx_hash = ie_tx_hash ev,
      ord_block_number = ie_block_number ev, ord_created_at = ie_block_timestamp ev, ord_executed_at = None\<rparr>"

definition on_order_placed ::
  "indexed_event \<Rightarrow> hash32 \<Rightarrow> address \<Rightarrow> u16 \<Rightarrow> u8 \<Rightarrow> bool \<Rightarrow> i128 \<Rightarrow> i128 \<Rightarrow> live \<Rightarrow> live" where
  "on_order_placed ev order_id user market_id order_type is_long trigger_price size_usd l =
     (let (s, bus) = l;
          order = placed_order ev order_id user market_id order_type is_long trigger_price size_usd;
          s1 = s\<lparr>st_orders := orders_insert order (st_orders s)\<rparr>;
          s2 = s1\<lparr>st_users := users_ensure user (ie_block_timestamp ev) (st_users s1)\<rparr>
      in publish Orders (OrderUpdate order) (s2, bus))"

definition on_order_executed :: "indexed_event \<Rightarrow> hash32 \<Rightarrow> hash32 \<Rightarrow> i128 \<Rightarrow> live \<Rightarrow> live" where
  "on_order_executed ev order_id position_id execution_price l =
     (let (s, bus) = l;
          (r, orders') = orders_execute order_id execution_price position_id (ie_block_timestamp ev) (st_orders s);
          s1 = s\<lparr>st_orders := orders'\<rparr>
      in case r of None \<Rightarrow> (s1, bus) | Some order \<Rightarrow> publish Orders (OrderUpdate order) (s1, bus))"

definition on_order_cancelled :: "hash32 \<Rightarrow> live \<Rightarrow> live" where
  "on_order_cancelled order_id l =
     (let (s, bus) = l;
          (r, orders') = orders_cancel order_id (st_orders s);
          s1 = s\<lparr>st_orders := orders'\<rparr>
      in case r of None \<Rightarrow> (s1, bus) | Some order \<Rightarrow> publish Orders (OrderUpdate order) (s1, bus))"

definition on_liquidation ::
  "indexed_event \<Rightarrow> hash32 \<Rightarrow> address \<Rightarrow> u16 \<Rightarrow> i128 \<Rightarrow> i128 \<Rightarrow> live \<Rightarrow> live" where
  "on_liquidation ev position_id user market_id liquidation_price penalty l =
     (let (s, bus) = l;
          s1 = s\<lparr>st_positions := snd (positions_update position_id
                  (\<lambda>p. p\<lparr>pos_status := PsLiquidated, pos_exit_price := Some liquidation_price,
                         pos_close_tx := Some (ie_tx_hash ev), pos_close_block := Some (ie_block_number ev),
                         pos_closed_at := Some (ie_block_timestamp ev)\<rparr>) (st_positions s))\<rparr>;
          s2 = s1\<lparr>st_trader_stats := stats_ensure user (st_trader_stats s1)\<rparr>;
          neg_penalty = - penalty;
          s3 = s2\<lparr>st_trader_stats := snd (increment_trade user 0 neg_penalty 0 False True
                    (ie_block_timestamp ev) (st_trader_stats s2))\<rparr>;
          s4 = s3\<lparr>st_trader_stats := decrement_open_positions user (st_trader_stats s3)\<rparr>
      in publish Liquidations (LiquidationEvent position_id user market_id liquidation_price penalty) (s4, bus))"

definition on_funding_rate_updated :: "u16 \<Rightarrow> i128 \<Rightarrow> i128 \<Rightarrow> live \<Rightarrow> live" where
  "on_funding_rate_updated market_id new_rate_per_second rate_24h l =
     (let (s, bus) = l;
          s1 = s\<lparr>st_market_state := set_funding_rate market_id new_rate_per_second rate_24h (st_market_state s)\<rparr>
      in publish Funding (FundingUpdate market_id new_rate_per_second rate_24h) (s1, bus))"

text \<open>The publication that ends both collateral handlers.\<close>

definition publish_balance :: "address \<Rightarrow> address \<Rightarrow> live \<Rightarrow> live" where
  "publish_balance user token l =
     (case balances_get (st_balances (fst l)) user token of
        None \<Rightarrow> l
      | Some bal \<Rightarrow> publish Balances (BalanceUpdateMsg bal) l)"

definition on_collateral_deposited :: "indexed_event \<Rightarrow> address \<Rightarrow> address \<Rightarrow> i128 \<Rightarrow> live \<Rightarrow> live" where
  "on_collateral_deposited ev user token amount l =
     (let (s, bus) = l;
          s1 = s\<lparr>st_users := users_ensure user (ie_block_timestamp ev) (st_users s)\<rparr>;
          existing = balances_get (st_balances s1) user token;
          new_amount = (case existing of None \<Rightarrow> amount | Some b \<Rightarrow> bal_amount b + amount);
          new_locked = (case existing of None \<Rightarrow> 0 | Some b \<Rightarrow> bal_locked b);
          s2 = s1\<lparr>st_balances := balances_set_raw user token new_amount new_locked
                    (new_amount - new_locked) (st_balances s1)\<rparr>
      in publish_balance user token (s2, bus))"

definition on_collateral_withdrawn :: "address \<Rightarrow> address \<Rightarrow> i128 \<Rightarrow> live \<Rightarrow> live" where
  "on_collateral_withdrawn user token amount l =
     (let (s, bus) = l;
          existing = balances_get (st_balances s) user token;
          new_amount = (case existing of None \<Rightarrow> 0 | Some b \<Rightarrow> max (bal_amount b - amount) 0);
          new_locked = (case existing of None \<Rightarrow> 0 | Some b \<Rightarrow> bal_locked b);
          s1 = s\<lparr>st_balances := balances_set_raw user token new_amount new_locked
                    (max (new_amount - new_locked) 0) (st_balances s)\<rparr>
      in publish_balance user token (s1, bus))"

definition on_vault_created :: "indexed_event \<Rightarrow> address \<Rightarrow> address \<Rightarrow> live \<Rightarrow> live" where
  "on_vault_created ev user vault l =
     (let (s, bus) = l;
          s1 = s\<lparr>st_users := users_ensure user (ie_block_timestamp ev) (st_users s)\<rparr>
      in (s1\<lparr>st_users := users_set_vault user vault (st_users s1)\<rparr>, bus))"

definition on_market_paused :: "u16 \<Rightarrow> live \<Rightarrow> live" where
  "on_market_paused market_id l =
     (let (s, bus) = l in (s\<lparr>st_market_state := set_paused market_id True (st_market_state s)\<rparr>, bus))"

fun handle_event :: "indexed_event \<Rightarrow> event \<Rightarrow> live \<Rightarrow> live" where
  "handle_event ev (PositionOpened pid user mid lng sz lev price token amt) =
     on_position_opened ev pid user mid lng sz lev price token amt"
| "handle_event ev (PositionClosed pid user mid sz price pnl full) =
     on_position_closed ev pid user mid sz price pnl full"
| "handle_event ev (PositionModified pid sz col amt) = on_position_modified pid sz col amt"
| "handle_event ev (OrderPlaced oid user mid ty lng price sz) = on_order_placed ev oid user mid ty lng price sz"
| "handle_event ev (OrderExecuted oid pid price) = on_order_executed ev oid pid price"
| "handle_event ev (OrderCancelled oid _) = on_order_cancelled oid"
| "handle_event ev (Liquidation pid user mid price pen _) = on_liquidation ev pid user mid price pen"
| "handle_event ev (FundingRateUpdated mid rate rate24) = on_funding_rate_updated mid rate rate24"
| "handle_event ev (CollateralDeposited user token amt) = on_collateral_deposited ev user token amt"
| "handle_event ev (CollateralWithdrawn user token amt) = on_collateral_withdrawn user token amt"
| "handle_event ev (VaultCreated user vault) = on_vault_created ev user vault"
| "handle_event ev (MarketPaused mid) = on_market_paused mid"
| "handle_event ev (PriceUpdated _ _ _) = id"
| "handle_event ev (FundingSettled _ _ _ _) = id"
| "handle_event ev (MarketCreated _ _ _) = id"
| "handle_event ev (ADLExecuted _ _) = id"
| "handle_event ev (VaultDeficit _ _) = id"

text \<open>The body of \<open>process_event\<close> after the write-ahead log.\<close>

definition apply_event :: "indexed_event \<Rightarrow> live \<Rightarrow> live" where
  "apply_event ev l =
     (let (s, bus) = handle_event ev (ie_event ev) (append_event ev (fst l), snd l)
      in (s\<lparr>st_checkpoint := advance_block (ie_block_number ev) (st_checkpoint s)\<rparr>, bus))"

text \<open>
  \<open>ser\<close> and \<open>crc\<close> are the serializer and the checksum of the log, \<open>due\<close> whether the sync
  interval has elapsed.
\<close>

definition process_event ::
  "(wal_entry \<Rightarrow> u8 list option) \<Rightarrow> (u8 list \<Rightarrow> u32) \<Rightarrow> bool \<Rightarrow> indexed_event \<Rightarrow> perf_db \<Rightarrow> unit result \<times> perf_db" where
  "process_event ser crc due ev db =
     (case wal_append ser crc due (WalIndexedEvent ev) (db_wal db) of
        (Inl e, w) \<Rightarrow> (Inl e, db\<lparr>db_wal := w\<rparr>)
      | (Inr _, w) \<Rightarrow>
          (let (s, bus) = apply_event ev (db_stores db, db_pubsub db)
           in (Inr (), db\<lparr>db_wal := w, db_stores := s, db_pubsub := bus\<rparr>)))"

section \<open>Price ticks\<close>

text \<open>The loop that persists the closed candles; an error ends the ingestion.\<close>

fun append_closed :: "candle_output list \<Rightarrow> candle_store \<Rightarrow> (unit result \<times> candle_store) panicking" where
  "append_closed [] cs = Some (Inr (), cs)"
| "append_closed (LiveCandle c # outs) cs = append_closed outs cs"
| "append_closed (ClosedCandle c # outs) cs =
     (case candle_store_append c cs of
        None \<Rightarrow> None
      | Some (Inl e, cs') \<Rightarrow> Some (Inl e, cs')
      | Some (Inr _, cs') \<Rightarrow> append_closed outs cs')"

definition ingest_tick ::
  "(wal_entry \<Rightarrow> u8 list option) \<Rightarrow> (u8 list \<Rightarrow> u32) \<Rightarrow> bool \<Rightarrow> price_tick \<Rightarrow> perf_db \<Rightarrow>
     (candle_output list result \<times> perf_db) panicking" where
  "ingest_tick ser crc due tick db =
     (case wal_append ser crc due
             (WalPriceTick (tick_timestamp_ns tick) (tick_market_id tick) (tick_price tick)) (db_wal db) of
        (Inl e, w) \<Rightarrow> Some (Inl e, db\<lparr>db_wal := w\<rparr>)
      | (Inr _, w) \<Rightarrow>
          (let db1 = db\<lparr>db_wal := w\<rparr>
           in case tick_store_append tick (db_tick_store db1) of
                None \<Rightarrow> None
              | Some (Inl e, ts) \<Rightarrow> Some (Inl e, db1\<lparr>db_tick_store := ts\<rparr>)
              | Some (Inr _, ts) \<Rightarrow>
                  (let s = db_stores db1;
                       s' = s\<lparr>st_market_state := set_price (tick_market_id tick) (tick_price tick)
                                (tick_timestamp_ns tick) (st_market_state s)\<rparr>;
                       (outputs, builder) = on_tick tick (db_candle_builder db1);
                       db2 = db1\<lparr>db_tick_store := ts, db_stores := s', db_candle_builder := builder\<rparr>
                   in case append_closed outputs (db_candle_store db2) of
                        None \<Rightarrow> None
                      | Some (Inl e, cs) \<Rightarrow> Some (Inl e, db2\<lparr>db_candle_store := cs\<rparr>)
                      | Some (Inr _, cs) \<Rightarrow>
                          Some (Inr outputs,
                            db2\<lparr>db_candle_store := cs,
                                db_pubsub := pubsub_send Prices
                                  (PriceUpdate (tick_market_id tick) (tick_price tick) (tick_timestamp_ns tick))
                                  (db_pubsub db2)\<rparr>))))"

definition save_checkpoint :: "u64 \<Rightarrow> string \<Rightarrow> u64 \<Rightarrow> perf_db \<Rightarrow> perf_db" where
  "save_checkpoint block hash timestamp db =
     db\<lparr>db_stores := (db_stores db)\<lparr>st_checkpoint := checkpoint_save block hash timestamp (st_checkpoint (db_stores db))\<rparr>\<rparr>"

definition rebuild_leaderboard :: "address list \<Rightarrow> u64 \<Rightarrow> perf_db \<Rightarrow> perf_db" where
  "rebuild_leaderboard ks now db =
     db\<lparr>db_leaderboard := leaderboard_rebuild (stats_all ks (st_trader_stats (db_stores db))) now (db_leaderboard db)\<rparr>"

definition sync_wal :: "perf_db \<Rightarrow> perf_db" where
  "sync_wal db = db\<lparr>db_wal := wal_sync (db_wal db)\<rparr>"

section \<open>Reads\<close>

definition db_ticks :: "perf_db \<Rightarrow> market_id \<Rightarrow> price_tick list panicking" where
  "db_ticks db market_id = tick_store_ticks (db_tick_store db) market_id"

definition db_tick_count :: "perf_db \<Rightarrow> market_id \<Rightarrow> u64" where
  "db_tick_count db market_id = tick_store_tick_count (db_tick_store db) market_id"

definition db_latest_tick :: "perf_db \<Rightarrow> market_id \<Rightarrow> price_tick option panicking" where
  "db_latest_tick db market_id = tick_store_latest (db_tick_store db) market_id"

definition db_candles :: "perf_db \<Rightarrow> market_id \<Rightarrow> timeframe \<Rightarrow> candle_record list panicking" where
  "db_candles db market_id tf = candle_store_candles (db_candle_store db) market_id tf"

definition db_candle_count :: "perf_db \<Rightarrow> market_id \<Rightarrow> timeframe \<Rightarrow> u64" where
  "db_candle_count db market_id tf = candle_store_candle_count (db_candle_store db) market_id tf"

definition db_live_candle :: "perf_db \<Rightarrow> market_id \<Rightarrow> timeframe \<Rightarrow> candle_record option" where
  "db_live_candle db market_id tf = builder_current (db_candle_builder db) market_id tf"

definition db_latest_price :: "perf_db \<Rightarrow> market_id \<Rightarrow> f64" where
  "db_latest_price db market_id = latest_price (st_market_state (db_stores db)) market_id"

definition db_all_prices :: "perf_db \<Rightarrow> (market_id \<times> f64) list" where
  "db_all_prices db = all_prices (st_market_state (db_stores db))"

definition db_pnl_leaderboard :: "perf_db \<Rightarrow> nat \<Rightarrow> leaderboard_entry list" where
  "db_pnl_leaderboard db limit = pnl_board (db_leaderboard db) limit"

definition db_volume_leaderboard :: "perf_db \<Rightarrow> nat \<Rightarrow> leaderboard_entry list" where
  "db_volume_leaderboard db limit = volume_board (db_leaderboard db) limit"

section \<open>Replay\<close>

definition replay_position_opened ::
  "indexed_event \<Rightarrow> hash32 \<Rightarrow> address \<Rightarrow> u16 \<Rightarrow> bool \<Rightarrow> i128 \<Rightarrow> i128 \<Rightarrow> address \<Rightarrow> i128 \<Rightarrow> stores \<Rightarrow> stores" where
  "replay_position_opened ev position_id user market_id is_long size_usd leverage
     collateral_token collateral_amount s =
     (let pos = opened_position ev position_id user market_id is_long size_usd leverage 0
                  collateral_token collateral_amount;
          s1 = s\<lparr>st_positions := positions_insert pos (st_positions s)\<rparr>;
          s2 = s1\<lparr>st_users := users_ensure user (ie_block_timestamp ev) (st_users s1)\<rparr>;
          s3 = s2\<lparr>st_trader_stats := stats_ensure user (st_trader_stats s2)\<rparr>
      in s3\<lparr>st_trader_stats := increment_open_positions user (st_trader_stats s3)\<rparr>)"

definition replay_close_position :: "i128 \<Rightarrow> i128 \<Rightarrow> i128 \<Rightarrow> bool \<Rightarrow> position \<Rightarrow> position" where
  "replay_close_position closed_size_usd exit_price realized_pnl is_full_close p =
     (let p1 = p\<lparr>pos_exit_price := Some exit_price, pos_realized_pnl := Some realized_pnl\<rparr>
      in if is_full_close then p1\<lparr>pos_status := PsClosed\<rparr>
         else p1\<lparr>pos_size_usd := pos_size_usd p1 - closed_size_usd\<rparr>)"

definition replay_position_closed ::
  "indexed_event \<Rightarrow> hash32 \<Rightarrow> address \<Rightarrow> i128 \<Rightarrow> i128 \<Rightarrow> i128 \<Rightarrow> bool \<Rightarrow> stores \<Rightarrow> stores" where
  "replay_position_closed ev position_id user closed_size_usd exit_price realized_pnl is_full_close s =
     (let s1 = s\<lparr>st_positions := snd (positions_update position_id
                  (replay_close_position closed_size_usd exit_price realized_pnl is_full_close) (st_positions s))\<rparr>;
          s2 = s1\<lparr>st_trader_stats := stats_ensure user (st_trader_stats s1)\<rparr>;
          s3 = s2\<lparr>st_trader_stats := snd (increment_trade user closed_size_usd realized_pnl 0
                    (0 < realized_pnl) False (ie_block_timestamp ev) (st_trader_stats s2))\<rparr>;
          s4 = (if is_full_close
                then s3\<lparr>st_trader_stats := decrement_open_positions user (st_trader_stats s3)\<rparr> else s3)
      in s4\<lparr>st_daily_stats := accumulate_trade user (timestamp_to_date (ie_block_timestamp ev))
              closed_size_usd realized_pnl 0 (st_daily_stats s4)\<rparr>)"

definition replay_liquidation :: "indexed_event \<Rightarrow> hash32 \<Rightarrow> address \<Rightarrow> i128 \<Rightarrow> i128 \<Rightarrow> stores \<Rightarrow> stores" where
  "replay_liquidation ev position_id user liquidation_price penalty s =
     (let s1 = s\<lparr>st_positions := snd (positions_update position_id
                  (\<lambda>p. p\<lparr>pos_status := PsLiquidated, pos_exit_price := Some liquidation_price\<rparr>) (st_positions s))\<rparr>;
          s2 = s1\<lparr>st_trader_stats := stats_ensure user (st_trader_stats s1)\<rparr>;
          neg_penalty = - penalty;
          s3 = s2\<lparr>st_trader_stats := snd (increment_trade user 0 neg_penalty 0 False True
                    (ie_block_timestamp ev) (st_trader_stats s2))\<rparr>
      in s3\<lparr>st_trader_stats := decrement_open_positions user (st_trader_stats s3)\<rparr>)"

definition replay_order_placed ::
  "indexed_event \<Rightarrow> hash32 \<Rightarrow> address \<Rightarrow> u16 \<Rightarrow> u8 \<Rightarrow> bool \<Rightarrow> i128 \<Rightarrow> i128 \<Rightarrow> stores \<Rightarrow> stores" where
  "replay_order_placed ev order_id user market_id order_type is_long trigger_price size_usd s =
     (let order = placed_order ev order_id user market_id order_type is_long trigger_price size_usd;
          s1 = s\<lparr>st_orders := orders_insert order (st_orders s)\<rparr>
      in s1\<lparr>st_users := users_ensure user (ie_block_timestamp ev) (st_users s1)\<rparr>)"

definition replay_collateral_deposited :: "indexed_event \<Rightarrow> address \<Rightarrow> address \<Rightarrow> i128 \<Rightarrow> stores \<Rightarrow> stores" where
  "replay_collateral_deposited ev user token amount s =
     (let s1 = s\<lparr>st_users := users_ensure user (ie_block_timestamp ev) (st_users s)\<rparr>;
          existing = balances_get (st_balances s1) user token;
          new_amount = (case existing of None \<Rightarrow> amount | Some b \<Rightarrow> bal_amount b + amount);
          new_locked = (case existing of None \<Rightarrow> 0 | Some b \<Rightarrow> bal_locked b)
      in s1\<lparr>st_balances := balances_set_raw user token new_amount new_locked
              (new_amount - new_locked) (st_balances s1)\<rparr>)"

definition replay_collateral_withdrawn :: "address \<Rightarrow> address \<Rightarrow> i128 \<Rightarrow> stores \<Rightarrow> stores" where
  "replay_collateral_withdrawn user token amount s =
     (let existing = balances_get (st_balances s) user token;
          new_amount = (case existing of None \<Rightarrow> 0 | Some b \<Rightarrow> max (bal_amount b - amount) 0);
          new_locked = (case existing of None \<Rightarrow> 0 | Some b \<Rightarrow> bal_locked b)
      in s\<lparr>st_balances := balances_set_raw user token new_amount new_locked
             (max (new_amount - new_locked) 0) (st_balances s)\<rparr>)"

definition replay_event :: "indexed_event \<Rightarrow> event \<Rightarrow> stores \<Rightarrow> stores" where
  "replay_event ev e s =
     (case e of
        PositionOpened pid user mid lng sz lev _ token amt \<Rightarrow>
          replay_position_opened ev pid user mid lng sz lev token amt s
      | PositionClosed pid user _ sz price pnl full \<Rightarrow> replay_position_closed ev pid user sz price pnl full s
      | Liquidation pid user _ price pen _ \<Rightarrow> replay_liquidation ev pid user price pen s
      | OrderPlaced oid user mid ty lng price sz \<Rightarrow> replay_order_placed ev oid user mid ty lng price sz s
      | OrderExecuted oid pid price \<Rightarrow>
          s\<lparr>st_orders := snd (orders_execute oid price pid (ie_block_timestamp ev) (st_orders s))\<rparr>
      | OrderCancelled oid _ \<Rightarrow> s\<lparr>st_orders := snd (orders_cancel oid (st_orders s))\<rparr>
      | CollateralDeposited user token amt \<Rightarrow> replay_collateral_deposited ev user token amt s
      | CollateralWithdrawn user token amt \<Rightarrow> replay_collateral_withdrawn user token amt s
      | VaultCreated user vault \<Rightarrow>
          (let s1 = s\<lparr>st_users := users_ensure user (ie_block_timestamp ev) (st_users s)\<rparr>
           in s1\<lparr>st_users := users_set_vault user vault (st_users s1)\<rparr>)
      | FundingRateUpdated mid rate rate24 \<Rightarrow>
          s\<lparr>st_market_state := set_funding_rate mid rate rate24 (st_market_state s)\<rparr>
      | MarketPaused mid \<Rightarrow> s\<lparr>st_market_state := set_paused mid True (st_market_state s)\<rparr>
      | _ \<Rightarrow> s)"

definition replay_wal_entry :: "u64 \<Rightarrow> wal_entry \<Rightarrow> stores \<Rightarrow> stores" where
  "replay_wal_entry snap_block entry s =
     (case entry of
        WalPriceTick timestamp_ns market_id price \<Rightarrow>
          s\<lparr>st_market_state := set_price market_id price timestamp_ns (st_market_state s)\<rparr>
      | WalCheckpoint block_number \<Rightarrow>
          s\<lparr>st_checkpoint := advance_block block_number (st_checkpoint s)\<rparr>
      | WalBalanceUpdate user token amount locked available \<Rightarrow>
          s\<lparr>st_balances := balances_set_raw user token amount locked available (st_balances s)\<rparr>
      | WalIndexedEvent ev \<Rightarrow>
          if ie_block_number ev \<le> snap_block then s
          else (let s1 = replay_event ev (ie_event ev) (append_event ev s)
                in s1\<lparr>st_checkpoint := advance_block (ie_block_number ev) (st_checkpoint s1)\<rparr>)
      | _ \<Rightarrow> s)"

section \<open>Snapshots\<close>

text \<open>The iteration orders of the hash maps that \<open>snapshot\<close> reads; \<open>all()\<close> of the trader statistics runs twice.\<close>

record snapshot_orders =
  so_positions :: "hash32 list"
  so_orders :: "hash32 list"
  so_balances :: "(address \<times> address) list"
  so_users :: "address list"
  so_trader_stats :: "address list"
  so_daily_traders :: "address list"
  so_daily :: "address \<Rightarrow> (address \<times> u32) list"

definition daily_entries :: "snapshot_orders \<Rightarrow> stores \<Rightarrow> daily_stats_entry list" where
  "daily_entries io s =
     concat (map (\<lambda>ts. map (\<lambda>ds. \<lparr>de_address = ts_address ts, de_stats = ds\<rparr>)
         (trader_daily_history (so_daily io (ts_address ts)) (st_daily_stats s) (ts_address ts) 1000))
       (stats_all (so_daily_traders io) (st_trader_stats s)))"

definition state_snapshot_of :: "snapshot_orders \<Rightarrow> stores \<Rightarrow> state_snapshot" where
  "state_snapshot_of io s =
     (let cp = checkpoint_snapshot_of (st_checkpoint s)
      in \<lparr>ss_checkpoint = snapshot_checkpoint_of cp,
          ss_positions = positions_all (so_positions io) (st_positions s),
          ss_orders = orders_all (so_orders io) (st_orders s),
          ss_balances = balances_all (so_balances io) (st_balances s),
          ss_users = users_all (so_users io) (st_users s),
          ss_trader_stats = stats_all (so_trader_stats io) (st_trader_stats s),
          ss_daily_stats = daily_entries io s,
          ss_market_states = List.map_filter
            (\<lambda>i. map_option snapshot_market_state_of (market_snapshot_of (st_market_state s) i)) all_markets,
          ss_snapshot_timestamp = cp_last_block_timestamp (st_checkpoint s)\<rparr>)"

definition db_snapshot ::
  "(state_snapshot \<Rightarrow> u8 list option) \<Rightarrow> snapshot_orders \<Rightarrow> perf_db \<Rightarrow> string result \<times> perf_db" where
  "db_snapshot ser io db =
     (let (r, d) = write_snapshot ser (state_snapshot_of io (db_stores db)) (db_snapshots db)
      in (r, db\<lparr>db_snapshots := d\<rparr>))"

text \<open>The loops of \<open>restore_snapshot\<close>, one per store.\<close>

definition restore_market_state :: "snapshot_market_state \<Rightarrow> market_state_table \<Rightarrow> market_state_table" where
  "restore_market_state ms t =
     (let m = sm_market_id ms;
          t1 = set_price m (sm_latest_price ms) (sm_last_update_ns ms) t;
          t2 = set_funding_rate m (sm_funding_rate_per_second ms) (sm_funding_rate_24h ms) t1;
          t3 = set_open_interest m (sm_long_oi ms) (sm_short_oi ms) t2;
          t4 = set_oracle_prices m (sm_mark_price ms) (sm_index_price ms) t3;
          t5 = set_config m (sm_max_leverage ms) (sm_maintenance_margin_bps ms) t4;
          t6 = set_enabled m (sm_enabled ms) t5;
          t7 = set_paused m (sm_paused ms) t6
      in set_24h_stats m (sm_volume_24h ms) (sm_trades_24h ms) (sm_price_change_24h ms)
           (sm_price_change_pct_24h ms) t7)"

definition restore_snapshot :: "state_snapshot \<Rightarrow> stores \<Rightarrow> stores" where
  "restore_snapshot snap s =
     s\<lparr>st_checkpoint := checkpoint_save (sc_last_block (ss_checkpoint snap))
          (sc_last_block_hash (ss_checkpoint snap)) (sc_last_block_timestamp (ss_checkpoint snap)) (st_checkpoint s),
       st_positions := fold positions_insert (ss_positions snap) (st_positions s),
       st_orders := fold orders_insert (ss_orders snap) (st_orders s),
       st_balances := fold balances_set (ss_balances snap) (st_balances s),
       st_users := fold users_upsert (ss_users snap) (st_users s),
       st_trader_stats := fold (\<lambda>ts t. snd (stats_update (ts_address ts) (\<lambda>_. ts) (stats_ensure (ts_address ts) t)))
          (ss_trader_stats snap) (st_trader_stats s),
       st_daily_stats := fold (\<lambda>e. set_trader_daily (de_address e) (ds_date (de_stats e)) (de_stats e))
          (ss_daily_stats snap) (st_daily_stats s),
       st_market_state := fold restore_market_state (ss_market_states snap) (st_market_state s)\<rparr>"

section \<open>Opening and shutting down\<close>

text \<open>
  The data directory: the tick and candle directories, the log and the snapshots, with the
  order in which \<open>read_dir\<close> lists the last two.
\<close>

record data_dir =
  dd_ticks :: "string \<rightharpoonup> u8 list"
  dd_candles :: "string \<rightharpoonup> u8 list"
  dd_wal :: dir
  dd_snapshots :: dir

text \<open>Seeding the builder with the last stored candle of each market and timeframe.\<close>

fun seed_builder :: "candle_store \<Rightarrow> (market_id \<times> timeframe) list \<Rightarrow> candle_builder \<Rightarrow> candle_builder panicking" where
  "seed_builder cs [] b = Some b"
| "seed_builder cs ((mid, tf) # rest) b =
     (case candle_store_latest cs mid tf of
        None \<Rightarrow> None
      | Some None \<Rightarrow> seed_builder cs rest b
      | Some (Some lst) \<Rightarrow> seed_builder cs rest (builder_seed mid tf lst b))"

text \<open>
  \<open>wal_names\<close> is the listing \<open>WalWriter::open\<close> sees, \<open>wal_names'\<close> the one \<open>replay\<close> sees, after the
  writer has created its segment.
\<close>

definition perf_db_open ::
  "(u8 list \<Rightarrow> state_snapshot option) \<Rightarrow> (u8 list \<Rightarrow> wal_entry option) \<Rightarrow> (u8 list \<Rightarrow> u32) \<Rightarrow>
   string list \<Rightarrow> string list \<Rightarrow> string list \<Rightarrow> perf_db_config \<Rightarrow> data_dir \<Rightarrow> perf_db result panicking" where
  "perf_db_open sde de crc snap_names wal_names wal_names' config dd =
     (case load_latest_snapshot sde snap_names (dd_snapshots dd) of
        Inl e \<Rightarrow> Some (Inl e)
      | Inr snap \<Rightarrow>
          (let snap_block = (case snap of None \<Rightarrow> 0 | Some s \<Rightarrow> sc_last_block (ss_checkpoint s))
           in case tick_store_open (dd_ticks dd) of
                None \<Rightarrow> None
              | Some (Inl e) \<Rightarrow> Some (Inl e)
              | Some (Inr tick_store) \<Rightarrow>
           (case candle_store_open (dd_candles dd) of
                None \<Rightarrow> None
              | Some (Inl e) \<Rightarrow> Some (Inl e)
              | Some (Inr candle_store) \<Rightarrow>
           (case pubsub_with_capacity (pc_pubsub_capacity config) of
                None \<Rightarrow> None
              | Some pubsub \<Rightarrow>
           (let s0 = (case snap of None \<Rightarrow> stores_new | Some sn \<Rightarrow> restore_snapshot sn stores_new);
                w = wal_open (pc_wal config) wal_names (dd_wal dd)
            in case wal_replay de crc (\<lambda>entry s. Inr (replay_wal_entry snap_block entry s)) wal_names' (snd w) s0 of
                 Inl e \<Rightarrow> Some (Inl e)
               | Inr (replay_count, s1) \<Rightarrow>
           (case seed_builder candle_store market_timeframes candle_builder_new of
                None \<Rightarrow> None
              | Some builder \<Rightarrow>
                  Some (Inr
                   \<lparr>db_config = config, db_tick_store = tick_store, db_candle_store = candle_store,
                    db_candle_builder = builder, db_stores = s1, db_pubsub = pubsub,
                    db_referrals = referrals_new, db_leaderboard = leaderboard_new (pc_leaderboard_max config),
                    db_alerts = alerts_new, db_api_keys = api_keys_new, db_competitions = competitions_new,
                    db_wal = w, db_snapshots = dd_snapshots dd\<rparr>)))))))"

fun append_candles :: "candle_record list \<Rightarrow> candle_store \<Rightarrow> (unit result \<times> candle_store) panicking" where
  "append_candles [] cs = Some (Inr (), cs)"
| "append_candles (c # rest) cs =
     (case candle_store_append c cs of
        None \<Rightarrow> None
      | Some (Inl e, cs') \<Rightarrow> Some (Inl e, cs')
      | Some (Inr _, cs') \<Rightarrow> append_candles rest cs')"

definition perf_db_shutdown ::
  "(state_snapshot \<Rightarrow> u8 list option) \<Rightarrow> snapshot_orders \<Rightarrow> perf_db \<Rightarrow> (unit result \<times> perf_db) panicking" where
  "perf_db_shutdown ser io db =
     (case append_candles (builder_flush_all (db_candle_builder db)) (db_candle_store db) of
        None \<Rightarrow> None
      | Some (Inl e, cs) \<Rightarrow> Some (Inl e, db\<lparr>db_candle_store := cs\<rparr>)
      | Some (Inr _, cs) \<Rightarrow>
          (let db1 = sync_wal (db\<lparr>db_candle_store := cs\<rparr>);
               (r, db2) = db_snapshot ser io db1
           in Some (map_sum (\<lambda>e. e) (\<lambda>_. ()) r, db2)))"

text \<open>A configuration with which a database can be opened, and the bus of an opened one.\<close>

definition config_ok :: "perf_db_config \<Rightarrow> bool" where
  "config_ok config \<longleftrightarrow> capacity_ok (pc_pubsub_capacity config)"

lemma config_ok_new [simp, intro!]: "config_ok perf_db_config_new"
  by (simp add: config_ok_def capacity_ok_def perf_db_config_new_def)

lemma config_ok_bus: "config_ok config \<Longrightarrow> pubsub_with_capacity (pc_pubsub_capacity config) = Some (pubsub_empty (pc_pubsub_capacity config))"
  by (simp add: config_ok_def pubsub_with_capacity_def)

lemma open_bus:
  assumes "perf_db_open sde de crc snap_names wal_names wal_names' config dd = Some (Inr db)"
  shows "config_ok config" "db_pubsub db = pubsub_empty (pc_pubsub_capacity config)" "db_config db = config"
  using assms
  by (auto simp: perf_db_open_def Let_def config_ok_def pubsub_with_capacity_def split: sum.splits option.splits prod.splits if_splits)

text \<open>What is on disk while the database is open.\<close>

definition data_dir_of :: "perf_db \<Rightarrow> data_dir" where
  "data_dir_of db =
     \<lparr>dd_ticks = store_image tick_paths (db_tick_store db), dd_candles = store_image candle_paths (db_candle_store db),
      dd_wal = snd (db_wal db), dd_snapshots = db_snapshots db\<rparr>"

end
