(* ===== verification/Engine_Ingest.thy ===== *)
theory Engine_Ingest
  imports Engine
begin

text \<open>
  Ingestion of ticks by the whole engine: the tick and candle files as logs, and what one
  tick, or a sequence of ticks, does to them.
\<close>

text \<open>
  The time-series side of a database: \<open>tks\<close> are the ticks per market and \<open>cl\<close> the stored candles
  per market and timeframe; \<open>n\<close> bounds their number, so that no file comes near the end of its
  64-bit range.
\<close>

definition series_ok ::
  "nat \<Rightarrow> perf_db \<Rightarrow> (market_id \<Rightarrow> price_tick list) \<Rightarrow> (market_id \<times> timeframe \<Rightarrow> candle_record list) \<Rightarrow> bool" where
  "series_ok n db tks cl \<longleftrightarrow>
     tick_store_repr (db_tick_store db) tks \<and> candle_store_repr (db_candle_store db) cl \<and>
     builder_ok (db_candle_builder db) \<and> length (st_market_state (db_stores db)) = MARKET_COUNT \<and>
     (\<forall>m. length (tks m) \<le> n) \<and> (\<forall>k. length (cl k) \<le> 32 * n)"

definition SERIES_LIMIT :: nat where
  "SERIES_LIMIT = 2 ^ 48"

lemma closed_candles_simps [simp]:
  "closed_candles m tf [] = []"
  "closed_candles m tf (LiveCandle c # outs) = closed_candles m tf outs"
  "closed_candles m tf (ClosedCandle c # outs) =
     (if cdl_market_id c = m \<and> cdl_timeframe c = timeframe_u8 tf then c # closed_candles m tf outs
      else closed_candles m tf outs)"
  by (simp_all add: closed_candles_def outputs_of_def)

lemma length_closed_candles: "length (closed_candles m tf outs) \<le> length outs"
proof (induction outs)
  case (Cons x outs)
  then show ?case by (cases x) auto
qed simp

definition closable :: "candle_output \<Rightarrow> bool" where
  "closable x \<longleftrightarrow> unat (cdl_market_id (output_record x)) < MARKET_COUNT \<and>
     (\<exists>tf. cdl_timeframe (output_record x) = timeframe_u8 tf)"

lemma append_closed_ok:
  assumes "candle_store_repr cs cl" "\<forall>x \<in> set outs. closable x" "\<And>k. length (cl k) + length outs \<le> N"
    and "N * 48 + 48 < MMAP_LIMIT"
  shows "\<exists>cs'. append_closed outs cs = Some (Inr (), cs') \<and>
    candle_store_repr cs' (\<lambda>(m, tf). cl (m, tf) @ closed_candles m tf outs)"
  using assms
proof (induction outs arbitrary: cs cl)
  case Nil
  then show ?case by simp
next
  case (Cons x outs)
  show ?case
  proof (cases x)
    case (LiveCandle c)
    then show ?thesis using Cons.IH [of cs cl] Cons.prems by (simp add: Suc_leD)
  next
    case (ClosedCandle c)
    obtain tf where c: "unat (cdl_market_id c) < MARKET_COUNT" "cdl_timeframe c = timeframe_u8 tf"
      using Cons.prems(2) ClosedCandle by (auto simp: closable_def)
    let ?k = "(cdl_market_id c, tf)"
    have "length (cl ?k) \<le> N" using Cons.prems(3) [of ?k] by simp
    then have lim: "length (cl ?k) * 48 + 48 < MMAP_LIMIT" using Cons.prems(4) by linarith
    obtain cs1 where 1: "candle_store_append c cs = Some (Inr (), cs1)"
      "candle_store_repr cs1 (cl(?k := cl ?k @ [c]))"
      using candle_store_append_ok [OF Cons.prems(1) c lim] by blast
    have "length ((cl(?k := cl ?k @ [c])) k) + length outs \<le> N" for k
      using Cons.prems(3) [of k] by (auto simp: Suc_leD)
    then obtain cs2 where 2: "append_closed outs cs1 = Some (Inr (), cs2)"
      "candle_store_repr cs2 (\<lambda>(m, tf'). (cl(?k := cl ?k @ [c])) (m, tf') @ closed_candles m tf' outs)"
      using Cons.IH [OF 1(2)] Cons.prems(2,4) by auto
    have "(\<lambda>(m, tf'). (cl(?k := cl ?k @ [c])) (m, tf') @ closed_candles m tf' outs) =
        (\<lambda>(m, tf'). cl (m, tf') @ closed_candles m tf' (x # outs))"
      using c(2) by (auto simp: ClosedCandle fun_eq_iff timeframe_u8_inj)
    then show ?thesis using 1 2 ClosedCandle by simp
  qed
qed

lemma length_on_tick_buffer: "length (snd (on_tick_buffer t tf slot)) \<le> 2"
  by (auto simp: on_tick_buffer_def Let_def split: option.splits)

lemma length_on_tick:
  assumes "builder_ok b"
  shows "length (fst (on_tick t b)) \<le> 32"
proof (cases "unat (tick_market_id t) < MARKET_COUNT")
  case True
  have "length (concat (map f tfs)) \<le> 2 * length tfs" if "\<And>tf. length (f tf) \<le> 2"
    for f :: "timeframe \<Rightarrow> candle_output list" and tfs
  proof (induction tfs)
    case (Cons a tfs)
    then show ?case using that [of a] by simp
  qed simp
  from this [of "\<lambda>tf. snd (on_tick_buffer t tf (b ! candle_flat_index (tick_market_id t) tf))" timeframe_ALL]
  show ?thesis using on_tick_outputs [OF True assms] length_on_tick_buffer by simp
qed (simp add: on_tick_def)

lemma closable_on_tick:
  assumes "builder_ok b" "x \<in> set (fst (on_tick t b))"
  shows "closable x"
proof (cases "unat (tick_market_id t) < MARKET_COUNT")
  case True
  then obtain tf where "x \<in> set (snd (on_tick_buffer t tf (b ! candle_flat_index (tick_market_id t) tf)))"
    using assms on_tick_outputs [OF True assms(1)] by auto
  then show ?thesis using True
    by (auto simp: closable_def on_tick_buffer_def candle_to_record_def Let_def split: option.splits if_splits)
qed (use assms in \<open>simp add: on_tick_def\<close>)

text \<open>What one tick of a known market does.\<close>

lemma ingest_tick_ok:
  assumes ok: "series_ok n db tks cl" and lim: "n < SERIES_LIMIT" and v: "price_tick_valid t"
    and m: "unat (tick_market_id t) < MARKET_COUNT"
    and w: "wal_append ser crc due (WalPriceTick (tick_timestamp_ns t) (tick_market_id t) (tick_price t)) (db_wal db) = (Inr (), w)"
  shows "\<exists>db'. ingest_tick ser crc due t db = Some (Inr (fst (on_tick t (db_candle_builder db))), db') \<and>
    series_ok (Suc n) db' (tks(tick_market_id t := tks (tick_market_id t) @ [t]))
      (\<lambda>(m, tf). cl (m, tf) @ closed_candles m tf (fst (on_tick t (db_candle_builder db)))) \<and>
    db_candle_builder db' = snd (on_tick t (db_candle_builder db)) \<and> db_wal db' = w \<and>
    db_snapshots db' = db_snapshots db \<and> db_config db' = db_config db \<and>
    db_stores db' = (db_stores db)\<lparr>st_market_state := set_price (tick_market_id t) (tick_price t)
      (tick_timestamp_ns t) (st_market_state (db_stores db))\<rparr>"
proof -
  let ?out = "fst (on_tick t (db_candle_builder db))"
  let ?cl = "\<lambda>(m, tf). cl (m, tf) @ closed_candles m tf ?out"
  let ?tks = "tks(tick_market_id t := tks (tick_market_id t) @ [t])"
  have b: "builder_ok (db_candle_builder db)" and cn: "\<And>k. length (cl k) \<le> 32 * n" and tn: "\<And>m. length (tks m) \<le> n"
    using ok unfolding series_ok_def by blast+
  have "length (tks (tick_market_id t)) * 24 + 24 < MMAP_LIMIT"
    using tn [of "tick_market_id t"] lim by (simp add: SERIES_LIMIT_def MMAP_LIMIT_def)
  then obtain ts where ts: "tick_store_append t (db_tick_store db) = Some (Inr (), ts)" "tick_store_repr ts ?tks"
    using tick_store_append_ok [of "db_tick_store db" tks t] ok v m by (auto simp: series_ok_def)
  have out: "length ?out \<le> 32" by (rule length_on_tick [OF b])
  have "\<exists>cs. append_closed ?out (db_candle_store db) = Some (Inr (), cs) \<and> candle_store_repr cs ?cl"
  proof (rule append_closed_ok)
    show "candle_store_repr (db_candle_store db) cl" using ok by (simp add: series_ok_def)
    show "\<forall>x \<in> set ?out. closable x" using closable_on_tick [OF b] by blast
    show "length (cl k) + length ?out \<le> 32 * n + 32" for k using cn [of k] out by simp
    show "(32 * n + 32) * 48 + 48 < MMAP_LIMIT" using lim by (simp add: SERIES_LIMIT_def MMAP_LIMIT_def)
  qed
  then obtain cs where cs: "append_closed ?out (db_candle_store db) = Some (Inr (), cs)" "candle_store_repr cs ?cl"
    by blast
  have "length (?cl k) \<le> 32 * Suc n" for k
    using cn [of k] out length_closed_candles [of "fst k" "snd k" ?out] by (cases k) simp
  moreover have "length (?tks m) \<le> Suc n" for m using tn [of m] tn [of "tick_market_id t"] by simp
  moreover have "(\<forall>m. length (tks m) \<le> Suc n)" using tn le_SucI by blast
  ultimately show ?thesis
    using ts cs ok w b
    by (simp add: ingest_tick_def Let_def split_beta series_ok_def builder_ok_on_tick)
qed

lemma ensure_slot_result: "ensure_slot i p s = Some (r, s') \<Longrightarrow> \<exists>f. r = Inr f"
  by (auto simp: ensure_slot_def mmap_open_def Let_def split: option.splits if_splits)

text \<open>A tick of an unknown market is refused after it was logged.\<close>

lemma ingest_tick_invalid:
  assumes "MARKET_COUNT \<le> unat (tick_market_id t)"
    and "wal_append ser crc due (WalPriceTick (tick_timestamp_ns t) (tick_market_id t) (tick_price t)) (db_wal db) = (Inr (), w)"
  shows "\<exists>e. ingest_tick ser crc due t db = Some (Inl (InvalidArgument e), db\<lparr>db_wal := w\<rparr>)"
  using assms by (auto simp: ingest_tick_def tick_store_append_def Let_def)

section \<open>A sequence of ticks\<close>

fun ingest_ticks ::
  "(wal_entry \<Rightarrow> u8 list option) \<Rightarrow> (u8 list \<Rightarrow> u32) \<Rightarrow> bool list \<Rightarrow> price_tick list \<Rightarrow> perf_db \<Rightarrow> perf_db panicking" where
  "ingest_ticks ser crc dues [] db = Some db"
| "ingest_ticks ser crc dues (t # ts) db =
     (case ingest_tick ser crc (dues \<noteq> [] \<and> hd dues) t db of
        None \<Rightarrow> None
      | Some (_, db') \<Rightarrow> ingest_ticks ser crc (tl dues) ts db')"

definition tick_entry :: "price_tick \<Rightarrow> wal_entry" where
  "tick_entry t = WalPriceTick (tick_timestamp_ns t) (tick_market_id t) (tick_price t)"

lemma wal_append_some: "ser e \<noteq> None \<Longrightarrow> \<exists>w. wal_append ser crc due e st = (Inr (), w)"
  by (auto simp: wal_append_def Let_def)

lemma closed_candles_append [simp]: "closed_candles m tf (xs @ ys) = closed_candles m tf xs @ closed_candles m tf ys"
  by (simp add: closed_candles_def)

lemma on_ticks_Cons:
  "fst (on_ticks (t # ts) b) = fst (on_tick t b) @ fst (on_ticks ts (snd (on_tick t b)))"
  "snd (on_ticks (t # ts) b) = snd (on_ticks ts (snd (on_tick t b)))"
  by (simp_all add: Let_def split_beta)

definition price_of_tick :: "price_tick \<Rightarrow> market_state_table \<Rightarrow> market_state_table" where
  "price_of_tick t = set_price (tick_market_id t) (tick_price t) (tick_timestamp_ns t)"

lemma latest_price_of_ticks:
  assumes "length ms = MARKET_COUNT" "unat m < MARKET_COUNT"
  shows "latest_price (fold price_of_tick ts ms) m =
    (case last_opt (filter (\<lambda>t. tick_market_id t = m) ts) of None \<Rightarrow> latest_price ms m | Some t \<Rightarrow> tick_price t)"
proof (induction ts rule: rev_induct)
  case (snoc t ts)
  have "length (fold price_of_tick ts ms) = MARKET_COUNT"
    by (rule fold_invariant_list [of "\<lambda>x. length x = MARKET_COUNT"]) (simp_all add: assms(1) price_of_tick_def)
  then have "latest_price (price_of_tick t (fold price_of_tick ts ms)) m =
      (if m = tick_market_id t then tick_price t else latest_price (fold price_of_tick ts ms) m)"
    using assms(2) by (auto simp: price_of_tick_def [of t] latest_price_set_price)
  with snoc show ?case by (auto simp: last_opt_def)
qed (simp add: last_opt_def)

lemma ingest_ticks_ok:
  assumes "series_ok n db tks cl" "n + length ts < SERIES_LIMIT"
    and "\<forall>t \<in> set ts. price_tick_valid t \<and> unat (tick_market_id t) < MARKET_COUNT \<and> ser (tick_entry t) \<noteq> None"
  shows "\<exists>db'. ingest_ticks ser crc dues ts db = Some db' \<and>
    series_ok (n + length ts) db' (\<lambda>m. tks m @ filter (\<lambda>t. tick_market_id t = m) ts)
      (\<lambda>(m, tf). cl (m, tf) @ closed_candles m tf (fst (on_ticks ts (db_candle_builder db)))) \<and>
    db_candle_builder db' = snd (on_ticks ts (db_candle_builder db)) \<and>
    st_market_state (db_stores db') = fold price_of_tick ts (st_market_state (db_stores db))"
  using assms
proof (induction ts arbitrary: n db tks cl dues)
  case (Cons t ts)
  let ?due = "dues \<noteq> [] \<and> hd dues"
  let ?b = "db_candle_builder db"
  obtain w where w: "wal_append ser crc ?due (WalPriceTick (tick_timestamp_ns t) (tick_market_id t) (tick_price t)) (db_wal db) = (Inr (), w)"
    using Cons.prems(3) wal_append_some [of ser "tick_entry t" crc ?due "db_wal db"] by (auto simp: tick_entry_def)
  obtain db1 where 1: "ingest_tick ser crc ?due t db = Some (Inr (fst (on_tick t ?b)), db1)"
    "series_ok (Suc n) db1 (tks(tick_market_id t := tks (tick_market_id t) @ [t]))
      (\<lambda>(m, tf). cl (m, tf) @ closed_candles m tf (fst (on_tick t ?b)))"
    "db_candle_builder db1 = snd (on_tick t ?b)"
    "st_market_state (db_stores db1) = price_of_tick t (st_market_state (db_stores db))"
    using ingest_tick_ok [OF Cons.prems(1) _ _ _ w] Cons.prems(2,3) by (auto simp: price_of_tick_def)
  obtain db2 where 2: "ingest_ticks ser crc (tl dues) ts db1 = Some db2"
    "series_ok (Suc n + length ts) db2 (\<lambda>m. (tks(tick_market_id t := tks (tick_market_id t) @ [t])) m @ filter (\<lambda>t. tick_market_id t = m) ts)
      (\<lambda>(m, tf). (\<lambda>(m, tf). cl (m, tf) @ closed_candles m tf (fst (on_tick t ?b))) (m, tf) @
        closed_candles m tf (fst (on_ticks ts (db_candle_builder db1))))"
    "db_candle_builder db2 = snd (on_ticks ts (db_candle_builder db1))"
    "st_market_state (db_stores db2) = fold price_of_tick ts (st_market_state (db_stores db1))"
    using Cons.IH [OF 1(2), of "tl dues"] Cons.prems(2,3) by auto
  have "(\<lambda>m. (tks(tick_market_id t := tks (tick_market_id t) @ [t])) m @ filter (\<lambda>t. tick_market_id t = m) ts) =
      (\<lambda>m. tks m @ filter (\<lambda>t. tick_market_id t = m) (t # ts))" by auto
  moreover have "(\<lambda>(m, tf). (\<lambda>(m, tf). cl (m, tf) @ closed_candles m tf (fst (on_tick t ?b))) (m, tf) @
        closed_candles m tf (fst (on_ticks ts (db_candle_builder db1)))) =
      (\<lambda>(m, tf). cl (m, tf) @ closed_candles m tf (fst (on_ticks (t # ts) ?b)))"
    by (simp only: on_ticks_Cons closed_candles_append 1(3) append_assoc prod.case)
  ultimately show ?case using 1 2 by (simp add: on_ticks_Cons del: on_ticks.simps)
qed simp

end
