(* ===== verification/Engine_Replay.thy ===== *)
theory Engine_Replay
  imports Engine
begin

text \<open>
  What replaying the log rebuilds. The replay of an event writes fewer fields than its live
  handler: the entry price, the closing transaction, block and time of a position and the
  open interest of the markets are not rebuilt, and \<open>PositionModified\<close> is not replayed.
  \<open>erase\<close> forgets exactly these fields; up to \<open>erase\<close>, replaying an event and processing it are the
  same step.
\<close>

definition erase_position :: "position \<Rightarrow> position" where
  "erase_position p =
     p\<lparr>pos_entry_price := 0, pos_close_tx := None, pos_close_block := None, pos_closed_at := None\<rparr>"

definition erase_positions :: "position_table \<Rightarrow> position_table" where
  "erase_positions t = t\<lparr>pt_positions := \<lambda>k. map_option erase_position (pt_positions t k)\<rparr>"

definition erase_slot :: "market_slot \<Rightarrow> market_slot" where
  "erase_slot s = s\<lparr>sl_inner := (sl_inner s)\<lparr>in_long_oi := 0, in_short_oi := 0\<rparr>\<rparr>"

definition erase_market :: "market_state_table \<Rightarrow> market_state_table" where
  "erase_market t = map erase_slot t"

definition erase :: "stores \<Rightarrow> stores" where
  "erase s = s\<lparr>st_market_state := erase_market (st_market_state s), st_positions := erase_positions (st_positions s)\<rparr>"

lemma erase_position_idem [simp]: "erase_position (erase_position p) = erase_position p"
  by (simp add: erase_position_def)

lemma erase_position_keys [simp]:
  "pos_position_id (erase_position p) = pos_position_id p"
  "pos_user_address (erase_position p) = pos_user_address p"
  "pos_market_id (erase_position p) = pos_market_id p"
  by (simp_all add: erase_position_def)

lemma erase_positions_idem [simp]: "erase_positions (erase_positions t) = erase_positions t"
  by (simp add: erase_positions_def option.map_comp comp_def)

lemma erase_market_idem [simp]: "erase_market (erase_market t) = erase_market t"
  by (simp add: erase_market_def erase_slot_def)

lemma erase_idem [simp]: "erase (erase s) = erase s"
  by (simp add: erase_def)

lemma erase_positions_insert:
  "erase_positions (positions_insert p t) = positions_insert (erase_position p) (erase_positions t)"
  by (cases t) (auto simp: erase_positions_def positions_insert_def Let_def fun_eq_iff)

lemma erase_positions_update_cong:
  assumes t: "erase_positions t = erase_positions u"
    and fg: "\<And>p q. erase_position p = erase_position q \<Longrightarrow> erase_position (f p) = erase_position (g q)"
  shows "erase_positions (snd (positions_update k f t)) = erase_positions (snd (positions_update k g u))"
proof -
  have idx: "pt_by_user t = pt_by_user u" "pt_by_market t = pt_by_market u"
    using arg_cong [OF t, of pt_by_user] arg_cong [OF t, of pt_by_market] by (simp_all add: erase_positions_def)
  have at: "map_option erase_position (pt_positions t i) = map_option erase_position (pt_positions u i)" for i
    using arg_cong [OF t, of "\<lambda>x. pt_positions x i"] by (simp add: erase_positions_def)
  show ?thesis
  proof (cases "pt_positions t k")
    case None
    then have "pt_positions u k = None" using at [of k] by simp
    then show ?thesis using None t by (simp add: positions_update_def)
  next
    case (Some p)
    then obtain q where q: "pt_positions u k = Some q" "erase_position p = erase_position q"
      using at [of k] by (cases "pt_positions u k") auto
    have "(\<lambda>i. map_option erase_position (((pt_positions t)(k \<mapsto> f p)) i)) =
        (\<lambda>i. map_option erase_position (((pt_positions u)(k \<mapsto> g q)) i))"
      using at fg [OF q(2)] by auto
    then show ?thesis using Some q idx
      by (simp add: positions_update_def erase_positions_def)
  qed
qed

lemma erase_market_on_slot:
  assumes "erase_market t = erase_market u" "\<And>a b. erase_slot a = erase_slot b \<Longrightarrow> erase_slot (f a) = erase_slot (g b)"
  shows "erase_market (on_slot m f t) = erase_market (on_slot m g u)"
proof -
  have len: "length t = length u" using arg_cong [OF assms(1), of length] by (simp add: erase_market_def)
  have at: "erase_slot (t ! i) = erase_slot (u ! i)" if "i < length u" for i
    using arg_cong [OF assms(1), of "\<lambda>x. x ! i"] that len by (simp add: erase_market_def)
  show ?thesis
    using at assms(2) len
    by (intro nth_equalityI) (auto simp: erase_market_def on_slot_def nth_list_update)
qed

lemma erase_slot_eq_iff:
  "erase_slot a = erase_slot b \<longleftrightarrow>
     sl_latest_price_bits a = sl_latest_price_bits b \<and> sl_last_update_ns a = sl_last_update_ns b \<and>
     (sl_inner a)\<lparr>in_long_oi := 0, in_short_oi := 0\<rparr> = (sl_inner b)\<lparr>in_long_oi := 0, in_short_oi := 0\<rparr>"
  by (cases a; cases b) (simp add: erase_slot_def)

lemma erase_market_oi [simp]:
  "erase_market (add_long_oi m d t) = erase_market t"
  "erase_market (add_short_oi m d t) = erase_market t"
  by (auto simp: add_long_oi_def add_short_oi_def on_inner_def on_slot_def erase_market_def erase_slot_def
      map_update list_update_same_conv intro!: nth_equalityI simp: nth_list_update)

lemma inner_eq_iff:
  "(a :: market_inner)\<lparr>in_long_oi := 0, in_short_oi := 0\<rparr> = b\<lparr>in_long_oi := 0, in_short_oi := 0\<rparr> \<longleftrightarrow>
     in_mark_price a = in_mark_price b \<and> in_index_price a = in_index_price b \<and>
     in_funding_rate_per_second a = in_funding_rate_per_second b \<and> in_funding_rate_24h a = in_funding_rate_24h b \<and>
     in_enabled a = in_enabled b \<and> in_paused a = in_paused b \<and> in_max_leverage a = in_max_leverage b \<and>
     in_maintenance_margin_bps a = in_maintenance_margin_bps b \<and> in_volume_24h a = in_volume_24h b \<and>
     in_trades_24h a = in_trades_24h b \<and> in_price_change_24h a = in_price_change_24h b \<and>
     in_price_change_pct_24h a = in_price_change_pct_24h b"
  by (cases a; cases b) auto

lemma erase_market_writes:
  assumes "erase_market t = erase_market u"
  shows "erase_market (set_price m pr ts t) = erase_market (set_price m pr ts u)"
    and "erase_market (set_funding_rate m a b t) = erase_market (set_funding_rate m a b u)"
    and "erase_market (set_paused m q t) = erase_market (set_paused m q u)"
  using assms unfolding set_price_def set_funding_rate_def set_paused_def on_inner_def
  by (intro erase_market_on_slot; simp add: erase_slot_eq_iff inner_eq_iff)+

text \<open>Two states that agree up to \<open>erase\<close>.\<close>

definition same_erased :: "stores \<Rightarrow> stores \<Rightarrow> bool" where
  "same_erased s t \<longleftrightarrow>
     erase_market (st_market_state s) = erase_market (st_market_state t) \<and>
     erase_positions (st_positions s) = erase_positions (st_positions t) \<and>
     st_orders s = st_orders t \<and> st_balances s = st_balances t \<and> st_users s = st_users t \<and>
     st_checkpoint s = st_checkpoint t \<and> st_trader_stats s = st_trader_stats t \<and>
     st_daily_stats s = st_daily_stats t \<and> st_events s = st_events t"

lemma same_erased_iff: "erase s = erase t \<longleftrightarrow> same_erased s t"
  by (cases s; cases t) (simp add: erase_def same_erased_def; blast)

lemma same_erased_append: "same_erased s t \<Longrightarrow> same_erased (append_event ev s) (append_event ev t)"
  by (simp add: same_erased_def append_event_def split_beta Let_def)

lemma publish_fst [simp]: "fst (publish ch msg l) = fst l"
  by (simp add: publish_def split_beta)

lemma publish_balance_fst [simp]: "fst (publish_balance u tk l) = fst l"
  by (simp add: publish_balance_def split: option.splits)

definition replayed :: "event \<Rightarrow> bool" where
  "replayed e \<longleftrightarrow> (case e of PositionModified _ _ _ _ \<Rightarrow> False | _ \<Rightarrow> True)"

lemma erase_position_eq_iff:
  "erase_position p = erase_position q \<longleftrightarrow>
     pos_position_id p = pos_position_id q \<and> pos_user_address p = pos_user_address q \<and>
     pos_market_id p = pos_market_id q \<and> pos_is_long p = pos_is_long q \<and> pos_size_usd p = pos_size_usd q \<and>
     pos_collateral_usd p = pos_collateral_usd q \<and> pos_collateral_token p = pos_collateral_token q \<and>
     pos_collateral_amount p = pos_collateral_amount q \<and> pos_exit_price p = pos_exit_price q \<and>
     pos_realized_pnl p = pos_realized_pnl q \<and> pos_leverage p = pos_leverage q \<and> pos_status p = pos_status q \<and>
     pos_open_tx p = pos_open_tx q \<and> pos_open_block p = pos_open_block q \<and> pos_opened_at p = pos_opened_at q"
  by (cases p; cases q) (auto simp: erase_position_def)

section \<open>One event\<close>

lemma replay_opened:
  assumes "same_erased s t"
  shows "same_erased (fst (on_position_opened ev pid user mid lng sz lev price token amt (s, bus)))
    (replay_position_opened ev pid user mid lng sz lev token amt t)"
proof -
  have "erase_position (opened_position ev pid user mid lng sz lev price token amt) =
      erase_position (opened_position ev pid user mid lng sz lev 0 token amt)"
    by (simp add: erase_position_eq_iff opened_position_def)
  then show ?thesis
    using assms by (simp add: on_position_opened_def replay_position_opened_def same_erased_def Let_def
        erase_positions_insert)
qed

lemma replay_closed:
  assumes "same_erased s t"
  shows "same_erased (fst (on_position_closed ev pid user mid sz price pnl full (s, bus)))
    (replay_position_closed ev pid user sz price pnl full t)"
proof -
  have e: "erase_positions (st_positions s) = erase_positions (st_positions t)"
    using assms by (simp add: same_erased_def)
  have "erase_positions (snd (positions_update pid (close_position ev sz price pnl full) (st_positions s))) =
      erase_positions (snd (positions_update pid (replay_close_position sz price pnl full) (st_positions t)))"
    by (rule erase_positions_update_cong [OF e])
       (auto simp: erase_position_eq_iff close_position_def replay_close_position_def Let_def)
  then show ?thesis
    using assms
    by (cases full)
       (simp_all add: on_position_closed_def replay_position_closed_def same_erased_def Let_def split: option.splits)
qed

lemma replay_liquidated:
  assumes "same_erased s t"
  shows "same_erased (fst (on_liquidation ev pid user mid price pen (s, bus)))
    (replay_liquidation ev pid user price pen t)"
proof -
  have e: "erase_positions (st_positions s) = erase_positions (st_positions t)"
    using assms by (simp add: same_erased_def)
  have "erase_positions (snd (positions_update pid
      (\<lambda>p. p\<lparr>pos_status := PsLiquidated, pos_exit_price := Some price,
             pos_close_tx := Some (ie_tx_hash ev), pos_close_block := Some (ie_block_number ev),
             pos_closed_at := Some (ie_block_timestamp ev)\<rparr>) (st_positions s))) =
    erase_positions (snd (positions_update pid
      (\<lambda>p. p\<lparr>pos_status := PsLiquidated, pos_exit_price := Some price\<rparr>) (st_positions t)))"
    by (rule erase_positions_update_cong [OF e]) (auto simp: erase_position_eq_iff)
  then show ?thesis
    using assms by (simp add: on_liquidation_def replay_liquidation_def same_erased_def Let_def)
qed

lemma replay_order_ops:
  assumes "same_erased s t"
  shows "same_erased (fst (on_order_placed ev oid user mid ty lng price sz (s, bus)))
      (replay_order_placed ev oid user mid ty lng price sz t)"
    and "same_erased (fst (on_order_executed ev oid pid price (s, bus)))
      (t\<lparr>st_orders := snd (orders_execute oid price pid (ie_block_timestamp ev) (st_orders t))\<rparr>)"
    and "same_erased (fst (on_order_cancelled oid (s, bus))) (t\<lparr>st_orders := snd (orders_cancel oid (st_orders t))\<rparr>)"
  using assms
  by (auto simp: on_order_placed_def replay_order_placed_def on_order_executed_def on_order_cancelled_def
      same_erased_def Let_def split_beta split: option.splits)

lemma replay_collateral:
  assumes "same_erased s t"
  shows "same_erased (fst (on_collateral_deposited ev user token amt (s, bus)))
      (replay_collateral_deposited ev user token amt t)"
    and "same_erased (fst (on_collateral_withdrawn user token amt (s, bus)))
      (replay_collateral_withdrawn user token amt t)"
  using assms
  by (simp_all add: on_collateral_deposited_def replay_collateral_deposited_def on_collateral_withdrawn_def
      replay_collateral_withdrawn_def same_erased_def Let_def)

lemma replay_other:
  assumes "same_erased s t"
  shows "same_erased (fst (on_funding_rate_updated mid rate rate24 (s, bus)))
      (t\<lparr>st_market_state := set_funding_rate mid rate rate24 (st_market_state t)\<rparr>)"
    and "same_erased (fst (on_market_paused mid (s, bus)))
      (t\<lparr>st_market_state := set_paused mid True (st_market_state t)\<rparr>)"
    and "same_erased (fst (on_vault_created ev user vault (s, bus)))
      (t\<lparr>st_users := users_set_vault user vault (users_ensure user (ie_block_timestamp ev) (st_users t))\<rparr>)"
proof -
  have "erase_market (st_market_state s) = erase_market (st_market_state t)"
    using assms by (simp add: same_erased_def)
  note w = erase_market_writes [OF this]
  show "same_erased (fst (on_funding_rate_updated mid rate rate24 (s, bus)))
      (t\<lparr>st_market_state := set_funding_rate mid rate rate24 (st_market_state t)\<rparr>)"
    and "same_erased (fst (on_market_paused mid (s, bus)))
      (t\<lparr>st_market_state := set_paused mid True (st_market_state t)\<rparr>)"
    and "same_erased (fst (on_vault_created ev user vault (s, bus)))
      (t\<lparr>st_users := users_set_vault user vault (users_ensure user (ie_block_timestamp ev) (st_users t))\<rparr>)"
    using assms w
    by (simp_all add: on_vault_created_def on_market_paused_def on_funding_rate_updated_def same_erased_def Let_def)
qed

lemmas replay_handlers = replay_opened replay_closed replay_liquidated replay_order_ops replay_collateral replay_other

lemma replay_handled:
  assumes "replayed e" "same_erased s t"
  shows "same_erased (fst (handle_event ev e (s, bus))) (replay_event ev e t)"
proof (cases e)
  case (PositionModified pid sz col amt)
  then show ?thesis using assms(1) by (simp add: replayed_def)
qed (simp_all add: replay_event_def replay_handlers assms(2))

lemma replay_applied:
  assumes "replayed (ie_event ev)" "snap_block < ie_block_number ev" "same_erased s t"
  shows "same_erased (fst (apply_event ev (s, bus))) (replay_wal_entry snap_block (WalIndexedEvent ev) t)"
proof -
  have "same_erased (fst (handle_event ev (ie_event ev) (append_event ev s, bus)))
      (replay_event ev (ie_event ev) (append_event ev t))"
    by (rule replay_handled [OF assms(1) same_erased_append [OF assms(3)]])
  then show ?thesis
    using assms(2) by (auto simp: apply_event_def replay_wal_entry_def same_erased_def Let_def split_beta)
qed

end
