(* ===== verification/Wal_Log.thy ===== *)
theory Wal_Log
  imports Wal
begin

text \<open>
  What a WAL directory and its writer stand for: a sequence of entries. The closed segments
  hold whole frames, and the current segment's file followed by the buffered bytes holds
  whole frames. Every writer operation is shown to act on that sequence, and replay to
  read it back.
\<close>

section \<open>Bytes of the segments\<close>

text \<open>\<open>closed\<close>: contents of the closed segments; \<open>cur\<close>: the current one, buffered bytes included.\<close>

definition wal_repr :: "u8 list list \<Rightarrow> u8 list \<Rightarrow> wal_state \<Rightarrow> bool" where
  "wal_repr closed cur st \<longleftrightarrow>
     (case st of (w, d) \<Rightarrow>
        unat (ww_current_segment w) = length closed \<and>
        dom d = segment_path ` {i. unat i \<le> length closed} \<and>
        (\<forall>i. unat i < length closed \<longrightarrow> d (segment_path i) = Some (closed ! unat i)) \<and>
        (\<exists>c. d (segment_path (ww_current_segment w)) = Some c \<and> c @ ww_buf w = cur))"

lemma disk_append_some: "d p = Some c \<Longrightarrow> disk_append p bs d = d(p \<mapsto> c @ bs)"
  by (simp add: disk_append_def)

lemma wal_reprE:
  assumes "wal_repr closed cur (w, d)"
  obtains c where "unat (ww_current_segment w) = length closed"
    and "dom d = segment_path ` {i. unat i \<le> length closed}"
    and "\<And>i. unat i < length closed \<Longrightarrow> d (segment_path i) = Some (closed ! unat i)"
    and "d (segment_path (ww_current_segment w)) = Some c" and "c @ ww_buf w = cur"
  using assms unfolding wal_repr_def by auto

lemma wal_repr_files:
  assumes "wal_repr closed cur (w, d)" "ww_buf w = []"
  shows "dom d = segment_path ` {i. unat i < length (closed @ [cur])}"
    and "unat i < length (closed @ [cur]) \<Longrightarrow> d (segment_path i) = Some ((closed @ [cur]) ! unat i)"
    and "length (closed @ [cur]) \<le> 2 ^ 64" and "unat (ww_current_segment w) = length closed"
proof -
  have seg: "unat (ww_current_segment w) = length closed"
    and old: "\<And>i. unat i < length closed \<Longrightarrow> d (segment_path i) = Some (closed ! unat i)"
    and cur: "d (segment_path (ww_current_segment w)) = Some cur"
    and dm: "dom d = segment_path ` {i. unat i \<le> length closed}"
    using assms by (auto elim!: wal_reprE)
  show "unat (ww_current_segment w) = length closed" by (rule seg)
  show "dom d = segment_path ` {i. unat i < length (closed @ [cur])}" using dm by (simp add: less_Suc_eq_le)
  show "length (closed @ [cur]) \<le> 2 ^ 64" using seg unsigned_less [of "ww_current_segment w", where 'a = nat] by simp
  show "d (segment_path i) = Some ((closed @ [cur]) ! unat i)" if i: "unat i < length (closed @ [cur])"
  proof (cases "unat i < length closed")
    case False
    then have "unat i = unat (ww_current_segment w)" using i seg by simp
    then have "i = ww_current_segment w" by (rule word_unat_eq_iff [THEN iffD2])
    then show ?thesis using cur seg by (simp add: nth_append)
  qed (simp add: old nth_append)
qed

text \<open>Moving bytes between the buffer and the file, or adding bytes at either, keeps the shape.\<close>

lemma wal_repr_extend:
  assumes "wal_repr closed cur (w, d)" and "d (segment_path (ww_current_segment w)) = Some c"
    and "ww_current_segment w' = ww_current_segment w" and "(c @ x) @ ww_buf w' = cur'"
  shows "wal_repr closed cur' (w', disk_append (segment_path (ww_current_segment w)) x d)"
proof -
  let ?p = "segment_path (ww_current_segment w)"
  have "disk_append ?p x d = d(?p \<mapsto> c @ x)" using assms(2) by (rule disk_append_some)
  moreover have "?p \<in> dom d" using assms(2) by blast
  moreover have "insert ?p (dom d) = dom d" using calculation(2) by blast
  ultimately show ?thesis using assms unfolding wal_repr_def by auto
qed

lemma wal_repr_buffer:
  assumes "wal_repr closed cur (w, d)" and "ww_current_segment w' = ww_current_segment w"
    and "ww_buf w' = ww_buf w @ x"
  shows "wal_repr closed (cur @ x) (w', d)"
  using assms unfolding wal_repr_def by auto

lemma wal_repr_flush:
  assumes "wal_repr closed cur st"
  shows "wal_repr closed cur (flush_buf st)"
proof -
  obtain w d where st: "st = (w, d)" by (cases st)
  from assms st obtain c where c: "d (segment_path (ww_current_segment w)) = Some c" "c @ ww_buf w = cur"
    by (auto elim: wal_reprE)
  have "wal_repr closed cur (w\<lparr>ww_buf := []\<rparr>, disk_append (segment_path (ww_current_segment w)) (ww_buf w) d)"
    using assms st c by (intro wal_repr_extend [where c = c and cur = cur]) auto
  with st show ?thesis by (simp add: flush_buf_def)
qed

lemma flush_buf_fst [simp]: "fst (flush_buf st) = (fst st)\<lparr>ww_buf := []\<rparr>"
  by (cases st) (simp add: flush_buf_def)

lemma wal_repr_write_all:
  assumes "wal_repr closed cur st"
  shows "wal_repr closed (cur @ x) (write_all x st)"
proof -
  have buf: "wal_repr closed (cur @ x) ((fst s)\<lparr>ww_buf := ww_buf (fst s) @ x\<rparr>, snd s)"
    if "wal_repr closed cur s" for s
    using that by (cases s) (auto intro: wal_repr_buffer)
  have direct: "wal_repr closed (cur @ x)
      (fst s, disk_append (segment_path (ww_current_segment (fst s))) x (snd s))"
    if r: "wal_repr closed cur s" and e: "ww_buf (fst s) = []" for s
  proof -
    obtain w d where s: "s = (w, d)" by (cases s)
    from r s obtain c where "d (segment_path (ww_current_segment w)) = Some c" "c @ ww_buf w = cur"
      by (auto elim: wal_reprE)
    with r e s show ?thesis by (auto intro!: wal_repr_extend [where c = c])
  qed
  let ?spare = "BUF_CAPACITY - length (ww_buf (fst st))"
  let ?st1 = "if ?spare < length x then flush_buf st else st"
  have r1: "wal_repr closed cur ?st1" using assms by (simp add: wal_repr_flush)
  have e1: "ww_buf (fst ?st1) = []" if "\<not> length x < ?spare" "BUF_CAPACITY \<le> length x"
  proof (cases "?spare < length x")
    case False
    with that have "BUF_CAPACITY \<le> BUF_CAPACITY - length (ww_buf (fst st))" by linarith
    moreover have "0 < BUF_CAPACITY" by (simp add: BUF_CAPACITY_def)
    ultimately have "length (ww_buf (fst st)) = 0" by linarith
    with False show ?thesis by simp
  qed simp
  show ?thesis
    using buf [OF assms] buf [OF r1] direct [OF r1] e1
    by (simp add: write_all_def Let_def del: flush_buf_fst split del: if_split split: if_split_asm)
      (auto split: if_splits)
qed

lemma write_all_fst [simp]:
  "ww_config (fst (write_all x st)) = ww_config (fst st)"
  "ww_segment_bytes (fst (write_all x st)) = ww_segment_bytes (fst st)"
  by (simp_all add: write_all_def Let_def)

lemma wal_repr_sync: "wal_repr closed cur st \<Longrightarrow> wal_repr closed cur (wal_sync st)"
  by (simp add: wal_sync_def wal_repr_flush)

lemma wal_sync_fst [simp]: "fst (wal_sync st) = (fst st)\<lparr>ww_buf := []\<rparr>"
  by (simp add: wal_sync_def)

lemma wal_repr_bytes: "wal_repr closed cur (w, d) \<Longrightarrow> wal_repr closed cur (w\<lparr>ww_segment_bytes := b\<rparr>, d)"
  by (simp add: wal_repr_def)

lemma Suc_segment:
  assumes "unat (i :: u64) = n" "Suc n < 2 ^ 64"
  shows "unat (i + 1) = Suc n"
  using assms by (simp add: unat_word_ariths)

lemma wal_repr_rotate:
  assumes "wal_repr closed cur st" "Suc (length closed) < 2 ^ 64"
  shows "wal_repr (closed @ [cur]) [] (wal_rotate st)"
proof -
  obtain w d where st: "wal_sync st = (w, d)" by (cases "wal_sync st")
  have buf: "ww_buf w = []" using st wal_sync_fst [of st] by simp
  from wal_repr_sync [OF assms(1)] st obtain c where
      seg: "unat (ww_current_segment w) = length closed"
    and dm: "dom d = segment_path ` {i. unat i \<le> length closed}"
    and old: "\<And>i. unat i < length closed \<Longrightarrow> d (segment_path i) = Some (closed ! unat i)"
    and cur: "d (segment_path (ww_current_segment w)) = Some cur"
    using buf by (auto elim!: wal_reprE)
  let ?i = "ww_current_segment w + 1"
  have i: "unat ?i = Suc (length closed)" using Suc_segment seg assms(2) by blast
  have fresh: "d (segment_path ?i) = None"
  proof -
    have "segment_path ?i \<notin> dom d" unfolding dm using i by auto
    then show ?thesis by (simp add: domIff)
  qed
  have range: "{j :: u64. unat j \<le> Suc (length closed)} = insert ?i {j. unat j \<le> length closed}"
    using i by (auto simp: le_Suc_eq) (metis i word_unat_eq_iff)+
  have same: "j = ww_current_segment w" if "unat j = length closed" for j
    using that seg by (simp add: word_unat_eq_iff)
  have "d (segment_path j) = Some ((closed @ [cur]) ! unat j)" if "unat j < Suc (length closed)" for j
    using that old [of j] cur same [of j] by (cases "unat j = length closed") (auto simp: nth_append)
  moreover have "j \<noteq> ?i" if "unat j < Suc (length closed)" for j
    using that i by auto
  ultimately show ?thesis
    using st i fresh dm range
    by (auto simp: wal_rotate_def wal_repr_def open_append_def Let_def)
qed

section \<open>Entries\<close>

text \<open>
  \<open>wal_holds ser crc es st\<close>: the log is \<open>es\<close>, cut into segments at some points. The number of
  closed segments is bounded by the number of entries, since every rotation follows an
  append.
\<close>

definition wal_holds ::
  "(wal_entry \<Rightarrow> u8 list option) \<Rightarrow> (u8 list \<Rightarrow> u32) \<Rightarrow> wal_entry list \<Rightarrow> wal_state \<Rightarrow> bool" where
  "wal_holds ser crc es st \<longleftrightarrow>
     (\<exists>ess last_es. concat ess @ last_es = es \<and> length ess \<le> length es \<and>
        wal_repr (map (frames ser crc) ess) (frames ser crc last_es) st)"

lemma wal_holds_open: "wal_holds ser crc [] (wal_open config [] Map.empty)"
proof -
  have "{i :: u64. unat i = 0} = {0}" by (auto simp: unat_eq_0)
  then show ?thesis
    unfolding wal_holds_def
    by (intro exI [of _ "[]"])
      (simp add: wal_open_def find_latest_segment_def list_segments_def map_filter_simps wal_repr_def
        open_append_def Let_def)
qed

lemma wal_holds_sync: "wal_holds ser crc es st \<Longrightarrow> wal_holds ser crc es (wal_sync st)"
  unfolding wal_holds_def using wal_repr_sync by blast

text \<open>The number of closed segments is fixed by the writer's segment number.\<close>

lemma wal_repr_length: "wal_repr closed cur st \<Longrightarrow> length closed = unat (ww_current_segment (fst st))"
  by (cases st) (simp add: wal_repr_def)

lemma write_all_segment [simp]: "ww_current_segment (fst (write_all x st)) = ww_current_segment (fst st)"
  by (simp add: write_all_def Let_def)

definition sync_step :: "bool \<Rightarrow> wal_state \<Rightarrow> wal_state" where
  "sync_step due st =
     (case wc_sync_policy (ww_config (fst st)) of
        EveryWrite \<Rightarrow> wal_sync st
      | Interval _ \<Rightarrow> if due then wal_sync st else st
      | NoSync \<Rightarrow> st)"

lemma wal_repr_sync_step: "wal_repr closed cur st \<Longrightarrow> wal_repr closed cur (sync_step due st)"
  by (simp add: sync_step_def wal_repr_sync split: sync_policy.splits)

lemma sync_step_segment [simp]: "ww_current_segment (fst (sync_step due st)) = ww_current_segment (fst st)"
  by (simp add: sync_step_def split: sync_policy.splits)

text \<open>
  One append to a log whose current segment holds any bytes: the entry's frame follows them, and the segment may be closed
  then; the closed segments stay.
\<close>

lemma wal_repr_append:
  assumes r: "wal_repr closed cur st" and e: "ser e = Some p" and n: "Suc (length closed) < 2 ^ 64"
  shows "wal_repr closed (cur @ frame crc p) (snd (wal_append ser crc due e st)) \<or>
    wal_repr (closed @ [cur @ frame crc p]) [] (snd (wal_append ser crc due e st))"
proof -
  let ?w = "write_all p (write_all (u32_to_le (crc p)) (write_all (u32_to_le (word_of_nat (length p))) st))"
  let ?b = "((fst ?w)\<lparr>ww_segment_bytes := ww_segment_bytes (fst ?w) +
      word_of_nat ENTRY_HEADER_SIZE + word_of_nat (length p)\<rparr>, snd ?w)"
  have "wal_repr closed (cur @ frame crc p) ?w"
    using wal_repr_write_all [OF wal_repr_write_all [OF wal_repr_write_all [OF r]]] by (simp add: frame_def)
  then have "wal_repr closed (cur @ frame crc p) ?b" by (intro wal_repr_bytes) simp
  then have s: "wal_repr closed (cur @ frame crc p) (sync_step due ?b)"
    by (rule wal_repr_sync_step)
  then have "wal_repr (closed @ [cur @ frame crc p]) [] (wal_rotate (sync_step due ?b))"
    using n by (rule wal_repr_rotate)
  with s show ?thesis using e unfolding sync_step_def by (simp add: wal_append_def Let_def)
qed

lemma wal_holds_append:
  assumes h: "wal_holds ser crc es st" and e: "ser e = Some p" and n: "Suc (length es) < 2 ^ 64"
  shows "fst (wal_append ser crc due e st) = Inr ()"
    and "wal_holds ser crc (es @ [e]) (snd (wal_append ser crc due e st))"
proof -
  from h obtain ess l where l: "concat ess @ l = es" "length ess \<le> length es"
    and r: "wal_repr (map (frames ser crc) ess) (frames ser crc l) st"
    by (auto simp: wal_holds_def)
  have "Suc (length (map (frames ser crc) ess)) < 2 ^ 64" using l(2) n by simp
  note app = wal_repr_append [where due = due and crc = crc and ser = ser, OF r e this]
  have fr: "frames ser crc l @ frame crc p = frames ser crc (l @ [e])" using e by simp
  show "fst (wal_append ser crc due e st) = Inr ()" using e by (simp add: wal_append_def Let_def)
  from app [unfolded fr] show "wal_holds ser crc (es @ [e]) (snd (wal_append ser crc due e st))"
  proof
    assume "wal_repr (map (frames ser crc) ess) (frames ser crc (l @ [e])) (snd (wal_append ser crc due e st))"
    then show ?thesis unfolding wal_holds_def using l by (intro exI [of _ ess] exI [of _ "l @ [e]"]) auto
  next
    assume "wal_repr (map (frames ser crc) ess @ [frames ser crc (l @ [e])]) [] (snd (wal_append ser crc due e st))"
    then show ?thesis unfolding wal_holds_def using l by (intro exI [of _ "ess @ [l @ [e]]"] exI [of _ "[]"]) auto
  qed
qed

text \<open>A run of appends; each comes with the outcome of its interval test.\<close>

fun append_run ::
  "(wal_entry \<Rightarrow> u8 list option) \<Rightarrow> (u8 list \<Rightarrow> u32) \<Rightarrow> (bool \<times> wal_entry) list \<Rightarrow> wal_state \<Rightarrow> wal_state" where
  "append_run ser crc [] st = st"
| "append_run ser crc ((due, e) # xs) st = append_run ser crc xs (snd (wal_append ser crc due e st))"

lemma wal_holds_append_run:
  assumes "wal_holds ser crc es st" "\<forall>(due, e) \<in> set xs. ser e \<noteq> None" "length es + length xs < 2 ^ 64"
  shows "wal_holds ser crc (es @ map snd xs) (append_run ser crc xs st)"
  using assms
proof (induction xs arbitrary: es st)
  case (Cons x xs)
  obtain due e where x: "x = (due, e)" by (cases x)
  with Cons.prems obtain p where p: "ser e = Some p" by auto
  from Cons.prems x p have "wal_holds ser crc (es @ [e]) (snd (wal_append ser crc due e st))"
    by (intro wal_holds_append(2)) auto
  with Cons.prems x have "wal_holds ser crc ((es @ [e]) @ map snd xs)
      (append_run ser crc xs (snd (wal_append ser crc due e st)))"
    by (intro Cons.IH) auto
  with x show ?case by simp
qed simp

section \<open>Replay reads the log\<close>

text \<open>A callback that never fails is a fold over the entries; the count is their number.\<close>

lemma run_callback_ok:
  "run_callback (\<lambda>e s. Inr (f e s)) es (n, s) = Inr (n + word_of_nat (length es), fold f es s)"
  by (induction es arbitrary: n s) (simp_all add: algebra_simps)

lemma replay_segments_ok:
  assumes "\<And>i. i \<in> set ids \<Longrightarrow> d (segment_path i) = Some (bytes i)"
  shows "replay_segments de crc (\<lambda>e s. Inr (f e s)) d ids (n, s) =
    (let es = concat (map (\<lambda>i. replay_bytes de crc (bytes i)) ids)
     in Inr (n + word_of_nat (length es), fold f es s))"
  using assms
  by (induction ids arbitrary: n s) (simp_all add: run_callback_ok Let_def algebra_simps)

lemma sort_segments:
  assumes "enumerates ids {i :: u64. k \<le> unat i \<and> unat i \<le> n}" "n < 2 ^ 64"
  shows "sort ids = map word_of_nat [k..<Suc n]"
proof (rule sorted_distinct_set_unique)
  have un: "unat (word_of_nat j :: u64) = j" if "j < Suc n" for j
    using that assms(2) by (simp add: unat_of_nat)
  show "sorted (sort ids)" "distinct (sort ids)" using assms(1) by (simp_all add: enumerates_def)
  show "sorted (map (word_of_nat :: nat \<Rightarrow> u64) [k..<Suc n])"
    unfolding sorted_map
    by (rule sorted_wrt_mono_rel [OF _ sorted_wrt_upt]) (use un in \<open>auto simp: word_le_nat_alt\<close>)
  have "inj_on (word_of_nat :: nat \<Rightarrow> u64) {k..<Suc n}"
    by (rule inj_onI) (metis un atLeastLessThan_iff)
  then show "distinct (map (word_of_nat :: nat \<Rightarrow> u64) [k..<Suc n])"
    by (simp add: distinct_map del: upt_Suc)
  show "set (sort ids) = set (map word_of_nat [k..<Suc n])"
  proof (intro set_eqI iffI)
    fix i :: u64 assume "i \<in> set (sort ids)"
    then have "unat i \<in> {k..<Suc n}" using assms(1) by (simp add: enumerates_def less_Suc_eq_le)
    moreover have "i = word_of_nat (unat i)" by simp
    ultimately show "i \<in> set (map word_of_nat [k..<Suc n])" by (metis image_eqI image_set set_upt)
  next
    fix i :: u64 assume "i \<in> set (map word_of_nat [k..<Suc n])"
    then obtain j where "j < Suc n" "k \<le> j" "i = word_of_nat j" by (auto simp del: upt_Suc)
    then show "i \<in> set (sort ids)" using assms(1) un by (simp add: enumerates_def less_Suc_eq_le)
  qed
qed

text \<open>A directory of which the segments from \<open>k\<close> on are left.\<close>

lemma replay_from:
  assumes dm: "dom d = segment_path ` {i :: u64. k \<le> unat i \<and> unat i < length segs}"
    and at: "\<And>i. k \<le> unat i \<Longrightarrow> unat i < length segs \<Longrightarrow> d (segment_path i) = Some (segs ! unat i)"
    and n: "segs \<noteq> []" "length segs \<le> 2 ^ 64" and it: "enumerates names (dom d)"
  shows "wal_replay de crc (\<lambda>e s. Inr (f e s)) names d s =
    (let es = concat (map (replay_bytes de crc) (drop k segs)) in Inr (word_of_nat (length es), fold f es s))"
proof -
  have un: "unat (word_of_nat j :: u64) = j" if "j < length segs" for j
    using that n by (simp add: unat_of_nat)
  let ?is = "map word_of_nat [k..<length segs] :: u64 list"
  obtain m where m: "length segs = Suc m" using n(1) by (cases segs) auto
  have ids: "sort (list_segments names) = ?is"
    using list_segments_enumerates [of names] it dm n(2) sort_segments [of "list_segments names" k m]
    by (simp add: m less_Suc_eq_le del: upt_Suc)
  have "map (\<lambda>i. replay_bytes de crc (segs ! unat i)) ?is = map (replay_bytes de crc) (map ((!) segs) [k..<length segs])"
    using un by simp
  also have "map ((!) segs) [k..<length segs] = drop k segs" by (rule nth_equalityI) simp_all
  finally show ?thesis
    unfolding wal_replay_def ids
    by (subst replay_segments_ok [where bytes = "\<lambda>i. segs ! unat i" and ids = ?is])
      (use at un in \<open>auto simp del: map_map\<close>)
qed

lemma wal_repr_replay:
  assumes r: "wal_repr closed cur (w, d)" and buf: "ww_buf w = []" and it: "enumerates names (dom d)"
  shows "wal_replay de crc (\<lambda>e s. Inr (f e s)) names d s =
    (let es = concat (map (replay_bytes de crc) (closed @ [cur]))
     in Inr (word_of_nat (length es), fold f es s))"
proof -
  note files = wal_repr_files [OF r buf]
  have "wal_replay de crc (\<lambda>e s. Inr (f e s)) names d s =
    (let es = concat (map (replay_bytes de crc) (drop 0 (closed @ [cur]))) in Inr (word_of_nat (length es), fold f es s))"
    by (rule replay_from [OF _ _ _ files(3) it]) (use files(1,2) in simp_all)
  then show ?thesis by simp
qed

lemma wal_holds_replay:
  assumes h: "wal_holds ser crc es (w, d)" and buf: "ww_buf w = []" and it: "enumerates names (dom d)"
    and ok: "\<forall>e \<in> set es. entry_codec_ok ser de e"
  shows "wal_replay de crc (\<lambda>e s. Inr (f e s)) names d s = Inr (word_of_nat (length es), fold f es s)"
proof -
  from h obtain ess l where l: "concat ess @ l = es"
    and r: "wal_repr (map (frames ser crc) ess) (frames ser crc l) (w, d)"
    by (auto simp: wal_holds_def)
  have seg: "replay_bytes de crc (frames ser crc xs) = xs" if "xs \<in> set ess \<or> xs = l" for xs
  proof -
    have "set xs \<subseteq> set es" using that l by auto
    then have "\<forall>e \<in> set xs. entry_codec_ok ser de e" using ok by blast
    from replay_frames [OF this, of crc "[]"] show ?thesis by simp
  qed
  have "map (replay_bytes de crc) (map (frames ser crc) ess @ [frames ser crc l]) = ess @ [l]"
    using seg by (auto intro: map_idI)
  then show ?thesis using wal_repr_replay [OF r buf it, of de crc f s] l by (simp add: Let_def)
qed

text \<open>A log cut at any byte of its current segment replays to a prefix of what was written.\<close>

lemma wal_holds_replay_cut:
  assumes r: "wal_repr (map (frames ser crc) ess) (frames ser crc l) (w, d)" and buf: "ww_buf w = []"
    and it: "enumerates names (dom d)"
    and ok: "\<forall>e \<in> set (concat ess @ l). entry_codec_ok ser de e"
  shows "wal_replay de crc (\<lambda>e s. Inr (f e s)) names
      (d(segment_path (ww_current_segment w) \<mapsto> take n (frames ser crc l))) s =
    (let es = concat ess @ complete_entries ser crc n l
     in Inr (word_of_nat (length es), fold f es s))"
proof -
  let ?p = "segment_path (ww_current_segment w)"
  let ?d = "d(?p \<mapsto> take n (frames ser crc l))"
  from r have "?p \<in> dom d" by (auto elim!: wal_reprE)
  then have dm: "dom ?d = dom d" by auto
  have seg: "unat (ww_current_segment w) = length ess" using wal_repr_length [OF r] by simp
  have "wal_repr (map (frames ser crc) ess) (take n (frames ser crc l)) (w, ?d)"
    using r buf dm seg unfolding wal_repr_def by auto
  from wal_repr_replay [OF this buf, of names de crc f s] it dm
  have rep: "wal_replay de crc (\<lambda>e s. Inr (f e s)) names ?d s =
    (let es = concat (map (replay_bytes de crc) (map (frames ser crc) ess @ [take n (frames ser crc l)]))
     in Inr (word_of_nat (length es), fold f es s))" by simp
  have "replay_bytes de crc (frames ser crc xs) = xs" if "xs \<in> set ess" for xs
  proof -
    have "\<forall>e \<in> set xs. entry_codec_ok ser de e" using ok that by auto
    from replay_frames [OF this, of crc "[]"] show ?thesis by simp
  qed
  then have "map (replay_bytes de crc) (map (frames ser crc) ess) = ess"
    by (auto intro: map_idI)
  moreover have "replay_bytes de crc (take n (frames ser crc l)) = complete_entries ser crc n l"
    using ok by (intro replay_truncated) auto
  ultimately show ?thesis unfolding rep by (simp add: Let_def)
qed

end
