(* ===== verification/Engine_Recovery.thy ===== *)
theory Engine_Recovery
  imports Engine_Ingest Engine_Replay Wal_Log
begin

text \<open>
  Crash recovery of the whole engine: a database that has processed events and ticks, whose
  log has been synced, is opened again from its files.
\<close>

section \<open>Reopening the log\<close>

lemma fold_max_ge: "x \<in> set xs \<Longrightarrow> x \<le> fold max xs (a :: 'a :: linorder)" and fold_max_init: "a \<le> fold max xs a"
proof (induction xs arbitrary: a)
  case (Cons y ys)
  case 1
  have "max y a \<le> fold max ys (max y a)" by (rule Cons(2))
  then show ?case using 1 Cons(1) by auto
next
  case (Cons y ys)
  case 2
  have "max y a \<le> fold max ys (max y a)" by (rule Cons(2))
  then show ?case by auto
qed simp_all

lemma fold_max_in: "fold max xs (a :: 'a :: linorder) \<in> insert a (set xs)"
  by (induction xs arbitrary: a) (fastforce simp: max_def)+

lemma find_latest_enumerates:
  assumes "enumerates names (segment_path ` {i. unat i \<le> unat k})"
  shows "find_latest_segment names = k"
proof -
  have ids: "set (list_segments names) = {i. unat i \<le> unat k}"
    using list_segments_enumerates [OF assms] by (simp add: enumerates_def)
  have "k \<le> find_latest_segment names"
    using fold_max_ge [of k "list_segments names" 0] ids by (simp add: find_latest_segment_def)
  moreover have "find_latest_segment names \<le> k"
    using fold_max_in [of "list_segments names" 0] ids by (auto simp: find_latest_segment_def word_le_nat_alt)
  ultimately show ?thesis by simp
qed

lemma wal_reopen:
  assumes h: "wal_holds ser crc es (w, d)" and buf: "ww_buf w = []" and names: "enumerates names (dom d)"
  shows "snd (wal_open config names d) = d" and "wal_holds ser crc es (wal_open config names d)"
    and "ww_buf (fst (wal_open config names d)) = []"
proof -
  obtain ess l where es: "concat ess @ l = es" "length ess \<le> length es"
    and r: "wal_repr (map (frames ser crc) ess) (frames ser crc l) (w, d)"
    using h by (auto simp: wal_holds_def)
  obtain c where seg: "unat (ww_current_segment w) = length ess"
    and dm: "dom d = segment_path ` {i. unat i \<le> length ess}"
    and c: "d (segment_path (ww_current_segment w)) = Some c" "c @ ww_buf w = frames ser crc l"
    using r by (auto elim!: wal_reprE)
  have lat: "find_latest_segment names = ww_current_segment w"
    using find_latest_enumerates [of names "ww_current_segment w"] names by (simp add: dm seg)
  have opn: "wal_open config names d =
      (\<lparr>ww_config = config, ww_current_segment = ww_current_segment w, ww_buf = [],
        ww_segment_bytes = word_of_nat (length c)\<rparr>, d)"
    using c by (simp add: wal_open_def lat Let_def open_append_def)
  show "snd (wal_open config names d) = d" "ww_buf (fst (wal_open config names d)) = []" by (simp_all add: opn)
  have "wal_repr (map (frames ser crc) ess) (frames ser crc l) (wal_open config names d)"
    using r buf by (auto simp: opn wal_repr_def)
  then show "wal_holds ser crc es (wal_open config names d)"
    using es by (auto simp: wal_holds_def)
qed

section \<open>Runs of the engine\<close>

datatype engine_input = EventIn indexed_event | TickIn price_tick

text \<open>A client that feeds events and ticks and goes on after an error.\<close>

fun db_run ::
  "(wal_entry \<Rightarrow> u8 list option) \<Rightarrow> (u8 list \<Rightarrow> u32) \<Rightarrow> (bool \<times> engine_input) list \<Rightarrow> perf_db \<Rightarrow> perf_db panicking" where
  "db_run ser crc [] db = Some db"
| "db_run ser crc ((due, EventIn ev) # xs) db = db_run ser crc xs (snd (process_event ser crc due ev db))"
| "db_run ser crc ((due, TickIn t) # xs) db =
     (case ingest_tick ser crc due t db of None \<Rightarrow> None | Some (_, db') \<Rightarrow> db_run ser crc xs db')"

fun input_entry :: "engine_input \<Rightarrow> wal_entry" where
  "input_entry (EventIn ev) = WalIndexedEvent ev"
| "input_entry (TickIn t) = tick_entry t"

text \<open>Inputs the log can rebuild: ticks with their padding, events that replay handles.\<close>

fun recoverable :: "engine_input \<Rightarrow> bool" where
  "recoverable (EventIn ev) \<longleftrightarrow> replayed (ie_event ev) \<and> 0 < ie_block_number ev"
| "recoverable (TickIn t) \<longleftrightarrow> price_tick_valid t"

text \<open>The effect of a tick on the stores; the write to the slot of an unknown market has none.\<close>

definition priced :: "price_tick \<Rightarrow> stores \<Rightarrow> stores" where
  "priced t s = s\<lparr>st_market_state := set_price (tick_market_id t) (tick_price t) (tick_timestamp_ns t) (st_market_state s)\<rparr>"

lemma length_market_handle:
  "length (st_market_state (fst (handle_event ev e l))) = length (st_market_state (fst l))"
  by (cases l; cases e)
     (auto simp: on_position_opened_def on_position_closed_def on_position_modified_def on_order_placed_def
      on_order_executed_def on_order_cancelled_def on_liquidation_def on_funding_rate_updated_def
      on_collateral_deposited_def on_collateral_withdrawn_def on_vault_created_def on_market_paused_def
      Let_def split_beta split: option.splits)

lemma length_market_apply: "length (st_market_state (fst (apply_event ev l))) = length (st_market_state (fst l))"
proof -
  have "st_market_state (append_event ev s) = st_market_state s" for s
    by (simp add: append_event_def split_beta Let_def)
  then show ?thesis
    using length_market_handle [of ev "ie_event ev" "(append_event ev (fst l), snd l)"]
    by (simp add: apply_event_def split_beta Let_def)
qed

lemma process_event_ok:
  assumes "wal_append ser crc due (WalIndexedEvent ev) (db_wal db) = (Inr (), w)"
  shows "process_event ser crc due ev db =
    (Inr (), db\<lparr>db_wal := w, db_stores := fst (apply_event ev (db_stores db, db_pubsub db)),
                db_pubsub := snd (apply_event ev (db_stores db, db_pubsub db))\<rparr>)"
  using assms by (simp add: process_event_def Let_def split_beta)

lemma series_ok_mono: "series_ok n db tks cl \<Longrightarrow> n \<le> m \<Longrightarrow> series_ok m db tks cl"
  unfolding series_ok_def by (meson order_trans mult_le_mono2)

lemma same_erased_set_price:
  assumes "same_erased s t"
  shows "same_erased (s\<lparr>st_market_state := set_price m p ts (st_market_state s)\<rparr>)
    (t\<lparr>st_market_state := set_price m p ts (st_market_state t)\<rparr>)"
  using assms erase_market_writes(1) [of "st_market_state s" "st_market_state t" m p ts]
  by (simp add: same_erased_def)

lemma set_price_out_of_range: "length t = MARKET_COUNT \<Longrightarrow> MARKET_COUNT \<le> unat m \<Longrightarrow> set_price m p ts t = t"
  by (simp add: set_price_def on_slot_def)

lemma length_market_erased: "same_erased s t \<Longrightarrow> length (st_market_state t) = length (st_market_state s)"
  unfolding same_erased_def by (metis erase_market_def length_map)

section \<open>Following a run\<close>

text \<open>
  A relation between the log and the stores that every accepted input maintains: \<open>tracks es s\<close> for the
  entries \<open>es\<close> logged so far. \<open>run_inv\<close> adds what the files need.
\<close>

definition run_inv ::
  "(wal_entry list \<Rightarrow> stores \<Rightarrow> bool) \<Rightarrow> (wal_entry \<Rightarrow> u8 list option) \<Rightarrow> (u8 list \<Rightarrow> u32) \<Rightarrow> nat \<Rightarrow> wal_entry list \<Rightarrow> perf_db \<Rightarrow> bool" where
  "run_inv tracks ser crc n es db \<longleftrightarrow>
     (\<exists>tks cl. series_ok n db tks cl) \<and> wal_holds ser crc es (db_wal db) \<and> length es \<le> n \<and> tracks es (db_stores db)"

locale store_tracker =
  fixes accepts :: "engine_input \<Rightarrow> bool" and tracks :: "wal_entry list \<Rightarrow> stores \<Rightarrow> bool"
  assumes tracks_event: "accepts (EventIn ev) \<Longrightarrow> tracks es s \<Longrightarrow>
      tracks (es @ [WalIndexedEvent ev]) (fst (apply_event ev (s, bus)))"
    and tracks_tick: "accepts (TickIn t) \<Longrightarrow> tracks es s \<Longrightarrow> length (st_market_state s) = MARKET_COUNT \<Longrightarrow>
      tracks (es @ [tick_entry t]) (priced t s)"
    and accepts_valid: "accepts (TickIn t) \<Longrightarrow> price_tick_valid t"
begin

lemma append_ok:
  assumes "run_inv tracks ser crc n es db" "Suc n < SERIES_LIMIT" "ser e = Some p"
  obtains w where "wal_append ser crc due e (db_wal db) = (Inr (), w)" "wal_holds ser crc (es @ [e]) w"
proof -
  have w: "wal_holds ser crc es (db_wal db)" using assms(1) by (simp add: run_inv_def)
  have "Suc (length es) < 2 ^ 64" using assms(1,2) by (simp add: run_inv_def SERIES_LIMIT_def)
  note app = wal_holds_append [where due = due, OF w assms(3) this]
  then show thesis using that by (cases "wal_append ser crc due e (db_wal db)") auto
qed

lemma event:
  assumes inv: "run_inv tracks ser crc n es db" and n: "Suc n < SERIES_LIMIT"
    and ser: "ser (WalIndexedEvent ev) = Some p" and a: "accepts (EventIn ev)"
  shows "run_inv tracks ser crc (Suc n) (es @ [WalIndexedEvent ev]) (snd (process_event ser crc due ev db))"
proof -
  obtain tks cl where s: "series_ok n db tks cl" and len: "length es \<le> n" and t: "tracks es (db_stores db)"
    using inv by (auto simp: run_inv_def)
  obtain w where w: "wal_append ser crc due (WalIndexedEvent ev) (db_wal db) = (Inr (), w)"
    "wal_holds ser crc (es @ [WalIndexedEvent ev]) w"
    using append_ok [OF inv n ser] .
  have "series_ok (Suc n) (snd (process_event ser crc due ev db)) tks cl"
    using series_ok_mono [OF s, of "Suc n"] length_market_apply [of ev "(db_stores db, db_pubsub db)"]
    by (simp add: process_event_ok [OF w(1)] series_ok_def)
  then show ?thesis
    using w(2) len tracks_event [OF a t] unfolding run_inv_def process_event_ok [OF w(1)] by auto
qed

lemma tick:
  assumes inv: "run_inv tracks ser crc n es db" and n: "Suc n < SERIES_LIMIT"
    and ser: "ser (tick_entry t) = Some p" and a: "accepts (TickIn t)"
  shows "\<exists>out db'. ingest_tick ser crc due t db = Some (out, db') \<and> run_inv tracks ser crc (Suc n) (es @ [tick_entry t]) db'"
proof -
  obtain tks cl where s: "series_ok n db tks cl" and len: "length es \<le> n" and tr: "tracks es (db_stores db)"
    using inv by (auto simp: run_inv_def)
  have M: "length (st_market_state (db_stores db)) = MARKET_COUNT" using s by (simp add: series_ok_def)
  note step = tracks_tick [OF a tr M]
  obtain w where w: "wal_append ser crc due (tick_entry t) (db_wal db) = (Inr (), w)"
    "wal_holds ser crc (es @ [tick_entry t]) w"
    using append_ok [OF inv n ser] .
  show ?thesis
  proof (cases "unat (tick_market_id t) < MARKET_COUNT")
    case True
    obtain db' tks' cl' where "ingest_tick ser crc due t db = Some (Inr (fst (on_tick t (db_candle_builder db))), db')"
      "series_ok (Suc n) db' tks' cl'" "db_wal db' = w" "db_stores db' = priced t (db_stores db)"
      using ingest_tick_ok [OF s _ accepts_valid [OF a] True w(1) [unfolded tick_entry_def]] n
      by (auto simp: priced_def)
    then show ?thesis using w(2) len step by (auto simp: run_inv_def)
  next
    case False
    then obtain err where "ingest_tick ser crc due t db = Some (Inl (InvalidArgument err), db\<lparr>db_wal := w\<rparr>)"
      using ingest_tick_invalid [of t ser crc due db w] w(1) by (auto simp: tick_entry_def)
    moreover have "priced t (db_stores db) = db_stores db" using False M by (simp add: priced_def set_price_out_of_range)
    moreover have "series_ok (Suc n) (db\<lparr>db_wal := w\<rparr>) tks cl"
      using series_ok_mono [OF s, of "Suc n"] by (simp add: series_ok_def)
    ultimately show ?thesis using w(2) len step by (auto simp: run_inv_def)
  qed
qed

lemma run:
  assumes "run_inv tracks ser crc n es db" "n + length xs < SERIES_LIMIT"
    and "\<forall>(due, x) \<in> set xs. accepts x \<and> ser (input_entry x) \<noteq> None"
  shows "\<exists>db'. db_run ser crc xs db = Some db' \<and>
    run_inv tracks ser crc (n + length xs) (es @ map (\<lambda>y. input_entry (snd y)) xs) db'"
  using assms
proof (induction xs arbitrary: n es db)
  case (Cons y xs)
  obtain due x where y: "y = (due, x)" by (cases y)
  have x: "accepts x" "ser (input_entry x) \<noteq> None" using Cons.prems(3) by (auto simp: y)
  then obtain p where p: "ser (input_entry x) = Some p" by auto
  have lim: "Suc n < SERIES_LIMIT" using Cons.prems(2) by simp
  have rest: "\<exists>db''. db_run ser crc xs db' = Some db'' \<and>
      run_inv tracks ser crc (n + length (y # xs)) (es @ map (\<lambda>y. input_entry (snd y)) (y # xs)) db''"
    if "run_inv tracks ser crc (Suc n) (es @ [input_entry x]) db'" for db'
    using Cons.IH [OF that] Cons.prems(2,3) by (auto simp: y)
  show ?case
  proof (cases x)
    case (EventIn ev)
    then show ?thesis using rest event [OF Cons.prems(1) lim, of ev p due] x p by (auto simp: y)
  next
    case (TickIn t)
    then obtain out db' where "ingest_tick ser crc due t db = Some (out, db')"
      "run_inv tracks ser crc (Suc n) (es @ [tick_entry t]) db'"
      using tick [OF Cons.prems(1) lim, of t p due] x p by auto
    then show ?thesis using rest [of db'] TickIn by (simp add: y)
  qed
qed simp

end

text \<open>The stores are those that replaying the log into new ones gives, up to the fields that replay does not write.\<close>

definition replayed_state :: "wal_entry list \<Rightarrow> stores \<Rightarrow> bool" where
  "replayed_state es s \<longleftrightarrow> same_erased s (fold (replay_wal_entry 0) es stores_new)"

interpretation recovery: store_tracker recoverable replayed_state
proof
  show "replayed_state (es @ [WalIndexedEvent ev]) (fst (apply_event ev (s, bus)))"
    if "recoverable (EventIn ev)" "replayed_state es s" for ev es s bus
    using that replay_applied [of ev 0 s "fold (replay_wal_entry 0) es stores_new" bus] by (simp add: replayed_state_def)
  show "replayed_state (es @ [tick_entry t]) (priced t s)"
    if "recoverable (TickIn t)" "replayed_state es s" "length (st_market_state s) = MARKET_COUNT" for t es s
    using same_erased_set_price [OF that(2) [unfolded replayed_state_def]]
    by (simp add: replayed_state_def tick_entry_def replay_wal_entry_def priced_def)
qed simp

abbreviation recovery_inv :: "(wal_entry \<Rightarrow> u8 list option) \<Rightarrow> (u8 list \<Rightarrow> u32) \<Rightarrow> nat \<Rightarrow> wal_entry list \<Rightarrow> perf_db \<Rightarrow> bool" where
  "recovery_inv \<equiv> run_inv replayed_state"

lemma recovery_inv_def:
  "recovery_inv ser crc n es db \<longleftrightarrow>
     (\<exists>tks cl. series_ok n db tks cl) \<and> wal_holds ser crc es (db_wal db) \<and> length es \<le> n \<and>
     same_erased (db_stores db) (fold (replay_wal_entry 0) es stores_new)"
  by (simp add: run_inv_def replayed_state_def)

lemmas recovery_run = recovery.run

section \<open>Opening\<close>

lemma seed_builder_total: "candle_store_repr cs cl \<Longrightarrow> builder_ok b \<Longrightarrow> \<exists>b'. seed_builder cs ks b = Some b' \<and> builder_ok b'"
proof (induction ks arbitrary: b)
  case (Cons k ks)
  obtain m tf where k: "k = (m, tf)" by (cases k)
  obtain lst where "candle_store_latest cs m tf = Some lst"
    using Cons.prems(1) by (auto simp: candle_store_latest_def candle_store_candles_repr)
  then show ?case using Cons.IH Cons.prems by (cases lst) (auto simp: k builder_ok_seed)
qed simp

text \<open>A new database in an empty directory.\<close>

definition empty_data_dir :: data_dir where
  "empty_data_dir = \<lparr>dd_ticks = Map.empty, dd_candles = Map.empty, dd_wal = Map.empty, dd_snapshots = Map.empty\<rparr>"

lemma stores_new_market [simp]: "length (st_market_state stores_new) = MARKET_COUNT"
  by (simp add: stores_new_def)

lemma load_latest_empty [simp]: "load_latest_snapshot sde [] Map.empty = Inr None"
  by (simp add: load_latest_snapshot_def list_snapshots_def map_filter_simps sort_desc_def)

lemma replay_fresh: "wal_replay de crc cb [segment_path 0] (snd (wal_open config [] Map.empty)) s = Inr (0, s)"
  by (simp add: wal_replay_def list_segments_def map_filter_simps wal_open_def find_latest_segment_def Let_def
      open_append_def)

lemma seed_builder_empty: "candle_store_repr cs (\<lambda>_. []) \<Longrightarrow> seed_builder cs ks b = Some b"
  by (induction ks arbitrary: b) (auto simp: candle_store_latest_def candle_store_candles_repr last_opt_def)

lemma open_new_series:
  assumes "perf_db_open sde de crc [] [] [segment_path 0] config empty_data_dir = Some (Inr db)"
  shows "series_ok 0 db (\<lambda>_. []) (\<lambda>_. [])" and "db_candle_builder db = candle_builder_new" and "db_stores db = stores_new"
proof -
  obtain ts where ts: "tick_store_open Map.empty = Some (Inr ts)" "tick_store_repr ts (\<lambda>_. [])"
    using tick_store_open_empty [of Map.empty] by auto
  obtain cs where cs: "candle_store_open Map.empty = Some (Inr cs)" "candle_store_repr cs (\<lambda>_. [])"
    using candle_store_open_empty [of Map.empty] by auto
  have "db_tick_store db = ts \<and> db_candle_store db = cs \<and> db_candle_builder db = candle_builder_new \<and> db_stores db = stores_new"
    using assms ts cs config_ok_bus [OF open_bus(1) [OF assms]]
    by (auto simp: perf_db_open_def empty_data_dir_def Let_def replay_fresh seed_builder_empty [OF cs(2)])
  then show "series_ok 0 db (\<lambda>_. []) (\<lambda>_. [])" "db_candle_builder db = candle_builder_new" "db_stores db = stores_new"
    using ts(2) cs(2) by (simp_all add: series_ok_def)
qed

lemma open_new:
  assumes "config_ok config"
  shows "\<exists>db. perf_db_open sde de crc [] [] [segment_path 0] config empty_data_dir = Some (Inr db) \<and>
    recovery_inv ser crc 0 [] db \<and> db_snapshots db = Map.empty \<and> db_stores db = stores_new"
proof -
  obtain ts where ts: "tick_store_open Map.empty = Some (Inr ts)" "tick_store_repr ts (\<lambda>_. [])"
    using tick_store_open_empty [of Map.empty] by auto
  obtain cs where cs: "candle_store_open Map.empty = Some (Inr cs)" "candle_store_repr cs (\<lambda>_. [])"
    using candle_store_open_empty [of Map.empty] by auto
  obtain b where b: "seed_builder cs market_timeframes candle_builder_new = Some b" "builder_ok b"
    using seed_builder_total [OF cs(2) builder_ok_new] by blast
  show ?thesis
    using ts cs b wal_holds_open [of ser crc "pc_wal config"] config_ok_bus [OF assms]
    by (auto simp: perf_db_open_def empty_data_dir_def Let_def replay_fresh recovery_inv_def series_ok_def
        same_erased_def)
qed

lemma open_new_inv:
  assumes "perf_db_open sde de crc [] [] [segment_path 0] config empty_data_dir = Some (Inr db)"
  shows "recovery_inv ser crc 0 [] db" "db_snapshots db = Map.empty" "db_stores db = stores_new"
  using open_new [OF open_bus(1) [OF assms], of sde de crc ser] assms by auto

text \<open>
  Opening the files of a synced database: the newest snapshot, if there is one, is restored, the whole log is
  replayed on top, and the series are those that were stored.
\<close>

definition snapshot_base :: "state_snapshot option \<Rightarrow> stores" where
  "snapshot_base snap = (case snap of None \<Rightarrow> stores_new | Some sn \<Rightarrow> restore_snapshot sn stores_new)"

definition snapshot_block :: "state_snapshot option \<Rightarrow> u64" where
  "snapshot_block snap = (case snap of None \<Rightarrow> 0 | Some sn \<Rightarrow> sc_last_block (ss_checkpoint sn))"

lemma open_replays:
  assumes s: "series_ok n db tks cl" and w: "wal_holds ser crc es (db_wal db)" and buf: "ww_buf (fst (db_wal db)) = []"
    and names: "enumerates wal_names (dom (snd (db_wal db)))" and ok: "\<forall>e \<in> set es. entry_codec_ok ser de e"
    and snap: "load_latest_snapshot sde snap_names (db_snapshots db) = Inr snap" and cfg: "config_ok config"
  shows "\<exists>db'. perf_db_open sde de crc snap_names wal_names wal_names config (data_dir_of db) = Some (Inr db') \<and>
    db_stores db' = fold (replay_wal_entry (snapshot_block snap)) es (snapshot_base snap) \<and>
    tick_store_repr (db_tick_store db') tks \<and> candle_store_repr (db_candle_store db') cl \<and>
    builder_ok (db_candle_builder db') \<and> wal_holds ser crc es (db_wal db') \<and>
    (\<forall>m. db_ticks db' m = db_ticks db m) \<and> (\<forall>m tf. db_candles db' m tf = db_candles db m tf)"
proof -
  obtain wr d where wd: "db_wal db = (wr, d)" by (cases "db_wal db")
  have w': "wal_holds ser crc es (wr, d)" and buf': "ww_buf wr = []" and names': "enumerates wal_names (dom d)"
    using w buf names by (simp_all add: wd)
  note re = wal_reopen [OF w' buf' names', of "pc_wal config"]
  have rep: "wal_replay de crc (\<lambda>e s. Inr (replay_wal_entry (snapshot_block snap) e s)) wal_names d (snapshot_base snap) =
      Inr (word_of_nat (length es), fold (replay_wal_entry (snapshot_block snap)) es (snapshot_base snap))"
    by (rule wal_holds_replay [OF w' buf' names' ok])
  obtain ts where ts: "tick_store_open (store_image tick_paths (db_tick_store db)) = Some (Inr ts)" "tick_store_repr ts tks"
    using tick_store_reopen [of "db_tick_store db" tks] s by (auto simp: series_ok_def)
  obtain cs where cs: "candle_store_open (store_image candle_paths (db_candle_store db)) = Some (Inr cs)" "candle_store_repr cs cl"
    using candle_store_reopen [of "db_candle_store db" cl] s by (auto simp: series_ok_def)
  obtain b where b: "seed_builder cs market_timeframes candle_builder_new = Some b" "builder_ok b"
    using seed_builder_total [OF cs(2) builder_ok_new] by blast
  have "tick_store_ticks ts m = tick_store_ticks (db_tick_store db) m" for m
    using s by (simp add: series_ok_def tick_store_ticks_repr [OF ts(2)] tick_store_ticks_repr [of _ tks])
  moreover have "candle_store_candles cs m tf = candle_store_candles (db_candle_store db) m tf" for m tf
    using s by (simp add: series_ok_def candle_store_candles_repr [OF cs(2)] candle_store_candles_repr [of _ cl])
  ultimately show ?thesis
    using ts cs b rep re snap config_ok_bus [OF cfg]
    by (simp add: perf_db_open_def data_dir_of_def Let_def wd db_ticks_def db_candles_def
        snapshot_base_def [symmetric] snapshot_block_def [symmetric])
qed

text \<open>A database without snapshots opened from the files of a synced one.\<close>

lemma open_recovers:
  assumes inv: "recovery_inv ser crc n es db" and buf: "ww_buf (fst (db_wal db)) = []"
    and snap: "db_snapshots db = Map.empty" and names: "enumerates wal_names (dom (snd (db_wal db)))"
    and ok: "\<forall>e \<in> set es. entry_codec_ok ser de e" and cfg: "config_ok config"
  shows "\<exists>db'. perf_db_open sde de crc [] wal_names wal_names config (data_dir_of db) = Some (Inr db') \<and>
    same_erased (db_stores db) (db_stores db') \<and> (\<forall>m. db_ticks db' m = db_ticks db m) \<and>
    (\<forall>m tf. db_candles db' m tf = db_candles db m tf)"
proof -
  obtain tks cl where s: "series_ok n db tks cl" and w: "wal_holds ser crc es (db_wal db)"
    and e: "same_erased (db_stores db) (fold (replay_wal_entry 0) es stores_new)"
    using inv by (auto simp: recovery_inv_def)
  have "load_latest_snapshot sde [] (db_snapshots db) = Inr None" by (simp add: snap)
  from open_replays [OF s w buf names ok this cfg] e show ?thesis
    by (auto simp: snapshot_base_def snapshot_block_def)
qed

end
