(* ===== verification/Engine_Invariant.thy ===== *)
theory Engine_Invariant
  imports Engine
begin

text \<open>
  The invariant of the in-memory stores and its preservation by every chain event: the
  indices of positions, orders and balances are exact, the order books hold the active
  orders, referral codes and statistics are filed under their owners, and every trader with
  daily figures has lifetime figures.
\<close>

definition stores_ok :: "stores \<Rightarrow> bool" where
  "stores_ok s \<longleftrightarrow>
     positions_ok (st_positions s) \<and> orders_ok (st_orders s) \<and> balances_ok (st_balances s) \<and>
     users_ok (st_users s) \<and> stats_ok (st_trader_stats s) \<and> daily_ok (st_daily_stats s) \<and>
     length (st_market_state s) = MARKET_COUNT \<and>
     (\<forall>a d. st_daily_stats s (a, d) \<noteq> None \<longrightarrow> st_trader_stats s a \<noteq> None)"

text \<open>
  What an event must not do to the stores: reopen a position id for another user or market,
  or place an order under an id that is active or belongs to another user.
\<close>

definition event_fits :: "stores \<Rightarrow> indexed_event \<Rightarrow> bool" where
  "event_fits s ev =
     (case ie_event ev of
        PositionOpened pid user mid _ _ _ _ _ _ \<Rightarrow>
          (case pt_positions (st_positions s) pid of
             None \<Rightarrow> True | Some q \<Rightarrow> pos_user_address q = user \<and> pos_market_id q = mid)
      | OrderPlaced oid user mid ty lng price sz \<Rightarrow>
          order_insertable (st_orders s) (placed_order ev oid user mid ty lng price sz)
      | _ \<Rightarrow> True)"

lemma daily_ok_empty [simp]: "daily_ok daily_new" "stats_ok stats_new"
  by (simp_all add: daily_ok_def daily_new_def stats_ok_def stats_new_def)

lemma stores_ok_new: "stores_ok stores_new"
  by (simp add: stores_ok_def stores_new_def positions_ok_new orders_ok_new balances_ok_new users_ok_new
      daily_new_def daily_ok_def stats_ok_def stats_new_def)

lemma stats_dom_ops:
  "stats_ensure a s b \<noteq> None \<longleftrightarrow> b = a \<or> s b \<noteq> None"
  "snd (increment_trade a v p f w l t s) b \<noteq> None \<longleftrightarrow> s b \<noteq> None"
  "increment_open_positions a s b \<noteq> None \<longleftrightarrow> s b \<noteq> None"
  "decrement_open_positions a s b \<noteq> None \<longleftrightarrow> s b \<noteq> None"
  by (auto simp: stats_ensure_def increment_trade_def increment_open_positions_def decrement_open_positions_def
      split: option.splits)

lemma daily_dom_accumulate: "accumulate_trade a d v p f s k \<noteq> None \<longleftrightarrow> k = (a, d) \<or> s k \<noteq> None"
  by (auto simp: accumulate_trade_def split: option.splits)

lemma keeps_close: "keeps_position_keys (close_position ev sz price pnl full)"
  by (simp add: keeps_position_keys_def close_position_def Let_def)

lemmas store_ok_rules =
  positions_ok_update orders_ok_insert orders_ok_cancel orders_ok_execute balances_ok_set_raw users_ok_ensure
  users_ok_set_vault stats_ok_ensure stats_ok_increment_trade stats_ok_increment_open stats_ok_decrement_open
  daily_ok_accumulate

lemma stores_ok_opened:
  assumes "stores_ok s" "event_fits s ev" "ie_event ev = PositionOpened pid user mid lng sz lev price token amt"
  shows "stores_ok (fst (on_position_opened ev pid user mid lng sz lev price token amt (s, bus)))"
proof -
  have "positions_ok (positions_insert (opened_position ev pid user mid lng sz lev price token amt) (st_positions s))"
    using assms by (intro positions_ok_insert) (auto simp: stores_ok_def event_fits_def opened_position_def)
  then show ?thesis
    using assms(1) unfolding on_position_opened_def stores_ok_def
    by (simp add: Let_def publish_def store_ok_rules stats_dom_ops del: not_None_eq)
qed

lemma stores_ok_closed:
  assumes "stores_ok s"
  shows "stores_ok (fst (on_position_closed ev pid user mid sz price pnl full (s, bus)))"
proof -
  note keeps_close [of ev sz price pnl full]
  then show ?thesis
    using assms unfolding on_position_closed_def stores_ok_def
    by (auto simp: Let_def publish_def store_ok_rules stats_dom_ops daily_dom_accumulate simp del: not_None_eq
        split: option.splits)
qed

lemma stores_ok_modified:
  assumes "stores_ok s"
  shows "stores_ok (fst (on_position_modified pid sz col amt (s, bus)))"
proof -
  have "keeps_position_keys (\<lambda>p. p\<lparr>pos_size_usd := sz, pos_collateral_usd := col, pos_collateral_amount := amt\<rparr>)"
    by (simp add: keeps_position_keys_def)
  then show ?thesis
    using assms unfolding on_position_modified_def stores_ok_def
    by (simp add: Let_def publish_def store_ok_rules split: option.splits)
qed

lemma stores_ok_liquidated:
  assumes "stores_ok s"
  shows "stores_ok (fst (on_liquidation ev pid user mid price pen (s, bus)))"
proof -
  have "keeps_position_keys (\<lambda>p. p\<lparr>pos_status := PsLiquidated, pos_exit_price := Some price,
      pos_close_tx := Some (ie_tx_hash ev), pos_close_block := Some (ie_block_number ev),
      pos_closed_at := Some (ie_block_timestamp ev)\<rparr>)"
    by (simp add: keeps_position_keys_def)
  then show ?thesis
    using assms unfolding on_liquidation_def stores_ok_def
    by (simp add: Let_def publish_def store_ok_rules stats_dom_ops del: not_None_eq)
qed

lemma stores_ok_orders:
  assumes "stores_ok s"
  shows "event_fits s ev \<Longrightarrow> ie_event ev = OrderPlaced oid user mid ty lng price sz \<Longrightarrow>
      stores_ok (fst (on_order_placed ev oid user mid ty lng price sz (s, bus)))"
    and "stores_ok (fst (on_order_executed ev oid pid px (s, bus)))"
    and "stores_ok (fst (on_order_cancelled oid (s, bus)))"
  using assms orders_ok_execute [of "st_orders s" oid px pid "ie_block_timestamp ev"]
    orders_ok_cancel [of "st_orders s" oid]
  by (auto simp: on_order_placed_def on_order_executed_def on_order_cancelled_def stores_ok_def event_fits_def
      Let_def publish_def store_ok_rules split_beta split: option.splits)

lemma stores_ok_rest:
  assumes "stores_ok s"
  shows "stores_ok (fst (on_funding_rate_updated mid rate rate24 (s, bus)))"
    and "stores_ok (fst (on_collateral_deposited ev user token amt (s, bus)))"
    and "stores_ok (fst (on_collateral_withdrawn user token amt (s, bus)))"
    and "stores_ok (fst (on_vault_created ev user vault (s, bus)))"
    and "stores_ok (fst (on_market_paused mid (s, bus)))"
  using assms
  by (simp_all add: on_funding_rate_updated_def on_collateral_deposited_def on_collateral_withdrawn_def
      on_vault_created_def on_market_paused_def publish_def publish_balance_def stores_ok_def Let_def store_ok_rules
      split: option.splits)

lemmas stores_ok_handlers =
  stores_ok_opened stores_ok_closed stores_ok_modified stores_ok_liquidated stores_ok_orders stores_ok_rest

lemma stores_ok_apply:
  assumes ok: "stores_ok s" and fits: "event_fits s ev"
  shows "stores_ok (fst (apply_event ev (s, bus)))"
proof -
  let ?s = "append_event ev s"
  have ok': "stores_ok ?s" using ok by (simp add: append_event_def stores_ok_def split_beta Let_def)
  have fits': "event_fits ?s ev"
    using fits by (cases "ie_event ev") (simp_all add: append_event_def event_fits_def)
  have "stores_ok (fst (handle_event ev (ie_event ev) (?s, bus)))"
    by (cases "ie_event ev") (simp_all add: stores_ok_handlers ok' fits')
  then show ?thesis by (simp add: apply_event_def stores_ok_def split_beta Let_def)
qed

text \<open>A sequence of events, each fitting the state it meets.\<close>

fun events_fit :: "indexed_event list \<Rightarrow> live \<Rightarrow> bool" where
  "events_fit [] l \<longleftrightarrow> True"
| "events_fit (ev # evs) l \<longleftrightarrow> event_fits (fst l) ev \<and> events_fit evs (apply_event ev l)"

lemma stores_ok_run:
  "stores_ok (fst l) \<Longrightarrow> events_fit evs l \<Longrightarrow> stores_ok (fst (fold apply_event evs l))"
proof (induction evs arbitrary: l)
  case (Cons ev evs)
  then show ?case using stores_ok_apply [of "fst l" ev "snd l"] by simp
qed simp

section \<open>Event routing\<close>

text \<open>The event store after a run is the log of the run.\<close>

definition routed :: "indexed_event list \<Rightarrow> event_log" where
  "routed evs = map (\<lambda>ev. (ev, extract_event_keys (ie_event ev))) evs"

lemma st_events_handle: "st_events (fst (handle_event ev e l)) = st_events (fst l)"
  by (cases l; cases e)
     (auto simp: on_position_opened_def on_position_closed_def on_position_modified_def on_order_placed_def
      on_order_executed_def on_order_cancelled_def on_liquidation_def on_funding_rate_updated_def
      on_collateral_deposited_def on_collateral_withdrawn_def on_vault_created_def on_market_paused_def
      publish_def publish_balance_def Let_def split_beta split: option.splits)

lemma st_events_apply:
  "st_events (fst (apply_event ev l)) =
    (case extract_event_keys (ie_event ev) of (m, a) \<Rightarrow> events_append ev m a (st_events (fst l)))"
  using st_events_handle [of ev "ie_event ev" "(append_event ev (fst l), snd l)"]
  by (simp add: apply_event_def append_event_def split_beta Let_def)

lemma st_events_run: "st_events (fst (fold apply_event evs l)) = run_appends (routed evs) (st_events (fst l))"
  by (induction evs arbitrary: l) (simp_all add: routed_def run_appends_def st_events_apply split_beta)

end
