(* ===== verification/Engine_Accounting.thy ===== *)
theory Engine_Accounting
  imports Engine
begin

text \<open>
  What the engine keeps count of: trades per trader, open interest per market, collateral per
  user and token.
\<close>

section \<open>Trades\<close>

text \<open>Every trade is counted once, as a win, a loss or a liquidation.\<close>

definition trades_balanced :: "trader_stats_store \<Rightarrow> bool" where
  "trades_balanced s \<longleftrightarrow>
     (\<forall>a t. s a = Some t \<longrightarrow> ts_total_trades t = ts_win_count t + ts_loss_count t + ts_liquidation_count t)"

lemma bump_trade_counts:
  "\<not> (w \<and> l) \<Longrightarrow> ts_total_trades t = ts_win_count t + ts_loss_count t + ts_liquidation_count t \<Longrightarrow>
   ts_total_trades (bump_trade v p f w l ts t) =
     ts_win_count (bump_trade v p f w l ts t) + ts_loss_count (bump_trade v p f w l ts t) +
     ts_liquidation_count (bump_trade v p f w l ts t)"
  by (auto simp: bump_trade_def Let_def)

lemma trades_balanced_ops:
  assumes "trades_balanced s"
  shows "trades_balanced (stats_ensure a s)"
    and "\<not> (w \<and> l) \<Longrightarrow> trades_balanced (snd (increment_trade a v p f w l ts s))"
    and "trades_balanced (increment_open_positions a s)"
    and "trades_balanced (decrement_open_positions a s)"
  using assms bump_trade_counts [of w l]
  by (auto simp: trades_balanced_def stats_ensure_def increment_trade_def increment_open_positions_def
      decrement_open_positions_def trader_stats_zero_def split: option.splits)

lemma trades_balanced_new: "trades_balanced stats_new"
  by (simp add: trades_balanced_def stats_new_def)

lemma trades_balanced_handle:
  assumes "trades_balanced (st_trader_stats s)"
  shows "trades_balanced (st_trader_stats (fst (handle_event ev e (s, bus))))"
  using assms
  by (cases e)
     (simp_all add: on_position_opened_def on_position_closed_def on_position_modified_def on_order_placed_def
      on_order_executed_def on_order_cancelled_def on_liquidation_def on_funding_rate_updated_def
      on_collateral_deposited_def on_collateral_withdrawn_def on_vault_created_def on_market_paused_def
      publish_def publish_balance_def trades_balanced_ops Let_def split_beta split: option.splits)

lemma trades_balanced_apply:
  assumes "trades_balanced (st_trader_stats (fst l))"
  shows "trades_balanced (st_trader_stats (fst (apply_event ev l)))"
proof -
  have "st_trader_stats (append_event ev s) = st_trader_stats s" for s
    by (simp add: append_event_def split_beta Let_def)
  then show ?thesis
    using trades_balanced_handle [of "append_event ev (fst l)" ev "ie_event ev" "snd l"] assms
    by (simp add: apply_event_def split_beta Let_def)
qed

lemma trades_balanced_run:
  "trades_balanced (st_trader_stats (fst l)) \<Longrightarrow> trades_balanced (st_trader_stats (fst (fold apply_event evs l)))"
  by (induction evs arbitrary: l) (simp_all add: trades_balanced_apply)

section \<open>Open interest\<close>

lemma open_interest_add:
  assumes "length t = MARKET_COUNT" "unat m < MARKET_COUNT"
  shows "open_interest (add_long_oi m d t) n =
      (if n = m then (fst (open_interest t n) + d, snd (open_interest t n)) else open_interest t n)"
    and "open_interest (add_short_oi m d t) n =
      (if n = m then (fst (open_interest t n), snd (open_interest t n) + d) else open_interest t n)"
proof -
  have "slot_at t m \<noteq> None" using assms by (simp add: slot_at_def)
  then show "open_interest (add_long_oi m d t) n =
      (if n = m then (fst (open_interest t n) + d, snd (open_interest t n)) else open_interest t n)"
    and "open_interest (add_short_oi m d t) n =
      (if n = m then (fst (open_interest t n), snd (open_interest t n) + d) else open_interest t n)"
    by (auto simp: open_interest_def add_long_oi_def add_short_oi_def slot_at_on_inner split: option.splits)
qed

lemma opened_open_interest:
  assumes "length (st_market_state s) = MARKET_COUNT" "unat mid < MARKET_COUNT"
  shows "open_interest (st_market_state (fst (on_position_opened ev pid user mid lng sz lev price token amt (s, bus)))) n =
    (if n = mid
     then (fst (open_interest (st_market_state s) n) + (if lng then sz else 0),
           snd (open_interest (st_market_state s) n) + (if lng then 0 else sz))
     else open_interest (st_market_state s) n)"
  using assms by (simp add: on_position_opened_def publish_def Let_def open_interest_add)

lemma closed_open_interest:
  assumes "length (st_market_state s) = MARKET_COUNT" "unat mid < MARKET_COUNT"
    and "pt_positions (st_positions s) pid = Some p"
  shows "open_interest (st_market_state (fst (on_position_closed ev pid user mid sz price pnl full (s, bus)))) n =
    (if n = mid
     then (fst (open_interest (st_market_state s) n) - (if pos_is_long p then sz else 0),
           snd (open_interest (st_market_state s) n) - (if pos_is_long p then 0 else sz))
     else open_interest (st_market_state s) n)"
proof -
  have "pos_is_long (close_position ev sz price pnl full p) = pos_is_long p"
    by (simp add: close_position_def Let_def)
  moreover have "positions_get (snd (positions_update pid (close_position ev sz price pnl full) (st_positions s))) pid =
      Some (close_position ev sz price pnl full p)"
    using assms(3) by (simp add: positions_update_def positions_get_def)
  ultimately show ?thesis
    using assms(1,2) by (cases full) (simp_all add: on_position_closed_def publish_def Let_def open_interest_add)
qed

lemma opened_position_stored:
  "pt_positions (st_positions (fst (on_position_opened ev pid user mid lng sz lev price token amt l))) pid =
    Some (opened_position ev pid user mid lng sz lev price token amt)"
proof -
  have "pos_position_id (opened_position ev pid user mid lng sz lev price token amt) = pid"
    by (simp add: opened_position_def)
  then show ?thesis
    by (cases l) (simp add: on_position_opened_def publish_def Let_def pos_user.prim_ins)
qed

lemma length_market_opened:
  "length (st_market_state (fst (on_position_opened ev pid user mid lng sz lev price token amt l))) =
   length (st_market_state (fst l))"
  by (cases l) (simp add: on_position_opened_def publish_def Let_def)

section \<open>Collateral\<close>

lemma deposited_balance:
  "balances_get (st_balances (fst (on_collateral_deposited ev user token amt (s, bus)))) u t =
    (if u = user \<and> t = token
     then let old = balances_get (st_balances s) user token;
              new_amount = (case old of None \<Rightarrow> amt | Some b \<Rightarrow> bal_amount b + amt);
              locked = (case old of None \<Rightarrow> 0 | Some b \<Rightarrow> bal_locked b)
          in Some \<lparr>bal_user_address = user, bal_token = token, bal_amount = new_amount, bal_locked = locked,
                   bal_available = new_amount - locked\<rparr>
     else balances_get (st_balances s) u t)"
  by (simp add: on_collateral_deposited_def publish_balance_def publish_def Let_def balances_get_set_raw
      split: option.splits)

lemma withdrawn_balance:
  "balances_get (st_balances (fst (on_collateral_withdrawn user token amt (s, bus)))) u t =
    (if u = user \<and> t = token
     then let old = balances_get (st_balances s) user token;
              new_amount = (case old of None \<Rightarrow> 0 | Some b \<Rightarrow> max (bal_amount b - amt) 0);
              locked = (case old of None \<Rightarrow> 0 | Some b \<Rightarrow> bal_locked b)
          in Some \<lparr>bal_user_address = user, bal_token = token, bal_amount = new_amount, bal_locked = locked,
                   bal_available = max (new_amount - locked) 0\<rparr>
     else balances_get (st_balances s) u t)"
  by (simp add: on_collateral_withdrawn_def publish_balance_def publish_def Let_def balances_get_set_raw
      split: option.splits)

text \<open>No balance is negative or has more available than its amount, after deposits and withdrawals of non-negative amounts without overflow.\<close>

definition balance_sane :: "balance \<Rightarrow> bool" where
  "balance_sane b \<longleftrightarrow> 0 \<le> i128_val (bal_amount b) \<and> 0 \<le> i128_val (bal_available b) \<and>
     i128_val (bal_available b) \<le> i128_val (bal_amount b)"

lemma withdrawn_amount:
  assumes b: "balances_get (st_balances s) user token = Some b"
    and nn: "0 \<le> i128_val (bal_amount b)" "0 \<le> i128_val amt" "0 \<le> i128_val (bal_locked b)"
    and b': "balances_get (st_balances (fst (on_collateral_withdrawn user token amt (s, bus)))) user token = Some b'"
  shows "i128_val (bal_amount b') = max (i128_val (bal_amount b) - i128_val amt) 0"
    and "i128_val (bal_available b') = max (i128_val (bal_amount b') - i128_val (bal_locked b)) 0"
    and "balance_sane b'"
proof -
  have in_range: "i128_range (x - y)" if "0 \<le> x" "0 \<le> y" "i128_range x" "i128_range y" for x y
    using that by (auto simp: i128_range_def)
  have 1: "i128_val (bal_amount b - amt) = i128_val (bal_amount b) - i128_val amt"
    by (rule i128_val_diff) (rule in_range [OF nn(1,2)], simp_all)
  have am: "bal_amount b' = max (bal_amount b - amt) 0" and av: "bal_available b' = max (bal_amount b' - bal_locked b) 0"
    using b b' by (auto simp: withdrawn_balance Let_def)
  show A: "i128_val (bal_amount b') = max (i128_val (bal_amount b) - i128_val amt) 0"
    by (simp add: am i128_val_max 1)
  have 2: "i128_val (bal_amount b' - bal_locked b) = i128_val (bal_amount b') - i128_val (bal_locked b)"
    by (rule i128_val_diff, rule in_range [OF _ nn(3)]) (simp_all, simp add: A)
  show B: "i128_val (bal_available b') = max (i128_val (bal_amount b') - i128_val (bal_locked b)) 0"
    by (simp add: av i128_val_max 2)
  show "balance_sane b'" using A B nn by (simp add: balance_sane_def)
qed

end
