(* ===== verification/Engine_Steps.thy ===== *)
theory Engine_Steps
  imports Engine_Invariant Engine_Accounting
begin

text \<open>
  The engine as a transition system: a step is one call of a public operation of \<open>PerfDb\<close>
  that changes its state. Every state reached from an opened database keeps the invariants of
  the stores, of the trade counts, of the leaderboards and of the snapshot directory.
\<close>

text \<open>A step is labelled with the event that it processes, if it does.\<close>

inductive db_step ::
  "(wal_entry \<Rightarrow> u8 list option) \<Rightarrow> (state_snapshot \<Rightarrow> u8 list option) \<Rightarrow> (u8 list \<Rightarrow> u32) \<Rightarrow>
   indexed_event option \<Rightarrow> perf_db \<Rightarrow> perf_db \<Rightarrow> bool"
  for ser sser crc where
  step_event: "db_step ser sser crc (Some ev) db (snd (process_event ser crc due ev db))"
| step_tick: "ingest_tick ser crc due t db = Some (r, db') \<Longrightarrow> db_step ser sser crc None db db'"
| step_checkpoint: "db_step ser sser crc None db (save_checkpoint block hash ts db)"
| step_leaderboard: "iterates ks (st_trader_stats (db_stores db)) \<Longrightarrow> db_step ser sser crc None db (rebuild_leaderboard ks now db)"
| step_sync: "db_step ser sser crc None db (sync_wal db)"
| step_snapshot: "db_step ser sser crc None db (snd (db_snapshot sser io db))"
| step_shutdown: "perf_db_shutdown sser io db = Some (r, db') \<Longrightarrow> db_step ser sser crc None db db'"

text \<open>
  The engine checks nothing of an event. \<open>db_reach expected\<close>: the events that came were \<open>expected\<close> in the states in which
  they came.
\<close>

inductive db_reach ::
  "(wal_entry \<Rightarrow> u8 list option) \<Rightarrow> (state_snapshot \<Rightarrow> u8 list option) \<Rightarrow> (u8 list \<Rightarrow> u32) \<Rightarrow>
   (stores \<Rightarrow> indexed_event \<Rightarrow> bool) \<Rightarrow> perf_db \<Rightarrow> perf_db \<Rightarrow> bool"
  for ser sser crc expected db where
  reach_refl: "db_reach ser sser crc expected db db"
| reach_step: "db_reach ser sser crc expected db db1 \<Longrightarrow> db_step ser sser crc l db1 db2 \<Longrightarrow>
    pred_option (expected (db_stores db1)) l \<Longrightarrow> db_reach ser sser crc expected db db2"

abbreviation any_event :: "stores \<Rightarrow> indexed_event \<Rightarrow> bool" where
  "any_event \<equiv> \<lambda>_ _. True"

lemma db_reach_any: "db_reach ser sser crc expected db db' \<Longrightarrow> db_reach ser sser crc any_event db db'"
proof (induction rule: db_reach.induct)
  case (reach_step db1 l db2)
  then show ?case by (intro db_reach.reach_step [OF reach_step.IH reach_step.hyps(2)]) (cases l; simp)
qed (rule reach_refl)

section \<open>The invariant\<close>

text \<open>A board is in descending order, ranked from 1, and within its size.\<close>

definition board_ok :: "nat \<Rightarrow> leaderboard_entry list \<Rightarrow> bool" where
  "board_ok n es \<longleftrightarrow> length es \<le> n \<and> map le_rank es = map (\<lambda>i. word_of_nat (i + 1)) [0..<length es] \<and>
     sorted_wrt (\<lambda>a b. le_value b \<le> le_value a) es"

definition leaderboard_ok :: "leaderboard \<Rightarrow> bool" where
  "leaderboard_ok lb \<longleftrightarrow> board_ok (lb_max_entries lb) (lb_entries (lb_pnl_board lb)) \<and>
     board_ok (lb_max_entries lb) (lb_entries (lb_volume_board lb))"

text \<open>What holds whatever events come, and what holds of expected ones.\<close>

definition db_counts_ok :: "perf_db \<Rightarrow> bool" where
  "db_counts_ok db \<longleftrightarrow> trades_balanced (st_trader_stats (db_stores db)) \<and>
     leaderboard_ok (db_leaderboard db) \<and> snapshot_dir_ok (db_snapshots db)"

definition db_ok :: "perf_db \<Rightarrow> bool" where
  "db_ok db \<longleftrightarrow> stores_ok (db_stores db) \<and> trades_balanced (st_trader_stats (db_stores db)) \<and>
     leaderboard_ok (db_leaderboard db) \<and> snapshot_dir_ok (db_snapshots db)"

lemma map2_board_entry:
  "map le_rank (map2 (board_entry f) [0..<length xs] xs) = map (\<lambda>i. word_of_nat (i + 1)) [0..<length xs]"
  "map le_value (map2 (board_entry f) [0..<length xs] xs) = map f xs"
  by (rule nth_equalityI; simp add: board_entry_def)+

lemma board_ok_ranked: "ranked_by f n all_stats es \<Longrightarrow> board_ok n es"
proof -
  assume "ranked_by f n all_stats es"
  then obtain chosen where c: "sorted_wrt (\<lambda>a b. f b \<le> f a) chosen" "length chosen \<le> n"
    "es = map2 (board_entry f) [0..<length chosen] chosen"
    by (auto simp: ranked_by_def)
  have "sorted_wrt (\<lambda>a b. b \<le> a) (map le_value es)"
    using c(1) by (simp only: c(3) map2_board_entry sorted_wrt_map)
  then have "sorted_wrt (\<lambda>a b. le_value b \<le> le_value a) es" by (simp add: sorted_wrt_map)
  then show ?thesis using c(2) map2_board_entry(1) [of f chosen] by (simp add: board_ok_def c(3))
qed

lemma leaderboard_ok_new: "leaderboard_ok (leaderboard_new n)"
  by (simp add: leaderboard_ok_def board_ok_def leaderboard_new_def leaderboard_data_default_def)

lemma leaderboard_ok_rebuild: "leaderboard_ok (leaderboard_rebuild all_stats now lb)"
  unfolding leaderboard_ok_def leaderboard_rebuild_def
  using board_ok_ranked [OF rebuild_pnl_ranked [of lb all_stats now]]
    board_ok_ranked [OF rebuild_volume_ranked [of "rebuild_pnl all_stats now lb" all_stats now]]
  by simp

lemma stores_ok_set_price: "stores_ok s \<Longrightarrow> stores_ok (s\<lparr>st_market_state := set_price m p ts (st_market_state s)\<rparr>)"
  by (simp add: stores_ok_def)

text \<open>A tick changes the prices, the series and the log, nothing else.\<close>

lemma ingest_tick_frame:
  assumes "ingest_tick ser crc due t db = Some (r, db')"
  shows "db_leaderboard db' = db_leaderboard db" "db_snapshots db' = db_snapshots db"
    and "db_stores db' = db_stores db \<or> db_stores db' = (db_stores db)\<lparr>st_market_state :=
      set_price (tick_market_id t) (tick_price t) (tick_timestamp_ns t) (st_market_state (db_stores db))\<rparr>"
  using assms by (auto simp: ingest_tick_def Let_def split_beta split: prod.splits sum.splits option.splits)

lemma process_event_frame:
  "db_leaderboard (snd (process_event ser crc due ev db)) = db_leaderboard db"
  "db_snapshots (snd (process_event ser crc due ev db)) = db_snapshots db"
  "db_stores (snd (process_event ser crc due ev db)) = db_stores db \<or>
   db_stores (snd (process_event ser crc due ev db)) = fst (apply_event ev (db_stores db, db_pubsub db))"
  by (auto simp: process_event_def Let_def split_beta split: prod.splits sum.splits)

lemma snapshot_frame:
  "db_leaderboard (snd (db_snapshot sser io db)) = db_leaderboard db"
  "db_stores (snd (db_snapshot sser io db)) = db_stores db"
  "snapshot_dir_ok (db_snapshots db) \<Longrightarrow> snapshot_dir_ok (db_snapshots (snd (db_snapshot sser io db)))"
  by (auto simp: db_snapshot_def split_beta Let_def snapshot_dir_ok_write)

lemma shutdown_frame:
  assumes "perf_db_shutdown sser io db = Some (r, db')"
  shows "db_leaderboard db' = db_leaderboard db" "db_stores db' = db_stores db"
    and "snapshot_dir_ok (db_snapshots db) \<Longrightarrow> snapshot_dir_ok (db_snapshots db')"
  using assms
  by (auto simp: perf_db_shutdown_def Let_def split_beta sync_wal_def snapshot_frame split: sum.splits option.splits)

lemma db_counts_step: "db_step ser sser crc l db db' \<Longrightarrow> db_counts_ok db \<Longrightarrow> db_counts_ok db'"
proof (induction rule: db_step.induct)
  case (step_event ev db due)
  then show ?case
    using process_event_frame [of ser crc due ev db] trades_balanced_apply [of "(db_stores db, db_pubsub db)" ev]
    by (auto simp: db_counts_ok_def)
next
  case (step_tick due t db r db')
  then show ?case using ingest_tick_frame [OF step_tick.hyps] by (auto simp: db_counts_ok_def)
next
  case (step_shutdown io db r db')
  then show ?case using shutdown_frame [OF step_shutdown.hyps] by (simp add: db_counts_ok_def)
qed (simp_all add: db_counts_ok_def save_checkpoint_def rebuild_leaderboard_def leaderboard_ok_rebuild sync_wal_def snapshot_frame)

lemma stores_ok_step:
  "db_step ser sser crc l db db' \<Longrightarrow> pred_option (event_fits (db_stores db)) l \<Longrightarrow> stores_ok (db_stores db) \<Longrightarrow> stores_ok (db_stores db')"
proof (induction rule: db_step.induct)
  case (step_event ev db due)
  then show ?case
    using process_event_frame(3) [of ser crc due ev db] stores_ok_apply [of "db_stores db" ev "db_pubsub db"] by auto
next
  case (step_tick due t db r db')
  then show ?case using ingest_tick_frame(3) [OF step_tick.hyps] by (auto simp: stores_ok_set_price)
next
  case (step_shutdown io db r db')
  then show ?case using shutdown_frame [OF step_shutdown.hyps] by simp
qed (simp_all add: save_checkpoint_def rebuild_leaderboard_def sync_wal_def snapshot_frame stores_ok_def)

lemma db_ok_iff: "db_ok db \<longleftrightarrow> stores_ok (db_stores db) \<and> db_counts_ok db"
  by (simp add: db_ok_def db_counts_ok_def)

lemma db_counts_reach: "db_reach ser sser crc expected db db' \<Longrightarrow> db_counts_ok db \<Longrightarrow> db_counts_ok db'"
  by (induction rule: db_reach.induct) (auto intro: db_counts_step)

lemma db_ok_reach: "db_reach ser sser crc event_fits db db' \<Longrightarrow> db_ok db \<Longrightarrow> db_ok db'"
  by (induction rule: db_reach.induct) (auto simp: db_ok_iff intro: db_counts_step stores_ok_step)

end
