(* ===== verification/Engine_Snapshot.thy ===== *)
theory Engine_Snapshot
  imports Engine_Invariant
begin

text \<open>
  A snapshot and its restoration. The locale \<open>restorable\<close> is the contract of a store that is
  rebuilt by inserting its rows one by one into an empty one, in any order.
\<close>

locale restorable =
  fixes get :: "'t \<Rightarrow> 'k \<rightharpoonup> 'v" and kid :: "'v \<Rightarrow> 'k" and ins :: "'v \<Rightarrow> 't \<Rightarrow> 't"
    and good :: "('k \<rightharpoonup> 'v) \<Rightarrow> bool" and inv :: "('k \<rightharpoonup> 'v) \<Rightarrow> 't \<Rightarrow> bool"
  assumes get_ins: "get (ins v t) = (get t)(kid v \<mapsto> v)"
    and keyed: "good src \<Longrightarrow> src k = Some v \<Longrightarrow> kid v = k"
    and inv_ins: "good src \<Longrightarrow> src (kid v) = Some v \<Longrightarrow> get t (kid v) = None \<Longrightarrow> get t \<subseteq>\<^sub>m src \<Longrightarrow> inv src t \<Longrightarrow>
      inv src (ins v t)"
begin

lemma fold_ins:
  assumes "good src" "distinct ks" "\<And>k. k \<in> set ks \<Longrightarrow> get t k = None" "get t \<subseteq>\<^sub>m src" "inv src t"
  shows "inv src (fold ins (values_of ks src) t) \<and> get (fold ins (values_of ks src) t) = get t ++ (src |` set ks)"
  using assms
proof (induction ks arbitrary: t)
  case (Cons k ks)
  show ?case
  proof (cases "src k")
    case None
    then have "src |` set (k # ks) = src |` set ks" by (auto simp: restrict_map_def fun_eq_iff)
    then show ?thesis using Cons None by simp
  next
    case (Some v)
    have kv: "kid v = k" using keyed [OF Cons.prems(1) Some] .
    have sub: "get (ins v t) \<subseteq>\<^sub>m src" using Cons.prems(4) Some by (auto simp: get_ins kv map_le_def)
    have dk: "distinct ks" and kn: "k \<notin> set ks" using Cons.prems(2) by simp_all
    have new: "get (ins v t) j = None" if "j \<in> set ks" for j
      using Cons.prems(3) [of j] that kn by (auto simp: get_ins kv)
    have iv: "inv src (ins v t)"
      using inv_ins [OF Cons.prems(1) _ _ Cons.prems(4,5), of v] Cons.prems(3) [of k] Some by (simp add: kv)
    have "inv src (fold ins (values_of ks src) (ins v t)) \<and>
        get (fold ins (values_of ks src) (ins v t)) = get (ins v t) ++ (src |` set ks)"
      by (rule Cons.IH [OF Cons.prems(1) dk new sub iv])
    moreover have "get (ins v t) ++ (src |` set ks) = get t ++ (src |` set (k # ks))"
      using Some kn by (auto simp: get_ins kv map_add_def restrict_map_def fun_eq_iff split: option.splits)
    ultimately show ?thesis using Some by simp
  qed
qed simp

lemma restore:
  assumes "good src" "iterates ks src" "get t0 = Map.empty" "inv src t0"
  shows "inv src (fold ins (values_of ks src) t0)" and "get (fold ins (values_of ks src) t0) = src"
proof -
  have "src |` dom src = src"
  proof
    show "(src |` dom src) x = src x" for x by (cases "src x") (auto simp: restrict_map_def)
  qed
  then show "inv src (fold ins (values_of ks src) t0)" "get (fold ins (values_of ks src) t0) = src"
    using fold_ins [of src ks t0] assms by (simp_all add: iterates_def)
qed

end

section \<open>The stores\<close>

lemma keyed_byD: "keyed_by kid src \<Longrightarrow> src k = Some v \<Longrightarrow> kid v = k"
  unfolding keyed_by_def by blast

interpretation restore_positions: restorable pt_positions pos_position_id positions_insert
  "keyed_by pos_position_id" "\<lambda>_. positions_ok"
  by unfold_locales (simp add: pos_user.prim_ins, erule (1) keyed_byD, rule positions_ok_insert, simp_all)

interpretation restore_orders: restorable ot_orders ord_order_id orders_insert
  "keyed_by ord_order_id" "\<lambda>_. orders_ok"
  by unfold_locales
     (simp add: ord_user.prim_ins, erule (1) keyed_byD, rule orders_ok_insert, simp_all add: order_insertable_def)

interpretation restore_balances: restorable bc_balances bal_key balances_set "keyed_by bal_key" "\<lambda>_. balances_ok"
  by unfold_locales (simp add: balances_set_def bal_key_def Let_def, erule (1) keyed_byD, rule balances_ok_set, simp_all)

interpretation restore_stats: restorable "\<lambda>t. t" ts_address
  "\<lambda>ts t. snd (stats_update (ts_address ts) (\<lambda>_. ts) (stats_ensure (ts_address ts) t))" "keyed_by ts_address" "\<lambda>_ _. True"
proof unfold_locales
  show "snd (stats_update (ts_address v) (\<lambda>_. v) (stats_ensure (ts_address v) t)) = t(ts_address v \<mapsto> v)" for v t
    by (cases "t (ts_address v)") (simp_all add: stats_update_def stats_ensure_def)
qed (erule (1) keyed_byD, simp)

text \<open>Users that can be restored: filed under their address, no two with the same referral code.\<close>

definition users_good :: "(address \<rightharpoonup> user) \<Rightarrow> bool" where
  "users_good src \<longleftrightarrow> keyed_by usr_address src \<and>
     (\<forall>a b u v c. src a = Some u \<longrightarrow> src b = Some v \<longrightarrow> usr_referral_code u = Some c \<longrightarrow>
        usr_referral_code v = Some c \<longrightarrow> c \<noteq> [] \<longrightarrow> a = b)"

lemma users_ok_upsert:
  assumes good: "users_good src" and v: "src (usr_address v) = Some v" and new: "us_users t (usr_address v) = None"
    and sub: "us_users t \<subseteq>\<^sub>m src" and ok: "users_ok t"
  shows "users_ok (users_upsert v t)"
proof -
  let ?a = "usr_address v" and ?t = "users_upsert v t"
  have us: "us_users ?t = (us_users t)(?a \<mapsto> v)" by (simp add: users_upsert_def Let_def)
  have code: "us_by_referral_code ?t c =
      (if c \<noteq> [] \<and> usr_referral_code v = Some c then Some ?a else us_by_referral_code t c)" for c
    by (auto simp: users_upsert_def index_code_def Let_def split: option.splits)
  have old: "b = ?a" if b: "us_users t b = Some u" "usr_referral_code u = Some c" "c \<noteq> []" "usr_referral_code v = Some c" for b u c
  proof -
    have "src b = Some u" using sub b(1) by (auto simp: map_le_def dom_def)
    then show ?thesis using good b v unfolding users_good_def by blast
  qed
  show ?thesis
  proof (rule users_okI)
    fix a u assume "us_users ?t a = Some u"
    then show "usr_address u = a" using users_ok_addr [OF ok, of a u] by (auto simp: us split: if_splits)
  next
    fix c a assume c: "us_by_referral_code ?t c = Some a"
    show "c \<noteq> [] \<and> (\<exists>u. us_users ?t a = Some u \<and> usr_referral_code u = Some c)"
    proof (cases "c \<noteq> [] \<and> usr_referral_code v = Some c")
      case True
      then show ?thesis using c by (simp add: code us)
    next
      case False
      then obtain u where u: "c \<noteq> []" "us_users t a = Some u" "usr_referral_code u = Some c"
        using users_ok_code [OF ok, of c a] c by (auto simp: code)
      then show ?thesis using new by (auto simp: us)
    qed
  next
    fix a u c assume a: "us_users ?t a = Some u" "usr_referral_code u = Some c" "c \<noteq> []"
    show "us_by_referral_code ?t c = Some a"
    proof (cases "a = ?a")
      case True
      then show ?thesis unfolding code using a by (auto simp: us)
    next
      case False
      then have t: "us_users t a = Some u" using a(1) by (simp add: us)
      then have "usr_referral_code v \<noteq> Some c" using old [OF t a(2,3)] False by blast
      then show ?thesis using users_ok_found [OF ok t a(2,3)] by (simp add: code)
    qed
  qed
qed

interpretation restore_users: restorable us_users usr_address users_upsert users_good "\<lambda>_. users_ok"
  by unfold_locales
     (simp add: users_upsert_def Let_def, simp only: users_good_def, erule conjE, erule (1) keyed_byD, rule users_ok_upsert, simp_all)

section \<open>Indices are determined by the rows\<close>

lemma index_ok_unique:
  assumes "index_ok key prim idx" "index_ok key prim idx'"
  shows "idx = idx'"
proof -
  have det: "i x = (if \<exists>k v. prim k = Some v \<and> key v = x then Some {k. \<exists>v. prim k = Some v \<and> key v = x} else None)"
    if ok: "index_ok key prim i" for i x
  proof (cases "i x")
    case None
    have "\<forall>k v. prim k = Some v \<longrightarrow> (\<exists>S. i (key v) = Some S \<and> k \<in> S)"
      using ok by (simp add: index_ok_def index_complete_def)
    then have "\<not> (\<exists>k v. prim k = Some v \<and> key v = x)" using None by (metis option.distinct(1))
    then show ?thesis using None by auto
  next
    case (Some S)
    have sound: "S \<noteq> {}" "\<And>k. k \<in> S \<Longrightarrow> \<exists>v. prim k = Some v \<and> key v = x"
      using ok Some unfolding index_ok_def index_sound_def by blast+
    have "k \<in> S" if "prim k = Some v" "key v = x" for k v
    proof -
      obtain T where "i (key v) = Some T" "k \<in> T"
        using ok \<open>prim k = Some v\<close> unfolding index_ok_def index_complete_def by blast
      then show ?thesis using Some that by simp
    qed
    then have S: "S = {k. \<exists>v. prim k = Some v \<and> key v = x}" using sound by blast
    then have "\<exists>k v. prim k = Some v \<and> key v = x" using sound(1) by blast
    then show ?thesis using Some S by simp
  qed
  show ?thesis by (rule ext) (simp only: det [OF assms(1)] det [OF assms(2)])
qed

lemma positions_eq:
  assumes "positions_ok t" "positions_ok u" "pt_positions t = pt_positions u"
  shows "t = u"
  using assms index_ok_unique [of pos_user_address "pt_positions u" "pt_by_user t" "pt_by_user u"]
    index_ok_unique [of pos_market_id "pt_positions u" "pt_by_market t" "pt_by_market u"]
  by (simp add: positions_ok_def)

lemma balances_eq:
  assumes "balances_ok c" "balances_ok d" "bc_balances c = bc_balances d"
  shows "c = d"
proof -
  have "token_index c = token_index d"
    using assms by (intro index_ok_unique [of bal_user_address "bc_balances d"]) (auto simp: balances_ok_def)
  moreover have "bc_user_tokens e u = map_option (image snd) (token_index e u)" for e u
    by (simp add: token_index_def option.map_comp comp_def option.map_ident)
  ultimately have "bc_user_tokens c u = bc_user_tokens d u" for u by simp
  then show ?thesis using assms(3) by (simp add: fun_eq_iff)
qed

lemma users_eq:
  assumes "users_ok s" "users_ok t" "us_users s = us_users t"
  shows "s = t"
proof -
  have "us_by_referral_code s c = us_by_referral_code t c" for c
  proof (cases "us_by_referral_code s c")
    case (Some a)
    then show ?thesis using users_ok_code [OF assms(1) Some] users_ok_found [OF assms(2)] assms(3) by auto
  next
    case None
    show ?thesis
    proof (cases "us_by_referral_code t c")
      case (Some a)
      obtain u where "c \<noteq> []" "us_users s a = Some u" "usr_referral_code u = Some c"
        using users_ok_code [OF assms(2) Some] assms(3) by auto
      then show ?thesis using users_ok_found [OF assms(1)] None by auto
    qed (use None in simp)
  qed
  then show ?thesis using assms(3) by (simp add: fun_eq_iff)
qed

lemma users_good_ok: "users_ok s \<Longrightarrow> users_good (us_users s)"
  unfolding users_good_def keyed_by_def
proof (intro conjI allI impI)
  fix a b u v c
  assume ok: "users_ok s" and "us_users s a = Some u" "us_users s b = Some v" "usr_referral_code u = Some c"
    "usr_referral_code v = Some c" "c \<noteq> []"
  then show "a = b" using users_ok_found [OF ok, of a u c] users_ok_found [OF ok, of b v c] by simp
qed (rule users_ok_addr)

section \<open>Daily statistics\<close>

lemma fold_put_sub:
  assumes "\<And>e. e \<in> set es \<Longrightarrow> src (key e) = Some (val e)" "m \<subseteq>\<^sub>m src"
  shows "fold (\<lambda>e m. m(key e \<mapsto> val e)) es m = m ++ (src |` (key ` set es))"
  using assms
proof (induction es arbitrary: m)
  case (Cons e es)
  have e: "src (key e) = Some (val e)" using Cons.prems(1) [of e] by simp
  have sub: "m(key e \<mapsto> val e) \<subseteq>\<^sub>m src" using Cons.prems(2) e by (auto simp: map_le_def)
  have es: "src (key x) = Some (val x)" if "x \<in> set es" for x using Cons.prems(1) [of x] that by simp
  have "fold (\<lambda>e m. m(key e \<mapsto> val e)) es (m(key e \<mapsto> val e)) = m(key e \<mapsto> val e) ++ (src |` (key ` set es))"
    by (rule Cons.IH [OF es sub])
  moreover have "m(key e \<mapsto> val e) ++ (src |` (key ` set es)) = m ++ (src |` (key ` set (e # es)))"
    using e by (auto simp: map_add_def restrict_map_def fun_eq_iff split: option.splits)
  ultimately show ?case by (simp only: fold_simps)
qed simp

text \<open>The rows of the daily store that a snapshot keeps: the latest 1000 of each trader.\<close>

definition recent_daily :: "daily_stats_store \<Rightarrow> daily_stats_store" where
  "recent_daily s = (\<lambda>(a, d). if card {d'. d < d' \<and> s (a, d') \<noteq> None} < 1000 then s (a, d) else None)"

text \<open>No trader has more rows than a snapshot keeps.\<close>

definition few_daily :: "daily_stats_store \<Rightarrow> bool" where
  "few_daily s \<longleftrightarrow> (\<forall>a. card {d. s (a, d) \<noteq> None} \<le> 1000)"

lemma recent_daily_few: "few_daily s \<Longrightarrow> recent_daily s = s"
proof
  fix k :: "address \<times> u32" assume few: "few_daily s"
  obtain a d where k: "k = (a, d)" by (cases k)
  show "recent_daily s k = s k"
  proof (cases "s (a, d)")
    case (Some st)
    then have "{d'. d < d' \<and> s (a, d') \<noteq> None} \<subset> {d. s (a, d) \<noteq> None}" by auto
    then have "card {d'. d < d' \<and> s (a, d') \<noteq> None} < card {d. s (a, d) \<noteq> None}" by (intro psubset_card_mono) simp_all
    also have "\<dots> \<le> 1000" using few by (simp only: few_daily_def)
    finally show ?thesis by (simp add: recent_daily_def k)
  qed (simp add: recent_daily_def k)
qed

text \<open>The first elements of a list in descending order are those with few elements above them.\<close>

lemma set_take_desc:
  fixes key :: "'a \<Rightarrow> 'k::linorder"
  assumes sd: "sorted_wrt (\<lambda>x y. key y \<le> key x) xs" and ds: "distinct (map key xs)"
  shows "set (take n xs) = {x \<in> set xs. card {y \<in> set xs. key x < key y} < n}"
proof -
  have less: "key (xs ! j) < key (xs ! i)" if "i < j" "j < length xs" for i j
    using sorted_wrt_nth_less [OF sd that] nth_eq_iff_index_eq [OF ds, of i j] that by (force simp: order_less_le)
  have above: "{y \<in> set xs. key (xs ! i) < key y} = set (take i xs)" if i: "i < length xs" for i
  proof (intro set_eqI iffI)
    fix y assume "y \<in> {y \<in> set xs. key (xs ! i) < key y}"
    then obtain j where j: "j < length xs" "y = xs ! j" "key (xs ! i) < key (xs ! j)" by (auto simp: in_set_conv_nth)
    then have "j < i" using less [of i j] by (metis linorder_neqE_nat order_less_asym order_less_irrefl)
    then show "y \<in> set (take i xs)" using j by (auto simp: in_set_conv_nth)
  next
    fix y assume "y \<in> set (take i xs)"
    then obtain j where j: "j < i" "y = xs ! j" by (auto simp: in_set_conv_nth)
    then show "y \<in> {y \<in> set xs. key (xs ! i) < key y}" using less [OF j(1) i] i by simp
  qed
  have card: "card {y \<in> set xs. key (xs ! i) < key y} = i" if "i < length xs" for i
    using that ds distinct_card [of "take i xs"] by (simp add: above distinct_map)
  show ?thesis
  proof (intro set_eqI iffI)
    fix x assume "x \<in> set (take n xs)"
    then obtain i where "i < n" "i < length xs" "x = xs ! i" by (auto simp: in_set_conv_nth)
    then show "x \<in> {x \<in> set xs. card {y \<in> set xs. key x < key y} < n}" by (simp add: card)
  next
    fix x assume x: "x \<in> {x \<in> set xs. card {y \<in> set xs. key x < key y} < n}"
    then obtain i where i: "i < length xs" "x = xs ! i" by (auto simp: in_set_conv_nth)
    moreover have "i < n" using x card [OF i(1)] by (simp add: i(2))
    ultimately show "x \<in> set (take n xs)" by (auto simp: in_set_conv_nth)
  qed
qed

lemma trader_daily_history_recent:
  assumes it: "iterates ks s" and ok: "daily_ok s"
  shows "set (trader_daily_history ks s a 1000) = {st. \<exists>d. recent_daily s (a, d) = Some st}"
proof -
  let ?ks = "filter (\<lambda>k. fst k = a) ks"
  let ?vs = "values_of ?ks s"
  let ?xs = "sort_desc ds_date ?vs"
  have date: "ds_date st = d" if "s (a, d) = Some st" for d st using ok that by (simp add: daily_ok_def)
  have vs: "set ?vs = {st. \<exists>d. s (a, d) = Some st}" using it by (fastforce simp: set_values_of iterates_def)
  have dist: "distinct (map ds_date (values_of xs s))" if "distinct xs" "\<forall>k \<in> set xs. fst k = a" for xs
    using that by (induction xs) (auto simp: set_values_of date split: option.splits)
  have "distinct (map ds_date ?vs)" using it by (intro dist) (auto simp: iterates_def)
  then have "inj_on ds_date (set ?vs)" "distinct (map ds_date ?xs)"
    using it distinct_map [of ds_date ?xs] by (simp_all add: distinct_map)
  note inj = this(1) and take = set_take_desc [OF sorted_sort_desc this(2), of 1000]
  have card: "card {y \<in> set ?vs. ds_date st < ds_date y} = card {d'. d < d' \<and> s (a, d') \<noteq> None}" if "s (a, d) = Some st" for d st
  proof -
    have image: "ds_date ` {y \<in> set ?vs. ds_date st < ds_date y} = {d'. d < d' \<and> s (a, d') \<noteq> None}"
      using date date [OF that] by (force simp: vs)
    have "inj_on ds_date {y \<in> set ?vs. ds_date st < ds_date y}" by (rule inj_on_subset [OF inj]) (rule Collect_restrict)
    from card_image [OF this] show ?thesis by (simp only: image)
  qed
  have mem: "st \<in> set (trader_daily_history ks s a 1000) \<longleftrightarrow>
      st \<in> set ?vs \<and> card {y \<in> set ?vs. ds_date st < ds_date y} < 1000" for st
    by (simp add: trader_daily_history_def take)
  show ?thesis
  proof (intro set_eqI iffI)
    fix st assume "st \<in> set (trader_daily_history ks s a 1000)"
    then obtain d where d: "s (a, d) = Some st" "card {y \<in> set ?vs. ds_date st < ds_date y} < 1000" by (auto simp: mem vs)
    then have "recent_daily s (a, d) = Some st" by (simp only: card recent_daily_def prod.case if_True)
    then show "st \<in> {st. \<exists>d. recent_daily s (a, d) = Some st}" by blast
  next
    fix st assume "st \<in> {st. \<exists>d. recent_daily s (a, d) = Some st}"
    then obtain d where d: "s (a, d) = Some st" "card {d'. d < d' \<and> s (a, d') \<noteq> None} < 1000"
      by (auto simp: recent_daily_def split: if_splits)
    then have "card {y \<in> set ?vs. ds_date st < ds_date y} < 1000" by (simp only: card)
    moreover have "st \<in> set ?vs" using d(1) vs by blast
    ultimately show "st \<in> set (trader_daily_history ks s a 1000)" by (simp only: mem simp_thms)
  qed
qed

lemma restore_daily:
  assumes ok: "stores_ok s" and c: "iterates (so_daily_traders io) (st_trader_stats s)" "\<And>a. iterates (so_daily io a) (st_daily_stats s)"
  shows "fold (\<lambda>e. set_trader_daily (de_address e) (ds_date (de_stats e)) (de_stats e)) (daily_entries io s) daily_new =
    recent_daily (st_daily_stats s)"
proof -
  let ?src = "recent_daily (st_daily_stats s)" and ?es = "daily_entries io s"
  have sub: "st_daily_stats s k = Some st" if "?src k = Some st" for k st
    using that by (auto simp: recent_daily_def split: prod.splits if_splits)
  have d: "ds_date st = dt" if "?src (a, dt) = Some st" for a dt st
    using ok sub [OF that] by (auto simp: stores_ok_def daily_ok_def)
  have hist: "set (trader_daily_history (so_daily io a) (st_daily_stats s) a 1000) = {st. \<exists>dt. ?src (a, dt) = Some st}" for a
    using ok by (intro trader_daily_history_recent c(2)) (simp add: stores_ok_def)
  have traders: "ts_address ` set (stats_all (so_daily_traders io) (st_trader_stats s)) = dom (st_trader_stats s)"
  proof -
    have "set (stats_all (so_daily_traders io) (st_trader_stats s)) = ran (st_trader_stats s)"
      using c by (simp add: stats_all_def values_of_iterates)
    moreover have "ts_address t = a" if "st_trader_stats s a = Some t" for a t
      using ok that by (auto simp: stores_ok_def stats_ok_def)
    ultimately show ?thesis by (force simp: ran_def dom_def)
  qed
  have mem: "e \<in> set ?es \<longleftrightarrow> de_address e \<in> dom (st_trader_stats s) \<and> (\<exists>dt. ?src (de_address e, dt) = Some (de_stats e))" for e
    unfolding traders [symmetric] by (cases e) (auto simp: daily_entries_def hist)
  have put: "fold (\<lambda>e. set_trader_daily (de_address e) (ds_date (de_stats e)) (de_stats e)) ?es daily_new =
      fold (\<lambda>e m. m((de_address e, ds_date (de_stats e)) \<mapsto> de_stats e)) ?es Map.empty"
    by (simp add: set_trader_daily_def [abs_def] daily_new_def)
  have "\<dots> = Map.empty ++ (?src |` ((\<lambda>e. (de_address e, ds_date (de_stats e))) ` set ?es))"
    using d by (intro fold_put_sub) (auto simp: mem)
  also have "(\<lambda>e. (de_address e, ds_date (de_stats e))) ` set ?es = dom ?src"
  proof (intro set_eqI iffI)
    fix k assume "k \<in> dom ?src"
    then obtain a dt st where k: "k = (a, dt)" "?src (a, dt) = Some st" by (cases k) auto
    let ?e = "\<lparr>de_address = a, de_stats = st\<rparr>"
    have "st_trader_stats s a \<noteq> None" using ok k(1) sub [OF k(2)] unfolding stores_ok_def by (metis option.distinct(1))
    then have "?e \<in> set ?es" using k by (auto simp: mem)
    then show "k \<in> (\<lambda>e. (de_address e, ds_date (de_stats e))) ` set ?es"
      using d [OF k(2)] k(1) by (intro image_eqI [of _ _ ?e]) simp_all
  qed (use d in \<open>auto simp: mem\<close>)
  also have "Map.empty ++ (?src |` dom ?src) = ?src"
  proof
    show "(Map.empty ++ (?src |` dom ?src)) x = ?src x" for x by (cases "?src x") (auto simp: map_add_def restrict_map_def)
  qed
  finally show ?thesis by (simp only: put)
qed

section \<open>Market state\<close>

lemma restore_market_slot:
  assumes "slot_at t (sm_market_id ms) = Some market_slot_new" "market_snapshot_of src m = Some snap"
    "ms = snapshot_market_state_of snap"
  shows "slot_at (restore_market_state ms t) n = (if n = m then slot_at src m else slot_at t n)"
proof -
  obtain slot where slot: "slot_at src m = Some slot" using assms(2) by (auto simp: market_snapshot_of_def split: option.splits)
  then have id: "sm_market_id ms = m"
    using assms(2,3) by (auto simp: market_snapshot_of_def snapshot_market_state_of_def Let_def)
  show ?thesis
    using slot assms id
    by (cases slot; cases "sl_inner slot")
       (auto simp: restore_market_state_def market_write_defs slot_at_on_slot market_snapshot_of_def
        snapshot_market_state_of_def Let_def market_slot_new_def market_inner_default_def)
qed

lemma length_restore_market [simp]: "length (restore_market_state ms t) = length t"
  by (simp add: restore_market_state_def Let_def)

lemma restore_markets_fold:
  assumes "distinct ids" "\<And>m. m \<in> set ids \<Longrightarrow> unat m < MARKET_COUNT \<and> slot_at t m = Some market_slot_new"
    and "length src = MARKET_COUNT"
  shows "slot_at (fold restore_market_state
      (List.map_filter (\<lambda>i. map_option snapshot_market_state_of (market_snapshot_of src i)) ids) t) n =
    (if n \<in> set ids then slot_at src n else slot_at t n)"
  using assms
proof (induction ids arbitrary: t)
  case (Cons m ids)
  have "slot_at src m \<noteq> None" using Cons.prems(2) [of m] Cons.prems(3) by (simp add: slot_at_def)
  then obtain snap where snap: "market_snapshot_of src m = Some snap"
    by (auto simp: market_snapshot_of_def Let_def)
  let ?ms = "snapshot_market_state_of snap"
  have id: "sm_market_id ?ms = m"
    using snap by (auto simp: market_snapshot_of_def snapshot_market_state_of_def Let_def split: option.splits)
  have slots: "slot_at (restore_market_state ?ms t) k = (if k = m then slot_at src m else slot_at t k)" for k
    using Cons.prems(2) [of m] by (intro restore_market_slot [OF _ snap refl]) (simp add: id)
  have "slot_at (fold restore_market_state
      (List.map_filter (\<lambda>i. map_option snapshot_market_state_of (market_snapshot_of src i)) ids) (restore_market_state ?ms t)) n =
    (if n \<in> set ids then slot_at src n else slot_at (restore_market_state ?ms t) n)"
    using Cons.prems by (intro Cons.IH) (auto simp: slots)
  then show ?case using Cons.prems(1) snap by (auto simp: map_filter_simps slots)
qed (simp add: map_filter_simps)

lemma length_restore_fold [simp]: "length (fold restore_market_state xs t) = length t"
  by (induction xs arbitrary: t) simp_all

lemma restore_markets:
  assumes "length src = MARKET_COUNT"
  shows "fold restore_market_state
      (List.map_filter (\<lambda>i. map_option snapshot_market_state_of (market_snapshot_of src i)) all_markets) market_state_new = src"
proof (rule market_table_eqI)
  fix n
  have "slot_at (fold restore_market_state
      (List.map_filter (\<lambda>i. map_option snapshot_market_state_of (market_snapshot_of src i)) all_markets) market_state_new) n =
    (if n \<in> set all_markets then slot_at src n else slot_at market_state_new n)"
    using assms distinct_all_markets by (intro restore_markets_fold) (auto simp: set_all_markets)
  then show "slot_at (fold restore_market_state
      (List.map_filter (\<lambda>i. map_option snapshot_market_state_of (market_snapshot_of src i)) all_markets) market_state_new) n =
    slot_at src n"
    using assms by (auto simp: set_all_markets slot_at_def)
qed (simp_all add: assms)

section \<open>The whole snapshot\<close>

text \<open>The iteration orders of a snapshot visit every row once.\<close>

definition snapshot_orders_ok :: "snapshot_orders \<Rightarrow> stores \<Rightarrow> bool" where
  "snapshot_orders_ok io s \<longleftrightarrow>
     iterates (so_positions io) (pt_positions (st_positions s)) \<and> iterates (so_orders io) (ot_orders (st_orders s)) \<and>
     iterates (so_balances io) (bc_balances (st_balances s)) \<and> iterates (so_users io) (us_users (st_users s)) \<and>
     iterates (so_trader_stats io) (st_trader_stats s) \<and> iterates (so_daily_traders io) (st_trader_stats s) \<and>
     (\<forall>a. iterates (so_daily io a) (st_daily_stats s))"

text \<open>
  What a restored state shares with the original: everything but the event history, the
  order of the ids inside a price level, and the daily rows of a trader beyond the latest 1000.
\<close>

definition restored :: "stores \<Rightarrow> stores \<Rightarrow> bool" where
  "restored s t \<longleftrightarrow>
     st_market_state t = st_market_state s \<and> st_positions t = st_positions s \<and> st_balances t = st_balances s \<and>
     st_users t = st_users s \<and> st_checkpoint t = st_checkpoint s \<and> st_trader_stats t = st_trader_stats s \<and>
     st_daily_stats t = recent_daily (st_daily_stats s) \<and> ot_orders (st_orders t) = ot_orders (st_orders s) \<and>
     ot_by_user (st_orders t) = ot_by_user (st_orders s) \<and> orders_ok (st_orders t) \<and> st_events t = events_new"

lemma stats_ok_keyed: "stats_ok s \<longleftrightarrow> keyed_by ts_address s"
  by (simp add: stats_ok_def keyed_by_def)

lemma restore_snapshot_of:
  assumes ok: "stores_ok s" and io: "snapshot_orders_ok io s"
  shows "restored s (restore_snapshot (state_snapshot_of io s) stores_new)"
proof -
  let ?r = "restore_snapshot (state_snapshot_of io s) stores_new"
  have P: "positions_ok (st_positions s)" and O: "orders_ok (st_orders s)" and B: "balances_ok (st_balances s)"
    and U: "users_ok (st_users s)" and T: "stats_ok (st_trader_stats s)"
    and M: "length (st_market_state s) = MARKET_COUNT"
    using ok by (simp_all add: stores_ok_def)
  have "st_positions ?r = st_positions s"
  proof (rule positions_eq [OF _ P])
    show "positions_ok (st_positions ?r)" "pt_positions (st_positions ?r) = pt_positions (st_positions s)"
      using restore_positions.restore [of "pt_positions (st_positions s)" "so_positions io" positions_new] P io positions_ok_new
      by (simp_all add: restore_snapshot_def state_snapshot_of_def stores_new_def Let_def positions_all_def
          positions_ok_def snapshot_orders_ok_def positions_new_def)
  qed
  moreover have "st_balances ?r = st_balances s"
  proof (rule balances_eq [OF _ B])
    show "balances_ok (st_balances ?r)" "bc_balances (st_balances ?r) = bc_balances (st_balances s)"
      using restore_balances.restore [of "bc_balances (st_balances s)" "so_balances io" balances_new] B io balances_ok_new
      by (simp_all add: restore_snapshot_def state_snapshot_of_def stores_new_def Let_def balances_all_def
          balances_ok_def snapshot_orders_ok_def balances_new_def)
  qed
  moreover have "st_users ?r = st_users s"
  proof (rule users_eq [OF _ U])
    show "users_ok (st_users ?r)" "us_users (st_users ?r) = us_users (st_users s)"
      using restore_users.restore [of "us_users (st_users s)" "so_users io" users_new] users_good_ok [OF U] io users_ok_new
      by (simp_all add: restore_snapshot_def state_snapshot_of_def stores_new_def Let_def users_all_def
          snapshot_orders_ok_def users_new_def)
  qed
  moreover have "st_trader_stats ?r = st_trader_stats s"
    using restore_stats.restore [of "st_trader_stats s" "so_trader_stats io" Map.empty] T io
    by (simp add: restore_snapshot_def state_snapshot_of_def stores_new_def Let_def stats_all_def
        snapshot_orders_ok_def stats_ok_keyed stats_new_def)
  moreover have "st_daily_stats ?r = recent_daily (st_daily_stats s)"
    using restore_daily [OF ok, of io] io
    by (simp add: restore_snapshot_def state_snapshot_of_def stores_new_def Let_def snapshot_orders_ok_def)
  moreover have "st_market_state ?r = st_market_state s"
    using restore_markets [OF M] by (simp add: restore_snapshot_def state_snapshot_of_def stores_new_def Let_def)
  moreover have "orders_ok (st_orders ?r)" "ot_orders (st_orders ?r) = ot_orders (st_orders s)"
    using restore_orders.restore [of "ot_orders (st_orders s)" "so_orders io" orders_new] O io orders_ok_new
    by (simp_all add: restore_snapshot_def state_snapshot_of_def stores_new_def Let_def orders_all_def
        orders_ok_def snapshot_orders_ok_def orders_new_def)
  moreover from this have "ot_by_user (st_orders ?r) = ot_by_user (st_orders s)"
    using O index_ok_unique [of ord_user_address "ot_orders (st_orders s)"] by (simp add: orders_ok_def)
  moreover have "st_checkpoint ?r = st_checkpoint s"
    by (simp add: restore_snapshot_def state_snapshot_of_def stores_new_def Let_def checkpoint_save_def
        snapshot_checkpoint_of_def checkpoint_snapshot_of_def)
  moreover have "st_events ?r = events_new"
    by (simp add: restore_snapshot_def stores_new_def)
  ultimately show ?thesis by (simp add: restored_def)
qed

end
