(* ===== verification/Engine_Lifecycle.thy ===== *)
theory Engine_Lifecycle
  imports Engine_Recovery Engine_Steps Engine_Snapshot
begin

text \<open>
  Whole lives of a database: opened in an empty directory, fed with events and ticks, synced
  or saved as a snapshot, and opened again.
\<close>

lemma db_run_snapshots: "db_run ser crc xs db = Some db' \<Longrightarrow> db_snapshots db' = db_snapshots db"
proof (induction ser crc xs db rule: db_run.induct)
  case (2 ser crc due ev xs db)
  then show ?case by (simp add: process_event_frame)
next
  case (3 ser crc due t xs db)
  then obtain r db1 where i: "ingest_tick ser crc due t db = Some (r, db1)" "db_run ser crc xs db1 = Some db'"
    by (auto split: option.splits)
  then have "db_snapshots db' = db_snapshots db1" using "3.IH" [OF i(1) refl] by simp
  then show ?case using ingest_tick_frame(2) [OF i(1)] by simp
qed simp

lemma recovery_inv_sync: "recovery_inv ser crc n es db \<Longrightarrow> recovery_inv ser crc n es (sync_wal db)"
  by (simp add: recovery_inv_def sync_wal_def series_ok_def wal_holds_sync)

lemma sync_wal_frame [simp]:
  "db_stores (sync_wal db) = db_stores db" "db_snapshots (sync_wal db) = db_snapshots db"
  "ww_buf (fst (db_wal (sync_wal db))) = []" "db_ticks (sync_wal db) m = db_ticks db m"
  "db_candles (sync_wal db) m tf = db_candles db m tf"
  by (simp_all add: sync_wal_def db_ticks_def db_candles_def)

text \<open>A run on a new database, a sync, and a second opening.\<close>

lemma run_and_recover:
  assumes ok: "\<forall>(due, x) \<in> set xs. recoverable x \<and> entry_codec_ok ser de (input_entry x)"
    and lim: "length xs < SERIES_LIMIT"
    and db0: "perf_db_open sde de crc [] [] [segment_path 0] config empty_data_dir = Some (Inr db0)"
  shows "\<exists>db1. db_run ser crc xs db0 = Some db1 \<and>
    (\<forall>names. enumerates names (dom (dd_wal (data_dir_of (sync_wal db1)))) \<longrightarrow>
      (\<exists>db2. perf_db_open sde de crc [] names names config (data_dir_of (sync_wal db1)) = Some (Inr db2) \<and>
        erase (db_stores db1) = erase (db_stores db2) \<and>
        (\<forall>m. db_ticks db2 m = db_ticks db1 m) \<and> (\<forall>m tf. db_candles db2 m tf = db_candles db1 m tf)))"
proof -
  have inv: "recovery_inv ser crc 0 [] db0" and snap: "db_snapshots db0 = Map.empty"
    using open_new_inv [OF db0] by simp_all
  have "\<forall>(due, x) \<in> set xs. recoverable x \<and> ser (input_entry x) \<noteq> None"
    using ok by (auto simp: entry_codec_ok_def split: option.splits)
  then obtain db1 where run: "db_run ser crc xs db0 = Some db1"
    and inv1: "recovery_inv ser crc (length xs) (map (\<lambda>y. input_entry (snd y)) xs) db1"
    using recovery_run [OF inv, of xs] lim by auto
  have codec: "\<forall>e \<in> set (map (\<lambda>y. input_entry (snd y)) xs). entry_codec_ok ser de e" using ok by auto
  have "db_snapshots (sync_wal db1) = Map.empty" using db_run_snapshots [OF run] snap by simp
  then show ?thesis
    using run open_recovers [OF recovery_inv_sync [OF inv1] _ _ _ codec open_bus(1) [OF db0], where sde = sde]
    by (fastforce simp: data_dir_of_def same_erased_iff)
qed

text \<open>A snapshot that is written at the greatest block number is the one loaded, and restores the stores.\<close>

lemma snapshot_and_restore:
  assumes ok: "stores_ok (db_stores db)" and io: "snapshot_orders_ok io (db_stores db)"
    and codec: "sser (state_snapshot_of io (db_stores db)) = Some p" "sde p = Some (state_snapshot_of io (db_stores db))"
    and dir: "snapshot_dir_ok (db_snapshots db)"
    and newest: "\<And>b. db_snapshots db (snapshot_filename b) \<noteq> None \<Longrightarrow> b \<le> cp_last_block (st_checkpoint (db_stores db))"
    and names: "enumerates names (dom (db_snapshots (snd (db_snapshot sser io db))))"
  shows "load_latest_snapshot sde names (db_snapshots (snd (db_snapshot sser io db))) =
      Inr (Some (state_snapshot_of io (db_stores db)))"
    and "restored (db_stores db) (restore_snapshot (state_snapshot_of io (db_stores db)) stores_new)"
proof -
  let ?b = "cp_last_block (st_checkpoint (db_stores db))"
  let ?d = "db_snapshots (snd (db_snapshot sser io db))"
  have b: "sc_last_block (ss_checkpoint (state_snapshot_of io (db_stores db))) = ?b"
    by (simp add: state_snapshot_of_def Let_def snapshot_checkpoint_of_def checkpoint_snapshot_of_def)
  have d: "?d = (db_snapshots db)(snapshot_filename ?b \<mapsto> p)"
    using codec(1) by (simp add: db_snapshot_def write_snapshot_def split_beta Let_def b)
  have "load_latest_snapshot sde names ?d =
      (case read_snapshot sde ?d (snapshot_filename ?b) of Inl e \<Rightarrow> Inl e | Inr s \<Rightarrow> Inr (Some s))"
    by (rule load_latest_max [OF snapshot_frame(3) [OF dir] names]) (use newest in \<open>auto simp: d split: if_splits\<close>)
  then show "load_latest_snapshot sde names ?d = Inr (Some (state_snapshot_of io (db_stores db)))"
    using codec(2) by (simp add: read_snapshot_def d)
  show "restored (db_stores db) (restore_snapshot (state_snapshot_of io (db_stores db)) stores_new)"
    by (rule restore_snapshot_of [OF ok io])
qed

lemma db_ok_open:
  assumes "perf_db_open sde de crc [] [] [segment_path 0] config empty_data_dir = Some (Inr db)"
  shows "db_ok db"
proof -
  have "db_stores db = stores_new" "db_snapshots db = Map.empty"
    using open_new_inv [OF assms] by simp_all
  moreover have "db_leaderboard db = leaderboard_new (pc_leaderboard_max config)"
    using assms by (auto simp: perf_db_open_def Let_def split: sum.splits option.splits prod.splits)
  ultimately show ?thesis
    using trades_balanced_new
    by (simp add: db_ok_def stores_ok_new leaderboard_ok_new snapshot_dir_ok_def) (simp add: stores_new_def)
qed

text \<open>Ticks fed to a new database become series, closed candles, a live candle and the latest price.\<close>

lemma ticks_run:
  assumes "perf_db_open sde de crc [] [] [segment_path 0] config empty_data_dir = Some (Inr db0)"
    and "\<forall>t \<in> set ts. price_tick_valid t \<and> unat (tick_market_id t) < MARKET_COUNT \<and> ser (tick_entry t) \<noteq> None"
    and "length ts < SERIES_LIMIT" "unat m < MARKET_COUNT"
  shows "\<exists>db. ingest_ticks ser crc dues ts db0 = Some db \<and>
    (let mine = filter (\<lambda>t. tick_market_id t = m) ts; gs = runs (tick_bucket tf) mine in
      db_ticks db m = Some mine \<and>
      db_candles db m tf = Some (map (candle_of_run m tf) (butlast gs)) \<and>
      db_live_candle db m tf = (if gs = [] then None else Some (candle_of_run m tf (last gs))) \<and>
      db_latest_price db m = (if mine = [] then F64 0 else tick_price (last mine)))"
proof -
  note new = open_new_series [OF assms(1)]
  obtain db where db: "ingest_ticks ser crc dues ts db0 = Some db"
    "series_ok (0 + length ts) db (\<lambda>m. [] @ filter (\<lambda>t. tick_market_id t = m) ts)
      (\<lambda>(m, tf). [] @ closed_candles m tf (fst (on_ticks ts candle_builder_new)))"
    "db_candle_builder db = snd (on_ticks ts candle_builder_new)"
    "st_market_state (db_stores db) = fold price_of_tick ts market_state_new"
    using ingest_ticks_ok [OF new(1) _ assms(2), of crc dues] assms(3) new(2,3) by (auto simp: stores_new_def)
  have repr: "tick_store_repr (db_tick_store db) (\<lambda>m. filter (\<lambda>t. tick_market_id t = m) ts)"
    "candle_store_repr (db_candle_store db) (\<lambda>(m, tf). closed_candles m tf (fst (on_ticks ts candle_builder_new)))"
    using db(2) by (simp_all add: series_ok_def)
  have p0: "latest_price market_state_new m = F64 0" by (simp add: latest_price_def assms(4) market_slot_new_def)
  have "db_latest_price db m =
      (case last_opt (filter (\<lambda>t. tick_market_id t = m) ts) of None \<Rightarrow> F64 0 | Some t \<Rightarrow> tick_price t)"
    using latest_price_of_ticks [of market_state_new m ts] assms(4)
    by (simp add: db_latest_price_def db(4) p0 cong: option.case_cong)
  moreover have "length (snd (on_ticks ts candle_builder_new)) = MARKET_COUNT * TF_COUNT"
    using builder_ok_on_ticks [OF builder_ok_new] by (simp add: builder_ok_def)
  moreover note on_ticks_slot [OF assms(4), of tf ts]
  ultimately show ?thesis
    using db assms(4)
    by (simp add: db_ticks_def db_candles_def db_live_candle_def builder_current_def slot_of_runs_def
        tick_store_ticks_repr [OF repr(1)] candle_store_candles_repr [OF repr(2)] flat_index_bound Let_def last_opt_def)
qed

end
