(* ===== verification/Wal_Crash.thy ===== *)
theory Wal_Crash
  imports Wal_Log
begin

text \<open>
  The log after a crash and after truncation: what \<open>SyncPolicy::EveryWrite\<close> makes durable, what
  \<open>truncate_before\<close> removes, and what a writer that reopens a torn segment loses.
\<close>

section \<open>Durability under EveryWrite\<close>

lemma entry_codec_ok_ser: "entry_codec_ok ser de e \<Longrightarrow> ser e \<noteq> None"
  by (auto simp: entry_codec_ok_def split: option.splits)

lemma wal_rotate_fst [simp]:
  "ww_buf (fst (wal_rotate st)) = []" "ww_config (fst (wal_rotate st)) = ww_config (fst st)"
  by (simp_all add: wal_rotate_def split_beta Let_def)

lemma wal_append_config [simp]:
  "ww_config (fst (snd (wal_append ser crc due e st))) = ww_config (fst st)"
  by (cases "ser e") (simp_all add: wal_append_def Let_def split: sync_policy.splits)

lemma wal_append_every_write:
  assumes "wc_sync_policy (ww_config (fst st)) = EveryWrite" "ser e \<noteq> None"
  shows "ww_buf (fst (snd (wal_append ser crc due e st))) = []"
  using assms by (auto simp: wal_append_def Let_def)

lemma append_run_every_write:
  assumes "wc_sync_policy (ww_config (fst st)) = EveryWrite" "ww_buf (fst st) = []"
    and "\<forall>(due, e) \<in> set xs. ser e \<noteq> None"
  shows "ww_buf (fst (append_run ser crc xs st)) = []"
  using assms
proof (induction xs arbitrary: st)
  case (Cons x xs)
  obtain due e where x: "x = (due, e)" by (cases x)
  have "ww_buf (fst (append_run ser crc xs (snd (wal_append ser crc due e st)))) = []"
    using Cons.prems by (intro Cons.IH) (simp_all add: x wal_append_every_write del: not_None_eq)
  then show ?case by (simp add: x)
qed simp

section \<open>A torn tail\<close>

text \<open>
  Bytes written after an incomplete entry are taken for the rest of that entry: until the
  promised length is reached, the segment replays to nothing from there on.
\<close>

lemma replay_torn_tail:
  assumes n: "ENTRY_HEADER_SIZE \<le> n" "n + length rest < length (frame crc p)" and p: "length p \<le> MAX_ENTRY_LEN"
  shows "replay_bytes de crc (take n (frame crc p) @ rest) = []"
proof -
  have 4: "take 4 (take n (frame crc p) @ rest) = u32_to_le (word_of_nat (length p))"
    using n by (simp add: frame_def ENTRY_HEADER_SIZE_def min_def)
  have len: "length (take n (frame crc p) @ rest) < ENTRY_HEADER_SIZE + length p" using n by simp
  show ?thesis
    using len by (subst replay_bytes.simps) (simp add: 4 unat_entry_len [OF p] Let_def del: length_append take_append)
qed

lemma replay_frames_torn_tail:
  assumes "\<forall>e \<in> set es. entry_codec_ok ser de e" "ENTRY_HEADER_SIZE \<le> n"
    and "n + length rest < length (frame crc p)" "length p \<le> MAX_ENTRY_LEN"
  shows "replay_bytes de crc (frames ser crc es @ take n (frame crc p) @ rest) = es"
  using assms by (simp add: replay_frames replay_torn_tail)

text \<open>A log's directory can be listed.\<close>

lemma wal_repr_names:
  assumes "wal_repr closed cur st"
  shows "\<exists>names. enumerates names (dom (snd st))"
proof -
  have "finite (dom (snd st))" using assms by (cases st) (simp add: wal_repr_def)
  from finite_distinct_list [OF this] show ?thesis by (auto simp: enumerates_def)
qed

lemma wal_holds_names: "wal_holds ser crc es st \<Longrightarrow> \<exists>names. enumerates names (dom (snd st))"
  unfolding wal_holds_def using wal_repr_names by blast

lemma wal_append_names:
  assumes "wal_repr closed cur st" "ser e = Some p" "Suc (length closed) < 2 ^ 64"
  shows "\<exists>names. enumerates names (dom (snd (wal_sync (snd (wal_append ser crc due e st)))))"
  using wal_repr_append [where ser = ser and crc = crc and due = due, OF assms]
proof
  assume "wal_repr closed (cur @ frame crc p) (snd (wal_append ser crc due e st))"
  then show ?thesis by (rule wal_repr_names [OF wal_repr_sync])
next
  assume "wal_repr (closed @ [cur @ frame crc p]) [] (snd (wal_append ser crc due e st))"
  then show ?thesis by (rule wal_repr_names [OF wal_repr_sync])
qed

lemma wal_repr_open_one: "wal_repr [] bs (wal_open config [segment_path 0] [segment_path 0 \<mapsto> bs])"
proof -
  have "{i :: u64. unat i = 0} = {0}" by (auto simp: unat_eq_0)
  then show ?thesis
    by (simp add: wal_open_def find_latest_segment_def list_segments_def map_filter_simps wal_repr_def
        open_append_def Let_def)
qed

section \<open>Truncation\<close>

text \<open>Every file with a segment's name has the name the writer gives it.\<close>

definition wal_dir_ok :: "dir \<Rightarrow> bool" where
  "wal_dir_ok d \<longleftrightarrow> (\<forall>p \<in> dom d. \<forall>i. parse_numbered ''wal_'' p = Some i \<longrightarrow> p = segment_path i)"

lemma set_list_segments: "set (list_segments names) = {i. \<exists>p \<in> set names. parse_numbered ''wal_'' p = Some i}"
  by (induction names) (auto simp: list_segments_def map_filter_simps split: option.splits)

lemma distinct_list_segments:
  assumes "wal_dir_ok d" "set names \<subseteq> dom d" "distinct names"
  shows "distinct (list_segments names)"
  using assms(2,3)
proof (induction names)
  case (Cons p names)
  then have IH: "distinct (list_segments names)" by simp
  have "i \<notin> set (list_segments names)" if i: "parse_numbered ''wal_'' p = Some i" for i
  proof
    assume "i \<in> set (list_segments names)"
    then obtain q where "q \<in> set names" "parse_numbered ''wal_'' q = Some i" by (auto simp: set_list_segments)
    moreover from this i Cons.prems(1) assms(1) have "p = segment_path i" "q = segment_path i"
      by (auto simp: wal_dir_ok_def)
    ultimately show False using Cons.prems(2) by simp
  qed
  with IH show ?case by (auto simp: list_segments_def map_filter_simps split: option.splits)
qed (simp add: list_segments_def map_filter_simps)

lemma remove_segments_ok:
  assumes "distinct ids" "\<And>i. i \<in> set ids \<Longrightarrow> d (segment_path i) \<noteq> None"
  shows "\<exists>d'. remove_segments keep ids (k, d) = Inr (k + word_of_nat (length (filter (\<lambda>i. i < keep) ids)), d') \<and>
    (\<forall>p. d' p = (if \<exists>i \<in> set ids. p = segment_path i \<and> i < keep then None else d p))"
  using assms
proof (induction ids arbitrary: k d)
  case (Cons i ids)
  show ?case
  proof (cases "i < keep")
    case True
    let ?d = "d(segment_path i := None)"
    have "?d (segment_path j) \<noteq> None" if "j \<in> set ids" for j
      using that Cons.prems(1) Cons.prems(2) [of j] by auto
    then obtain d' where d': "remove_segments keep ids (k + 1, ?d) =
        Inr (k + 1 + word_of_nat (length (filter (\<lambda>i. i < keep) ids)), d')"
      "\<forall>p. d' p = (if \<exists>i \<in> set ids. p = segment_path i \<and> i < keep then None else ?d p)"
      using Cons.IH [of ?d "k + 1"] Cons.prems(1) by (auto simp del: fun_upd_apply not_None_eq)
    obtain c where "d (segment_path i) = Some c" using Cons.prems(2) [of i] by auto
    with True d' show ?thesis by (auto simp: algebra_simps)
  next
    case False
    then obtain d' where d': "remove_segments keep ids (k, d) =
        Inr (k + word_of_nat (length (filter (\<lambda>i. i < keep) ids)), d')"
      "\<forall>p. d' p = (if \<exists>i \<in> set ids. p = segment_path i \<and> i < keep then None else d p)"
      using Cons.IH [of d k] Cons.prems by auto
    with False show ?thesis by auto
  qed
qed simp

lemma truncate_before_ok:
  assumes ok: "wal_dir_ok d" and names: "enumerates names (dom d)"
  shows "\<exists>n d'. truncate_before keep names d = Inr (n, d') \<and>
    (\<forall>i. d' (segment_path i) = (if i < keep then None else d (segment_path i))) \<and>
    (\<forall>p. parse_numbered ''wal_'' p = None \<longrightarrow> d' p = d p) \<and> wal_dir_ok d'"
proof -
  have nm: "set names = dom d" "distinct names" using names by (auto simp: enumerates_def)
  have mem: "i \<in> set (list_segments names) \<longleftrightarrow> d (segment_path i) \<noteq> None" for i
  proof
    assume "i \<in> set (list_segments names)"
    then obtain p where p: "p \<in> dom d" "parse_numbered ''wal_'' p = Some i" using nm by (auto simp: set_list_segments)
    with ok have "p = segment_path i" by (simp add: wal_dir_ok_def)
    with p(1) show "d (segment_path i) \<noteq> None" by (simp add: domIff)
  next
    assume "d (segment_path i) \<noteq> None"
    then have "segment_path i \<in> set names" using nm by (simp add: domIff)
    then show "i \<in> set (list_segments names)" unfolding set_list_segments using parse_segment_path by blast
  qed
  obtain n d' where d': "remove_segments keep (list_segments names) (0, d) = Inr (n, d')"
    "\<forall>p. d' p = (if \<exists>i \<in> set (list_segments names). p = segment_path i \<and> i < keep then None else d p)"
    using remove_segments_ok [of "list_segments names" d keep 0] distinct_list_segments [OF ok, of names] nm mem
    by (auto simp del: not_None_eq)
  have "\<forall>i. d' (segment_path i) = (if i < keep then None else d (segment_path i))"
    using d'(2) mem by auto
  moreover have "\<forall>p. parse_numbered ''wal_'' p = None \<longrightarrow> d' p = d p" using d'(2) by auto
  moreover have "wal_dir_ok d'" using ok d'(2) by (auto simp: wal_dir_ok_def dom_def split: if_splits)
  ultimately show ?thesis using d'(1) by (auto simp: truncate_before_def)
qed

end
