(* ===== verification/Samples.thy ===== *)
theory Samples
  imports Engine_Lifecycle Wal_Crash
begin

text \<open>
  Concrete inputs: a serializer for a fixed table of log entries, a checksum, and events, ticks,
  positions and orders of two users. They show that the hypotheses of the properties can be met.
\<close>

section \<open>A serializer\<close>

text \<open>An entry of the table is written as the one byte that is its index.\<close>

fun index_of :: "'a \<Rightarrow> 'a list \<Rightarrow> nat option" where
  "index_of x [] = None"
| "index_of x (y # ys) = (if x = y then Some 0 else map_option Suc (index_of x ys))"

definition table_ser :: "wal_entry list \<Rightarrow> wal_entry \<Rightarrow> u8 list option" where
  "table_ser tbl e = map_option (\<lambda>i. [word_of_nat i]) (index_of e tbl)"

definition table_de :: "wal_entry list \<Rightarrow> u8 list \<Rightarrow> wal_entry option" where
  "table_de tbl bs = (case bs of [b] \<Rightarrow> if unat b < length tbl then Some (tbl ! unat b) else None | _ \<Rightarrow> None)"

definition sample_crc :: "u8 list \<Rightarrow> u32" where
  "sample_crc bs = fold (\<lambda>b c. 31 * c + ucast b) bs 7"

lemma index_of_nth: "index_of x xs = Some i \<Longrightarrow> i < length xs \<and> xs ! i = x"
  by (induction xs arbitrary: i) (auto split: if_splits)

lemma index_of_member: "x \<in> set xs \<Longrightarrow> index_of x xs \<noteq> None"
  by (induction xs) auto

lemma table_codec:
  assumes "e \<in> set tbl" "length tbl < 256"
  shows "entry_codec_ok (table_ser tbl) (table_de tbl) e"
proof -
  obtain i where i: "index_of e tbl = Some i" using index_of_member [OF assms(1)] by auto
  have "i < length tbl" "tbl ! i = e" using index_of_nth [OF i] by auto
  then show ?thesis
    using assms(2) by (simp add: entry_codec_ok_def table_ser_def table_de_def i unat_of_nat MAX_ENTRY_LEN_def)
qed

section \<open>Users, events, ticks\<close>

definition alice :: address where "alice = replicate 20 1"
definition bob :: address where "bob = replicate 20 2"
definition usdc :: address where "usdc = replicate 20 3"
definition sample_id :: hash32 where "sample_id = replicate 32 9"

lemma sample_addresses [simp]:
  "alice \<noteq> bob" "bob \<noteq> alice" "length alice = 20" "length bob = 20" "length usdc = 20" "length sample_id = 32"
  by (simp_all add: alice_def bob_def usdc_def sample_id_def)

definition at_block :: "u64 \<Rightarrow> event \<Rightarrow> indexed_event" where
  "at_block b e =
     \<lparr>ie_block_number = b, ie_block_timestamp = 1700000000 + b, ie_tx_hash = sample_id, ie_tx_index = 0,
      ie_log_index = 0, ie_event = e\<rparr>"

definition sample_opened :: indexed_event where
  "sample_opened = at_block 5 (PositionOpened sample_id alice 1 True 5000 2 42 usdc 10)"

definition sample_closed :: indexed_event where
  "sample_closed = at_block 6 (PositionClosed sample_id alice 1 5000 50 700 True)"

definition sample_placed :: indexed_event where
  "sample_placed = at_block 6 (OrderPlaced sample_id alice 1 0 True 40 900)"

definition sample_deposit :: indexed_event where
  "sample_deposit = at_block 7 (CollateralDeposited alice usdc 1000)"

definition sample_tick :: price_tick where
  "sample_tick = \<lparr>tick_timestamp_ns = 1700000000123456789, tick_market_id = 1, tick_pad = replicate 6 0,
     tick_price = F64 0x40A0000000000000\<rparr>"

definition sample_tick2 :: price_tick where
  "sample_tick2 = \<lparr>tick_timestamp_ns = 1700000001123456789, tick_market_id = 1, tick_pad = replicate 6 0,
     tick_price = F64 0x40B0000000000000\<rparr>"

definition sample_inputs :: "(bool \<times> engine_input) list" where
  "sample_inputs = [(False, EventIn sample_opened), (True, TickIn sample_tick), (False, EventIn sample_closed),
     (False, EventIn sample_deposit), (False, TickIn sample_tick2)]"

definition sample_table :: "wal_entry list" where
  "sample_table = WalBatchEnd # WalCheckpoint 3 # map (\<lambda>x. input_entry (snd x)) sample_inputs"

abbreviation sample_ser :: "wal_entry \<Rightarrow> u8 list option" where "sample_ser \<equiv> table_ser sample_table"
abbreviation sample_de :: "u8 list \<Rightarrow> wal_entry option" where "sample_de \<equiv> table_de sample_table"

lemma sample_codec: "e \<in> set sample_table \<Longrightarrow> entry_codec_ok sample_ser sample_de e"
  by (rule table_codec) (simp_all add: sample_table_def sample_inputs_def)

lemma sample_entries_codec [simp]:
  "entry_codec_ok sample_ser sample_de WalBatchEnd" "entry_codec_ok sample_ser sample_de (WalCheckpoint 3)"
  by (rule sample_codec, simp add: sample_table_def)+

lemma sample_inputs_codec:
  "\<forall>(due, x) \<in> set sample_inputs. recoverable x \<and> entry_codec_ok sample_ser sample_de (input_entry x)"
proof -
  have "entry_codec_ok sample_ser sample_de (input_entry (snd y))" if "y \<in> set sample_inputs" for y
    using that by (intro sample_codec) (auto simp: sample_table_def)
  moreover have "recoverable (snd y)" if "y \<in> set sample_inputs" for y
    using that by (auto simp: sample_inputs_def sample_opened_def sample_closed_def sample_deposit_def at_block_def
        sample_tick_def sample_tick2_def price_tick_valid_def replayed_def)
  ultimately show ?thesis by fastforce
qed

definition sample_order :: order where
  "sample_order = placed_order sample_placed sample_id alice 1 0 True 40 900"

definition sample_position :: position where
  "sample_position = opened_position sample_opened sample_id alice 1 True 5000 2 42 usdc 10"

section \<open>Snapshots\<close>

definition sample_io :: snapshot_orders where
  "sample_io = \<lparr>so_positions = [], so_orders = [], so_balances = [], so_users = [], so_trader_stats = [],
     so_daily_traders = [], so_daily = (\<lambda>_. [])\<rparr>"

definition sample_snapshot :: "u64 \<Rightarrow> state_snapshot" where
  "sample_snapshot b = state_snapshot_of sample_io (stores_new\<lparr>st_checkpoint := checkpoint_new b ''0xab'' 1700000000\<rparr>)"

text \<open>A snapshot serializer that writes the block number's low byte.\<close>

definition sample_sde :: "u8 list \<Rightarrow> state_snapshot option" where
  "sample_sde bs = (case bs of [b] \<Rightarrow> Some (sample_snapshot (ucast b)) | _ \<Rightarrow> None)"

end
