(* ===== verification/Time_Range.thy ===== *)
theory Time_Range
  imports Core_Types Mmap
begin

text \<open>
  Range queries over the time-sorted slices, \<open>src/query/time_range.rs\<close>. \<open>slice\<close> is the slicing
  of a Rust slice, which panics when the start exceeds the end.
\<close>

text \<open>\<open>slice::partition_point\<close>: the binary search on the half-open range \<open>[lo, hi)\<close>.\<close>

function bisect :: "('a \<Rightarrow> bool) \<Rightarrow> 'a list \<Rightarrow> nat \<Rightarrow> nat \<Rightarrow> nat" where
  "bisect P xs lo hi =
     (if lo < hi
      then let mid = lo + (hi - lo) div 2
           in if P (xs ! mid) then bisect P xs (mid + 1) hi else bisect P xs lo mid
      else lo)"
  by pat_completeness auto
termination by (relation "measure (\<lambda>(P, xs, lo, hi). hi - lo)") auto

declare bisect.simps [simp del]

definition partition_point :: "('a \<Rightarrow> bool) \<Rightarrow> 'a list \<Rightarrow> nat" where
  "partition_point P xs = bisect P xs 0 (length xs)"

section \<open>Ticks\<close>

definition lower_bound_ticks :: "price_tick list \<Rightarrow> u64 \<Rightarrow> nat" where
  "lower_bound_ticks ticks target = partition_point (\<lambda>t. tick_timestamp_ns t < target) ticks"

definition upper_bound_ticks :: "price_tick list \<Rightarrow> u64 \<Rightarrow> nat" where
  "upper_bound_ticks ticks target = partition_point (\<lambda>t. tick_timestamp_ns t \<le> target) ticks"

definition query_tick_range :: "price_tick list \<Rightarrow> u64 \<Rightarrow> u64 \<Rightarrow> price_tick list panicking" where
  "query_tick_range ticks start stop =
     slice (lower_bound_ticks ticks start) (lower_bound_ticks ticks stop) ticks"

definition query_tick_range_inclusive :: "price_tick list \<Rightarrow> u64 \<Rightarrow> u64 \<Rightarrow> price_tick list panicking" where
  "query_tick_range_inclusive ticks start stop =
     slice (lower_bound_ticks ticks start) (upper_bound_ticks ticks stop) ticks"

definition query_last_ticks :: "price_tick list \<Rightarrow> nat \<Rightarrow> price_tick list" where
  "query_last_ticks ticks cnt = drop (length ticks - cnt) ticks"

section \<open>Candles\<close>

definition lower_bound_candles :: "candle_record list \<Rightarrow> u64 \<Rightarrow> nat" where
  "lower_bound_candles candles target = partition_point (\<lambda>c. cdl_timestamp_ns c < target) candles"

definition upper_bound_candles :: "candle_record list \<Rightarrow> u64 \<Rightarrow> nat" where
  "upper_bound_candles candles target = partition_point (\<lambda>c. cdl_timestamp_ns c \<le> target) candles"

definition query_candle_range :: "candle_record list \<Rightarrow> u64 \<Rightarrow> u64 \<Rightarrow> candle_record list panicking" where
  "query_candle_range candles start stop =
     slice (lower_bound_candles candles start) (lower_bound_candles candles stop) candles"

definition query_candle_range_inclusive :: "candle_record list \<Rightarrow> u64 \<Rightarrow> u64 \<Rightarrow> candle_record list panicking" where
  "query_candle_range_inclusive candles start stop =
     slice (lower_bound_candles candles start) (upper_bound_candles candles stop) candles"

definition query_last_candles :: "candle_record list \<Rightarrow> nat \<Rightarrow> candle_record list" where
  "query_last_candles candles cnt = drop (length candles - cnt) candles"

definition find_candle_at :: "candle_record list \<Rightarrow> u64 \<Rightarrow> candle_record option" where
  "find_candle_at candles timestamp =
     (if candles = [] then None
      else let idx = upper_bound_candles candles timestamp
           in if idx = 0
              then (if cdl_timestamp_ns (candles ! 0) \<le> timestamp then Some (candles ! 0) else None)
              else Some (candles ! (idx - 1)))"

section \<open>Correctness on sorted slices\<close>

text \<open>The predicate holds on a prefix: what \<open>partition_point\<close> requires.\<close>

definition partitioned :: "('a \<Rightarrow> bool) \<Rightarrow> 'a list \<Rightarrow> bool" where
  "partitioned P xs \<longleftrightarrow> (\<forall>j < length xs. \<forall>i < j. P (xs ! j) \<longrightarrow> P (xs ! i))"

lemma bisect_done: "\<not> lo < hi \<Longrightarrow> bisect P xs lo hi = lo"
  by (subst bisect.simps) simp

lemma bisect_step:
  "lo < hi \<Longrightarrow> bisect P xs lo hi =
     (if P (xs ! (lo + (hi - lo) div 2)) then bisect P xs (lo + (hi - lo) div 2 + 1) hi
      else bisect P xs lo (lo + (hi - lo) div 2))"
  by (subst bisect.simps) (simp only: Let_def if_True)

lemma bisect_range: "lo \<le> hi \<Longrightarrow> lo \<le> bisect P xs lo hi \<and> bisect P xs lo hi \<le> hi"
proof (induction P xs lo hi rule: bisect.induct)
  case (1 P xs lo hi)
  let ?mid = "lo + (hi - lo) div 2"
  show ?case
  proof (cases "lo < hi")
    case True
    then have "?mid + 1 \<le> hi" "lo \<le> ?mid" "?mid \<le> hi" by auto
    then show ?thesis
      using 1(1) [OF True refl] 1(2) [OF True refl] by (auto simp: bisect_step [OF True])
  qed (use 1 in \<open>simp add: bisect_done\<close>)
qed

lemma bisect_correct:
  assumes "partitioned P xs" "lo \<le> hi" "hi \<le> length xs"
    "\<And>i. i < lo \<Longrightarrow> P (xs ! i)" "\<And>i. hi \<le> i \<Longrightarrow> i < length xs \<Longrightarrow> \<not> P (xs ! i)"
  shows "i < length xs \<Longrightarrow> P (xs ! i) \<longleftrightarrow> i < bisect P xs lo hi"
  using assms
proof (induction P xs lo hi rule: bisect.induct)
  case (1 P xs lo hi)
  let ?mid = "lo + (hi - lo) div 2"
  show ?case
  proof (cases "lo < hi")
    case True
    then have mid: "?mid < hi" "lo \<le> ?mid" "?mid < length xs" using 1(6) by auto
    have part: "P (xs ! b) \<Longrightarrow> P (xs ! a)" if "a \<le> b" "b < length xs" for a b
      using 1(4) that by (cases "a = b") (auto simp: partitioned_def)
    show ?thesis
    proof (cases "P (xs ! ?mid)")
      case P: True
      have "P (xs ! i) \<longleftrightarrow> i < bisect P xs (?mid + 1) hi"
      proof (rule 1(1) [OF True refl P 1(3,4)])
        show "P (xs ! j)" if "j < ?mid + 1" for j using part [of j ?mid] P mid that by simp
      qed (use mid 1(6,8) in simp_all)
      then show ?thesis using P by (simp add: bisect_step [OF True])
    next
      case P: False
      have "P (xs ! i) \<longleftrightarrow> i < bisect P xs lo ?mid"
      proof (rule 1(2) [OF True refl P 1(3,4)])
        show "\<not> P (xs ! j)" if "?mid \<le> j" "j < length xs" for j using part [of ?mid j] P that by auto
      qed (use mid 1(7) in simp_all)
      then show ?thesis using P by (simp add: bisect_step [OF True])
    qed
  next
    case False
    then have "lo = hi" using 1(5) by simp
    then show ?thesis using 1(3) 1(7) [of i] 1(8) [of i] by (cases "i < hi") (simp_all add: bisect_done)
  qed
qed

lemma partition_point_correct:
  assumes "partitioned P xs"
  shows "partition_point P xs \<le> length xs"
    and "i < length xs \<Longrightarrow> P (xs ! i) \<longleftrightarrow> i < partition_point P xs"
  using bisect_range [of 0 "length xs" P xs] bisect_correct [OF assms, of 0 "length xs" i]
  by (simp_all add: partition_point_def)

lemma take_partition_point:
  assumes "partitioned P xs"
  shows "take (partition_point P xs) xs = filter P xs"
    and "drop (partition_point P xs) xs = filter (\<lambda>x. \<not> P x) xs"
proof -
  let ?k = "partition_point P xs"
  note pp = partition_point_correct [OF assms]
  have t: "filter P (take ?k xs) = take ?k xs" "filter (\<lambda>x. \<not> P x) (take ?k xs) = []"
    using pp by (auto simp: filter_id_conv filter_empty_conv in_set_conv_nth)
  have d: "filter P (drop ?k xs) = []" "filter (\<lambda>x. \<not> P x) (drop ?k xs) = drop ?k xs"
    using pp by (auto simp: filter_id_conv filter_empty_conv in_set_conv_nth)
  have split: "filter Q xs = filter Q (take ?k xs) @ filter Q (drop ?k xs)" for Q
    by (metis append_take_drop_id filter_append)
  show "take ?k xs = filter P xs" "drop ?k xs = filter (\<lambda>x. \<not> P x) xs" using t d split by simp_all
qed

lemma partition_point_eq: "partitioned P xs \<Longrightarrow> partition_point P xs = length (filter P xs)"
  using partition_point_correct(1) [of P xs] take_partition_point(1) [of P xs]
  by (metis length_take min.absorb2)

text \<open>The slice between two cuts of a list that is partitioned by both.\<close>

lemma slice_between:
  assumes P: "partitioned P xs" and Q: "partitioned Q xs"
  shows "slice (partition_point P xs) (partition_point Q xs) xs =
    (if partition_point P xs \<le> partition_point Q xs then Some (filter (\<lambda>x. \<not> P x \<and> Q x) xs) else None)"
proof (cases "partition_point P xs \<le> partition_point Q xs")
  case True
  let ?p = "partition_point P xs" and ?q = "partition_point Q xs"
  note q = partition_point_correct [OF Q]
  have imp: "P x \<Longrightarrow> Q x" if "x \<in> set xs" for x
    using that True partition_point_correct(2) [OF P] q(2) by (force simp: in_set_conv_nth)
  have part: "partitioned P (filter Q xs)"
    using P by (auto simp: take_partition_point(1) [OF Q, symmetric] partitioned_def)
  have "filter P (filter Q xs) = filter P xs" using imp by (auto intro: filter_cong)
  then have pp: "partition_point P (filter Q xs) = ?p"
    by (simp only: partition_point_eq [OF part] partition_point_eq [OF P])
  have "take (?q - ?p) (drop ?p xs) = drop ?p (filter Q xs)"
    using True by (simp add: take_drop take_partition_point(1) [OF Q, symmetric])
  also have "\<dots> = filter (\<lambda>x. \<not> P x \<and> Q x) xs"
    using take_partition_point(2) [OF part] by (simp add: pp conj_commute)
  finally show ?thesis using True q(1) by (simp add: slice_def)
qed (simp add: slice_def)

lemma partitioned_time:
  assumes "sorted (map f xs)"
  shows "partitioned (\<lambda>x. f x < t) xs" and "partitioned (\<lambda>x. f x \<le> t) xs"
proof -
  have mono: "f (xs ! i) \<le> f (xs ! j)" if "i < j" "j < length xs" for i j
    using sorted_nth_mono [OF assms, of i j] that by simp
  show "partitioned (\<lambda>x. f x < t) xs" unfolding partitioned_def using mono by (meson order.strict_trans1)
  show "partitioned (\<lambda>x. f x \<le> t) xs" unfolding partitioned_def using mono by (meson order_trans)
qed

lemma partition_point_mono:
  assumes "partitioned P xs" "partitioned Q xs"
  shows "partition_point P xs \<le> partition_point Q xs \<longleftrightarrow>
    (\<forall>x \<in> set xs. P x \<longrightarrow> Q x) \<or> partition_point P xs = partition_point Q xs"
proof
  assume le: "partition_point P xs \<le> partition_point Q xs"
  have "\<forall>x \<in> set xs. P x \<longrightarrow> Q x"
    using le partition_point_correct(2) [OF assms(1)] partition_point_correct(2) [OF assms(2)]
    by (force simp: in_set_conv_nth)
  then show "(\<forall>x \<in> set xs. P x \<longrightarrow> Q x) \<or> partition_point P xs = partition_point Q xs" ..
next
  assume "(\<forall>x \<in> set xs. P x \<longrightarrow> Q x) \<or> partition_point P xs = partition_point Q xs"
  moreover have "length (filter P xs) \<le> length (filter Q xs)" if "\<forall>x \<in> set xs. P x \<longrightarrow> Q x"
    using that by (induction xs) auto
  ultimately show "partition_point P xs \<le> partition_point Q xs" by (auto simp: partition_point_eq assms)
qed

text \<open>A half-open query on a sorted slice: the elements of the window, or a panic.\<close>

lemma slice_time_range:
  assumes "sorted (map f xs)"
  shows "slice (partition_point (\<lambda>x. f x < (a :: 'k :: linorder)) xs) (partition_point (\<lambda>x. f x < b) xs) xs =
    (if a \<le> b \<or> (\<forall>x \<in> set xs. f x < b \<or> a \<le> f x) then Some (filter (\<lambda>x. a \<le> f x \<and> f x < b) xs) else None)"
proof -
  note ab = partitioned_time(1) [OF assms]
  have "partition_point (\<lambda>x. f x < a) xs \<le> partition_point (\<lambda>x. f x < b) xs \<longleftrightarrow>
      a \<le> b \<or> (\<forall>x \<in> set xs. f x < b \<or> a \<le> f x)" (is "?l \<longleftrightarrow> ?r")
  proof
    assume ?l
    then have "\<forall>x \<in> set xs. f x < a \<longrightarrow> f x < b"
      using partition_point_correct(2) [OF ab] by (force simp: in_set_conv_nth)
    then show ?r by (auto simp: not_less)
  next
    assume ?r
    then have "\<forall>x \<in> set xs. f x < a \<longrightarrow> f x < b" by auto
    then show ?l using partition_point_mono [OF ab ab] by blast
  qed
  then show ?thesis unfolding slice_between [OF ab ab] by (simp only: not_less)
qed

lemma slice_time_range_inclusive:
  assumes "sorted (map f xs)" "(a :: 'k :: linorder) \<le> b"
  shows "slice (partition_point (\<lambda>x. f x < a) xs) (partition_point (\<lambda>x. f x \<le> b) xs) xs =
    Some (filter (\<lambda>x. a \<le> f x \<and> f x \<le> b) xs)"
proof -
  note p = partitioned_time(1) [OF assms(1), of a] partitioned_time(2) [OF assms(1), of b]
  have "\<forall>x \<in> set xs. f x < a \<longrightarrow> f x \<le> b" using assms(2) by auto
  then show ?thesis using partition_point_mono [OF p] by (simp add: slice_between [OF p] not_less)
qed

lemma find_candle_at_sorted:
  assumes "sorted (map cdl_timestamp_ns cs)"
  shows "find_candle_at cs t =
    (let before = filter (\<lambda>c. cdl_timestamp_ns c \<le> t) cs in if before = [] then None else Some (last before))"
proof -
  let ?P = "\<lambda>c. cdl_timestamp_ns c \<le> t" and ?k = "upper_bound_candles cs t"
  note p = partitioned_time(2) [OF assms, of t]
  have k: "take ?k cs = filter ?P cs" "?k \<le> length cs"
    using take_partition_point(1) [OF p] partition_point_correct(1) [OF p]
    by (simp_all add: upper_bound_candles_def)
  show ?thesis
  proof (cases "?k = 0")
    case True
    then have "filter ?P cs = []" using k by simp
    moreover from this have "cs \<noteq> [] \<Longrightarrow> \<not> ?P (cs ! 0)" by (simp add: filter_empty_conv)
    ultimately show ?thesis using True by (simp add: find_candle_at_def Let_def)
  next
    case False
    then have ne: "take ?k cs \<noteq> []" "cs \<noteq> []" using k by auto
    then have "last (take ?k cs) = cs ! (?k - 1)" using k(2) False by (subst last_conv_nth) (auto simp: min_def)
    then show ?thesis using ne k(1) False by (simp add: find_candle_at_def Let_def)
  qed
qed

end
