(* ===== verification/Storage_Properties.thy ===== *)
theory Storage_Properties
  imports Samples Time_Range
begin

text \<open>
  The properties of the storage layer: the write-ahead log, the mapped files, the tick and
  candle stores, the snapshot directory and the time queries.
\<close>

section \<open>Write-ahead log\<close>

text \<open>
  C25. What is appended to a new log and synced is what replay reads back, in order and each
  entry once, whatever the rotations and the listing order of the directory.
\<close>

theorem wal_round_trip:
  assumes "\<forall>(due, e) \<in> set xs. entry_codec_ok ser de e" "length xs < 2 ^ 64"
    and "(w, d) = wal_sync (append_run ser crc xs (wal_open config [] Map.empty))"
    and "enumerates names (dom d)"
  shows "wal_replay de crc (\<lambda>e s. Inr (f e s)) names d s = Inr (word_of_nat (length xs), fold f (map snd xs) s)"
proof -
  have ser: "\<forall>(due, e) \<in> set xs. ser e \<noteq> None" using assms(1) entry_codec_ok_ser by fast
  have "wal_holds ser crc (map snd xs) (wal_sync (append_run ser crc xs (wal_open config [] Map.empty)))"
    using wal_holds_append_run [OF wal_holds_open ser] assms(2) by (auto intro: wal_holds_sync)
  then have h: "wal_holds ser crc (map snd xs) (w, d)" by (simp add: assms(3))
  have buf: "ww_buf w = []"
    using arg_cong [OF assms(3), of fst] by simp
  have "\<forall>e \<in> set (map snd xs). entry_codec_ok ser de e" using assms(1) by auto
  from wal_holds_replay [OF h buf assms(4) this, of f s] show ?thesis by simp
qed

theorem wal_round_trip_witness:
  "\<exists>w d names. (w, d) = wal_sync (append_run sample_ser sample_crc [(False, WalBatchEnd), (False, WalCheckpoint 3)]
        (wal_open wal_config_default [] Map.empty)) \<and> enumerates names (dom d) \<and>
     wal_replay sample_de sample_crc (\<lambda>e s. Inr (s @ [e])) names d [] = Inr (2, [WalBatchEnd, WalCheckpoint 3])"
proof -
  let ?xs = "[(False, WalBatchEnd), (False, WalCheckpoint 3)]"
  let ?st = "wal_sync (append_run sample_ser sample_crc ?xs (wal_open wal_config_default [] Map.empty))"
  have codec: "\<forall>(due, e) \<in> set ?xs. entry_codec_ok sample_ser sample_de e" by simp
  then have ser: "\<forall>(due, e) \<in> set ?xs. sample_ser e \<noteq> None" using entry_codec_ok_ser by fast
  obtain w d where st: "(w, d) = ?st" by (rule that [OF prod.collapse])
  obtain names where "enumerates names (dom (snd ?st))"
    using wal_holds_names [OF wal_holds_sync [OF wal_holds_append_run [OF wal_holds_open ser]]] by auto
  then have names: "enumerates names (dom d)" by (simp only: st [symmetric] snd_conv)
  have "wal_replay sample_de sample_crc (\<lambda>e s. Inr (s @ [e])) names d [] = Inr (2, [WalBatchEnd, WalCheckpoint 3])"
    using wal_round_trip [OF codec _ st names, of "\<lambda>e s. s @ [e]" "[]"] by simp
  with st names show ?thesis by blast
qed

text \<open>
  C26. A segment cut at any byte, as a crash leaves it, replays to a prefix of the entries
  written to it: exactly those whose frames are complete.
\<close>

theorem wal_crash_prefix:
  assumes "\<forall>e \<in> set es. entry_codec_ok ser de e"
  shows "replay_bytes de crc (take n (frames ser crc es)) = complete_entries ser crc n es \<and>
    (\<exists>k. complete_entries ser crc n es = take k es) \<and>
    (length (frames ser crc es) \<le> n \<longrightarrow> replay_bytes de crc (take n (frames ser crc es)) = es)"
  using replay_truncated [OF assms] complete_entries_take complete_entries_all by metis

theorem wal_crash_prefix_witness:
  "replay_bytes sample_de sample_crc (take 12 (frames sample_ser sample_crc [WalBatchEnd, WalCheckpoint 3])) =
     complete_entries sample_ser sample_crc 12 [WalBatchEnd, WalCheckpoint 3] \<and>
   replay_bytes sample_de sample_crc (take 18 (frames sample_ser sample_crc [WalBatchEnd, WalCheckpoint 3])) =
     [WalBatchEnd, WalCheckpoint 3]"
proof -
  have codec: "\<forall>e \<in> set [WalBatchEnd, WalCheckpoint 3]. entry_codec_ok sample_ser sample_de e"
    by simp
  have len: "length (frames sample_ser sample_crc [WalBatchEnd, WalCheckpoint 3]) \<le> 18"
    by (simp add: table_ser_def sample_table_def ENTRY_HEADER_SIZE_def)
  show ?thesis
    using wal_crash_prefix [OF codec, where crc = sample_crc and n = 12]
      wal_crash_prefix [OF codec, where crc = sample_crc and n = 18] len by blast
qed

text \<open>
  C27. Under \<open>SyncPolicy::EveryWrite\<close> nothing waits in the buffer after an append: without any
  sync by the client, replay of the files reads every entry appended so far.
\<close>

theorem wal_every_write_durable:
  assumes "\<forall>(due, e) \<in> set xs. entry_codec_ok ser de e" "length xs < 2 ^ 64" "wc_sync_policy config = EveryWrite"
    and "(w, d) = append_run ser crc xs (wal_open config [] Map.empty)" "enumerates names (dom d)"
  shows "ww_buf w = [] \<and>
    wal_replay de crc (\<lambda>e s. Inr (f e s)) names d s = Inr (word_of_nat (length xs), fold f (map snd xs) s)"
proof -
  have ser: "\<forall>(due, e) \<in> set xs. ser e \<noteq> None" using assms(1) entry_codec_ok_ser by fast
  have h: "wal_holds ser crc (map snd xs) (w, d)"
    using wal_holds_append_run [OF wal_holds_open ser, of crc config] assms(2,4) by simp
  have "ww_buf (fst (append_run ser crc xs (wal_open config [] Map.empty))) = []"
    by (rule append_run_every_write [OF _ _ ser]) (simp_all add: wal_open_def Let_def assms(3))
  then have buf: "ww_buf w = []" by (simp add: assms(4) [symmetric])
  have "\<forall>e \<in> set (map snd xs). entry_codec_ok ser de e" using assms(1) by auto
  from wal_holds_replay [OF h buf assms(5) this, of f s] buf show ?thesis by simp
qed

theorem wal_every_write_durable_witness:
  "\<exists>w d names. (w, d) = append_run sample_ser sample_crc [(False, WalBatchEnd)]
        (wal_open \<lparr>wc_max_segment_size = 64, wc_sync_policy = EveryWrite\<rparr> [] Map.empty) \<and> enumerates names (dom d) \<and>
     ww_buf w = [] \<and> wal_replay sample_de sample_crc (\<lambda>e s. Inr (s @ [e])) names d [] = Inr (1, [WalBatchEnd])"
proof -
  let ?xs = "[(False, WalBatchEnd)]" and ?c = "\<lparr>wc_max_segment_size = 64, wc_sync_policy = EveryWrite\<rparr>"
  let ?st = "append_run sample_ser sample_crc ?xs (wal_open ?c [] Map.empty)"
  have codec: "\<forall>(due, e) \<in> set ?xs. entry_codec_ok sample_ser sample_de e" by simp
  then have ser: "\<forall>(due, e) \<in> set ?xs. sample_ser e \<noteq> None" using entry_codec_ok_ser by fast
  obtain w d where st: "(w, d) = ?st" by (rule that [OF prod.collapse])
  obtain names where "enumerates names (dom (snd ?st))"
    using wal_holds_names [OF wal_holds_append_run [OF wal_holds_open ser]] by auto
  then have names: "enumerates names (dom d)" by (simp only: st [symmetric] snd_conv)
  have pol: "wc_sync_policy ?c = EveryWrite" by simp
  have "ww_buf w = [] \<and> wal_replay sample_de sample_crc (\<lambda>e s. Inr (s @ [e])) names d [] = Inr (1, [WalBatchEnd])"
    using wal_every_write_durable [OF codec _ pol st names, of "\<lambda>e s. s @ [e]" "[]"] by simp
  with st names show ?thesis by blast
qed

text \<open>
  C28. \<open>WalWriter::open\<close> appends behind a torn entry instead of cutting it off: an entry appended
  there that does not reach the torn entry's promised length is never read back, although its
  append and the sync after it succeeded; replay still reads every entry before the torn one.
\<close>

theorem wal_torn_tail_hides:
  assumes es: "\<forall>e \<in> set es. entry_codec_ok ser de e" and n: "ENTRY_HEADER_SIZE \<le> n"
    and lost: "ser e = Some q" "n + length (frame crc q) < length (frame crc p)" "length p \<le> MAX_ENTRY_LEN"
    and st: "(w, d) = wal_sync (snd (wal_append ser crc due e (wal_open config [segment_path 0]
        [segment_path 0 \<mapsto> frames ser crc es @ take n (frame crc p)])))"
    and names: "enumerates names (dom d)"
  shows "wal_replay de crc (\<lambda>e s. Inr (f e s)) names d s = Inr (word_of_nat (length es), fold f es s)"
proof -
  let ?cur = "frames ser crc es @ take n (frame crc p) @ frame crc q"
  have cur: "replay_bytes de crc ?cur = es" by (rule replay_frames_torn_tail [OF es n lost(2,3)])
  have buf: "ww_buf w = []" using arg_cong [OF st, of fst] by simp
  consider "wal_repr [] ?cur (w, d)" | "wal_repr [?cur] [] (w, d)"
    using wal_repr_append [where ser = ser and crc = crc and due = due, OF wal_repr_open_one lost(1),
        of "frames ser crc es @ take n (frame crc p)" config]
    by (auto simp: st intro: wal_repr_sync)
  then show ?thesis
  proof cases
    case 1
    then show ?thesis using wal_repr_replay [OF 1 buf names, of de crc f s] by (simp add: cur)
  next
    case 2
    then show ?thesis using wal_repr_replay [OF 2 buf names, of de crc f s] by (simp add: cur)
  qed
qed

theorem wal_torn_tail_hides_witness:
  "\<exists>w d names. (w, d) = wal_sync (snd (wal_append sample_ser sample_crc False (WalCheckpoint 3)
        (wal_open wal_config_default [segment_path 0]
          [segment_path 0 \<mapsto> frames sample_ser sample_crc [WalBatchEnd] @ take 8 (frame sample_crc (replicate 20 0))]))) \<and>
     enumerates names (dom d) \<and>
     wal_replay sample_de sample_crc (\<lambda>e s. Inr (s @ [e])) names d [] = Inr (1, [WalBatchEnd])"
proof -
  let ?bs = "frames sample_ser sample_crc [WalBatchEnd] @ take 8 (frame sample_crc (replicate 20 0))"
  let ?st = "wal_sync (snd (wal_append sample_ser sample_crc False (WalCheckpoint 3)
        (wal_open wal_config_default [segment_path 0] [segment_path 0 \<mapsto> ?bs])))"
  have es: "\<forall>e \<in> set [WalBatchEnd]. entry_codec_ok sample_ser sample_de e" by simp
  have q: "sample_ser (WalCheckpoint 3) = Some [1]" by (simp add: table_ser_def sample_table_def)
  obtain w d where st: "(w, d) = ?st" by (rule that [OF prod.collapse])
  obtain names where "enumerates names (dom (snd ?st))"
    using wal_append_names [where ser = sample_ser and crc = sample_crc and due = False,
        OF wal_repr_open_one q, of wal_config_default ?bs] by auto
  then have names: "enumerates names (dom d)" by (simp only: st [symmetric] snd_conv)
  have "wal_replay sample_de sample_crc (\<lambda>e s. Inr (s @ [e])) names d [] = Inr (1, [WalBatchEnd])"
    using wal_torn_tail_hides [OF es _ q _ _ st names, of "\<lambda>e s. s @ [e]" "[]"]
    by (simp add: ENTRY_HEADER_SIZE_def MAX_ENTRY_LEN_def)
  with st names show ?thesis by blast
qed

text \<open>
  \<open>truncate_before\<close> removes the segments with smaller ids and leaves every other file of the
  directory as it is.
\<close>

theorem wal_truncate_exact:
  assumes "wal_dir_ok d" "enumerates names (dom d)"
  shows "\<exists>n d'. truncate_before keep names d = Inr (n, d') \<and>
    (\<forall>i. d' (segment_path i) = (if i < keep then None else d (segment_path i))) \<and>
    (\<forall>p. parse_numbered ''wal_'' p = None \<longrightarrow> d' p = d p) \<and> wal_dir_ok d'"
  by (rule truncate_before_ok [OF assms])

theorem wal_truncate_exact_witness:
  "\<exists>n d'. truncate_before 1 [segment_path 0, segment_path 1] [segment_path 0 \<mapsto> [1], segment_path 1 \<mapsto> [2]] = Inr (n, d') \<and>
    d' (segment_path 0) = None \<and> d' (segment_path 1) = Some [2]"
proof -
  let ?d = "[segment_path 0 \<mapsto> [1], segment_path 1 \<mapsto> [2]] :: dir"
  have 1: "wal_dir_ok ?d" by (auto simp: wal_dir_ok_def split: if_splits)
  have 2: "enumerates [segment_path 0, segment_path 1] (dom ?d)" by (auto simp: enumerates_def)
  show ?thesis using wal_truncate_exact [OF 1 2, of 1] by auto
qed

section \<open>Mapped files\<close>

text \<open>
  C29. Appending to a mapped file, growing it when needed, adds the bytes behind the old ones;
  opening the file again from its bytes alone gives the same file, so nothing depends on
  memory that a restart loses.
\<close>

theorem mmap_append_reopen:
  assumes "mmap_ok f" "unat (mf_logical_len f) + length data < MMAP_LIMIT"
  shows "\<exists>f'. mmap_append data f = Some (Inr (mf_logical_len f'), f') \<and> mmap_ok f' \<and>
    mmap_data f' = mmap_data f @ data \<and> mmap_open (Some (mf_mmap f')) create = Some (Inr f')"
  using mmap_append_ok [OF assms] mmap_open_existing by blast

theorem mmap_append_reopen_witness:
  "\<exists>f f'. mmap_open None True = Some (Inr f) \<and> mmap_append [1, 2, 3] f = Some (Inr (mf_logical_len f'), f') \<and>
    mmap_data f' = [1, 2, 3] \<and> mmap_open (Some (mf_mmap f')) False = Some (Inr f')"
proof -
  obtain f where f: "mmap_open None True = Some (Inr f)" "mmap_ok f" "mmap_data f = []" using mmap_open_new by blast
  have "unat (mf_logical_len f) + length [1, 2, 3 :: u8] < MMAP_LIMIT"
    using length_mmap_data [OF f(2)] f(3) by (simp add: MMAP_LIMIT_def)
  from mmap_append_reopen [OF f(2) this, of False] f show ?thesis by auto
qed

text \<open>
  C30. The doubling loop of \<open>grow\<close> ends for all 64-bit arguments with a capacity that suffices and,
  short of 2^62 bytes, is at most twice the need or the initial size.
\<close>

theorem grow_capacity_suffices:
  assumes "cap < needed" "unat needed < 2 ^ 62"
  shows "needed \<le> grow_capacity cap needed \<and>
    unat (grow_capacity cap needed) \<le> max (2 * unat needed) (unat INITIAL_FILE_SIZE)"
proof -
  have "unat cap \<le> max (2 * unat needed) (unat INITIAL_FILE_SIZE)" using assms(1) by (simp add: word_less_nat_alt)
  from grow_capacity_bound [OF this assms(2)] grow_capacity_ge show ?thesis by blast
qed

theorem grow_capacity_suffices_witness:
  "(5000000 :: u64) \<le> grow_capacity 100 5000000 \<and>
   unat (grow_capacity 100 5000000) \<le> max (2 * unat (5000000 :: u64)) (unat INITIAL_FILE_SIZE)"
  by (rule grow_capacity_suffices) simp_all

text \<open>
  A write inside the logical length changes those bytes only and reading there returns
  them; a write that would end behind it is refused and changes nothing.
\<close>

theorem mmap_write_at_exact:
  assumes ok: "mmap_ok f" and len: "unat off + length data < 2 ^ 64"
  shows "if unat off + length data \<le> unat (mf_logical_len f)
    then \<exists>f'. mmap_write_at off data f = Some (Inr (), f') \<and> mmap_ok f' \<and>
      mmap_data f' = take (unat off) (mmap_data f) @ data @ drop (unat off + length data) (mmap_data f) \<and>
      mmap_read_at f' off (word_of_nat (length data)) = Some (Some data)
    else \<exists>e. mmap_write_at off data f = Some (Inl (InvalidArgument e), f)"
proof (cases "unat off + length data \<le> unat (mf_logical_len f)")
  case True
  have un: "unat (word_of_nat (length data) :: u64) = length data" using len by (simp add: unat_of_nat)
  obtain f' where f': "mmap_write_at off data f = Some (Inr (), f')" "mmap_ok f'" "mf_logical_len f' = mf_logical_len f"
    "mmap_data f' = take (unat off) (mmap_data f) @ data @ drop (unat off + length data) (mmap_data f)"
    using mmap_write_at_ok [OF ok True] by blast
  have "mmap_read_at f' off (word_of_nat (length data)) = Some (Some data)"
    using mmap_read_at_ok [OF f'(2), of off "word_of_nat (length data)"] True len f'(3,4) length_mmap_data [OF ok]
    by (simp add: un)
  with True f' show ?thesis by auto
next
  case False
  then have "mf_logical_len f < off + word_of_nat (length data)"
    using len by (simp add: word_less_nat_alt unat_word_ariths unat_of_nat)
  with False show ?thesis by (auto simp: mmap_write_at_def Let_def)
qed

theorem mmap_write_at_exact_witness:
  "\<exists>f f' g e. mmap_open None True = Some (Inr f) \<and> mmap_append [1, 2, 3] f = Some (Inr 3, f') \<and>
    mmap_write_at 1 [9] f' = Some (Inr (), g) \<and> mmap_data g = [1, 9, 3] \<and>
    mmap_write_at 3 [9] f' = Some (Inl (InvalidArgument e), f')"
proof -
  obtain f where f: "mmap_open None True = Some (Inr f)" "mmap_ok f" "mmap_data f = []" using mmap_open_new by blast
  have len: "unat (mf_logical_len f) + length [1, 2, 3 :: u8] < MMAP_LIMIT"
    using length_mmap_data [OF f(2)] f(3) by (simp add: MMAP_LIMIT_def)
  obtain f' where f': "mmap_append [1, 2, 3] f = Some (Inr (mf_logical_len f'), f')" "mmap_ok f'" "mmap_data f' = [1, 2, 3]"
    using mmap_append_ok [OF f(2) len] f(3) by auto
  have n: "mf_logical_len f' = 3"
    using length_mmap_data [OF f'(2)] f'(3) by (simp add: word_unat_eq_iff)
  show ?thesis
    using mmap_write_at_exact [OF f'(2), of 1 "[9]"] mmap_write_at_exact [OF f'(2), of 3 "[9]"] f f' n by auto
qed

section \<open>Tick and candle stores\<close>

text \<open>
  C31. A tick store opened in an empty directory, fed with ticks and opened again from the files
  returns, for every market, the ticks of that market in the order they arrived, with their
  number and the latest of them.
\<close>

theorem tick_store_append_reopen:
  assumes "\<forall>t \<in> set ts. price_tick_valid t \<and> unat (tick_market_id t) < MARKET_COUNT" "length ts < 2 ^ 48"
    and "unat m < MARKET_COUNT"
  shows "\<exists>s0 s1 s2. tick_store_open Map.empty = Some (Inr s0) \<and> append_ticks ts s0 = Some s1 \<and>
    tick_store_open (store_image tick_paths s1) = Some (Inr s2) \<and>
    tick_store_ticks s2 m = Some (filter (\<lambda>t. tick_market_id t = m) ts) \<and>
    unat (tick_store_tick_count s2 m) = length (filter (\<lambda>t. tick_market_id t = m) ts) \<and>
    tick_store_latest s2 m = Some (last_opt (filter (\<lambda>t. tick_market_id t = m) ts))"
proof -
  obtain s0 where s0: "tick_store_open Map.empty = Some (Inr s0)" "tick_store_repr s0 (\<lambda>_. [])"
    using tick_store_open_empty [of Map.empty] by auto
  obtain s1 where s1: "append_ticks ts s0 = Some s1" "tick_store_repr s1 (\<lambda>m. filter (\<lambda>t. tick_market_id t = m) ts)"
    using append_ticks_repr [OF s0(2) _ assms(1), of 0] assms(2) by auto
  obtain s2 where "tick_store_open (store_image tick_paths s1) = Some (Inr s2)"
    "tick_store_repr s2 (\<lambda>m. filter (\<lambda>t. tick_market_id t = m) ts)"
    using tick_store_reopen [OF s1(2)] by blast
  then show ?thesis
    using s0(1) s1(1) assms(3) tick_store_ticks_repr tick_store_tick_count_repr tick_store_latest_repr by fastforce
qed

theorem tick_store_append_reopen_witness:
  "\<exists>s0 s1 s2. tick_store_open Map.empty = Some (Inr s0) \<and> append_ticks [sample_tick, sample_tick2] s0 = Some s1 \<and>
    tick_store_open (store_image tick_paths s1) = Some (Inr s2) \<and>
    tick_store_ticks s2 1 = Some [sample_tick, sample_tick2] \<and> tick_store_latest s2 1 = Some (Some sample_tick2)"
proof -
  have "\<forall>t \<in> set [sample_tick, sample_tick2]. price_tick_valid t \<and> unat (tick_market_id t) < MARKET_COUNT"
    by (simp add: sample_tick_def sample_tick2_def price_tick_valid_def MARKET_COUNT_def)
  moreover have "tick_market_id sample_tick = 1" "tick_market_id sample_tick2 = 1"
    by (simp_all add: sample_tick_def sample_tick2_def)
  ultimately show ?thesis
    using tick_store_append_reopen [of "[sample_tick, sample_tick2]" 1]
    by (auto simp: MARKET_COUNT_def last_opt_def)
qed

text \<open>
  Upserting a stream of candles of one market and timeframe keeps one candle per run of equal
  timestamps, the last one: an update of the live candle replaces it, a new bucket appends.
\<close>

theorem candle_upserts_keep_last:
  assumes "\<forall>c \<in> set cs. cdl_market_id c = m \<and> cdl_timeframe c = timeframe_u8 tf" "length cs < 2 ^ 48"
    and "unat m < MARKET_COUNT"
  shows "\<exists>s0 s1. candle_store_open Map.empty = Some (Inr s0) \<and> upsert_candles cs s0 = Some s1 \<and>
    candle_store_candles s1 m tf = Some (map last (runs cdl_timestamp_ns cs)) \<and>
    (\<forall>m' tf'. (m', tf') \<noteq> (m, tf) \<longrightarrow> candle_store_candles s1 m' tf' = Some [])"
proof -
  obtain s0 where s0: "candle_store_open Map.empty = Some (Inr s0)" "candle_store_repr s0 (\<lambda>_. [])"
    using candle_store_open_empty [of Map.empty] by auto
  obtain s1 where s1: "upsert_candles cs s0 = Some s1"
    "candle_store_repr s1 ((\<lambda>_. [])((m, tf) := fold upsert_last cs []))"
    using upsert_candles_repr [OF s0(2) assms(1,3)] assms(2) by auto
  show ?thesis
    using s0(1) s1 assms(3) by (auto simp: candle_store_candles_repr fold_upsert_last)
qed

theorem candle_upserts_keep_last_witness:
  "\<exists>s0 s1. candle_store_open Map.empty = Some (Inr s0) \<and>
    upsert_candles [candle_of_run 1 Sec1 [sample_tick], candle_of_run 1 Sec1 [sample_tick, sample_tick],
      candle_of_run 1 Sec1 [sample_tick2]] s0 = Some s1 \<and>
    candle_store_candles s1 1 Sec1 =
      Some [candle_of_run 1 Sec1 [sample_tick, sample_tick], candle_of_run 1 Sec1 [sample_tick2]]"
proof -
  let ?cs = "[candle_of_run 1 Sec1 [sample_tick], candle_of_run 1 Sec1 [sample_tick, sample_tick],
      candle_of_run 1 Sec1 [sample_tick2]]"
  have "bucket_start_ns Sec1 (tick_timestamp_ns sample_tick) \<noteq> bucket_start_ns Sec1 (tick_timestamp_ns sample_tick2)"
    by (simp add: bucket_start_ns_def sample_tick_def sample_tick2_def Let_def)
  then have "map last (runs cdl_timestamp_ns ?cs) =
      [candle_of_run 1 Sec1 [sample_tick, sample_tick], candle_of_run 1 Sec1 [sample_tick2]]"
    by (auto simp: candle_of_run_def)
  moreover have "\<forall>c \<in> set ?cs. cdl_market_id c = 1 \<and> cdl_timeframe c = timeframe_u8 Sec1"
    by (simp add: candle_of_run_def)
  ultimately show ?thesis
    using candle_upserts_keep_last [of ?cs 1 Sec1] by (auto simp: MARKET_COUNT_def)
qed

section \<open>Time queries\<close>

text \<open>
  C32. On ticks in time order the half-open range query returns exactly the ticks with
  \<open>start \<le> timestamp < end\<close>; it panics exactly when \<open>end < start\<close> and some tick lies in between.
\<close>

theorem query_tick_range_filter:
  assumes "sorted (map tick_timestamp_ns ticks)"
  shows "query_tick_range ticks start stop =
    (if start \<le> stop \<or> (\<forall>t \<in> set ticks. tick_timestamp_ns t < stop \<or> start \<le> tick_timestamp_ns t)
     then Some (filter (\<lambda>t. start \<le> tick_timestamp_ns t \<and> tick_timestamp_ns t < stop) ticks) else None)"
  unfolding query_tick_range_def lower_bound_ticks_def by (rule slice_time_range [OF assms])

theorem query_tick_range_filter_witness:
  "query_tick_range [sample_tick, sample_tick2] 1700000000000000000 1700000001000000000 = Some [sample_tick] \<and>
   query_tick_range [sample_tick, sample_tick2] 1700000002000000000 1700000000000000000 = None"
proof -
  have "sorted (map tick_timestamp_ns [sample_tick, sample_tick2])"
    by (simp add: sample_tick_def sample_tick2_def)
  from query_tick_range_filter [OF this] show ?thesis by (simp add: sample_tick_def sample_tick2_def)
qed

text \<open>
  On candles in time order \<open>find_candle_at\<close> returns the last candle that starts at or before the
  time, however long before it, and None only when there is no such candle.
\<close>

theorem find_candle_at_last_before:
  assumes "sorted (map cdl_timestamp_ns cs)"
  shows "find_candle_at cs t =
    (let before = filter (\<lambda>c. cdl_timestamp_ns c \<le> t) cs in if before = [] then None else Some (last before))"
  by (rule find_candle_at_sorted [OF assms])

theorem find_candle_at_last_before_witness:
  "find_candle_at [candle_of_run 1 Sec1 [sample_tick]] 1800000000000000000 = Some (candle_of_run 1 Sec1 [sample_tick]) \<and>
   find_candle_at [candle_of_run 1 Sec1 [sample_tick]] 5 = None"
proof -
  have "sorted (map cdl_timestamp_ns [candle_of_run 1 Sec1 [sample_tick]])" by simp
  from find_candle_at_last_before [OF this] show ?thesis
    by (simp add: candle_of_run_def sample_tick_def bucket_start_ns_def Let_def)
qed

section \<open>Snapshot directory\<close>

text \<open>
  C33. The snapshot that is loaded at a restart is the one of the greatest block number in the
  directory, whatever the order in which the directory is listed, and cleaning up keeps every
  snapshot from the given block on, removes exactly the older ones and leaves other files alone.
\<close>

theorem snapshot_directory_exact:
  assumes "snapshot_dir_ok d" "enumerates names (dom d)" "d (snapshot_filename b) = Some data" "de data = Some snap"
    and "\<And>c. d (snapshot_filename c) \<noteq> None \<Longrightarrow> c \<le> b"
  shows "load_latest_snapshot de names d = Inr (Some snap) \<and>
    (\<exists>n d'. cleanup_snapshots keep names d = Inr (n, d') \<and>
      (\<forall>c. d' (snapshot_filename c) = (if c < keep then None else d (snapshot_filename c))) \<and>
      (\<forall>p. parse_numbered ''snapshot_'' p = None \<longrightarrow> d' p = d p))"
  using load_latest_max [OF assms(1,2), of b de] assms(3,4,5) cleanup_snapshots_ok [OF assms(1,2), of keep]
  by (simp add: read_snapshot_def)

theorem snapshot_directory_exact_witness:
  "\<exists>names n d'. load_latest_snapshot sample_sde names
      [snapshot_filename 5 \<mapsto> [5], snapshot_filename 12 \<mapsto> [12]] = Inr (Some (sample_snapshot 12)) \<and>
    cleanup_snapshots 10 names [snapshot_filename 5 \<mapsto> [5], snapshot_filename 12 \<mapsto> [12]] = Inr (n, d') \<and>
    d' (snapshot_filename 5) = None \<and> d' (snapshot_filename 12) = Some [12]"
proof -
  let ?d = "[snapshot_filename 5 \<mapsto> [5], snapshot_filename 12 \<mapsto> [12]] :: dir"
  have 1: "snapshot_dir_ok ?d" by (auto simp: snapshot_dir_ok_def split: if_splits)
  have 2: "enumerates [snapshot_filename 5, snapshot_filename 12] (dom ?d)" by (auto simp: enumerates_def)
  have 3: "?d (snapshot_filename 12) = Some [12]" by simp
  have de: "sample_sde [12] = Some (sample_snapshot 12)" by (simp add: sample_sde_def)
  have 4: "c \<le> 12" if "?d (snapshot_filename c) \<noteq> None" for c using that by (auto split: if_splits)
  have "load_latest_snapshot sample_sde [snapshot_filename 5, snapshot_filename 12] ?d = Inr (Some (sample_snapshot 12)) \<and>
    (\<exists>n d'. cleanup_snapshots 10 [snapshot_filename 5, snapshot_filename 12] ?d = Inr (n, d') \<and>
      (\<forall>c. d' (snapshot_filename c) = (if c < 10 then None else ?d (snapshot_filename c))) \<and>
      (\<forall>p. parse_numbered ''snapshot_'' p = None \<longrightarrow> d' p = ?d p))"
    by (rule snapshot_directory_exact [where de = sample_sde, OF 1 2 3 de 4])
  moreover have "(5 :: u64) < 10" "\<not> (12 :: u64) < 10" by simp_all
  ultimately show ?thesis by (metis 3)
qed

end
