(* ===== verification/Book_Levels.thy ===== *)
theory Book_Levels
  imports Orders "HOL-Library.Multiset"
begin

text \<open>
  Order books up to the order of the ids inside a price level: the abstraction of a side is the list of its
  prices with the bag of the ids at each. All operations respect it, and all figures that a book reports are determined by it.
  And what holds of the books after any sequence of operations.
\<close>

section \<open>The levels of a side\<close>

definition side_levels :: "book_side \<Rightarrow> (i128 \<times> hash32 multiset) list" where
  "side_levels side = map (map_prod id mset) side"

definition same_book :: "orderbook \<Rightarrow> orderbook \<Rightarrow> bool" where
  "same_book a b \<longleftrightarrow> side_levels (ob_bids a) = side_levels (ob_bids b) \<and> side_levels (ob_asks a) = side_levels (ob_asks b)"

definition same_books :: "orderbook list \<Rightarrow> orderbook list \<Rightarrow> bool" where
  "same_books = list_all2 same_book"

lemma same_books_refl [simp]: "same_books bs bs"
  by (simp add: same_books_def same_book_def list.rel_refl)

lemma same_books_trans: "same_books a b \<Longrightarrow> same_books b c \<Longrightarrow> same_books a c"
  unfolding same_books_def by (rule list_all2_trans [of same_book same_book same_book]) (auto simp: same_book_def)

lemma map_of_levels: "map_of (side_levels side) p = map_option mset (map_of side p)"
  by (induction side) (auto simp: side_levels_def)

lemma levels_insert: "side_levels (bt_insert p ids side) = bt_insert p (mset ids) (side_levels side)"
  by (induction side) (auto simp: side_levels_def)

lemma levels_remove: "side_levels (bt_remove p side) = bt_remove p (side_levels side)"
  by (induction side) (auto simp: side_levels_def bt_remove_def)

text \<open>The operations on a side, on its levels.\<close>

lemma levels_push:
  "side_levels (level_push p oid side) =
     bt_insert p (add_mset oid (case map_of (side_levels side) p of None \<Rightarrow> {#} | Some M \<Rightarrow> M)) (side_levels side)"
  by (auto simp: level_push_def levels_insert map_of_levels split: option.splits)

lemma levels_level_remove:
  "side_levels (level_remove p oid side) = (case map_of (side_levels side) p of
      None \<Rightarrow> side_levels side
    | Some M \<Rightarrow> (let M' = filter_mset (\<lambda>i. i \<noteq> oid) M
        in if M' = {#} then bt_remove p (side_levels side) else bt_insert p M' (side_levels side)))"
proof (cases "map_of side p")
  case (Some ids)
  define ids' where "ids' = filter (\<lambda>i. i \<noteq> oid) ids"
  then have "filter_mset (\<lambda>i. i \<noteq> oid) (mset ids) = mset ids'" by simp
  then show ?thesis
    by (simp add: level_remove_def map_of_levels Some Let_def levels_insert levels_remove ids'_def [symmetric])
qed (simp add: level_remove_def map_of_levels)

lemma side_levels_cong:
  assumes "side_levels s = side_levels t"
  shows "side_levels (level_push p oid s) = side_levels (level_push p oid t)"
    "side_levels (level_remove p oid s) = side_levels (level_remove p oid t)"
  unfolding levels_push levels_level_remove assms by (rule refl)+

lemma same_book_ops:
  assumes "same_book a b"
  shows "same_book (add_bid p oid a) (add_bid p oid b)" "same_book (add_ask p oid a) (add_ask p oid b)"
    "same_book (remove_bid p oid a) (remove_bid p oid b)" "same_book (remove_ask p oid a) (remove_ask p oid b)"
  using assms
  by (simp_all add: same_book_def add_bid_def add_ask_def remove_bid_def remove_ask_def side_levels_cong [of "ob_bids a"]
      side_levels_cong [of "ob_asks a"])

lemma same_books_with:
  assumes "same_books as bs" "\<And>a b. same_book a b \<Longrightarrow> same_book (f a) (f b)"
  shows "same_books (with_book m f as) (with_book m f bs)"
  using assms by (auto simp: same_books_def with_book_def list_all2_lengthD list_all2_nthD intro!: list_all2_update_cong)

text \<open>What a reader of the book sees.\<close>

lemma same_book_shows:
  assumes "same_book a b"
  shows "best_bid a = best_bid b" "best_ask a = best_ask b" "spread a = spread b"
    "bids_depth a n = bids_depth b n" "asks_depth a n = asks_depth b n"
    "bid_count a = bid_count b" "ask_count a = ask_count b"
proof -
  have keys: "map fst side = map fst (side_levels side)" for side by (simp add: side_levels_def)
  have depths: "map depth_of side = map (\<lambda>e. \<lparr>dl_price = fst e, dl_order_count = size (snd e)\<rparr>) (side_levels side)" for side
    by (simp add: side_levels_def depth_of_def)
  have counts: "map (\<lambda>e. length (snd e)) side = map (\<lambda>e. size (snd e)) (side_levels side)" for side
    by (simp add: side_levels_def)
  have first: "bt_first_key side = bt_first_key (side_levels side)" for side
    by (simp add: bt_first_key_def side_levels_def split: list.splits)
  have last: "bt_last_key side = bt_last_key (side_levels side)" for side
    unfolding bt_last_key_def using first [of "rev side"] by (simp add: side_levels_def rev_map)
  show bb: "best_bid a = best_bid b" and ba: "best_ask a = best_ask b"
    using assms by (simp_all add: best_bid_def best_ask_def first [of "ob_asks _"] last [of "ob_bids _"] same_book_def)
  show "spread a = spread b" by (simp add: spread_def bb ba split: option.split)
  show "bids_depth a n = bids_depth b n" "asks_depth a n = asks_depth b n"
    using assms by (simp_all add: bids_depth_def asks_depth_def take_map [symmetric] rev_map [symmetric] depths same_book_def)
  show "bid_count a = bid_count b" "ask_count a = ask_count b"
    using assms by (simp_all add: bid_count_def ask_count_def counts same_book_def)
qed

section \<open>Order tables\<close>

text \<open>Two tables with the same orders, whose books hold the same ids at the same prices.\<close>

definition same_orders :: "order_table \<Rightarrow> order_table \<Rightarrow> bool" where
  "same_orders t u \<longleftrightarrow> ot_orders t = ot_orders u \<and> ot_by_user t = ot_by_user u \<and> same_books (ot_orderbooks t) (ot_orderbooks u)"

lemma same_orders_refl [simp]: "same_orders t t"
  by (simp add: same_orders_def)

lemma same_orders_trans: "same_orders t u \<Longrightarrow> same_orders u v \<Longrightarrow> same_orders t v"
  by (auto simp: same_orders_def intro: same_books_trans)

lemma same_orders_ops:
  assumes "same_orders t u"
  shows "same_orders (orders_insert r t) (orders_insert r u)"
    "same_orders (snd (orders_cancel k t)) (snd (orders_cancel k u))"
    "same_orders (snd (orders_execute k price pid ts t)) (snd (orders_execute k price pid ts u))"
    "same_orders (snd (orders_remove k t)) (snd (orders_remove k u))"
  using assms
  by (auto simp: same_orders_def orders_insert_def orders_cancel_def orders_execute_def orders_remove_def
      remove_from_orderbook_def Let_def same_book_ops intro!: same_books_with split: option.splits)

text \<open>Well-formed tables with the same orders are the same.\<close>

lemma side_levels_eq:
  assumes "side_ok s" "side_ok t" "\<And>p. side_ids s p = side_ids t p"
  shows "side_levels s = side_levels t"
proof -
  have keys: "map fst s = map fst t"
    using assms side_keys [of s] side_keys [of t]
    by (intro sorted_distinct_set_unique) (auto simp: side_ok_def bt_ok_def strict_sorted_iff)
  have dist: "distinct (map fst s)" "distinct (map fst t)" using assms by (simp_all add: side_ok_def bt_distinct_keys)
  have len: "length s = length t" using arg_cong [OF keys, of length] by simp
  show ?thesis
  proof (rule nth_equalityI)
    fix i assume "i < length (side_levels s)"
    then have i: "i < length s" "i < length t" using len by (simp_all add: side_levels_def)
    obtain p ids where s: "s ! i = (p, ids)" by (cases "s ! i")
    obtain p' ids' where t: "t ! i = (p', ids')" by (cases "t ! i")
    have p: "p' = p" using arg_cong [OF keys, of "\<lambda>xs. xs ! i"] i s t by simp
    have "map_of s p = Some ids" "map_of t p = Some ids'"
      using dist nth_mem [OF i(1)] nth_mem [OF i(2)] by (simp_all add: s t p)
    then have "set ids = set ids'" "distinct ids" "distinct ids'"
      using assms(1,2) assms(3) [of p] by (auto simp: side_ids_def side_ok_def)
    then show "side_levels s ! i = side_levels t ! i" using i by (simp add: side_levels_def s t p set_eq_iff_mset_eq_distinct)
  qed (simp add: side_levels_def len)
qed

lemma orders_ok_same:
  assumes "orders_ok t" "orders_ok u" "ot_orders t = ot_orders u" "ot_by_user t = ot_by_user u"
  shows "same_orders t u"
proof -
  have len: "length (ot_orderbooks t) = MARKET_COUNT" "length (ot_orderbooks u) = MARKET_COUNT"
    using assms by (simp_all add: orders_ok_def books_ok_def)
  have side: "side_levels (book_side_of l (ot_orderbooks t ! m)) = side_levels (book_side_of l (ot_orderbooks u ! m))"
    if "m < MARKET_COUNT" for l m
    using assms that by (intro side_levels_eq) (simp_all add: orders_ok_def books_ok_def)
  have "same_books (ot_orderbooks t) (ot_orderbooks u)"
    using side [of _ True] side [of _ False] len
    by (simp add: same_books_def list_all2_conv_all_nth same_book_def book_side_of_def)
  then show ?thesis using assms(3,4) by (simp add: same_orders_def)
qed

section \<open>Any sequence of operations\<close>

text \<open>
  An order placed again under the id of an active one leaves the old id in the book. What holds nevertheless: no active
  order is missing from its level and no order from the list of its user, the prices of a side ascend and no level is empty.
\<close>

definition side_shaped :: "book_side \<Rightarrow> bool" where
  "side_shaped side \<longleftrightarrow> bt_ok side \<and> (\<forall>p ids. map_of side p = Some ids \<longrightarrow> ids \<noteq> [])"

definition book_shaped :: "orderbook \<Rightarrow> bool" where
  "book_shaped b \<longleftrightarrow> side_shaped (ob_bids b) \<and> side_shaped (ob_asks b)"

lemma level_shaped:
  "side_shaped s \<Longrightarrow> side_shaped (level_push p oid s)" "side_shaped s \<Longrightarrow> side_shaped (level_remove p oid s)"
  by (auto simp: side_shaped_def level_push_def level_remove_def Let_def split: option.splits if_splits)

lemma book_shaped_ops:
  "book_shaped b \<Longrightarrow> book_shaped (add_bid p oid b)" "book_shaped b \<Longrightarrow> book_shaped (add_ask p oid b)"
  "book_shaped b \<Longrightarrow> book_shaped (remove_bid p oid b)" "book_shaped b \<Longrightarrow> book_shaped (remove_ask p oid b)"
  by (simp_all add: book_shaped_def add_bid_def add_ask_def remove_bid_def remove_ask_def level_shaped)

lemma with_book_shaped:
  "\<forall>b \<in> set books. book_shaped b \<Longrightarrow> (\<And>b. book_shaped b \<Longrightarrow> book_shaped (f b)) \<Longrightarrow> \<forall>b \<in> set (with_book m f books). book_shaped b"
  using set_update_subset_insert [of books "unat m" "f (books ! unat m)"] by (auto simp: with_book_def)

definition orders_covered :: "order_table \<Rightarrow> bool" where
  "orders_covered t \<longleftrightarrow> keyed_by ord_order_id (ot_orders t) \<and> index_complete ord_user_address (ot_orders t) (ot_by_user t) \<and>
     length (ot_orderbooks t) = MARKET_COUNT \<and> (\<forall>b \<in> set (ot_orderbooks t). book_shaped b) \<and>
     (\<forall>m < MARKET_COUNT. \<forall>l p. active_ids (ot_orders t) m l p \<subseteq> side_ids (book_side_of l (ot_orderbooks t ! m)) p)"

lemma orders_covered_new: "orders_covered orders_new"
  by (auto simp: orders_covered_def orders_new_def index_complete_def active_ids_def book_shaped_def orderbook_new_def side_shaped_def)

lemma active_ids_put: "active_ids (ords(oid \<mapsto> ord)) m l p \<subseteq> active_ids ords m l p \<union>
    (if order_is_active ord \<and> unat (ord_market_id ord) = m \<and> ord_is_long ord = l \<and> ord_trigger_price ord = p then {oid} else {})"
  by (auto simp: active_ids_def split: if_splits)

lemma orders_covered_insert:
  assumes "orders_covered t"
  shows "orders_covered (orders_insert ord t)"
proof -
  let ?u = "orders_insert ord t"
  have "active_ids (ot_orders ?u) m l p \<subseteq> side_ids (book_side_of l (ot_orderbooks ?u ! m)) p" if "m < MARKET_COUNT" for m l p
  proof -
    let ?new = "order_is_active ord \<and> unat (ord_market_id ord) = m \<and> ord_is_long ord = l \<and> ord_trigger_price ord = p"
    have sub: "active_ids (ot_orders t) m l p \<subseteq> side_ids (book_side_of l (ot_orderbooks t ! m)) p" "m < length (ot_orderbooks t)"
      using assms that by (simp_all add: orders_covered_def)
    then have "side_ids (book_side_of l (ot_orderbooks ?u ! m)) p =
        side_ids (book_side_of l (ot_orderbooks t ! m)) p \<union> (if ?new then {ord_order_id ord} else {})"
      by (auto simp: orders_insert_def Let_def with_book_nth book_side_of_simps side_ids_push)
    then show ?thesis
      using order_trans [OF active_ids_put Un_mono [OF sub(1) order_refl]] by (simp add: orders_insert_def Let_def)
  qed
  moreover have "index_complete ord_user_address (ot_orders ?u) (ot_by_user ?u)"
    using assms index_complete_add by (fastforce simp: orders_covered_def orders_insert_def Let_def)
  moreover have shaped: "\<forall>b \<in> set (ot_orderbooks t). book_shaped b" using assms by (simp add: orders_covered_def)
  have "\<forall>b \<in> set (ot_orderbooks ?u). book_shaped b"
  proof (cases "order_is_active ord")
    case True
    then have "ot_orderbooks ?u = with_book (ord_market_id ord) (if ord_is_long ord then add_bid (ord_trigger_price ord) (ord_order_id ord)
        else add_ask (ord_trigger_price ord) (ord_order_id ord)) (ot_orderbooks t)"
      by (simp add: orders_insert_def Let_def)
    moreover have "\<forall>b \<in> set (with_book (ord_market_id ord) (if ord_is_long ord then add_bid (ord_trigger_price ord) (ord_order_id ord)
        else add_ask (ord_trigger_price ord) (ord_order_id ord)) (ot_orderbooks t)). book_shaped b"
      by (rule with_book_shaped [OF shaped]) (simp add: book_shaped_ops)
    ultimately show ?thesis by (simp only:)
  qed (use shaped in \<open>simp add: orders_insert_def Let_def\<close>)
  ultimately show ?thesis
    using assms by (auto simp: orders_covered_def orders_insert_def Let_def)
qed

text \<open>Cancelling, executing and removing an order.\<close>

lemma orders_covered_retire:
  assumes "orders_covered t" "ot_orders t oid = Some ord" "\<And>ord'. x = Some ord' \<Longrightarrow> \<not> order_is_active ord' \<and> ord_order_id ord' = oid"
    and u: "ot_orders u = (ot_orders t)(oid := x)" "ot_orderbooks u =
      (if order_is_active ord
       then remove_from_orderbook (ord_market_id ord) (ord_is_long ord) (ord_trigger_price ord) oid (ot_orderbooks t)
       else ot_orderbooks t)" "index_complete ord_user_address (ot_orders u) (ot_by_user u)"
  shows "orders_covered u"
proof -
  have "active_ids (ot_orders u) m l p \<subseteq> side_ids (book_side_of l (ot_orderbooks u ! m)) p" if "m < MARKET_COUNT" for m l p
  proof -
    have "active_ids (ot_orders t) m l p \<subseteq> side_ids (book_side_of l (ot_orderbooks t ! m)) p" "m < length (ot_orderbooks t)"
      using assms(1) that by (simp_all add: orders_covered_def)
    moreover have "active_ids (ot_orders u) m l p = active_ids (ot_orders t) m l p - {oid}"
      using active_ids_upd_gone [of "ot_orders t" oid ord x] assms(2,3) u(1) by simp
    ultimately show ?thesis
      by (auto simp: u(2) remove_from_orderbook_def with_book_nth book_side_of_simps side_ids_remove)
  qed
  moreover have shaped: "\<forall>b \<in> set (ot_orderbooks t). book_shaped b" using assms(1) by (simp add: orders_covered_def)
  have "\<forall>b \<in> set (remove_from_orderbook m l p oid (ot_orderbooks t)). book_shaped b" for m l p
    unfolding remove_from_orderbook_def by (rule with_book_shaped [OF shaped]) (simp add: book_shaped_ops)
  then have "\<forall>b \<in> set (ot_orderbooks u). book_shaped b" using shaped by (simp only: u(2) if_split) simp
  ultimately show ?thesis using assms(1,3) u(3) by (auto simp: orders_covered_def keyed_by_def u(1,2))
qed

lemma index_complete_same:
  "index_complete key prim idx \<Longrightarrow> prim k = Some v \<Longrightarrow> key v' = key v \<Longrightarrow> index_complete key (prim(k \<mapsto> v')) idx"
  by (auto simp: index_complete_def)

lemma index_complete_del: "index_complete key prim idx \<Longrightarrow> index_complete key (prim(k := None)) (idx_del x k idx)"
proof (unfold index_complete_def, intro allI impI)
  fix j v assume c: "\<forall>k v. prim k = Some v \<longrightarrow> (\<exists>S. idx (key v) = Some S \<and> k \<in> S)" and "(prim(k := None)) j = Some v"
  then have j: "j \<noteq> k" "prim j = Some v" by (auto split: if_splits)
  then obtain S where "idx (key v) = Some S" "j \<in> S" using c by blast
  then show "\<exists>S. idx_del x k idx (key v) = Some S \<and> j \<in> S" using j(1) by (auto simp: idx_del_def Let_def split: option.splits)
qed

lemma orders_covered_ops:
  assumes ok: "orders_covered t"
  shows "orders_covered (snd (orders_cancel oid t))" "orders_covered (snd (orders_execute oid price pid ts t))"
    "orders_covered (snd (orders_remove oid t))"
proof -
  have key: "ord_order_id ord = oid" if "ot_orders t oid = Some ord" for ord
    using ok that by (simp add: orders_covered_def keyed_by_def)
  have idx: "index_complete ord_user_address (ot_orders t) (ot_by_user t)" using ok by (simp add: orders_covered_def)
  have retire: "orders_covered u"
    if "ot_orders t oid = Some ord" "\<not> order_is_active ord'" "ord_order_id ord' = ord_order_id ord" "ord_user_address ord' = ord_user_address ord"
      "ot_orders u = (ot_orders t)(oid \<mapsto> ord')" "ot_by_user u = ot_by_user t" "ot_orderbooks u =
        (if order_is_active ord
         then remove_from_orderbook (ord_market_id ord) (ord_is_long ord) (ord_trigger_price ord) oid (ot_orderbooks t)
         else ot_orderbooks t)" for ord ord' u
    using orders_covered_retire [OF ok that(1), of "Some ord'" u] index_complete_same [OF idx that(1,4)] that key by simp
  show "orders_covered (snd (orders_cancel oid t))"
  proof (cases "ot_orders t oid")
    case (Some ord)
    then show ?thesis
      by (intro retire [OF Some, of "ord\<lparr>ord_status := OsCancelled\<rparr>"]) (simp_all add: orders_cancel_def Let_def order_is_active_def)
  qed (use ok in \<open>simp add: orders_cancel_def\<close>)
  show "orders_covered (snd (orders_execute oid price pid ts t))"
  proof (cases "ot_orders t oid")
    case (Some ord)
    then show ?thesis
      by (intro retire [OF Some, of "ord\<lparr>ord_status := OsExecuted, ord_execution_price := Some price,
          ord_position_id := Some pid, ord_executed_at := Some ts\<rparr>"])
        (simp_all add: orders_execute_def Let_def order_is_active_def)
  qed (use ok in \<open>simp add: orders_execute_def\<close>)
  show "orders_covered (snd (orders_remove oid t))"
  proof (cases "ot_orders t oid")
    case (Some ord)
    then show ?thesis
      using orders_covered_retire [OF ok Some, of None] index_complete_del [OF idx] by (simp add: orders_remove_def)
  qed (use ok in \<open>simp add: orders_remove_def\<close>)
qed

end
