(* ===== verification/State_Properties.thy ===== *)
theory State_Properties
  imports Samples Book_Levels
begin

text \<open>
  The properties of the in-memory state and of the aggregates: candles, leaderboards, daily
  figures, orders, positions, balances, users, referral tiers, alerts, API keys, competitions.
\<close>

section \<open>Candles\<close>

text \<open>
  C35. Every candle that the builder closes lies on a bucket boundary and, when no price is NaN, has
  its low below and its high above both the opening and the closing price.
\<close>

theorem closed_candle_shape:
  assumes m: "unat m < MARKET_COUNT" and nan: "\<forall>t \<in> set ts. \<not> f64_is_nan (tick_price t)"
    and c: "c \<in> set (closed_candles m tf (fst (on_ticks ts candle_builder_new)))"
  shows "candle_bounds c \<and> bucket_ns tf dvd unat (cdl_timestamp_ns c) \<and> cdl_market_id c = m"
proof -
  let ?gs = "runs (tick_bucket tf) (filter (\<lambda>t. tick_market_id t = m) ts)"
  obtain g where g: "g \<in> set ?gs" "c = candle_of_run m tf g"
    using c on_ticks_slot(2) [OF m] by (auto dest: in_set_butlastD)
  have ne: "g \<noteq> []" using g(1) runs_nonempty by metis
  have "set g \<subseteq> set ts" using g(1) concat_runs [of "tick_bucket tf" "filter (\<lambda>t. tick_market_id t = m) ts"]
    by (metis (no_types, lifting) UN_upper filter_is_subset set_concat subset_trans)
  then have "f64_le (run_low g) (tick_price t) \<and> f64_le (tick_price t) (run_high g)" if "t \<in> set g" for t
    using nan that by (intro run_bounds) auto
  from this [of "hd g"] this [of "last g"] ne show ?thesis
    by (simp add: g(2) candle_bounds_def candle_of_run_def bucket_start_ns_dvd)
qed

theorem closed_candle_shape_witness:
  "candle_bounds (candle_of_run 1 Sec1 [sample_tick]) \<and>
   bucket_ns Sec1 dvd unat (cdl_timestamp_ns (candle_of_run 1 Sec1 [sample_tick])) \<and>
   cdl_market_id (candle_of_run 1 Sec1 [sample_tick]) = 1"
proof (rule closed_candle_shape)
  show m: "unat (1 :: market_id) < MARKET_COUNT" by (simp add: MARKET_COUNT_def)
  show "\<forall>t \<in> set [sample_tick, sample_tick2]. \<not> f64_is_nan (tick_price t)"
    by (simp add: sample_tick_def sample_tick2_def f64_is_nan_def f64_mag_def take_bit_eq_mod)
  have "tick_bucket Sec1 sample_tick \<noteq> tick_bucket Sec1 sample_tick2"
    by (simp add: bucket_start_ns_def sample_tick_def sample_tick2_def Let_def)
  moreover have "tick_market_id sample_tick = 1" "tick_market_id sample_tick2 = 1"
    by (simp_all add: sample_tick_def sample_tick2_def)
  ultimately show "candle_of_run 1 Sec1 [sample_tick] \<in>
      set (closed_candles 1 Sec1 (fst (on_ticks [sample_tick, sample_tick2] candle_builder_new)))"
    using on_ticks_slot(2) [OF m, of Sec1 "[sample_tick, sample_tick2]"] by auto
qed

text \<open>
  A bucket starts at a multiple of its length, at or before the timestamp and less than one
  length before it; two timestamps share a bucket exactly when they have the same quotient.
  No timestamp of 64 bits makes the arithmetic wrap.
\<close>

theorem bucket_start_ns_exact:
  "bucket_ns tf dvd unat (bucket_start_ns tf t) \<and> unat (bucket_start_ns tf t) \<le> unat t \<and>
   unat t < unat (bucket_start_ns tf t) + bucket_ns tf \<and>
   (bucket_start_ns tf t = bucket_start_ns tf u \<longleftrightarrow> unat t div bucket_ns tf = unat u div bucket_ns tf)"
proof -
  have "unat (bucket_start_ns tf x) = unat x div bucket_ns tf * bucket_ns tf" for x
    by (simp add: unat_bucket_start_ns minus_mod_eq_div_mult)
  then have "bucket_start_ns tf t = bucket_start_ns tf u \<longleftrightarrow> unat t div bucket_ns tf = unat u div bucket_ns tf"
    using bucket_ns_pos [of tf] by (auto simp: word_unat_eq_iff)
  then show ?thesis by (simp add: bucket_start_ns_dvd bucket_start_ns_le bucket_start_ns_width)
qed

section \<open>Leaderboards and daily figures\<close>

lemma find_rank_index:
  assumes "map le_rank es = map (\<lambda>i. word_of_nat (i + 1)) [k..<k + length es]"
  shows "map_option le_rank (List.find (\<lambda>e. le_address e = a) es) =
    map_option (\<lambda>i. word_of_nat (k + i + 1)) (index_of a (map le_address es))"
  using assms
proof (induction es arbitrary: k)
  case (Cons e es)
  have "[k..<k + length (e # es)] = k # [Suc k..<Suc k + length es]" by (simp add: upt_conv_Cons del: upt_Suc)
  then have "le_rank e = word_of_nat (k + 1)" "map le_rank es = map (\<lambda>i. word_of_nat (i + 1)) [Suc k..<Suc k + length es]"
    using Cons.prems by (simp_all del: upt_Suc)
  with Cons.IH [OF this(2)] show ?case by (auto simp: option.map_comp comp_def algebra_simps)
qed simp

lemma board_rank_place:
  assumes "board_ok n es"
  shows "map_option le_rank (List.find (\<lambda>e. le_address e = a) es) =
    map_option (\<lambda>i. word_of_nat (i + 1)) (index_of a (map le_address es))"
  using find_rank_index [of es 0 a] assms by (simp add: board_ok_def)

text \<open>
  C37. A rebuilt board lists the best traders with at least one trade, in descending order of the
  metric, ranked from 1, as many as fit; both boards are rebuilt from the same figures. The rank a
  trader is told is the place of its entry on the board, and a trader that is not on it has none.
\<close>

theorem leaderboard_rebuild_ranked:
  fixes all_stats now lb
  defines "lb' \<equiv> leaderboard_rebuild all_stats now lb"
  shows "ranked_by ts_total_pnl (lb_max_entries lb) all_stats (lb_entries (lb_pnl_board lb')) \<and>
   ranked_by ts_total_volume (lb_max_entries lb) all_stats (lb_entries (lb_volume_board lb')) \<and>
   pnl_rank lb' a = map_option (\<lambda>i. word_of_nat (i + 1)) (index_of a (map le_address (lb_entries (lb_pnl_board lb')))) \<and>
   volume_rank lb' a = map_option (\<lambda>i. word_of_nat (i + 1)) (index_of a (map le_address (lb_entries (lb_volume_board lb'))))"
proof -
  have r: "ranked_by ts_total_pnl (lb_max_entries lb) all_stats (lb_entries (lb_pnl_board lb'))"
    "ranked_by ts_total_volume (lb_max_entries lb) all_stats (lb_entries (lb_volume_board lb'))"
    using rebuild_pnl_ranked [of lb all_stats now] rebuild_volume_ranked [of "rebuild_pnl all_stats now lb" all_stats now]
    by (simp_all add: lb'_def leaderboard_rebuild_def)
  then show ?thesis
    using board_rank_place [OF board_ok_ranked [OF r(1)], of a] board_rank_place [OF board_ok_ranked [OF r(2)], of a]
    by (simp add: pnl_rank_def volume_rank_def)
qed

lemma values_of_the: "(\<And>k. k \<in> set ks \<Longrightarrow> m k \<noteq> None) \<Longrightarrow> values_of ks m = map (\<lambda>k. the (m k)) ks"
  by (induction ks) (auto split: option.splits)

lemma sum_values_of:
  fixes f :: "'v \<Rightarrow> 'n :: comm_monoid_add"
  assumes "iterates ks m"
  shows "sum_list (map f (values_of (filter P ks) m)) = (\<Sum>k \<in> {k \<in> dom m. P k}. f (the (m k)))"
proof -
  have ks: "distinct (filter P ks)" "set (filter P ks) = {k \<in> dom m. P k}" using assms by (auto simp: iterates_def)
  have "values_of (filter P ks) m = map (\<lambda>k. the (m k)) (filter P ks)"
    using assms by (intro values_of_the) (auto simp: iterates_def)
  then show ?thesis
    using sum_list_distinct_conv_sum_set [OF ks(1), of "\<lambda>k. f (the (m k))"] ks(2) by (simp add: comp_def)
qed

text \<open>
  The protocol's figures of a day are the sums, in 128-bit arithmetic, of the figures of the
  traders with a record for that day, each counted once, whatever the iteration order of the map.
\<close>

theorem protocol_daily_sums:
  assumes "iterates ks s"
  shows "ds_pnl (protocol_daily ks s date) = (\<Sum>k \<in> {k \<in> dom s. snd k = date}. ds_pnl (the (s k))) \<and>
    ds_volume (protocol_daily ks s date) = (\<Sum>k \<in> {k \<in> dom s. snd k = date}. ds_volume (the (s k))) \<and>
    ds_fees (protocol_daily ks s date) = (\<Sum>k \<in> {k \<in> dom s. snd k = date}. ds_fees (the (s k))) \<and>
    ds_trades (protocol_daily ks s date) = (\<Sum>k \<in> {k \<in> dom s. snd k = date}. ds_trades (the (s k)))"
  by (simp add: protocol_daily_def fold_add_daily daily_zero_def sum_values_of [OF assms])

theorem protocol_daily_sums_witness:
  "ds_pnl (protocol_daily [(alice, 20240101), (bob, 20240101)]
     (accumulate_trade bob 20240101 10 4 0 (accumulate_trade alice 20240101 10 3 0 daily_new)) 20240101) = 3 + 4"
proof -
  let ?s = "accumulate_trade bob 20240101 10 4 0 (accumulate_trade alice 20240101 10 3 0 daily_new)"
  have "iterates [(alice, 20240101), (bob, 20240101)] ?s"
    by (auto simp: iterates_def accumulate_trade_def daily_new_def)
  moreover have "{k \<in> dom ?s. snd k = 20240101} = {(alice, 20240101), (bob, 20240101)}"
    by (auto simp: accumulate_trade_def daily_new_def split: if_splits)
  ultimately show ?thesis
    using protocol_daily_sums [of "[(alice, 20240101), (bob, 20240101)]" ?s 20240101]
    by (simp add: accumulate_trade_def daily_new_def)
qed

section \<open>Orders\<close>

text \<open>
  The tables that the operations of \<open>OrderTable\<close> can build. \<open>insert\<close> checks nothing of the order;
  \<open>expected\<close> says which orders came.
\<close>

inductive orders_reach :: "(order_table \<Rightarrow> order \<Rightarrow> bool) \<Rightarrow> order_table \<Rightarrow> bool" for expected where
  orders_reach_new: "orders_reach expected orders_new"
| orders_reach_insert: "orders_reach expected t \<Longrightarrow> expected t ord \<Longrightarrow> orders_reach expected (orders_insert ord t)"
| orders_reach_cancel: "orders_reach expected t \<Longrightarrow> orders_reach expected (snd (orders_cancel oid t))"
| orders_reach_execute: "orders_reach expected t \<Longrightarrow> orders_reach expected (snd (orders_execute oid price pid ts t))"
| orders_reach_remove: "orders_reach expected t \<Longrightarrow> orders_reach expected (snd (orders_remove oid t))"

abbreviation any_order :: "order_table \<Rightarrow> order \<Rightarrow> bool" where
  "any_order \<equiv> \<lambda>_ _. True"

lemma orders_reach_any: "orders_reach expected t \<Longrightarrow> orders_reach any_order t"
  by (induction rule: orders_reach.induct) (auto intro: orders_reach.intros)

lemma orders_reach_covered: "orders_reach any_order t \<Longrightarrow> orders_covered t"
  by (induction rule: orders_reach.induct) (simp_all add: orders_covered_new orders_covered_insert orders_covered_ops)

lemma orders_reach_ok: "orders_reach order_insertable t \<Longrightarrow> orders_ok t"
  by (induction rule: orders_reach.induct)
     (simp_all add: orders_ok_new orders_ok_insert orders_ok_cancel orders_ok_execute orders_ok_remove)

text \<open>The best prices of an exact book.\<close>

lemma exact_book:
  assumes "orders_ok t" "orders_orderbook t m = Some b"
  shows "(\<forall>l p. side_ok (book_side_of l b) \<and> side_ids (book_side_of l b) p = active_ids (ot_orders t) (unat m) l p) \<and>
    index_ok ord_user_address (ot_orders t) (ot_by_user t) \<and>
    best_bid b = (let ps = {ord_trigger_price ord | ord. ord \<in> ran (ot_orders t) \<and> order_is_active ord \<and>
        ord_market_id ord = m \<and> ord_is_long ord} in if ps = {} then None else Some (Max ps)) \<and>
    best_ask b = (let ps = {ord_trigger_price ord | ord. ord \<in> ran (ot_orders t) \<and> order_is_active ord \<and>
        ord_market_id ord = m \<and> \<not> ord_is_long ord} in if ps = {} then None else Some (Min ps))"
proof -
  note ok = assms(1)
  have len: "length (ot_orderbooks t) = MARKET_COUNT" using ok by (simp add: orders_ok_def books_ok_def)
  have b: "unat m < MARKET_COUNT" "b = ot_orderbooks t ! unat m"
    using assms(2) len by (auto simp: orders_orderbook_def split: if_splits)
  have books: "side_ok (book_side_of l b) \<and> side_ids (book_side_of l b) p = active_ids (ot_orders t) (unat m) l p" for l p
    using ok b by (simp add: orders_ok_def books_ok_def)
  have index: "index_ok ord_user_address (ot_orders t) (ot_by_user t)" using ok by (simp add: orders_ok_def)
  have bids: "bt_ok (ob_bids b)" "fst ` set (ob_bids b) = {ord_trigger_price ord | ord. ord \<in> ran (ot_orders t) \<and>
      order_is_active ord \<and> ord_market_id ord = m \<and> ord_is_long ord}"
    using orders_ok_side [OF ok assms(2), of True] by (simp_all add: book_side_of_def side_ok_def)
  have asks: "bt_ok (ob_asks b)" "fst ` set (ob_asks b) = {ord_trigger_price ord | ord. ord \<in> ran (ot_orders t) \<and>
      order_is_active ord \<and> ord_market_id ord = m \<and> \<not> ord_is_long ord}"
    using orders_ok_side [OF ok assms(2), of False] by (simp_all add: book_side_of_def side_ok_def)
  show ?thesis
    unfolding best_bid_def best_ask_def bids(2) [symmetric] asks(2) [symmetric] Let_def
    using books index by (simp add: bt_last_key_Max [OF bids(1)] bt_first_key_Min [OF asks(1)])
qed

lemma sample_orders_reach: "orders_reach order_insertable (orders_insert sample_order orders_new)"
  by (rule orders_reach_insert [OF orders_reach_new]) (simp add: order_insertable_def orders_new_def)

text \<open>
  C39. Order books. Whatever the sequence of placements, cancellations, executions and removals, no active order is
  missing from its price level or from the list of its user, the prices of a book ascend and no level is empty. If in addition no
  order was placed under the id of an active order or of an order of another user, the book of a market holds
  at each price and side exactly the active orders of that market, side and price, each once, and the listing by user is
  exact; the best bid is then the highest trigger price of an active long order of the market, the best ask the lowest of an active
  short one, and there is none exactly when there is no such order.
\<close>

theorem order_books_exact:
  assumes "orders_reach any_order t" "orders_orderbook t m = Some b"
  shows "(\<forall>l p. active_ids (ot_orders t) (unat m) l p \<subseteq> side_ids (book_side_of l b) p) \<and> book_shaped b \<and>
    index_complete ord_user_address (ot_orders t) (ot_by_user t) \<and>
    (orders_reach order_insertable t \<longrightarrow>
      (\<forall>l p. side_ok (book_side_of l b) \<and> side_ids (book_side_of l b) p = active_ids (ot_orders t) (unat m) l p) \<and>
      index_ok ord_user_address (ot_orders t) (ot_by_user t) \<and>
      best_bid b = (let ps = {ord_trigger_price ord | ord. ord \<in> ran (ot_orders t) \<and> order_is_active ord \<and>
          ord_market_id ord = m \<and> ord_is_long ord} in if ps = {} then None else Some (Max ps)) \<and>
      best_ask b = (let ps = {ord_trigger_price ord | ord. ord \<in> ran (ot_orders t) \<and> order_is_active ord \<and>
          ord_market_id ord = m \<and> \<not> ord_is_long ord} in if ps = {} then None else Some (Min ps)))"
proof -
  note cov = orders_reach_covered [OF assms(1)]
  have b: "unat m < MARKET_COUNT" "b = ot_orderbooks t ! unat m" "unat m < length (ot_orderbooks t)"
    using assms(2) cov by (auto simp: orders_orderbook_def orders_covered_def split: if_splits)
  have "(\<forall>l p. active_ids (ot_orders t) (unat m) l p \<subseteq> side_ids (book_side_of l b) p)" "book_shaped b"
    "index_complete ord_user_address (ot_orders t) (ot_by_user t)"
    using cov b nth_mem [OF b(3)] by (simp_all add: orders_covered_def)
  then show ?thesis using exact_book [OF orders_reach_ok assms(2)] by blast
qed

theorem order_books_exact_witness:
  "\<exists>b. orders_orderbook (orders_insert sample_order orders_new) 1 = Some b \<and> best_bid b = Some 40 \<and> best_ask b = None \<and>
    side_ids (book_side_of True b) 40 = active_ids (ot_orders (orders_insert sample_order orders_new)) 1 True 40"
proof -
  let ?t = "orders_insert sample_order orders_new"
  have "length (ot_orderbooks ?t) = MARKET_COUNT"
    using orders_reach_ok [OF sample_orders_reach] by (simp add: orders_ok_def books_ok_def)
  then obtain b where b: "orders_orderbook ?t 1 = Some b" by (simp add: orders_orderbook_def MARKET_COUNT_def)
  have o: "ran (ot_orders ?t) = {sample_order}" by (simp add: orders_insert_def orders_new_def Let_def)
  have f: "order_is_active sample_order" "ord_market_id sample_order = 1" "ord_is_long sample_order"
    "ord_trigger_price sample_order = 40"
    by (simp_all add: sample_order_def placed_order_def order_is_active_def)
  have "{ord_trigger_price ord | ord. ord \<in> ran (ot_orders ?t) \<and> order_is_active ord \<and> ord_market_id ord = 1 \<and> ord_is_long ord} = {40}"
    using f by (auto simp: o)
  moreover have "{ord_trigger_price ord | ord. ord \<in> ran (ot_orders ?t) \<and> order_is_active ord \<and> ord_market_id ord = 1 \<and>
      \<not> ord_is_long ord} = {}"
    using f by (auto simp: o)
  ultimately show ?thesis using order_books_exact [OF orders_reach_any [OF sample_orders_reach] b] sample_orders_reach b by simp
qed

section \<open>Positions and balances\<close>

inductive positions_reach :: "position_table \<Rightarrow> bool" where
  positions_reach_new: "positions_reach positions_new"
| positions_reach_insert: "positions_reach t \<Longrightarrow>
    (\<And>q. pt_positions t (pos_position_id p) = Some q \<Longrightarrow>
       pos_user_address q = pos_user_address p \<and> pos_market_id q = pos_market_id p) \<Longrightarrow>
    positions_reach (positions_insert p t)"
| positions_reach_update: "positions_reach t \<Longrightarrow> keeps_position_keys f \<Longrightarrow> positions_reach (snd (positions_update pid f t))"
| positions_reach_remove: "positions_reach t \<Longrightarrow> positions_reach (snd (positions_remove pid t))"

lemma positions_reach_ok: "positions_reach t \<Longrightarrow> positions_ok t"
  by (induction rule: positions_reach.induct)
     (simp_all add: positions_ok_new positions_ok_insert positions_ok_update positions_ok_remove)

text \<open>
  After any sequence of insertions, updates and removals the queries by user and by market
  return exactly the positions of that user or market.
\<close>

theorem positions_queries_exact:
  assumes "positions_reach t"
    and "\<And>S. pt_by_user t user = Some S \<Longrightarrow> enumerates ids S" "\<And>S. pt_by_market t m = Some S \<Longrightarrow> enumerates mids S"
  shows "set (positions_by_user ids t user) = {p \<in> ran (pt_positions t). pos_user_address p = user} \<and>
    set (positions_by_market mids t m) = {p \<in> ran (pt_positions t). pos_market_id p = m}"
  using positions_by_user_set [OF positions_reach_ok [OF assms(1)] assms(2)]
    positions_by_market_set [OF positions_reach_ok [OF assms(1)] assms(3)] by blast

theorem positions_queries_exact_witness:
  "set (positions_by_user [sample_id] (positions_insert sample_position positions_new) alice) = {sample_position}"
proof -
  let ?t = "positions_insert sample_position positions_new"
  have f: "pos_position_id sample_position = sample_id" "pos_user_address sample_position = alice"
    "pos_market_id sample_position = 1"
    by (simp_all add: sample_position_def opened_position_def)
  have t: "positions_reach ?t"
    by (rule positions_reach_insert [OF positions_reach_new]) (simp_all add: positions_new_def)
  have "enumerates [sample_id] S" if "pt_by_user ?t alice = Some S" for S
    using that f by (simp add: positions_insert_def positions_new_def Let_def idx_add_def enumerates_def)
  moreover have "enumerates [sample_id] S" if "pt_by_market ?t 1 = Some S" for S
    using that f by (simp add: positions_insert_def positions_new_def Let_def idx_add_def enumerates_def)
  moreover have "ran (pt_positions ?t) = {sample_position}" by (simp add: positions_insert_def positions_new_def Let_def)
  ultimately show ?thesis using positions_queries_exact [OF t, of alice "[sample_id]" 1 "[sample_id]"] f by auto
qed

inductive balances_reach :: "balance_cache \<Rightarrow> bool" where
  balances_reach_new: "balances_reach balances_new"
| balances_reach_set: "balances_reach c \<Longrightarrow> balances_reach (balances_set b c)"
| balances_reach_set_raw: "balances_reach c \<Longrightarrow> balances_reach (balances_set_raw u t a l v c)"
| balances_reach_remove: "balances_reach c \<Longrightarrow> balances_reach (snd (balances_remove u t c))"

lemma balances_reach_ok: "balances_reach c \<Longrightarrow> balances_ok c"
  by (induction rule: balances_reach.induct)
     (simp_all add: balances_ok_new balances_ok_set balances_ok_set_raw balances_ok_remove)

text \<open>
  After any sequence of writes and removals the balances listed for a user are exactly the
  user's, and a written balance is the one read until it is written again or removed.
\<close>

theorem balances_queries_exact:
  assumes "balances_reach c" "\<And>S. bc_user_tokens c user = Some S \<Longrightarrow> enumerates ts S"
  shows "set (balances_user_balances ts c user) = {b \<in> ran (bc_balances c). bal_user_address b = user} \<and>
    balances_get (balances_set_raw u t a l v c) u' t' =
      (if u' = u \<and> t' = t
       then Some \<lparr>bal_user_address = u, bal_token = t, bal_amount = a, bal_locked = l, bal_available = v\<rparr>
       else balances_get c u' t')"
  using balances_user_set [OF balances_reach_ok [OF assms(1)] assms(2)] balances_get_set_raw by blast

theorem balances_queries_exact_witness:
  "set (balances_user_balances [usdc] (balances_set_raw alice usdc 10 4 6 balances_new) alice) =
     {\<lparr>bal_user_address = alice, bal_token = usdc, bal_amount = 10, bal_locked = 4, bal_available = 6\<rparr>}"
proof -
  let ?c = "balances_set_raw alice usdc 10 4 6 balances_new"
  have c: "balances_reach ?c" by (intro balances_reach_set_raw balances_reach_new)
  have "enumerates [usdc] S" if "bc_user_tokens ?c alice = Some S" for S
    using that by (simp add: balances_set_raw_def balances_set_def balances_new_def Let_def idx_add_def enumerates_def)
  moreover have "ran (bc_balances ?c) =
      {\<lparr>bal_user_address = alice, bal_token = usdc, bal_amount = 10, bal_locked = 4, bal_available = 6\<rparr>}"
    by (simp add: balances_set_raw_def balances_set_def balances_new_def Let_def)
  ultimately show ?thesis using balances_queries_exact [OF c, of alice "[usdc]"] by auto
qed

section \<open>Users and referrals\<close>

text \<open>
  Giving a user a referral code that nobody else has makes the code resolve to that user and
  the user's previous code resolve to nobody; all other codes resolve as before.
\<close>

theorem referral_code_resolves:
  assumes ok: "users_ok s" and u: "users_get s addr = Some u" and code: "code \<noteq> []"
    and free: "\<And>a. us_by_referral_code s code = Some a \<Longrightarrow> a = addr"
  shows "users_by_referral_code (snd (users_set_referral_code addr code s)) code = Some (u\<lparr>usr_referral_code := Some code\<rparr>) \<and>
    (\<forall>c. c \<noteq> code \<longrightarrow> usr_referral_code u = Some c \<longrightarrow> users_by_referral_code (snd (users_set_referral_code addr code s)) c = None) \<and>
    (\<forall>c. c \<noteq> code \<longrightarrow> usr_referral_code u \<noteq> Some c \<longrightarrow>
      us_by_referral_code (snd (users_set_referral_code addr code s)) c = us_by_referral_code s c)"
proof -
  let ?s = "snd (users_set_referral_code addr code s)"
  have u': "us_users s addr = Some u" using u by (simp add: users_get_def)
  have ok': "users_ok ?s" by (rule users_ok_set_referral_code [OF ok u' free])
  have users: "us_users ?s = (us_users s)(addr \<mapsto> u\<lparr>usr_referral_code := Some code\<rparr>)"
    using u' by (simp add: users_set_referral_code_def users_update_def Let_def)
  have "us_by_referral_code ?s code = Some addr"
    by (rule users_ok_found [OF ok', of addr "u\<lparr>usr_referral_code := Some code\<rparr>"]) (simp_all add: users code)
  then have 1: "users_by_referral_code ?s code = Some (u\<lparr>usr_referral_code := Some code\<rparr>)"
    by (simp add: users_by_referral_code_def users_get_def users)
  have 2: "us_by_referral_code ?s c = None" if "c \<noteq> code" "usr_referral_code u = Some c" for c
  proof (rule ccontr)
    assume "us_by_referral_code ?s c \<noteq> None"
    then obtain a where a: "us_by_referral_code ?s c = Some a" by auto
    then obtain v where v: "us_users ?s a = Some v" "usr_referral_code v = Some c" and ne: "c \<noteq> []"
      using users_ok_code [OF ok' a] by auto
    have "a \<noteq> addr" using v that(1) by (auto simp: users)
    then have "us_users s a = Some v" using v(1) by (simp add: users)
    from users_ok_found [OF ok this v(2) ne] users_ok_found [OF ok u' that(2) ne] \<open>a \<noteq> addr\<close> show False by simp
  qed
  have 3: "us_by_referral_code ?s c = us_by_referral_code s c" if "c \<noteq> code" "usr_referral_code u \<noteq> Some c" for c
    using that u' by (auto simp: users_set_referral_code_def users_update_def Let_def index_code_def unindex_code_def
        split: option.splits)
  show ?thesis using 1 2 3 by (auto simp: users_by_referral_code_def)
qed

theorem referral_code_resolves_witness:
  "users_by_referral_code (snd (users_set_referral_code alice ''vip'' (users_ensure alice 5 users_new))) ''vip'' =
     Some ((user_default alice 5)\<lparr>usr_last_active_at := Some 5, usr_referral_code := Some ''vip''\<rparr>)"
proof -
  let ?s = "users_ensure alice 5 users_new"
  have ok: "users_ok ?s" by (rule users_ok_ensure [OF users_ok_new])
  have u: "users_get ?s alice = Some ((user_default alice 5)\<lparr>usr_last_active_at := Some 5\<rparr>)"
    by (simp add: users_ensure_get users_new_def)
  have code: "''vip'' \<noteq> []" by simp
  have "us_by_referral_code ?s ''vip'' = None" by (simp add: users_ensure_eq users_new_def)
  then show ?thesis using referral_code_resolves [OF ok u code] by simp
qed

text \<open>
  Under the default tiers more referrals and more volume never lower a trader's tier: reward and
  fee discount do not decrease.
\<close>

theorem referral_tier_monotone:
  assumes "n \<le> n'" "v \<le> v'"
  shows "\<exists>t t'. compute_tier referrals_new n v = Some t \<and> compute_tier referrals_new n' v' = Some t' \<and>
    rt_reward_bps t \<le> rt_reward_bps t' \<and> rt_fee_discount_bps t \<le> rt_fee_discount_bps t'"
proof -
  have ne: "DEFAULT_TIERS \<noteq> []" by (simp add: DEFAULT_TIERS_def)
  obtain t t' where t: "compute_tier DEFAULT_TIERS n v = Some t" "compute_tier DEFAULT_TIERS n' v' = Some t'"
    using compute_tier_last [OF ne] by blast
  have "t = t' \<or> tier_le t t'" by (rule compute_tier_mono [OF default_tiers_ascending ne assms t])
  with t show ?thesis by (auto simp: referrals_new_def tier_le_def)
qed

theorem referral_tier_monotone_witness:
  "\<exists>t t'. compute_tier referrals_new 0 0 = Some t \<and> compute_tier referrals_new 7 1 = Some t' \<and>
    rt_reward_bps t \<le> rt_reward_bps t' \<and> rt_fee_discount_bps t \<le> rt_fee_discount_bps t'"
  by (rule referral_tier_monotone) (simp_all add: i128_le_0_iff)

section \<open>Alerts, API keys, competitions\<close>

text \<open>
  A new alert gets an id that is not in use, is found under it and listed once for its user,
  and only its user can remove it by user and id.
\<close>

theorem alerts_insert_exact:
  assumes ok: "alerts_ok s" and room: "as_next_id s \<noteq> - 1" and ins: "alerts_insert a s = (i, s')"
  shows "alerts_get s i = None \<and> alerts_get s' i = Some (a\<lparr>al_id := i\<rparr>) \<and> alerts_ok s' \<and>
    set (alerts_by_user s' (al_address a)) = insert (a\<lparr>al_id := i\<rparr>) (set (alerts_by_user s (al_address a))) \<and>
    distinct (alerts_by_user s' (al_address a)) \<and>
    (\<forall>b. b \<noteq> al_address a \<longrightarrow> alerts_remove_by_user_and_id b i s' = (None, s'))"
proof -
  have i: "i = as_next_id s" and prim: "as_primary s' = (as_primary s)(i \<mapsto> a\<lparr>al_id := i\<rparr>)"
    using ins by (auto simp: alerts_insert_def Let_def)
  have fresh: "as_primary s i = None" using ok by (auto simp: alerts_ok_def i)
  have ok': "alerts_ok s'" using alerts_ok_insert [OF ok room, of a] by (simp add: ins)
  have "ran (as_primary s') = insert (a\<lparr>al_id := i\<rparr>) (ran (as_primary s))" using fresh by (simp add: prim)
  then show ?thesis
    using fresh prim ok' alerts_by_user_set [OF ok] alerts_by_user_set [OF ok'] alerts_by_user_distinct [OF ok']
    by (auto simp: alerts_get_def alerts_remove_by_user_and_id_def)
qed

definition sample_alert :: alert where
  "sample_alert = \<lparr>al_id = 0, al_address = alice, al_alert_type = ''price'', al_market_id = Some 1,
     al_threshold = Some ''42'', al_enabled = True, al_triggered_at = None, al_created_at = 5\<rparr>"

theorem alerts_insert_exact_witness:
  "alerts_get (snd (alerts_insert sample_alert alerts_new)) 1 = Some (sample_alert\<lparr>al_id := 1\<rparr>) \<and>
   alerts_remove_by_user_and_id bob 1 (snd (alerts_insert sample_alert alerts_new)) =
     (None, snd (alerts_insert sample_alert alerts_new))"
proof -
  have ins: "alerts_insert sample_alert alerts_new = (1, snd (alerts_insert sample_alert alerts_new))"
    by (simp add: alerts_insert_def alerts_new_def Let_def)
  have "as_next_id alerts_new \<noteq> - 1" by (simp add: alerts_new_def)
  from alerts_insert_exact [OF alerts_ok_new this ins] show ?thesis by (simp add: sample_alert_def)
qed

text \<open>
  An API key with a new id and a new hash authenticates by its hash and is listed for its user;
  after its removal the hash authenticates nobody, and every other key is as before.
\<close>

theorem api_keys_by_hash_exact:
  assumes ok: "api_keys_ok s" and fresh: "api_keys_get s (ak_id k) = None" "api_keys_get_by_hash s (ak_key_hash k) = None"
  shows "api_keys_get_by_hash (api_keys_insert k s) (ak_key_hash k) = Some k \<and>
    k \<in> set (api_keys_by_user (api_keys_insert k s) (ak_address k)) \<and>
    api_keys_get_by_hash (snd (api_keys_remove (ak_id k) (api_keys_insert k s))) (ak_key_hash k) = None \<and>
    (\<forall>h. h \<noteq> ak_key_hash k \<longrightarrow>
      api_keys_get_by_hash (snd (api_keys_remove (ak_id k) (api_keys_insert k s))) h = api_keys_get_by_hash s h)"
proof -
  have id_new: "ks_primary s (ak_id k) = None" using fresh(1) by (simp add: api_keys_get_def)
  have hash_new: "ks_by_hash s (ak_key_hash k) = None"
  proof (rule ccontr)
    assume "ks_by_hash s (ak_key_hash k) \<noteq> None"
    then obtain i where i: "ks_by_hash s (ak_key_hash k) = Some i" by auto
    moreover from i ok obtain k' where "ks_primary s i = Some k'" unfolding api_keys_ok_def hash_ok_def by blast
    ultimately show False using fresh(2) by (simp add: api_keys_get_by_hash_def)
  qed
  have ok': "api_keys_ok (api_keys_insert k s)" by (rule api_keys_ok_insert [OF ok id_new hash_new])
  have "ran (ks_primary (api_keys_insert k s)) = insert k (ran (ks_primary s))"
    using id_new by (simp add: api_keys_insert_def)
  then have "k \<in> set (api_keys_by_user (api_keys_insert k s) (ak_address k))" by (simp add: api_keys_by_user_set [OF ok'])
  moreover have "i \<noteq> ak_id k" if h: "ks_by_hash s h = Some i" for h i
  proof -
    obtain k' where "ks_primary s i = Some k'" using h ok unfolding api_keys_ok_def hash_ok_def by blast
    with id_new show ?thesis by auto
  qed
  ultimately show ?thesis
    by (auto simp: api_keys_get_by_hash_def api_keys_insert_def api_keys_remove_def split: option.splits)
qed

definition sample_key :: api_key where
  "sample_key = \<lparr>ak_id = ''k1'', ak_address = alice, ak_key_hash = ''h1'', ak_label = None, ak_rate_limit_rpm = 60,
     ak_last_used_at = None, ak_expires_at = None, ak_created_at = 5\<rparr>"

theorem api_keys_by_hash_exact_witness:
  "api_keys_get_by_hash (api_keys_insert sample_key api_keys_new) ''h1'' = Some sample_key \<and>
   api_keys_get_by_hash (snd (api_keys_remove ''k1'' (api_keys_insert sample_key api_keys_new))) ''h1'' = None"
  using api_keys_by_hash_exact [OF api_keys_ok_new, of sample_key]
  by (simp add: sample_key_def api_keys_new_def api_keys_get_def api_keys_get_by_hash_def)

text \<open>
  A user joins an existing competition exactly once: the first call adds one entry with score 0
  at the end and lists the competition for the user, any further call and any call for an unknown
  competition is refused without effect on the entries.
\<close>

theorem competition_join_once:
  assumes "competitions_ok s"
  shows "let (joined, s') = competition_join cid a ts s in
    competitions_ok s' \<and>
    (joined \<longleftrightarrow> get_competition s cid \<noteq> None \<and> cid \<notin> set (user_competitions s a)) \<and>
    (joined \<longrightarrow> entries_at s' cid = entries_at s cid @
       [\<lparr>ce_competition_id = cid, ce_address = a, ce_score = 0, ce_rank = None, ce_joined_at = ts\<rparr>] \<and>
       user_competitions s' a = user_competitions s a @ [cid] \<and> \<not> fst (competition_join cid a ts' s')) \<and>
    (\<not> joined \<longrightarrow> entries_at s' = entries_at s \<and> user_competitions s' = user_competitions s)"
proof -
  obtain joined s' where j: "competition_join cid a ts s = (joined, s')" by (cases "competition_join cid a ts s")
  have ok': "competitions_ok s'" using competitions_ok_join [OF assms, of cid a ts] by (simp add: j)
  have listed: "cid \<in> set (user_competitions s a) \<longleftrightarrow> a \<in> ce_address ` set (entries_at s cid)"
    using assms by (simp add: competitions_ok_def)
  have res: "joined \<longleftrightarrow> cst_competitions s cid \<noteq> None \<and> a \<notin> ce_address ` set (entries_at s cid)"
    using join_result [of cid a ts s] by (simp add: j)
  have es: "entries_at s' c = (if c = cid \<and> joined then entries_at s cid @
      [\<lparr>ce_competition_id = cid, ce_address = a, ce_score = 0, ce_rank = None, ce_joined_at = ts\<rparr>] else entries_at s c)" for c
    using entries_at_join [of cid a ts s c] by (simp add: j)
  have us: "user_competitions s' b = (if b = a \<and> joined then user_competitions s a @ [cid] else user_competitions s b)" for b
    using user_competitions_join [of cid a ts s b] by (simp add: j)
  have again: "\<not> fst (competition_join cid a ts' s')" if joined
    using that by (simp add: join_result es)
  show ?thesis
    using ok' res listed again by (auto simp: j es us get_competition_def fun_eq_iff)
qed

definition sample_competition :: competition where
  "sample_competition = \<lparr>co_id = ''c1'', co_name = ''Cup'', co_description = None, co_start_at = 1, co_end_at = 9,
     co_metric = ''pnl'', co_prize_pool = None, co_active = True, co_created_at = 0\<rparr>"

theorem competition_join_once_witness:
  "fst (competition_join ''c1'' alice 3 (insert_competition sample_competition competitions_new)) \<and>
   \<not> fst (competition_join ''c1'' alice 4
       (snd (competition_join ''c1'' alice 3 (insert_competition sample_competition competitions_new))))"
proof -
  let ?s = "insert_competition sample_competition competitions_new"
  have "competitions_ok ?s" by (rule competitions_ok_insert [OF competitions_ok_new])
  from competition_join_once [OF this, of "''c1''" alice 3 4] show ?thesis
    by (auto simp: split_beta Let_def get_competition_def insert_competition_def sample_competition_def
        user_competitions_def competitions_new_def)
qed

end
