(* ===== verification/Text_Format.thy ===== *)
theory Text_Format
  imports Core_Types
begin

text \<open>
  The formatting of the Rust standard library that the command line tool uses: alignment in a
  column, lower-case hexadecimal bytes, floating-point numbers with a fixed number of digits
  behind the point, \<open>{:?}\<close> of the values inside events, and case conversion. A string is its list
  of UTF-8 bytes. What rests on the Unicode tables (case conversion and escaping of text that is
  not ASCII) is a parameter.
\<close>

section \<open>Columns\<close>

text \<open>A width counts characters, so continuation bytes do not count.\<close>

definition char_count :: "string \<Rightarrow> nat" where
  "char_count s = length (filter (\<lambda>c. \<not> continuation_byte c) s)"

definition pad_right :: "nat \<Rightarrow> string \<Rightarrow> string" where
  "pad_right w s = s @ replicate (w - char_count s) (CHR '' '')"

definition pad_left :: "nat \<Rightarrow> string \<Rightarrow> string" where
  "pad_left w s = replicate (w - char_count s) (CHR '' '') @ s"

fun join :: "string \<Rightarrow> string list \<Rightarrow> string" where
  "join sep [] = []"
| "join sep [s] = s"
| "join sep (s # ss) = s @ sep @ join sep ss"

text \<open>The fields of a table row, one space apart.\<close>

abbreviation row :: "string list \<Rightarrow> string" where
  "row \<equiv> join '' ''"

definition repeat_str :: "string \<Rightarrow> nat \<Rightarrow> string" where
  "repeat_str s n = concat (replicate n s)"

section \<open>Hexadecimal bytes\<close>

definition hex_char :: "nat \<Rightarrow> char" where
  "hex_char d = (if d < 10 then char_of (48 + d) else char_of (87 + d))"

definition hex2 :: "u8 \<Rightarrow> string" where
  "hex2 b = [hex_char (unat b div 16), hex_char (unat b mod 16)]"

definition to_hex :: "u8 list \<Rightarrow> string" where
  "to_hex bs = concat (map hex2 bs)"

lemma hex_digit_hex_char [simp]: "d < 16 \<Longrightarrow> hex_digit (hex_char d) = Some d"
  by (auto simp: hex_digit_def hex_char_def)

lemma hex_char_ascii:
  assumes "d < 16"
  shows "hex_char d \<noteq> CHR ''+''" "\<not> continuation_byte (hex_char d)"
proof -
  show "hex_char d \<noteq> CHR ''+''" using hex_digit_hex_char [OF assms] by (auto simp: hex_digit_def)
  show "\<not> continuation_byte (hex_char d)" using assms by (simp add: hex_char_def continuation_byte_def)
qed

lemma hex_nibbles: "unat (b :: u8) div 16 < 16" "unat b mod 16 < 16"
  using unsigned_less [of b, where 'a = nat] by simp_all

lemma u8_from_hex2_hex2: "u8_from_hex2 (hex_char (unat b div 16)) (hex_char (unat b mod 16)) = Some b"
  by (simp add: u8_from_hex2_def hex_char_ascii(1) hex_nibbles)

lemma to_hex_Cons: "to_hex (b # bs) = hex_char (unat b div 16) # hex_char (unat b mod 16) # to_hex bs"
  by (simp add: to_hex_def hex2_def)

lemma at_boundary_to_hex: "at_boundary (to_hex bs)"
  by (cases bs) (simp_all add: at_boundary_def to_hex_Cons hex_char_ascii(2) hex_nibbles, simp add: to_hex_def)

lemma hex_decode_chunks_to_hex: "hex_decode_chunks (to_hex bs) = Some (Some bs)"
proof (induction bs)
  case (Cons b bs)
  then show ?case
    using at_boundary_to_hex [of "b # bs"] at_boundary_to_hex [of bs]
    by (simp add: to_hex_Cons u8_from_hex2_hex2)
qed (simp add: to_hex_def)

lemma length_to_hex [simp]: "length (to_hex bs) = 2 * length bs"
  by (induction bs) (simp_all add: to_hex_Cons, simp add: to_hex_def)

lemma parse_bytes_to_hex: "length bs = n \<Longrightarrow> parse_bytes n (''0x'' @ to_hex bs) = Some bs"
  by (simp add: parse_bytes_def strip_0x_def hex_decode_def hex_decode_chunks_to_hex)

section \<open>Floating-point numbers\<close>

text \<open>
  Display with a precision prints the exact value rounded to that many digits behind the
  point, ties to the even digit. The value of a finite number is \<open>m * 2 ^ e\<close>.
\<close>

definition div_half_even :: "nat \<Rightarrow> nat \<Rightarrow> nat" where
  "div_half_even a b =
     (let q = a div b; r = a mod b
      in if 2 * r < b then q else if b < 2 * r then q + 1 else if even q then q else q + 1)"

definition scaled_round :: "nat \<Rightarrow> nat \<Rightarrow> int \<Rightarrow> nat" where
  "scaled_round digits m e =
     (if 0 \<le> e then m * 2 ^ nat e * 10 ^ digits else div_half_even (m * 10 ^ digits) (2 ^ nat (- e)))"

definition show_fixed_point :: "nat \<Rightarrow> nat \<Rightarrow> string" where
  "show_fixed_point digits r =
     show_nat (r div 10 ^ digits) @ ''.'' @ pad0 digits (show_nat (r mod 10 ^ digits))"

definition fmt_dyadic :: "nat \<Rightarrow> nat \<Rightarrow> int \<Rightarrow> string" where
  "fmt_dyadic digits m e = show_fixed_point digits (scaled_round digits m e)"

text \<open>The sign, exponent and fraction fields of a format with \<open>fb\<close> fraction and \<open>eb\<close> exponent bits.\<close>

definition fmt_ieee :: "nat \<Rightarrow> nat \<Rightarrow> nat \<Rightarrow> bool \<Rightarrow> nat \<Rightarrow> string" where
  "fmt_ieee fb eb digits neg mag =
     (let ex = mag div 2 ^ fb;
          frac = mag mod 2 ^ fb;
          sign = (if neg then ''-'' else []);
          low = 2 - 2 ^ (eb - 1) - int fb
      in if ex = 2 ^ eb - 1 then (if frac = 0 then sign @ ''inf'' else ''NaN'')
         else if ex = 0 then sign @ fmt_dyadic digits frac low
         else sign @ fmt_dyadic digits (2 ^ fb + frac) (low + int ex - 1))"

definition fmt_f64 :: "nat \<Rightarrow> f64 \<Rightarrow> string" where
  "fmt_f64 digits x = fmt_ieee 52 11 digits (bit (f64_bits x) 63) (f64_mag x)"

definition fmt_f32 :: "nat \<Rightarrow> f32 \<Rightarrow> string" where
  "fmt_f32 digits x = fmt_ieee 23 8 digits (bit (f32_bits x) 31) (unat (take_bit 31 (f32_bits x)))"

text \<open>
  Division of two \<open>u32\<close> values converted to \<open>f64\<close> (the conversion is exact) and the product with a
  hundred, each rounded to 53 bits, ties to even. Such values are far from the ends of the range
  of exponents.
\<close>

fun bit_len :: "nat \<Rightarrow> nat" where
  "bit_len n = (if n = 0 then 0 else Suc (bit_len (n div 2)))"

declare bit_len.simps [simp del]

definition round53 :: "nat \<Rightarrow> nat \<Rightarrow> nat \<times> int" where
  "round53 a b =
     (let e = int (bit_len a) - int (bit_len b) - 53;
          e' = (if b * 2 ^ 53 * 2 ^ nat e \<le> a * 2 ^ nat (- e) then e + 1 else e)
      in if a = 0 then (0, 0) else (div_half_even (a * 2 ^ nat (- e')) (b * 2 ^ nat e'), e'))"

definition f64_percent :: "u32 \<Rightarrow> u32 \<Rightarrow> nat \<times> int" where
  "f64_percent a b =
     (let (m, e) = round53 (unat a) (unat b) in round53 (m * 100 * 2 ^ nat e) (2 ^ nat (- e)))"

section \<open>Debug output\<close>

definition dbg_bytes :: "u8 list \<Rightarrow> string" where
  "dbg_bytes bs = ''['' @ join '', '' (map (\<lambda>b. show_nat (unat b)) bs) @ '']''"

definition dbg_bool :: "bool \<Rightarrow> string" where
  "dbg_bool b = (if b then ''true'' else ''false'')"

definition dbg_struct :: "string \<Rightarrow> (string \<times> string) list \<Rightarrow> string" where
  "dbg_struct name fs =
     name @ '' { '' @ join '', '' (map (\<lambda>(f, v). f @ '': '' @ v) fs) @ '' }''"

definition is_ascii :: "string \<Rightarrow> bool" where
  "is_ascii s = list_all (\<lambda>c. of_char c < (128 :: nat)) s"

text \<open>\<open>char::escape_debug\<close> on an ASCII character inside a string.\<close>

definition hex_lower :: "nat \<Rightarrow> string" where
  "hex_lower n = (if n < 16 then [hex_char n] else [hex_char (n div 16), hex_char (n mod 16)])"

definition escape_debug :: "char \<Rightarrow> string" where
  "escape_debug c =
     (let n = (of_char c :: nat)
      in if n = 0 then [char_of (92 :: nat), CHR ''0'']
         else if n = 9 then [char_of (92 :: nat), CHR ''t'']
         else if n = 10 then [char_of (92 :: nat), CHR ''n'']
         else if n = 13 then [char_of (92 :: nat), CHR ''r'']
         else if n = 34 \<or> n = 92 then [char_of (92 :: nat), c]
         else if n < 32 \<or> n = 127 then char_of (92 :: nat) # ''u{'' @ hex_lower n @ ''}''
         else [c])"

definition dbg_str :: "(string \<Rightarrow> string) \<Rightarrow> string \<Rightarrow> string" where
  "dbg_str uni s =
     (if is_ascii s then [char_of (34 :: nat)] @ concat (map escape_debug s) @ [char_of (34 :: nat)] else uni s)"

section \<open>Case conversion\<close>

definition ascii_upper :: "char \<Rightarrow> char" where
  "ascii_upper c = (let n = (of_char c :: nat) in if 97 \<le> n \<and> n \<le> 122 then char_of (n - 32) else c)"

definition ascii_lower :: "char \<Rightarrow> char" where
  "ascii_lower c = (let n = (of_char c :: nat) in if 65 \<le> n \<and> n \<le> 90 then char_of (n + 32) else c)"

definition to_uppercase :: "(string \<Rightarrow> string) \<Rightarrow> string \<Rightarrow> string" where
  "to_uppercase uni s = (if is_ascii s then map ascii_upper s else uni s)"

definition to_lowercase :: "(string \<Rightarrow> string) \<Rightarrow> string \<Rightarrow> string" where
  "to_lowercase uni s = (if is_ascii s then map ascii_lower s else uni s)"

end
