(* ===== verification/Cli.thy ===== *)
theory Cli
  imports Text_Format Engine
begin

text \<open>
  The command line tool, \<open>src/main.rs\<close>: the resolution of its arguments, the text forms of
  addresses and fixed-point numbers, and its subcommands. A subcommand returns the arguments of its
  \<open>println!\<close> calls in order, or the error that \<open>main\<close> prints; \<open>None\<close> is a panic, whatever was printed
  before it. The orders in which hash containers are iterated are arguments.
\<close>

section \<open>Outputs and libraries\<close>

text \<open>\<open>serde_json::Value\<close> as the code builds it, fields in source order; a number that is not finite becomes null.\<close>

datatype json =
    JNull
  | JBool bool
  | JNat nat
  | JF64 f64
  | JF32 f32
  | JStr string
  | JArr "json list"
  | JObj "(string \<times> json) list"

definition json_f64 :: "f64 \<Rightarrow> json" where
  "json_f64 x = (if f64_mag x < 0x7FF0000000000000 then JF64 x else JNull)"

definition json_f32 :: "f32 \<Rightarrow> json" where
  "json_f32 x = (if unat (take_bit 31 (f32_bits x)) < 0x7F800000 then JF32 x else JNull)"

definition json_opt :: "('a \<Rightarrow> json) \<Rightarrow> 'a option \<Rightarrow> json" where
  "json_opt f v = (case v of None \<Rightarrow> JNull | Some x \<Rightarrow> f x)"

text \<open>
  Code outside the crate: \<open>serde_json::to_string_pretty\<close>, the text of an operating system error, and
  the Unicode tables behind \<open>to_uppercase\<close>, \<open>to_lowercase\<close> and \<open>{:?}\<close> on text that is not ASCII.
\<close>

record cli_lib =
  lib_to_string_pretty :: "json \<Rightarrow> string"
  lib_io_error :: "string \<Rightarrow> string"
  lib_upper :: "string \<Rightarrow> string"
  lib_lower :: "string \<Rightarrow> string"
  lib_debug :: "string \<Rightarrow> string"

type_synonym cli_result = "(string + string list) panicking"

abbreviation print_json :: "cli_lib \<Rightarrow> json \<Rightarrow> cli_result" where
  "print_json lib j \<equiv> Some (Inr [lib_to_string_pretty lib j])"

section \<open>Arguments\<close>

definition resolve_market :: "cli_lib \<Rightarrow> string \<Rightarrow> string + market_id" where
  "resolve_market lib input =
     (case parse_unsigned (2 ^ 16) input of
        Some n \<Rightarrow>
          (let i = word_of_nat n in
           if market_by_id i \<noteq> None then Inr i else Inl (''unknown market ID: '' @ show_nat n))
      | None \<Rightarrow>
          (case market_by_symbol input of
             Some m \<Rightarrow> Inr (mm_id m)
           | None \<Rightarrow>
               (case market_by_symbol (to_uppercase (lib_upper lib) input) of
                  Some m \<Rightarrow> Inr (mm_id m)
                | None \<Rightarrow> Inl (''unknown market: '' @ input))))"

definition resolve_timeframe :: "string \<Rightarrow> string + timeframe" where
  "resolve_timeframe input =
     (case timeframe_from_str input of Some tf \<Rightarrow> Inr tf | None \<Rightarrow> Inl (''unknown timeframe: '' @ input))"

section \<open>Text forms\<close>

definition hex_addr :: "address \<Rightarrow> string" where
  "hex_addr a = ''0x'' @ to_hex a"

definition hex_hash :: "hash32 \<Rightarrow> string" where
  "hex_hash h = ''0x'' @ to_hex h"

definition trim_end_zeros :: "string \<Rightarrow> string" where
  "trim_end_zeros s = rev (dropWhile (\<lambda>c. c = CHR ''0'') (rev s))"

definition precision :: i128 where
  "precision = 1000000000000000000"

definition format_fixed :: "i128 \<Rightarrow> string" where
  "format_fixed v =
     (if v = 0 then ''0''
      else let whole = i128_div v precision;
               frac = nat \<bar>i128_val (i128_rem v precision)\<bar>
           in if frac = 0 then show_int (i128_val whole)
              else show_int (i128_val whole) @ ''.'' @ trim_end_zeros (pad0 18 (show_nat frac)))"

definition short_addr :: "address \<Rightarrow> string" where
  "short_addr a =
     (let full = hex_addr a
      in if length full > 12 then take 6 full @ ''...'' @ drop (length full - 4) full else full)"

definition show_w :: "'a::len word \<Rightarrow> string" where
  "show_w w = show_nat (unat w)"

definition json_w :: "'a::len word \<Rightarrow> json" where
  "json_w w = JNat (unat w)"

fun dbg_position_status :: "position_status \<Rightarrow> string" where
  "dbg_position_status PsOpen = ''Open''"
| "dbg_position_status PsClosed = ''Closed''"
| "dbg_position_status PsLiquidated = ''Liquidated''"

fun dbg_order_type :: "order_type \<Rightarrow> string" where
  "dbg_order_type OtLimit = ''Limit''"
| "dbg_order_type OtStopLimit = ''StopLimit''"
| "dbg_order_type OtTakeProfit = ''TakeProfit''"
| "dbg_order_type OtStopLoss = ''StopLoss''"

fun dbg_order_status :: "order_status \<Rightarrow> string" where
  "dbg_order_status OsActive = ''Active''"
| "dbg_order_status OsExecuted = ''Executed''"
| "dbg_order_status OsCancelled = ''Cancelled''"

end
