(* ===== verification/Cli_Text.thy ===== *)
theory Cli_Text
  imports Cli
begin

text \<open>
  What the text forms of the command line tool say: the strings printed for fixed-point numbers,
  addresses and hashes, read back, and the resolution of markets.
\<close>

section \<open>Reading a fixed-point number\<close>

text \<open>
  The reference reading of a decimal with at most 18 digits behind the point, in units of
  \<open>10 ^ -18\<close>.
\<close>

definition read_decimal :: "string \<Rightarrow> int option" where
  "read_decimal s =
     (let whole = takeWhile (\<lambda>c. c \<noteq> CHR ''.'') s;
          frac = drop 1 (dropWhile (\<lambda>c. c \<noteq> CHR ''.'') s)
      in if whole = [] \<or> 18 < length frac then None
         else case (digits_val 0 whole, digits_val 0 (frac @ replicate (18 - length frac) (CHR ''0''))) of
                (Some a, Some b) \<Rightarrow> Some (int (a * 10 ^ 18 + b))
              | _ \<Rightarrow> None)"

definition read_fixed :: "string \<Rightarrow> int option" where
  "read_fixed s =
     (case s of [] \<Rightarrow> None
      | c # cs \<Rightarrow> if c = CHR ''-'' then map_option uminus (read_decimal cs) else read_decimal s)"

lemma length_show_nat: "n < 10 ^ k \<Longrightarrow> 0 < k \<Longrightarrow> length (show_nat n) \<le> k"
proof (induction n arbitrary: k rule: show_nat.induct)
  case (1 n)
  show ?case
  proof (cases "n < 10")
    case False
    then obtain j where j: "k = Suc j" "0 < j" using 1(2) by (cases k; cases "k - 1") auto
    then have "n div 10 < 10 ^ j" using 1(2) by (simp add: less_mult_imp_div_less mult.commute)
    with 1(1) [OF False, of j] j show ?thesis by (subst show_nat.simps) (simp add: False)
  qed (use 1 in \<open>simp add: show_nat.simps\<close>)
qed

lemma digit_char_not_dot: "d < 10 \<Longrightarrow> digit_char d \<noteq> CHR ''.''"
  using char_digit_digit_char [of d] by (auto simp: char_digit_def)

lemma show_nat_digits: "c \<in> set (show_nat n) \<Longrightarrow> \<exists>d < 10. c = digit_char d"
  using set_show_nat [of n] by auto

lemma show_nat_not_dot: "c \<in> set (show_nat n) \<Longrightarrow> c \<noteq> CHR ''.''"
  by (drule show_nat_digits) (metis digit_char_not_dot)

lemma hd_show_nat_not_minus: "show_nat n = c # cs \<Longrightarrow> c \<noteq> CHR ''-''"
  using show_nat_digits [of c n] digit_char_neq(2) by auto

lemma trim_end_zeros_split:
  "s = trim_end_zeros s @ replicate (length s - length (trim_end_zeros s)) (CHR ''0'')"
proof -
  let ?z = "\<lambda>c. c = CHR ''0''"
  have t: "rev (trim_end_zeros s) = dropWhile ?z (rev s)" by (simp add: trim_end_zeros_def)
  have "length (takeWhile ?z (rev s)) + length (dropWhile ?z (rev s)) = length (rev s)"
    by (simp flip: length_append)
  then have n: "length (takeWhile ?z (rev s)) = length s - length (trim_end_zeros s)" by (simp add: trim_end_zeros_def)
  have "takeWhile ?z (rev s) = replicate (length s - length (trim_end_zeros s)) (CHR ''0'')"
    by (rule replicate_eqI [OF n]) (auto dest: set_takeWhileD)
  with t have "rev s = replicate (length s - length (trim_end_zeros s)) (CHR ''0'') @ rev (trim_end_zeros s)"
    using takeWhile_dropWhile_id [of ?z "rev s"] by simp
  from arg_cong [OF this, of rev] show ?thesis by simp
qed

lemma takeWhile_whole: "takeWhile (\<lambda>c. c \<noteq> CHR ''.'') (show_nat a @ ''.'' @ f) = show_nat a"
  "dropWhile (\<lambda>c. c \<noteq> CHR ''.'') (show_nat a @ ''.'' @ f) = ''.'' @ f"
  "takeWhile (\<lambda>c. c \<noteq> CHR ''.'') (show_nat a) = show_nat a"
  "dropWhile (\<lambda>c. c \<noteq> CHR ''.'') (show_nat a) = []"
  using show_nat_not_dot [of _ a] by (auto simp: takeWhile_append2 dropWhile_append2 takeWhile_eq_all_conv)

lemma read_decimal_whole: "read_decimal (show_nat a) = Some (int (a * 10 ^ 18))"
  using digits_val_zeros [of 18 "[]"] by (simp add: read_decimal_def takeWhile_whole digits_val_show)

lemma read_decimal_frac:
  assumes "b < 10 ^ 18"
  shows "read_decimal (show_nat a @ ''.'' @ trim_end_zeros (pad0 18 (show_nat b))) = Some (int (a * 10 ^ 18 + b))"
proof -
  let ?s = "pad0 18 (show_nat b)" and ?t = "trim_end_zeros (pad0 18 (show_nat b))"
  have len: "length ?s = 18" using length_show_nat [OF assms] by (simp add: pad0_def)
  have "?t @ replicate (18 - length ?t) (CHR ''0'') = ?s" using trim_end_zeros_split [of ?s] len by simp
  moreover have "digits_val 0 ?s = Some b" by (simp add: pad0_def digits_val_zeros digits_val_show)
  moreover have "length ?t \<le> 18" using len length_dropWhile_le by (metis length_rev trim_end_zeros_def)
  ultimately show ?thesis
    unfolding read_decimal_def takeWhile_whole by (simp add: digits_val_show)
qed

section \<open>Fixed-point numbers\<close>

abbreviation UNIT :: int where
  "UNIT \<equiv> 1000000000000000000"

lemma i128_val_precision [simp]: "i128_val precision = UNIT"
  by (simp add: precision_def i128_val_def)

lemma i128_val_div_precision: "i128_val (i128_div v precision) = sgn (i128_val v) * (\<bar>i128_val v\<bar> div UNIT)"
proof -
  have "i128_range (i128_val v sdiv UNIT)"
    using i128_range_val [of v] by (auto simp: i128_range_def signed_divide_int_def sgn_if)
  from i128_val_of_int [OF this] show ?thesis by (simp add: i128_div_def signed_divide_int_def)
qed

lemma i128_val_rem_precision: "\<bar>i128_val (i128_rem v precision)\<bar> = \<bar>i128_val v\<bar> mod UNIT"
proof -
  have m: "i128_val v smod UNIT = sgn (i128_val v) * (\<bar>i128_val v\<bar> mod UNIT)"
    by (simp add: signed_modulo_int_def signed_divide_int_def minus_div_mult_eq_mod sgn_if)
  have b: "0 \<le> \<bar>i128_val v\<bar> mod UNIT" "\<bar>i128_val v\<bar> mod UNIT < UNIT" by simp_all
  then have "i128_range (i128_val v smod UNIT)" unfolding m by (auto simp: i128_range_def sgn_if)
  from i128_val_of_int [OF this] have "i128_val (i128_rem v precision) = i128_val v smod UNIT" by (simp add: i128_rem_def)
  then show ?thesis using b by (auto simp: m abs_mult sgn_if)
qed

text \<open>What is printed reads as the value, except that a negative number above minus one loses its sign.\<close>

lemma format_fixed_reads:
  "read_fixed (format_fixed v) =
     Some (if - UNIT < i128_val v \<and> i128_val v < 0 then - i128_val v else i128_val v)"
proof (cases "v = 0")
  case True
  have "show_nat 0 = ''0''" by (simp add: show_nat.simps digit_char_0)
  with read_decimal_whole [of 0] True show ?thesis by (simp add: format_fixed_def read_fixed_def)
next
  case False
  let ?n = "i128_val v"
  define a where "a = nat (\<bar>?n\<bar> div UNIT)"
  define b where "b = nat (\<bar>?n\<bar> mod UNIT)"
  have "0 \<le> \<bar>?n\<bar> div UNIT" by (simp add: pos_imp_zdiv_nonneg_iff)
  then have a: "int a = \<bar>?n\<bar> div UNIT" by (simp add: a_def)
  then have n: "int a * UNIT + int b = \<bar>?n\<bar>" by (simp add: b_def)
  have "b < 10 ^ 18" by (simp add: b_def nat_less_iff)
  have "?n \<noteq> 0" using False i128_val_eq_iff [of v 0] by simp
  define body where "body = show_nat a @ (if b = 0 then [] else ''.'' @ trim_end_zeros (pad0 18 (show_nat b)))"
  have body: "read_decimal body = Some \<bar>?n\<bar>"
    using read_decimal_whole [of a] read_decimal_frac [OF \<open>b < 10 ^ 18\<close>, of a] n by (auto simp: body_def)
  have whole: "show_int (i128_val (i128_div v precision)) = (if ?n < 0 \<and> a \<noteq> 0 then CHR ''-'' # show_nat a else show_nat a)"
    using \<open>?n \<noteq> 0\<close> by (auto simp: i128_val_div_precision show_int_def a [symmetric] sgn_if)
  have "format_fixed v = (if ?n < 0 \<and> a \<noteq> 0 then CHR ''-'' # body else body)"
    using False by (simp add: format_fixed_def Let_def whole i128_val_rem_precision b_def [symmetric] body_def)
  moreover have "read_fixed body = read_decimal body"
    using hd_show_nat_not_minus [of a] by (cases "show_nat a") (auto simp: read_fixed_def body_def)
  moreover have "- UNIT < ?n \<and> ?n < 0 \<longleftrightarrow> ?n < 0 \<and> a = 0" using n \<open>b < 10 ^ 18\<close> by auto
  ultimately show ?thesis using body \<open>?n \<noteq> 0\<close> by (auto simp: read_fixed_def)
qed

section \<open>Resolution of markets\<close>

lemma market_by_id_in: "m \<in> set MARKETS \<Longrightarrow> market_by_id (mm_id m) = Some m"
  by (auto simp: in_set_conv_nth length_MARKETS market_by_id_def markets_id_index)

lemma market_by_symbol_Some: "market_by_symbol s = Some m \<Longrightarrow> m \<in> set MARKETS \<and> mm_symbol m = s"
  by (auto simp: market_by_symbol_def find_Some_iff)

lemma resolve_market_valid: "resolve_market lib s = Inr i \<Longrightarrow> unat i < MARKET_COUNT"
  using market_by_id_in by (fastforce simp: resolve_market_def Let_def market_by_id_def dest!: market_by_symbol_Some
      split: option.splits if_splits)

lemma resolve_market_id:
  assumes "m \<in> set MARKETS"
  shows "resolve_market lib (show_w (mm_id m)) = Inr (mm_id m)"
proof -
  have "unat (mm_id m) < 2 ^ 16" using unsigned_less [of "mm_id m", where 'a = nat] by simp
  from parse_unsigned_pad0 [OF this, of 0] have "parse_unsigned (2 ^ 16) (show_w (mm_id m)) = Some (unat (mm_id m))"
    by (simp add: pad0_def show_w_def)
  then show ?thesis by (simp add: resolve_market_def market_by_id_in [OF assms])
qed

text \<open>Every symbol begins with a letter and has no lower-case letters.\<close>

lemma symbols_upper: "m \<in> set MARKETS \<Longrightarrow> map ascii_upper (mm_symbol m) = mm_symbol m"
  by (auto simp: MARKETS_def ascii_upper_def)

lemma symbols_letter: "m \<in> set MARKETS \<Longrightarrow> \<exists>c cs. mm_symbol m = c # cs \<and> 65 \<le> (of_char c :: nat)"
  by (auto simp: MARKETS_def)

lemma parse_unsigned_letter:
  assumes "65 \<le> (of_char (ascii_upper c) :: nat)"
  shows "parse_unsigned n (c # cs) = None"
proof -
  have "58 \<le> (of_char c :: nat)" using assms by (auto simp: ascii_upper_def Let_def split: if_splits)
  then have "c \<noteq> CHR ''+''" "char_digit c = None" by (auto simp: char_digit_def)
  then show ?thesis by (simp add: parse_unsigned_def)
qed

text \<open>A symbol is found however its letters are capitalised.\<close>

lemma resolve_market_symbol:
  assumes m: "m \<in> set MARKETS" and s: "is_ascii s" "map ascii_upper s = mm_symbol m"
  shows "resolve_market lib s = Inr (mm_id m)"
proof -
  obtain c cs where "s = c # cs" "65 \<le> (of_char (ascii_upper c) :: nat)" using symbols_letter [OF m] s(2) by (cases s) auto
  then have "parse_unsigned (2 ^ 16) s = None" by (simp add: parse_unsigned_letter)
  moreover have "m' = m" if "market_by_symbol s = Some m'" for m'
    using that market_by_symbol_Some [OF that] symbols_upper [of m'] s(2) market_by_symbol_found [OF m]
      market_by_symbol_found [of m'] by auto
  ultimately show ?thesis
    using market_by_symbol_found [OF m] s by (auto simp: resolve_market_def to_uppercase_def split: option.splits)
qed

lemma resolve_timeframe_as_str: "resolve_timeframe (timeframe_as_str tf) = Inr tf"
  by (simp add: resolve_timeframe_def timeframe_from_str_as_str)

end
