(* ===== verification/Cli_Commands.thy ===== *)
theory Cli_Commands
  imports Cli
begin

text \<open>The subcommands of \<open>src/main.rs\<close> and the dispatch of \<open>main\<close>.\<close>

section \<open>Overview\<close>

definition cmd_info :: "cli_lib \<Rightarrow> hash32 list \<Rightarrow> hash32 list \<Rightarrow> perf_db \<Rightarrow> bool \<Rightarrow> cli_result" where
  "cmd_info lib pos_ids ord_ids db json =
     (let s = db_stores db;
          pos_count = positions_count (st_positions s);
          open_pos = positions_open_count pos_ids (st_positions s);
          order_count = orders_count (st_orders s);
          active_orders = orders_active_count ord_ids (st_orders s);
          user_count = users_count (st_users s);
          balance_count = balances_count (st_balances s);
          event_count = es_total_count (st_events s);
          trader_count = stats_count (st_trader_stats s);
          cp = checkpoint_snapshot_of (st_checkpoint s);
          tick_total = fold (\<lambda>mid t. t + db_tick_count db mid) all_markets 0
      in if json then print_json lib (JObj
             [(''ticks_total'', json_w tick_total), (''positions'', JNat pos_count),
              (''positions_open'', JNat open_pos), (''orders'', JNat order_count),
              (''orders_active'', JNat active_orders), (''users'', JNat user_count),
              (''balances'', JNat balance_count), (''events'', json_w event_count),
              (''traders_with_stats'', JNat trader_count), (''checkpoint_block'', json_w (cs_last_block cp)),
              (''checkpoint_hash'', JStr (cs_last_block_hash cp))])
         else Some (Inr
           ([''PerfDB Status'', repeat_str ''='' 40,
             row [pad_right 24 ''Ticks (total):'', show_w tick_total],
             row [pad_right 24 ''Positions:'', show_nat pos_count, ''('' @ show_nat open_pos @ '' open)''],
             row [pad_right 24 ''Orders:'', show_nat order_count, ''('' @ show_nat active_orders @ '' active)''],
             row [pad_right 24 ''Users:'', show_nat user_count],
             row [pad_right 24 ''Balance entries:'', show_nat balance_count],
             row [pad_right 24 ''Events:'', show_w event_count],
             row [pad_right 24 ''Traders with stats:'', show_nat trader_count],
             row [pad_right 24 ''Checkpoint block:'', show_w (cs_last_block cp)]]
            @ (if cs_last_block_hash cp = [] then []
               else [row [pad_right 24 ''Checkpoint hash:'', cs_last_block_hash cp]]))))"

section \<open>Markets and prices\<close>

definition snap_price :: "market_snapshot option \<Rightarrow> f64" where
  "snap_price snap = (case snap of None \<Rightarrow> f64_zero | Some s \<Rightarrow> ms_latest_price s)"

definition snap_flag :: "(market_snapshot \<Rightarrow> bool) \<Rightarrow> market_snapshot option \<Rightarrow> bool" where
  "snap_flag f snap = (case snap of None \<Rightarrow> False | Some s \<Rightarrow> f s)"

definition cmd_markets :: "cli_lib \<Rightarrow> perf_db \<Rightarrow> bool \<Rightarrow> cli_result" where
  "cmd_markets lib db json =
     (if json then print_json lib (JArr (map (\<lambda>m.
          let snap = market_snapshot_of (st_market_state (db_stores db)) (mm_id m)
          in JObj [(''id'', json_w (mm_id m)), (''symbol'', JStr (mm_symbol m)), (''name'', JStr (mm_name m)),
                   (''price'', json_f64 (snap_price snap)), (''enabled'', JBool (snap_flag ms_enabled snap)),
                   (''paused'', JBool (snap_flag ms_paused snap)), (''ticks'', json_w (db_tick_count db (mm_id m)))])
          MARKETS))
      else Some (Inr
        ([row [pad_right 4 ''ID'', pad_right 8 ''Symbol'', pad_right 14 ''Name'', pad_left 14 ''Price'',
               pad_left 8 ''Status'', pad_left 8 ''Paused'', pad_left 10 ''Ticks''],
          repeat_str ''-'' 72]
         @ map (\<lambda>m.
             let snap = market_snapshot_of (st_market_state (db_stores db)) (mm_id m);
                 status = (if snap_flag ms_enabled snap then ''active'' else ''disabled'');
                 pause_str = (if snap_flag ms_paused snap then ''yes'' else ''-'')
             in row [pad_right 4 (show_w (mm_id m)), pad_right 8 (mm_symbol m), pad_right 14 (mm_name m),
                     pad_left 14 (fmt_f64 2 (snap_price snap)), pad_left 8 status, pad_left 8 pause_str,
                     pad_left 10 (show_w (db_tick_count db (mm_id m)))])
           MARKETS)))"

text \<open>\<open>market_by_id(mid).unwrap()\<close> for every listed price; an unknown id panics.\<close>

fun price_symbols :: "(market_id \<times> f64) list \<Rightarrow> (market_id \<times> string \<times> f64) list panicking" where
  "price_symbols [] = Some []"
| "price_symbols ((mid, p) # ps) =
     (case market_by_id mid of
        None \<Rightarrow> None
      | Some meta \<Rightarrow> map_option ((#) (mid, mm_symbol meta, p)) (price_symbols ps))"

definition cmd_prices :: "cli_lib \<Rightarrow> perf_db \<Rightarrow> string option \<Rightarrow> bool \<Rightarrow> cli_result" where
  "cmd_prices lib db market json =
     (case market of
        Some m \<Rightarrow>
          (case resolve_market lib m of
             Inl e \<Rightarrow> Some (Inl e)
           | Inr mid \<Rightarrow>
               (case market_by_id mid of
                  None \<Rightarrow> None
                | Some meta \<Rightarrow>
                    (let price = db_latest_price db mid;
                         ns = last_update_ns (st_market_state (db_stores db)) mid
                     in if json then print_json lib (JObj
                            [(''market_id'', json_w mid), (''symbol'', JStr (mm_symbol meta)),
                             (''price'', json_f64 price), (''last_update_ns'', json_w ns)])
                        else Some (Inr
                          ([mm_symbol meta @ '' ('' @ show_w mid @ ''): '' @ fmt_f64 6 price]
                           @ (if 0 < ns then [''Last update: '' @ show_w ns @ '' ns''] else []))))))
      | None \<Rightarrow>
          (let prices = db_all_prices db in
           if json then
             (case price_symbols prices of
                None \<Rightarrow> None
              | Some ps \<Rightarrow> print_json lib (JArr (map (\<lambda>(mid, symbol, p).
                    JObj [(''market_id'', json_w mid), (''symbol'', JStr symbol), (''price'', json_f64 p)]) ps)))
           else if prices = [] then Some (Inr [''No prices available.''])
           else
             (case price_symbols prices of
                None \<Rightarrow> None
              | Some ps \<Rightarrow> Some (Inr
                  ([row [pad_right 4 ''ID'', pad_right 8 ''Symbol'', pad_left 16 ''Price''], repeat_str ''-'' 30]
                   @ map (\<lambda>(mid, symbol, p).
                       row [pad_right 4 (show_w mid), pad_right 8 symbol, pad_left 16 (fmt_f64 6 p)]) ps)))))"

section \<open>Ticks and candles\<close>

text \<open>The em dash of the headings, in UTF-8, between spaces.\<close>

definition em_dash :: string where
  "em_dash = '' '' @ map char_of [0xE2, 0x80, 0x94 :: nat] @ '' ''"

definition last_n :: "nat \<Rightarrow> 'a list \<Rightarrow> 'a list" where
  "last_n n xs = drop (length xs - n) xs"

definition cmd_ticks :: "cli_lib \<Rightarrow> perf_db \<Rightarrow> string \<Rightarrow> nat \<Rightarrow> bool \<Rightarrow> cli_result" where
  "cmd_ticks lib db market lst json =
     (case resolve_market lib market of
        Inl e \<Rightarrow> Some (Inl e)
      | Inr mid \<Rightarrow>
          (case market_by_id mid of
             None \<Rightarrow> None
           | Some meta \<Rightarrow>
          (case db_ticks db mid of
             None \<Rightarrow> None
           | Some all_ticks \<Rightarrow>
               (let ticks = last_n lst all_ticks
                in if json then print_json lib (JArr (map (\<lambda>t.
                       JObj [(''timestamp_ns'', json_w (tick_timestamp_ns t)), (''market_id'', json_w (tick_market_id t)),
                             (''price'', json_f64 (tick_price t))]) ticks))
                   else Some (Inr
                     ([mm_symbol meta @ em_dash @ ''last '' @ show_nat (length ticks) @ '' of ''
                         @ show_nat (length all_ticks) @ '' ticks'']
                      @ (if ticks = [] then [''No ticks.'']
                         else [row [pad_right 22 ''Timestamp (ns)'', pad_left 16 ''Price''], repeat_str ''-'' 40]
                           @ map (\<lambda>t. row [pad_right 22 (show_w (tick_timestamp_ns t)),
                                           pad_left 16 (fmt_f64 6 (tick_price t))]) ticks)))))))"

definition candle_json :: "candle_record \<Rightarrow> json" where
  "candle_json c =
     JObj [(''timestamp_ns'', json_w (cdl_timestamp_ns c)), (''open'', json_f64 (cdl_open c)),
           (''high'', json_f64 (cdl_high c)), (''low'', json_f64 (cdl_low c)), (''close'', json_f64 (cdl_close c)),
           (''volume'', json_f32 (cdl_volume c))]"

definition candle_row :: "candle_record \<Rightarrow> string" where
  "candle_row c =
     row [pad_right 22 (show_w (cdl_timestamp_ns c)), pad_left 12 (fmt_f64 2 (cdl_open c)),
          pad_left 12 (fmt_f64 2 (cdl_high c)), pad_left 12 (fmt_f64 2 (cdl_low c)),
          pad_left 12 (fmt_f64 2 (cdl_close c)), pad_left 10 (fmt_f32 1 (cdl_volume c))]"

definition cmd_candles :: "cli_lib \<Rightarrow> perf_db \<Rightarrow> string \<Rightarrow> string \<Rightarrow> nat \<Rightarrow> bool \<Rightarrow> cli_result" where
  "cmd_candles lib db market timeframe lst json =
     (case resolve_market lib market of
        Inl e \<Rightarrow> Some (Inl e)
      | Inr mid \<Rightarrow>
     (case resolve_timeframe timeframe of
        Inl e \<Rightarrow> Some (Inl e)
      | Inr tf \<Rightarrow>
     (case market_by_id mid of
        None \<Rightarrow> None
      | Some meta \<Rightarrow>
     (case db_candles db mid tf of
        None \<Rightarrow> None
      | Some all_candles \<Rightarrow>
          (let candles = last_n lst all_candles
           in if json then print_json lib (JArr (map candle_json candles))
              else Some (Inr
                ([mm_symbol meta @ '' '' @ timeframe_as_str tf @ em_dash @ ''last '' @ show_nat (length candles)
                    @ '' of '' @ show_nat (length all_candles) @ '' candles'']
                 @ (if candles = [] then [''No candles.'']
                    else [row [pad_right 22 ''Timestamp (ns)'', pad_left 12 ''Open'', pad_left 12 ''High'',
                               pad_left 12 ''Low'', pad_left 12 ''Close'', pad_left 10 ''Volume''],
                          repeat_str ''-'' 84]
                      @ map candle_row candles
                      @ (case db_live_candle db mid tf of
                           None \<Rightarrow> []
                         | Some live \<Rightarrow>
                             [[], ''Live:  O='' @ fmt_f64 2 (cdl_open live) @ '' H='' @ fmt_f64 2 (cdl_high live)
                                @ '' L='' @ fmt_f64 2 (cdl_low live) @ '' C='' @ fmt_f64 2 (cdl_close live)])))))))))"

section \<open>Positions and orders\<close>

definition option_list :: "'a option \<Rightarrow> 'a list" where
  "option_list v = (case v of None \<Rightarrow> [] | Some x \<Rightarrow> [x])"

definition symbol_or_unknown :: "market_id \<Rightarrow> string" where
  "symbol_or_unknown m = (case market_by_id m of None \<Rightarrow> ''???'' | Some meta \<Rightarrow> mm_symbol meta)"

text \<open>
  The selection by id, by user, by market or of all positions; \<open>ids\<close> is the iteration order of the
  table or of the index that is read.
\<close>

definition select_positions ::
  "cli_lib \<Rightarrow> hash32 list \<Rightarrow> position_table \<Rightarrow> string option \<Rightarrow> string option \<Rightarrow> string option \<Rightarrow> bool \<Rightarrow>
   (string + position list) panicking" where
  "select_positions lib ids t user market pid open_only =
     (case pid of
        Some id_str \<Rightarrow> map_option (\<lambda>h. Inr (option_list (positions_get t h))) (parse_hash id_str)
      | None \<Rightarrow>
     (case user of
        Some u \<Rightarrow> map_option (\<lambda>a. Inr (if open_only then positions_open_by_user ids t a
                                         else positions_by_user ids t a)) (parse_address u)
      | None \<Rightarrow>
     (case market of
        Some m \<Rightarrow>
          (case resolve_market lib m of
             Inl e \<Rightarrow> Some (Inl e)
           | Inr mid \<Rightarrow> Some (Inr (if open_only then positions_open_by_market ids t mid
                                    else positions_by_market ids t mid)))
      | None \<Rightarrow>
          Some (Inr (if open_only then filter (\<lambda>p. pos_status p = PsOpen) (positions_all ids t)
                     else positions_all ids t)))))"

definition position_json :: "position \<Rightarrow> json" where
  "position_json p =
     JObj [(''position_id'', JStr (hex_hash (pos_position_id p))), (''user'', JStr (hex_addr (pos_user_address p))),
           (''market_id'', json_w (pos_market_id p)), (''is_long'', JBool (pos_is_long p)),
           (''size_usd'', JStr (format_fixed (pos_size_usd p))), (''entry_price'', JStr (format_fixed (pos_entry_price p))),
           (''leverage'', JStr (format_fixed (pos_leverage p))), (''status'', JStr (dbg_position_status (pos_status p))),
           (''opened_at'', json_w (pos_opened_at p))]"

definition position_row :: "position \<Rightarrow> string" where
  "position_row p =
     row [pad_right 14 (take 14 (hex_hash (pos_position_id p))), pad_right 14 (short_addr (pos_user_address p)),
          pad_right 5 (symbol_or_unknown (pos_market_id p)), pad_right 5 (if pos_is_long p then ''LONG'' else ''SHORT''),
          pad_left 14 (format_fixed (pos_size_usd p)), pad_left 14 (format_fixed (pos_entry_price p)),
          pad_left 6 (format_fixed (pos_leverage p)), pad_right 10 (dbg_position_status (pos_status p))]"

definition cmd_positions ::
  "cli_lib \<Rightarrow> hash32 list \<Rightarrow> perf_db \<Rightarrow> string option \<Rightarrow> string option \<Rightarrow> string option \<Rightarrow> bool \<Rightarrow> bool \<Rightarrow> cli_result" where
  "cmd_positions lib ids db user market pid open_only json =
     (case select_positions lib ids (st_positions (db_stores db)) user market pid open_only of
        None \<Rightarrow> None
      | Some (Inl e) \<Rightarrow> Some (Inl e)
      | Some (Inr positions) \<Rightarrow>
          if json then print_json lib (JArr (map position_json positions))
          else Some (Inr
            ([show_nat (length positions) @ '' position(s)'']
             @ (if positions = [] then []
                else [row [pad_right 14 ''ID'', pad_right 14 ''User'', pad_right 5 ''Mkt'', pad_right 5 ''Side'',
                           pad_left 14 ''Size'', pad_left 14 ''Entry'', pad_left 6 ''Lev'', pad_right 10 ''Status''],
                      repeat_str ''-'' 90]
                  @ map position_row positions))))"

definition select_orders ::
  "hash32 list \<Rightarrow> order_table \<Rightarrow> string option \<Rightarrow> string option \<Rightarrow> bool \<Rightarrow> order list panicking" where
  "select_orders ids t user oid active_only =
     (case oid of
        Some id_str \<Rightarrow> map_option (\<lambda>h. option_list (orders_get t h)) (parse_hash id_str)
      | None \<Rightarrow>
     (case user of
        Some u \<Rightarrow> map_option (\<lambda>a. if active_only then orders_active_by_user ids t a else orders_by_user ids t a)
                    (parse_address u)
      | None \<Rightarrow> Some (if active_only then filter (\<lambda>o'. ord_status o' = OsActive) (orders_all ids t)
                       else orders_all ids t)))"

definition order_json :: "order \<Rightarrow> json" where
  "order_json r =
     JObj [(''order_id'', JStr (hex_hash (ord_order_id r))), (''user'', JStr (hex_addr (ord_user_address r))),
           (''market_id'', json_w (ord_market_id r)), (''is_long'', JBool (ord_is_long r)),
           (''type'', JStr (dbg_order_type (ord_order_type r))),
           (''trigger_price'', JStr (format_fixed (ord_trigger_price r))),
           (''size_usd'', JStr (format_fixed (ord_size_usd r))), (''status'', JStr (dbg_order_status (ord_status r)))]"

definition order_row :: "order \<Rightarrow> string" where
  "order_row r =
     row [pad_right 14 (take 14 (hex_hash (ord_order_id r))), pad_right 14 (short_addr (ord_user_address r)),
          pad_right 5 (symbol_or_unknown (ord_market_id r)), pad_right 5 (if ord_is_long r then ''LONG'' else ''SHORT''),
          pad_right 10 (dbg_order_type (ord_order_type r)), pad_left 14 (format_fixed (ord_trigger_price r)),
          pad_left 14 (format_fixed (ord_size_usd r)), pad_right 10 (dbg_order_status (ord_status r))]"

definition cmd_orders ::
  "cli_lib \<Rightarrow> hash32 list \<Rightarrow> perf_db \<Rightarrow> string option \<Rightarrow> string option \<Rightarrow> bool \<Rightarrow> bool \<Rightarrow> cli_result" where
  "cmd_orders lib ids db user oid active_only json =
     (case select_orders ids (st_orders (db_stores db)) user oid active_only of
        None \<Rightarrow> None
      | Some orders \<Rightarrow>
          if json then print_json lib (JArr (map order_json orders))
          else Some (Inr
            ([show_nat (length orders) @ '' order(s)'']
             @ (if orders = [] then []
                else [row [pad_right 14 ''ID'', pad_right 14 ''User'', pad_right 5 ''Mkt'', pad_right 5 ''Side'',
                           pad_right 10 ''Type'', pad_left 14 ''Trigger'', pad_left 14 ''Size'', pad_right 10 ''Status''],
                      repeat_str ''-'' 94]
                  @ map order_row orders))))"

definition level_json :: "depth_level \<Rightarrow> json" where
  "level_json l = JObj [(''price'', JStr (format_fixed (dl_price l))), (''orders'', JNat (dl_order_count l))]"

definition level_row :: "depth_level \<Rightarrow> string" where
  "level_row l = row [pad_left 20 (format_fixed (dl_price l)), pad_left 8 (show_nat (dl_order_count l))]"

definition cmd_orderbook :: "cli_lib \<Rightarrow> perf_db \<Rightarrow> string \<Rightarrow> nat \<Rightarrow> bool \<Rightarrow> cli_result" where
  "cmd_orderbook lib db market levels json =
     (case resolve_market lib market of
        Inl e \<Rightarrow> Some (Inl e)
      | Inr mid \<Rightarrow>
     (case market_by_id mid of
        None \<Rightarrow> None
      | Some meta \<Rightarrow>
     (case orders_orderbook (st_orders (db_stores db)) mid of
        None \<Rightarrow> Some (Inl (''no orderbook for market '' @ show_w mid))
      | Some book \<Rightarrow>
          (let bids = bids_depth book levels;
               asks = asks_depth book levels
           in if json then print_json lib (JObj
                  [(''market'', JStr (mm_symbol meta)),
                   (''best_bid'', json_opt (\<lambda>p. JStr (format_fixed p)) (best_bid book)),
                   (''best_ask'', json_opt (\<lambda>p. JStr (format_fixed p)) (best_ask book)),
                   (''spread'', json_opt (\<lambda>p. JStr (format_fixed p)) (spread book)),
                   (''bids'', JArr (map level_json bids)), (''asks'', JArr (map level_json asks))])
              else Some (Inr
                ([mm_symbol meta @ '' Orderbook'', repeat_str ''='' 40]
                 @ (case (best_bid book, best_ask book) of
                      (Some bb, Some ba) \<Rightarrow>
                        [''Spread: '' @ (case spread book of None \<Rightarrow> [] | Some p \<Rightarrow> format_fixed p)
                           @ '' (bid: '' @ format_fixed bb @ '' / ask: '' @ format_fixed ba @ '')'', []]
                    | _ \<Rightarrow> [])
                 @ [''ASKS (lowest first):'', row [pad_left 20 ''Price'', pad_left 8 ''Orders''], repeat_str ''-'' 30]
                 @ map level_row (rev asks)
                 @ [repeat_str ''='' 30,
                    ''BIDS (highest first):'', row [pad_left 20 ''Price'', pad_left 8 ''Orders''], repeat_str ''-'' 30]
                 @ map level_row bids))))))"

section \<open>Balances, users and statistics\<close>

definition cmd_balances :: "cli_lib \<Rightarrow> address list \<Rightarrow> perf_db \<Rightarrow> string \<Rightarrow> bool \<Rightarrow> cli_result" where
  "cmd_balances lib tokens db user json =
     (case parse_address user of
        None \<Rightarrow> None
      | Some addr \<Rightarrow>
          (let balances = balances_user_balances tokens (st_balances (db_stores db)) addr
           in if json then print_json lib (JArr (map (\<lambda>b.
                  JObj [(''token'', JStr (hex_addr (bal_token b))), (''amount'', JStr (format_fixed (bal_amount b))),
                        (''locked'', JStr (format_fixed (bal_locked b))),
                        (''available'', JStr (format_fixed (bal_available b)))]) balances))
              else Some (Inr
                ([''Balances for '' @ hex_addr addr]
                 @ (if balances = [] then [''  (none)'']
                    else [row [pad_right 44 ''Token'', pad_left 20 ''Amount'', pad_left 20 ''Locked'',
                               pad_left 20 ''Available''], repeat_str ''-'' 106]
                      @ map (\<lambda>b. row [pad_right 44 (hex_addr (bal_token b)), pad_left 20 (format_fixed (bal_amount b)),
                                      pad_left 20 (format_fixed (bal_locked b)),
                                      pad_left 20 (format_fixed (bal_available b))]) balances)))))"

definition field20 :: "string \<Rightarrow> string \<Rightarrow> string" where
  "field20 label v = row [pad_right 20 label, v]"

definition field24 :: "string \<Rightarrow> string \<Rightarrow> string" where
  "field24 label v = row [pad_right 24 label, v]"

definition cmd_user :: "cli_lib \<Rightarrow> address list \<Rightarrow> perf_db \<Rightarrow> string \<Rightarrow> bool \<Rightarrow> cli_result" where
  "cmd_user lib user_ids db address json =
     (case parse_address address of
        None \<Rightarrow> None
      | Some addr \<Rightarrow>
     (case users_get (st_users (db_stores db)) addr of
        None \<Rightarrow> Some (Inl ''user not found'')
      | Some user \<Rightarrow>
          (let referrals = users_referral_count user_ids (st_users (db_stores db)) addr
           in if json then print_json lib (JObj
                  [(''address'', JStr (hex_addr (usr_address user))),
                   (''vault'', json_opt (\<lambda>a. JStr (hex_addr a)) (usr_vault_address user)),
                   (''referral_code'', json_opt JStr (usr_referral_code user)),
                   (''referred_by'', json_opt (\<lambda>a. JStr (hex_addr a)) (usr_referred_by user)),
                   (''tier'', JStr (usr_tier user)), (''fee_discount_bps'', json_w (usr_fee_discount_bps user)),
                   (''created_at'', json_w (usr_created_at user)),
                   (''first_trade_at'', json_opt json_w (usr_first_trade_at user)),
                   (''last_active_at'', json_opt json_w (usr_last_active_at user)),
                   (''referral_count'', json_w referrals)])
              else Some (Inr
                ([''User: '' @ hex_addr (usr_address user), repeat_str ''='' 50,
                  field20 ''Tier:'' (usr_tier user),
                  field20 ''Fee discount:'' (show_w (usr_fee_discount_bps user) @ '' bps'')]
                 @ map (\<lambda>code. field20 ''Referral code:'' code) (option_list (usr_referral_code user))
                 @ map (\<lambda>a. field20 ''Referred by:'' (hex_addr a)) (option_list (usr_referred_by user))
                 @ [field20 ''Referrals:'' (show_w referrals)]
                 @ map (\<lambda>a. field20 ''Vault:'' (hex_addr a)) (option_list (usr_vault_address user))
                 @ [field20 ''Created:'' (show_w (usr_created_at user))]
                 @ map (\<lambda>t. field20 ''First trade:'' (show_w t)) (option_list (usr_first_trade_at user))
                 @ map (\<lambda>t. field20 ''Last active:'' (show_w t)) (option_list (usr_last_active_at user)))))))"

definition win_rate :: "trader_stats \<Rightarrow> string" where
  "win_rate stats = (let (m, e) = f64_percent (ts_win_count stats) (ts_total_trades stats) in fmt_dyadic 1 m e @ ''%'')"

definition cmd_stats :: "cli_lib \<Rightarrow> perf_db \<Rightarrow> string \<Rightarrow> bool \<Rightarrow> cli_result" where
  "cmd_stats lib db address json =
     (case parse_address address of
        None \<Rightarrow> None
      | Some addr \<Rightarrow>
     (case stats_get (st_trader_stats (db_stores db)) addr of
        None \<Rightarrow> Some (Inl ''no stats for this trader'')
      | Some stats \<Rightarrow>
          if json then print_json lib (JObj
            [(''address'', JStr (hex_addr (ts_address stats))), (''total_pnl'', JStr (format_fixed (ts_total_pnl stats))),
             (''total_volume'', JStr (format_fixed (ts_total_volume stats))),
             (''total_fees_paid'', JStr (format_fixed (ts_total_fees_paid stats))),
             (''total_trades'', json_w (ts_total_trades stats)), (''total_positions'', json_w (ts_total_positions stats)),
             (''open_positions'', json_w (ts_open_positions stats)), (''win_count'', json_w (ts_win_count stats)),
             (''loss_count'', json_w (ts_loss_count stats)),
             (''liquidation_count'', json_w (ts_liquidation_count stats)),
             (''best_trade_pnl'', JStr (format_fixed (ts_best_trade_pnl stats))),
             (''worst_trade_pnl'', JStr (format_fixed (ts_worst_trade_pnl stats))),
             (''win_rate'', JStr (if 0 < ts_total_trades stats then win_rate stats else ''N/A''))])
          else Some (Inr
            ([''Trader Stats: '' @ short_addr (ts_address stats), repeat_str ''='' 50,
              field24 ''Total PnL:'' (format_fixed (ts_total_pnl stats)),
              field24 ''Total volume:'' (format_fixed (ts_total_volume stats)),
              field24 ''Total fees:'' (format_fixed (ts_total_fees_paid stats)),
              field24 ''Trades:'' (show_w (ts_total_trades stats)),
              field24 ''Positions (total):'' (show_w (ts_total_positions stats)),
              field24 ''Positions (open):'' (show_w (ts_open_positions stats)),
              field24 ''W / L / Liq:'' (show_w (ts_win_count stats) @ '' / '' @ show_w (ts_loss_count stats)
                @ '' / '' @ show_w (ts_liquidation_count stats))]
             @ (if 0 < ts_total_trades stats then [field24 ''Win rate:'' (win_rate stats)] else [])
             @ [field24 ''Best trade:'' (format_fixed (ts_best_trade_pnl stats)),
                field24 ''Worst trade:'' (format_fixed (ts_worst_trade_pnl stats))]))))"

definition cmd_daily :: "cli_lib \<Rightarrow> (address \<times> u32) list \<Rightarrow> perf_db \<Rightarrow> string \<Rightarrow> nat \<Rightarrow> bool \<Rightarrow> cli_result" where
  "cmd_daily lib keys db address limit json =
     (case parse_address address of
        None \<Rightarrow> None
      | Some addr \<Rightarrow>
          (let history = trader_daily_history keys (st_daily_stats (db_stores db)) addr limit
           in if json then print_json lib (JArr (map (\<lambda>d.
                  JObj [(''date'', json_w (ds_date d)), (''pnl'', JStr (format_fixed (ds_pnl d))),
                        (''volume'', JStr (format_fixed (ds_volume d))), (''trades'', json_w (ds_trades d)),
                        (''fees'', JStr (format_fixed (ds_fees d)))]) history))
              else Some (Inr
                ([''Daily PnL for '' @ short_addr addr]
                 @ (if history = [] then [''  (no data)'']
                    else [row [pad_right 12 ''Date'', pad_left 20 ''PnL'', pad_left 20 ''Volume'', pad_left 8 ''Trades'',
                               pad_left 20 ''Fees''], repeat_str ''-'' 84]
                      @ map (\<lambda>d. row [pad_right 12 (show_w (ds_date d)), pad_left 20 (format_fixed (ds_pnl d)),
                                      pad_left 20 (format_fixed (ds_volume d)), pad_left 8 (show_w (ds_trades d)),
                                      pad_left 20 (format_fixed (ds_fees d))]) history)))))"

section \<open>Leaderboard and events\<close>

definition single_quoted :: "string \<Rightarrow> string" where
  "single_quoted s = CHR 0x27 # s @ [CHR 0x27]"

text \<open>The board is rebuilt, at time 0, before the metric is looked at.\<close>

definition cmd_leaderboard ::
  "cli_lib \<Rightarrow> address list \<Rightarrow> perf_db \<Rightarrow> string \<Rightarrow> nat \<Rightarrow> bool \<Rightarrow> cli_result \<times> perf_db" where
  "cmd_leaderboard lib traders db metric limit json =
     (let db1 = rebuild_leaderboard traders 0 db;
          lower = to_lowercase (lib_lower lib) metric;
          entries = (if lower = ''pnl'' then Some (db_pnl_leaderboard db1 limit)
                     else if lower = ''volume'' \<or> lower = ''vol'' then Some (db_volume_leaderboard db1 limit)
                     else None)
      in (case entries of
            None \<Rightarrow> Some (Inl (''unknown metric: '' @ metric @ '' (use '' @ single_quoted ''pnl'' @ '' or '' @ single_quoted ''volume'' @ '')''))
          | Some es \<Rightarrow>
              if json then print_json lib (JArr (map (\<lambda>e.
                JObj [(''rank'', json_w (le_rank e)), (''address'', JStr (hex_addr (le_address e))),
                      (''value'', JStr (format_fixed (le_value e))), (''trades'', json_w (le_total_trades e)),
                      (''wins'', json_w (le_win_count e)), (''losses'', json_w (le_loss_count e))]) es))
              else Some (Inr
                ([if lower = ''pnl'' then ''PnL Leaderboard'' else ''Volume Leaderboard'']
                 @ (if es = [] then [''  (empty)'']
                    else [row [pad_right 6 ''Rank'', pad_right 14 ''Address'', pad_left 20 ''Value'', pad_left 8 ''Trades'',
                               pad_left 6 ''Wins'', pad_left 6 ''Loss''], repeat_str ''-'' 64]
                      @ map (\<lambda>e. row [pad_right 6 (show_w (le_rank e)), pad_right 14 (short_addr (le_address e)),
                                      pad_left 20 (format_fixed (le_value e)), pad_left 8 (show_w (le_total_trades e)),
                                      pad_left 6 (show_w (le_win_count e)), pad_left 6 (show_w (le_loss_count e))]) es))),
          db1))"

fun event_short_name :: "event \<Rightarrow> string" where
  "event_short_name (PositionOpened _ _ _ _ _ _ _ _ _) = ''PositionOpened''"
| "event_short_name (PositionClosed _ _ _ _ _ _ _) = ''PositionClosed''"
| "event_short_name (PositionModified _ _ _ _) = ''PositionModified''"
| "event_short_name (OrderPlaced _ _ _ _ _ _ _) = ''OrderPlaced''"
| "event_short_name (OrderExecuted _ _ _) = ''OrderExecuted''"
| "event_short_name (OrderCancelled _ _) = ''OrderCancelled''"
| "event_short_name (Liquidation _ _ _ _ _ _) = ''Liquidation''"
| "event_short_name (ADLExecuted _ _) = ''ADLExecuted''"
| "event_short_name (PriceUpdated _ _ _) = ''PriceUpdated''"
| "event_short_name (FundingSettled _ _ _ _) = ''FundingSettled''"
| "event_short_name (FundingRateUpdated _ _ _) = ''FundingRateUpdated''"
| "event_short_name (MarketCreated _ _ _) = ''MarketCreated''"
| "event_short_name (MarketPaused _) = ''MarketPaused''"
| "event_short_name (CollateralDeposited _ _ _) = ''CollateralDeposited''"
| "event_short_name (CollateralWithdrawn _ _ _) = ''CollateralWithdrawn''"
| "event_short_name (VaultCreated _ _) = ''VaultCreated''"
| "event_short_name (VaultDeficit _ _) = ''VaultDeficit''"

definition dbg_i128 :: "i128 \<Rightarrow> string" where
  "dbg_i128 x = show_int (i128_val x)"

text \<open>The fields of a variant, in declaration order, as the derived \<open>Debug\<close> prints them.\<close>

fun event_fields :: "(string \<Rightarrow> string) \<Rightarrow> event \<Rightarrow> (string \<times> string) list" where
  "event_fields uni (PositionOpened pid user mid long sz lev entry token amount) =
     [(''position_id'', dbg_bytes pid), (''user'', dbg_bytes user), (''market_id'', show_w mid), (''is_long'', dbg_bool long),
      (''size_usd'', dbg_i128 sz), (''leverage'', dbg_i128 lev), (''entry_price'', dbg_i128 entry),
      (''collateral_token'', dbg_bytes token), (''collateral_amount'', dbg_i128 amount)]"
| "event_fields uni (PositionClosed pid user mid sz exit pnl full) =
     [(''position_id'', dbg_bytes pid), (''user'', dbg_bytes user), (''market_id'', show_w mid),
      (''closed_size_usd'', dbg_i128 sz), (''exit_price'', dbg_i128 exit), (''realized_pnl'', dbg_i128 pnl),
      (''is_full_close'', dbg_bool full)]"
| "event_fields uni (PositionModified pid sz coll amount) =
     [(''position_id'', dbg_bytes pid), (''new_size_usd'', dbg_i128 sz), (''new_collateral_usd'', dbg_i128 coll),
      (''new_collateral_amount'', dbg_i128 amount)]"
| "event_fields uni (OrderPlaced oid user mid ot long trigger sz) =
     [(''order_id'', dbg_bytes oid), (''user'', dbg_bytes user), (''market_id'', show_w mid), (''order_type'', show_w ot),
      (''is_long'', dbg_bool long), (''trigger_price'', dbg_i128 trigger), (''size_usd'', dbg_i128 sz)]"
| "event_fields uni (OrderExecuted oid pid price) =
     [(''order_id'', dbg_bytes oid), (''position_id'', dbg_bytes pid), (''execution_price'', dbg_i128 price)]"
| "event_fields uni (OrderCancelled oid user) = [(''order_id'', dbg_bytes oid), (''user'', dbg_bytes user)]"
| "event_fields uni (Liquidation pid user mid price penalty keeper) =
     [(''position_id'', dbg_bytes pid), (''user'', dbg_bytes user), (''market_id'', show_w mid),
      (''liquidation_price'', dbg_i128 price), (''penalty'', dbg_i128 penalty), (''keeper'', dbg_bytes keeper)]"
| "event_fields uni (ADLExecuted pid sz) =
     [(''position_id'', dbg_bytes pid), (''deleveraged_size_usd'', dbg_i128 sz)]"
| "event_fields uni (PriceUpdated mid price ts) =
     [(''market_id'', show_w mid), (''price'', dbg_i128 price), (''timestamp'', show_w ts)]"
| "event_fields uni (FundingSettled mid rate long short) =
     [(''market_id'', show_w mid), (''funding_rate'', dbg_i128 rate), (''long_payment'', dbg_i128 long),
      (''short_payment'', dbg_i128 short)]"
| "event_fields uni (FundingRateUpdated mid rate rate24) =
     [(''market_id'', show_w mid), (''new_rate_per_second'', dbg_i128 rate), (''funding_rate_24h'', dbg_i128 rate24)]"
| "event_fields uni (MarketCreated mid name symbol) =
     [(''market_id'', show_w mid), (''name'', dbg_str uni name), (''symbol'', dbg_str uni symbol)]"
| "event_fields uni (MarketPaused mid) = [(''market_id'', show_w mid)]"
| "event_fields uni (CollateralDeposited user token amount) =
     [(''user'', dbg_bytes user), (''token'', dbg_bytes token), (''amount'', dbg_i128 amount)]"
| "event_fields uni (CollateralWithdrawn user token amount) =
     [(''user'', dbg_bytes user), (''token'', dbg_bytes token), (''amount'', dbg_i128 amount)]"
| "event_fields uni (VaultCreated user vault) = [(''user'', dbg_bytes user), (''vault'', dbg_bytes vault)]"
| "event_fields uni (VaultDeficit token deficit) = [(''token'', dbg_bytes token), (''deficit'', dbg_i128 deficit)]"

definition select_events ::
  "cli_lib \<Rightarrow> event_store \<Rightarrow> string option \<Rightarrow> string option \<Rightarrow> nat \<Rightarrow> (string + indexed_event list) panicking" where
  "select_events lib es market trader lst =
     (case market of
        Some m \<Rightarrow>
          (case resolve_market lib m of
             Inl e \<Rightarrow> Some (Inl e)
           | Inr mid \<Rightarrow> Some (Inr (events_latest_by_market es mid lst)))
      | None \<Rightarrow>
     (case trader of
        Some t \<Rightarrow> map_option (\<lambda>a. Inr (events_latest_by_trader es a lst)) (parse_address t)
      | None \<Rightarrow> Some (Inl ''specify --market or --trader'')))"

definition cmd_events :: "cli_lib \<Rightarrow> perf_db \<Rightarrow> string option \<Rightarrow> string option \<Rightarrow> nat \<Rightarrow> bool \<Rightarrow> cli_result" where
  "cmd_events lib db market trader lst json =
     (case select_events lib (st_events (db_stores db)) market trader lst of
        None \<Rightarrow> None
      | Some (Inl e) \<Rightarrow> Some (Inl e)
      | Some (Inr events) \<Rightarrow>
          if json then print_json lib (JArr (map (\<lambda>e.
            JObj [(''block'', json_w (ie_block_number e)), (''timestamp'', json_w (ie_block_timestamp e)),
                  (''tx'', JStr (hex_hash (ie_tx_hash e))),
                  (''event'', JStr (dbg_struct (event_short_name (ie_event e)) (event_fields (lib_debug lib) (ie_event e))))])
            events))
          else Some (Inr
            ([show_nat (length events) @ '' event(s)'']
             @ (if events = [] then []
                else [row [pad_right 10 ''Block'', pad_right 14 ''Timestamp'', pad_right 14 ''Tx'', ''Event''],
                      repeat_str ''-'' 80]
                  @ map (\<lambda>e. row [pad_right 10 (show_w (ie_block_number e)), pad_right 14 (show_w (ie_block_timestamp e)),
                                  pad_right 14 (take 14 (hex_hash (ie_tx_hash e))), event_short_name (ie_event e)])
                    events))))"

section \<open>Checkpoint and snapshot\<close>

definition cmd_checkpoint :: "cli_lib \<Rightarrow> perf_db \<Rightarrow> bool \<Rightarrow> cli_result" where
  "cmd_checkpoint lib db json =
     (let cp = checkpoint_snapshot_of (st_checkpoint (db_stores db))
      in if json then print_json lib (JObj
             [(''last_block'', json_w (cs_last_block cp)), (''last_block_hash'', JStr (cs_last_block_hash cp)),
              (''last_block_timestamp'', json_w (cs_last_block_timestamp cp))])
         else Some (Inr
           ([''Indexer Checkpoint'', repeat_str ''='' 40, field24 ''Block:'' (show_w (cs_last_block cp))]
            @ (if cs_last_block_hash cp = [] then [] else [field24 ''Hash:'' (cs_last_block_hash cp)])
            @ [field24 ''Timestamp:'' (show_w (cs_last_block_timestamp cp))])))"

text \<open>\<open>PathBuf::join\<close> with a relative name, and the messages of \<open>PerfDbError\<close>.\<close>

definition path_join :: "string \<Rightarrow> string \<Rightarrow> string" where
  "path_join d n = (if d = [] \<or> last d = CHR ''/'' then d @ n else d @ ''/'' @ n)"

fun display_error :: "cli_lib \<Rightarrow> perfdb_error \<Rightarrow> string" where
  "display_error lib (Io context) = ''I/O error ('' @ context @ ''): '' @ lib_io_error lib context"
| "display_error lib (Serialization context detail) = ''serialization error ('' @ context @ ''): '' @ detail"
| "display_error lib (Corruption msg) = ''data corruption: '' @ msg"
| "display_error lib (InvalidArgument msg) = ''invalid argument: '' @ msg"

definition cmd_snapshot ::
  "cli_lib \<Rightarrow> (state_snapshot \<Rightarrow> u8 list option) \<Rightarrow> snapshot_orders \<Rightarrow> string \<Rightarrow> perf_db \<Rightarrow> cli_result \<times> perf_db" where
  "cmd_snapshot lib ser io data_dir db =
     (case db_snapshot ser io db of
        (Inr name, db1) \<Rightarrow>
          (Some (Inr [''Snapshot created: '' @ path_join (path_join data_dir ''snapshots'') name]), db1)
      | (Inl e, db1) \<Rightarrow> (Some (Inl (''snapshot failed: '' @ display_error lib e)), db1))"

section \<open>The program\<close>

datatype command =
    Info
  | Markets
  | Prices "string option"
  | Ticks string nat
  | Candles string string nat
  | CmdPositions "string option" "string option" "string option" bool
      \<comment> \<open>user, market, id, open\<close>
  | CmdOrders "string option" "string option" bool
      \<comment> \<open>user, id, active\<close>
  | CmdOrderbook string nat
  | CmdBalances string
  | CmdUser string
  | CmdStats string
  | Daily string nat
  | CmdLeaderboard string nat
  | Events "string option" "string option" nat
  | CmdCheckpoint
  | CmdSnapshot

text \<open>The arguments after parsing by \<open>clap\<close>, and the iteration orders of the containers a command reads.\<close>

record cli =
  cli_data_dir :: string
  cli_json :: bool
  cli_command :: command

record cli_orders =
  co_positions :: "hash32 list"
  co_orders :: "hash32 list"
  co_tokens :: "address list"
  co_users :: "address list"
  co_traders :: "address list"
  co_daily :: "(address \<times> u32) list"
  co_snapshot :: snapshot_orders

fun run_command ::
  "cli_lib \<Rightarrow> (state_snapshot \<Rightarrow> u8 list option) \<Rightarrow> cli_orders \<Rightarrow> string \<Rightarrow> perf_db \<Rightarrow> bool \<Rightarrow> command \<Rightarrow>
   cli_result \<times> perf_db" where
  "run_command lib ser io dir db json Info = (cmd_info lib (co_positions io) (co_orders io) db json, db)"
| "run_command lib ser io dir db json Markets = (cmd_markets lib db json, db)"
| "run_command lib ser io dir db json (Prices market) = (cmd_prices lib db market json, db)"
| "run_command lib ser io dir db json (Ticks market lst) = (cmd_ticks lib db market lst json, db)"
| "run_command lib ser io dir db json (Candles market timeframe lst) = (cmd_candles lib db market timeframe lst json, db)"
| "run_command lib ser io dir db json (CmdPositions user market pid open_only) =
     (cmd_positions lib (co_positions io) db user market pid open_only json, db)"
| "run_command lib ser io dir db json (CmdOrders user oid active) =
     (cmd_orders lib (co_orders io) db user oid active json, db)"
| "run_command lib ser io dir db json (CmdOrderbook market levels) = (cmd_orderbook lib db market levels json, db)"
| "run_command lib ser io dir db json (CmdBalances user) = (cmd_balances lib (co_tokens io) db user json, db)"
| "run_command lib ser io dir db json (CmdUser address) = (cmd_user lib (co_users io) db address json, db)"
| "run_command lib ser io dir db json (CmdStats address) = (cmd_stats lib db address json, db)"
| "run_command lib ser io dir db json (Daily address limit) = (cmd_daily lib (co_daily io) db address limit json, db)"
| "run_command lib ser io dir db json (CmdLeaderboard metric limit) =
     cmd_leaderboard lib (co_traders io) db metric limit json"
| "run_command lib ser io dir db json (Events market trader lst) = (cmd_events lib db market trader lst json, db)"
| "run_command lib ser io dir db json CmdCheckpoint = (cmd_checkpoint lib db json, db)"
| "run_command lib ser io dir db json CmdSnapshot = cmd_snapshot lib ser (co_snapshot io) dir db"

text \<open>What the process leaves behind: the lines on the two streams and the exit status.\<close>

record exit_state =
  ex_stdout :: "string list"
  ex_stderr :: "string list"
  ex_code :: nat

definition cli_main ::
  "cli_lib \<Rightarrow> (state_snapshot \<Rightarrow> u8 list option) \<Rightarrow> cli_orders \<Rightarrow> perf_db result panicking \<Rightarrow> cli \<Rightarrow> exit_state panicking" where
  "cli_main lib ser io opened args =
     (case opened of
        None \<Rightarrow> None
      | Some (Inl e) \<Rightarrow>
          Some \<lparr>ex_stdout = [],
                ex_stderr = [''error: failed to open PerfDB at '' @ cli_data_dir args @ '': '' @ display_error lib e],
                ex_code = 1\<rparr>
      | Some (Inr db) \<Rightarrow>
          (case fst (run_command lib ser io (cli_data_dir args) db (cli_json args) (cli_command args)) of
             None \<Rightarrow> None
           | Some (Inl e) \<Rightarrow> Some \<lparr>ex_stdout = [], ex_stderr = [''error: '' @ e], ex_code = 1\<rparr>
           | Some (Inr lines) \<Rightarrow> Some \<lparr>ex_stdout = lines, ex_stderr = [], ex_code = 0\<rparr>))"

end
