(* ===== verification/Cli_Safety.thy ===== *)
theory Cli_Safety
  imports Cli_Text Cli_Commands Engine_Steps
begin

text \<open>
  The commands on a well-formed database: none of them panics on ASCII arguments, and none changes
  more than the cached leaderboards and the snapshot directory.
\<close>

section \<open>Arguments that are parsed as hexadecimal\<close>

lemma ascii_no_continuation: "is_ascii s \<Longrightarrow> c \<in> set s \<Longrightarrow> \<not> continuation_byte c"
  by (auto simp: is_ascii_def list_all_iff continuation_byte_def)

lemma ascii_at_boundary: "is_ascii s \<Longrightarrow> at_boundary s"
  using ascii_no_continuation [of s] by (cases s) (auto simp: at_boundary_def)

lemma ascii_hex_chunks: "is_ascii s \<Longrightarrow> \<exists>r. hex_decode_chunks s = Some r"
proof (induction s rule: hex_decode_chunks.induct)
  case (1 a b cs)
  then have "is_ascii cs" "at_boundary (a # b # cs)" "at_boundary cs"
    using ascii_at_boundary by (auto simp: is_ascii_def)
  then show ?case using 1 by (auto split: option.splits)
qed auto

lemma ascii_parse_bytes:
  assumes "is_ascii s"
  shows "\<exists>bs. parse_bytes n s = Some bs \<and> length bs = n"
proof -
  have "is_ascii (strip_0x s)" using assms by (auto simp: is_ascii_def strip_0x_def list_all_iff dest: in_set_dropD)
  from ascii_hex_chunks [OF this] obtain r where "hex_decode (strip_0x s) = Some r"
    by (cases "length (strip_0x s) mod 2 = 0") (auto simp: hex_decode_def)
  then obtain bs where "parse_bytes n s = Some bs" by (auto simp: parse_bytes_def)
  then show ?thesis using length_parse_bytes by blast
qed

fun hex_args :: "command \<Rightarrow> string list" where
  "hex_args (CmdPositions user market pid open_only) = option_list user @ option_list pid"
| "hex_args (CmdOrders user oid active) = option_list user @ option_list oid"
| "hex_args (CmdBalances user) = [user]"
| "hex_args (CmdUser address) = [address]"
| "hex_args (CmdStats address) = [address]"
| "hex_args (Daily address limit) = [address]"
| "hex_args (Events market trader lst) = option_list trader"
| "hex_args _ = []"

lemma ascii_parse:
  assumes "is_ascii s"
  obtains a h where "parse_address s = Some a" "length a = 20" "parse_hash s = Some h" "length h = 32"
  using ascii_parse_bytes [OF assms, of 20] ascii_parse_bytes [OF assms, of 32]
  by (auto simp: parse_address_def parse_hash_def)

section \<open>Selections\<close>

lemma price_symbols_ok: "\<forall>(m, p) \<in> set ps. unat m < MARKET_COUNT \<Longrightarrow> \<exists>r. price_symbols ps = Some r"
  by (induction ps) (auto simp: market_by_id_def)

lemma all_prices_valid: "length t = MARKET_COUNT \<Longrightarrow> \<forall>(m, p) \<in> set (all_prices t). unat m < MARKET_COUNT"
  by (auto simp: all_prices_def map_filter_def Let_def in_set_enumerate_eq split: if_splits)

text \<open>A database whose stores are in order and whose series can be read.\<close>

definition db_readable :: "perf_db \<Rightarrow> bool" where
  "db_readable db \<longleftrightarrow> length (st_market_state (db_stores db)) = MARKET_COUNT \<and>
     (\<exists>log. tick_store_repr (db_tick_store db) log) \<and> (\<exists>log. candle_store_repr (db_candle_store db) log)"

lemma db_readable_series:
  assumes "db_readable db"
  obtains ts cs where "db_ticks db m = Some ts" "db_candles db m tf = Some cs"
  using assms tick_store_ticks_repr candle_store_candles_repr
  by (auto simp: db_readable_def db_ticks_def db_candles_def)

lemma resolve_market_meta:
  "resolve_market lib s = Inr i \<Longrightarrow> \<exists>meta. market_by_id i = Some meta"
  using resolve_market_valid [of lib s i] by (simp add: market_by_id_def)

lemma cmd_prices_total: "db_readable db \<Longrightarrow> cmd_prices lib db market json \<noteq> None"
  using price_symbols_ok [OF all_prices_valid, of "st_market_state (db_stores db)"]
  by (auto simp: cmd_prices_def db_readable_def db_all_prices_def Let_def dest!: resolve_market_meta
      split: option.splits sum.splits)

lemma cmd_series_total:
  assumes "db_readable db"
  shows "cmd_ticks lib db market lst json \<noteq> None" "cmd_candles lib db market timeframe lst json \<noteq> None"
proof -
  have t: "db_ticks db m \<noteq> None" "db_candles db m tf \<noteq> None" for m tf
    using db_readable_series [OF assms, of m tf] by blast+
  show "cmd_ticks lib db market lst json \<noteq> None"
    by (auto simp: cmd_ticks_def Let_def t simp del: not_None_eq dest!: resolve_market_meta split: option.splits sum.splits)
  show "cmd_candles lib db market timeframe lst json \<noteq> None"
    by (auto simp: cmd_candles_def Let_def t simp del: not_None_eq dest!: resolve_market_meta split: option.splits sum.splits)
qed

lemma cmd_orderbook_total: "cmd_orderbook lib db market levels json \<noteq> None"
  by (auto simp: cmd_orderbook_def Let_def dest!: resolve_market_meta split: option.splits sum.splits)

lemma select_total:
  "list_all is_ascii (option_list user @ option_list pid) \<Longrightarrow> select_positions lib ids t user market pid open_only \<noteq> None"
  "list_all is_ascii (option_list user @ option_list pid) \<Longrightarrow> select_orders ids o' user pid active \<noteq> None"
  "list_all is_ascii (option_list user) \<Longrightarrow> select_events lib es market user lst \<noteq> None"
  by (auto simp: select_positions_def select_orders_def select_events_def option_list_def elim!: ascii_parse
      split: option.splits sum.splits)

lemma cmd_address_total:
  assumes "is_ascii s"
  shows "cmd_balances lib tokens db s json \<noteq> None" "cmd_user lib users db s json \<noteq> None"
    "cmd_stats lib db s json \<noteq> None" "cmd_daily lib keys db s limit json \<noteq> None"
  using assms
  by (auto simp: cmd_balances_def cmd_user_def cmd_stats_def cmd_daily_def Let_def elim!: ascii_parse
      split: option.splits)

lemma run_command_total:
  assumes "db_readable db" "list_all is_ascii (hex_args cmd)"
  shows "fst (run_command lib ser io dir db json cmd) \<noteq> None"
proof (cases cmd)
  case (CmdPositions user market pid open_only)
  then show ?thesis
    using select_total(1) [of user pid] assms(2) by (auto simp: cmd_positions_def split: option.splits sum.splits)
next
  case (CmdOrders user oid active)
  then show ?thesis using select_total(2) [of user oid] assms(2) by (auto simp: cmd_orders_def split: option.splits)
next
  case (Events market trader lst)
  then show ?thesis
    using select_total(3) [of trader] assms(2) by (auto simp: cmd_events_def split: option.splits sum.splits)
qed (use assms cmd_prices_total cmd_series_total cmd_orderbook_total cmd_address_total in
    \<open>auto simp: cmd_info_def cmd_markets_def cmd_leaderboard_def cmd_checkpoint_def cmd_snapshot_def Let_def
      split: option.splits sum.splits prod.splits\<close>)

lemma run_command_frame:
  assumes "snd (run_command lib ser io dir db json cmd) = db'"
  shows "db' = db\<lparr>db_leaderboard := db_leaderboard db', db_snapshots := db_snapshots db'\<rparr>"
  using assms
  by (cases cmd) (auto simp: cmd_leaderboard_def cmd_snapshot_def rebuild_leaderboard_def db_snapshot_def Let_def split_beta
      split: sum.splits prod.splits)

end
