(* ===== verification/Civil_Date.thy ===== *)
theory Civil_Date
  imports Engine
begin

text \<open>
  The date of a timestamp, \<open>timestamp_to_date\<close> of \<open>src/engine.rs\<close>, against the Gregorian calendar: the
  reference counts days from 1970-01-01 with the month lengths and the leap rule.
\<close>

section \<open>The calendar\<close>

definition leap :: "nat \<Rightarrow> bool" where
  "leap y \<longleftrightarrow> 4 dvd y \<and> \<not> 100 dvd y \<or> 400 dvd y"

definition days_in_month :: "nat \<Rightarrow> nat \<Rightarrow> nat" where
  "days_in_month y m = (if m = 2 then if leap y then 29 else 28 else if m \<in> {4, 6, 9, 11} then 30 else 31)"

fun next_day :: "nat \<times> nat \<times> nat \<Rightarrow> nat \<times> nat \<times> nat" where
  "next_day (y, m, d) =
     (if d < days_in_month y m then (y, m, d + 1) else if m < 12 then (y, m + 1, 1) else (y + 1, 1, 1))"

definition civil_date :: "nat \<Rightarrow> nat \<times> nat \<times> nat" where
  "civil_date n = (next_day ^^ n) (1970, 1, 1)"

fun date_code :: "nat \<times> nat \<times> nat \<Rightarrow> nat" where
  "date_code (y, m, d) = y * 10000 + m * 100 + d"

section \<open>The computation of the code, on natural numbers\<close>

definition year_of_era :: "nat \<Rightarrow> nat" where
  "year_of_era doe = (doe - doe div 1460 + doe div 36524 - doe div 146096) div 365"

definition march_date :: "nat \<Rightarrow> nat \<Rightarrow> nat \<times> nat \<times> nat" where
  "march_date y doy =
     (let mp = (5 * doy + 2) div 153;
          d = doy - (153 * mp + 2) div 5 + 1;
          m = (if mp < 10 then mp + 3 else mp - 9)
      in (if m \<le> 2 then y + 1 else y, m, d))"

definition date_of_day :: "nat \<Rightarrow> nat \<times> nat \<times> nat" where
  "date_of_day z =
     (let era = z div 146097;
          doe = z - era * 146097;
          yoe = year_of_era doe
      in march_date (yoe + era * 400) (doe - (365 * yoe + yoe div 4 - yoe div 100)))"

section \<open>Days of a 400-year era\<close>

text \<open>
  A day of an era lies in one of four centuries, in one of its 25 four-year cycles, in one of the four years of
  the cycle (which begin in March, so that a leap day is the last day of its year).
\<close>

definition era_day :: "nat \<Rightarrow> nat \<Rightarrow> nat \<Rightarrow> nat \<Rightarrow> nat" where
  "era_day c a b t = 36524 * c + 1461 * a + 365 * b + t"

definition long_year :: "nat \<Rightarrow> nat \<Rightarrow> nat \<Rightarrow> bool" where
  "long_year c a b \<longleftrightarrow> b = 3 \<and> (a < 24 \<or> c = 3)"

definition era_ok :: "nat \<Rightarrow> nat \<Rightarrow> nat \<Rightarrow> nat \<Rightarrow> bool" where
  "era_ok c a b t \<longleftrightarrow> c < 4 \<and> a < 25 \<and> b < 4 \<and> (t < 365 \<or> t = 365 \<and> long_year c a b)"

lemma era_day_exists:
  assumes "doe < 146097"
  obtains c a b t where "doe = era_day c a b t" "era_ok c a b t"
proof -
  define c where "c = min 3 (doe div 36524)"
  define r where "r = doe - 36524 * c"
  define a where "a = r div 1461"
  define s where "s = r mod 1461"
  define b where "b = min 3 (s div 365)"
  define t where "t = s - 365 * b"
  have c: "c \<le> 3" "36524 * c \<le> doe" "doe < 36524 * c + 36524 \<or> c = 3 \<and> doe \<le> 146096"
    using assms by (auto simp: c_def min_def)
  then have r: "doe = 36524 * c + r" "r \<le> 36524" "r < 36524 \<or> c = 3" by (auto simp: r_def)
  have a: "r = 1461 * a + s" "s < 1461" by (simp_all add: a_def s_def)
  then have "a < 25" using r by linarith
  have b: "s = 365 * b + t" "b \<le> 3" "t < 365 \<or> t = 365 \<and> b = 3"
    using a(2) by (auto simp: b_def t_def min_def)
  have "a < 24 \<or> c = 3" if "t = 365" "b = 3" using that r a(1) b(1) \<open>a < 25\<close> by arith
  with c b \<open>a < 25\<close> have "era_ok c a b t" by (auto simp: era_ok_def long_year_def)
  moreover have "doe = era_day c a b t" using r a(1) b(1) by (simp add: era_day_def)
  ultimately show thesis using that by blast
qed

lemma era_day_bound: "era_ok c a b t \<Longrightarrow> era_day c a b t < 146097"
  unfolding era_ok_def era_day_def long_year_def by linarith

lemma year_of_era_day:
  assumes "era_ok c a b t"
  shows "year_of_era (era_day c a b t) = 100 * c + 4 * a + b"
proof (cases "c = 3 \<and> a = 24 \<and> b = 3 \<and> t = 365")
  case True
  then show ?thesis by (simp add: era_day_def year_of_era_def)
next
  case False
  define doe where "doe = era_day c a b t"
  have le: "36524 * c \<le> doe" "doe < 36524 * c + 36524" "doe < 146096"
    using assms False by (auto simp: doe_def era_day_def era_ok_def long_year_def ac_simps)
  have "doe div 36524 = c" using le by (intro div_nat_eqI) simp_all
  moreover have "doe div 146096 = 0" using le by simp
  moreover have "\<exists>e. doe div 1460 = 25 * c + a + e \<and> 365 * b + e \<le> 365 * b + t \<and> t - e < 365"
  proof (cases "24 * c + a + 365 * b + t < 1460")
    case True
    then have "doe div 1460 = 25 * c + a" unfolding doe_def era_day_def by (intro div_nat_eqI) simp_all
    moreover have "t < 365" using True assms by (auto simp: era_ok_def long_year_def)
    ultimately show ?thesis by (intro exI [of _ 0]) simp
  next
    case False
    then have "doe div 1460 = 25 * c + a + 1"
      using assms unfolding doe_def era_day_def era_ok_def by (intro div_nat_eqI) auto
    moreover have "1 \<le> t" "t \<le> 365" using False assms by (auto simp: era_ok_def)
    ultimately show ?thesis by (intro exI [of _ 1]) simp
  qed
  then obtain e where "doe div 1460 = 25 * c + a + e" "e \<le> t" "t - e < 365" by auto
  moreover have "doe = 36524 * c + 1461 * a + 365 * b + t" by (simp add: doe_def era_day_def)
  ultimately have "doe - doe div 1460 + doe div 36524 - doe div 146096 = 365 * (100 * c + 4 * a + b) + (t - e)" by simp
  with \<open>t - e < 365\<close> show ?thesis unfolding year_of_era_def doe_def by simp
qed

lemma era_year_start:
  assumes "era_ok c a b t"
  defines "y \<equiv> 100 * c + 4 * a + b"
  shows "365 * y + y div 4 - y div 100 = 36524 * c + 1461 * a + 365 * b"
proof -
  have "y div 4 = 25 * c + a" "y div 100 = c"
    using assms unfolding era_ok_def by (auto intro!: div_nat_eqI)
  then show ?thesis by (simp add: y_def)
qed

lemma date_of_era_day:
  assumes "era_ok c a b t"
  shows "date_of_day (146097 * n + era_day c a b t) = march_date (400 * n + 100 * c + 4 * a + b) t"
proof -
  let ?y = "100 * c + 4 * a + b"
  have "365 * ?y + ?y div 4 - ?y div 100 = 36524 * c + 1461 * a + 365 * b" using assms by (rule era_year_start)
  then have doy: "era_day c a b t - (365 * ?y + ?y div 4 - ?y div 100) = t" by (simp add: era_day_def)
  have era: "(146097 * n + era_day c a b t) div 146097 = n" using era_day_bound [OF assms] by simp
  then have doe: "146097 * n + era_day c a b t - n * 146097 = era_day c a b t" by simp
  show ?thesis unfolding date_of_day_def Let_def era doe year_of_era_day [OF assms] doy by (simp add: algebra_simps)
qed

section \<open>One day further\<close>

lemma leap_year: 
  assumes "c < 4" "a < 25" "b < 4"
  shows "leap (400 * n + 100 * c + 4 * a + b + 1) \<longleftrightarrow> long_year c a b"
proof -
  let ?y = "400 * n + 100 * c + 4 * a + b + 1"
  have "4 dvd ?y \<longleftrightarrow> 4 dvd b + 1"
    using dvd_add_right_iff [of 4 "400 * n + 100 * c + 4 * a" "b + 1"] by (simp add: add.assoc)
  also have "\<dots> \<longleftrightarrow> b = 3" using assms(3) by (auto dest: dvd_imp_le)
  finally have 4: "4 dvd ?y \<longleftrightarrow> b = 3" .
  have "100 dvd ?y \<longleftrightarrow> 100 dvd 4 * a + b + 1"
    using dvd_add_right_iff [of 100 "400 * n + 100 * c" "4 * a + b + 1"] by (simp add: add.assoc)
  also have "\<dots> \<longleftrightarrow> a = 24 \<and> b = 3" using assms by (auto dest: dvd_imp_le)
  finally have 100: "100 dvd ?y \<longleftrightarrow> a = 24 \<and> b = 3" .
  have "400 dvd ?y \<longleftrightarrow> 400 dvd 100 * c + 4 * a + b + 1"
    using dvd_add_right_iff [of 400 "400 * n" "100 * c + 4 * a + b + 1"] by (simp add: add.assoc)
  also have "\<dots> \<longleftrightarrow> c = 3 \<and> a = 24 \<and> b = 3" using assms by (auto dest: dvd_imp_le)
  finally have "400 dvd ?y \<longleftrightarrow> c = 3 \<and> a = 24 \<and> b = 3" .
  with 4 100 assms show ?thesis unfolding leap_def long_year_def by auto
qed

lemma march_date_month:
  assumes "153 * k \<le> 5 * t + 2" "5 * t + 2 < 153 * (k + 1)"
  shows "march_date y t =
    (if k < 10 then (y, k + 3, t - (153 * k + 2) div 5 + 1)
     else (if k < 12 then y + 1 else y, k - 9, t - (153 * k + 2) div 5 + 1))"
proof -
  have "(5 * t + 2) div 153 = k" using assms by (intro div_nat_eqI) simp_all
  then show ?thesis by (auto simp: march_date_def Let_def)
qed

lemma march_date_0: "march_date y 0 = (y, 3, 1)"
  by (simp add: march_date_def)

text \<open>The days of month \<open>k\<close> after March, each followed by the next.\<close>

lemma march_date_next:
  assumes "t < 365"
  shows "next_day (march_date y t) = (if t = 364 \<and> \<not> leap (y + 1) then march_date (y + 1) 0 else march_date y (t + 1))"
proof -
  define k where "k = (5 * t + 2) div 153"
  have b: "153 * k \<le> 5 * t + 2" "5 * t + 2 < 153 * (k + 1)" by (simp_all add: k_def)
  then have here: "march_date y t = (if k < 10 then (y, k + 3, t - (153 * k + 2) div 5 + 1)
     else (if k < 12 then y + 1 else y, k - 9, t - (153 * k + 2) div 5 + 1))" by (rule march_date_month)
  have same: "march_date y (t + 1) = (if k < 10 then (y, k + 3, t + 1 - (153 * k + 2) div 5 + 1)
     else (if k < 12 then y + 1 else y, k - 9, t + 1 - (153 * k + 2) div 5 + 1))" if "5 * t + 7 < 153 * (k + 1)"
    using b that by (intro march_date_month) simp_all
  have other: "march_date y (t + 1) = (if k + 1 < 10 then (y, k + 4, t + 1 - (153 * (k + 1) + 2) div 5 + 1)
     else (if k + 1 < 12 then y + 1 else y, k + 1 - 9, t + 1 - (153 * (k + 1) + 2) div 5 + 1))"
    if "\<not> 5 * t + 7 < 153 * (k + 1)"
    using b that by (subst march_date_month [of "k + 1"]) simp_all
  have "k < 12" using assms b by linarith
  then consider "k = 0" | "k = 1" | "k = 2" | "k = 3" | "k = 4" | "k = 5" | "k = 6" | "k = 7" | "k = 8"
    | "k = 9" | "k = 10" | "k = 11" by (auto simp: eval_nat_numeral less_Suc_eq)
  note month = this
  show ?thesis
  proof (cases "5 * t + 7 < 153 * (k + 1)")
    case True
    from month b assms True show ?thesis
      unfolding here same [OF True] march_date_0 by cases (auto simp: days_in_month_def)
  next
    case False
    from month b assms False show ?thesis
      unfolding here other [OF False] march_date_0 by cases (auto simp: days_in_month_def)
  qed
qed

lemma march_date_leap: "leap (y + 1) \<Longrightarrow> next_day (march_date y 365) = march_date (y + 1) 0"
  by (simp add: march_date_def days_in_month_def)

lemma date_of_next_day: "date_of_day (z + 1) = next_day (date_of_day z)"
proof -
  define n where "n = z div 146097"
  have "z mod 146097 < 146097" by simp
  then obtain c a b t where "z mod 146097 = era_day c a b t" and ok: "era_ok c a b t" by (rule era_day_exists)
  then have z: "z = 146097 * n + era_day c a b t" using div_mult_mod_eq [of z 146097] by (simp add: n_def)
  let ?y = "400 * n + 100 * c + 4 * a + b"
  have leap: "leap (?y + 1) \<longleftrightarrow> long_year c a b" using ok by (intro leap_year) (auto simp: era_ok_def)
  have here: "date_of_day z = march_date ?y t" unfolding z by (rule date_of_era_day [OF ok])
  show ?thesis
  proof (cases "era_ok c a b (t + 1)")
    case True
    then have "t < 365" "t = 364 \<longrightarrow> long_year c a b" by (auto simp: era_ok_def)
    moreover have "date_of_day (z + 1) = march_date ?y (t + 1)"
      using date_of_era_day [OF True, of n] by (simp add: z era_day_def)
    ultimately show ?thesis using leap here march_date_next [of t ?y] by auto
  next
    case False
    then have t: "t = (if long_year c a b then 365 else 364)" using ok by (auto simp: era_ok_def)
    then have "next_day (march_date ?y t) = march_date (?y + 1) 0"
      using leap march_date_next [of 364 ?y] march_date_leap [of ?y] by auto
    moreover have "date_of_day (z + 1) = march_date (?y + 1) 0"
    proof -
      consider (year) "b < 3" | (cycle) "b = 3" "a < 24" | (century) "b = 3" "a = 24" "c < 3"
        | (era) "b = 3" "a = 24" "c = 3"
        using ok unfolding era_ok_def by linarith
      then show ?thesis
      proof cases
        case year
        then show ?thesis using t ok date_of_era_day [of c a "b + 1" 0 n]
          by (simp add: z era_ok_def era_day_def long_year_def ac_simps)
      next
        case cycle
        then show ?thesis using t ok date_of_era_day [of c "a + 1" 0 0 n]
          by (simp add: z era_ok_def era_day_def long_year_def ac_simps)
      next
        case century
        then show ?thesis using t ok date_of_era_day [of "c + 1" 0 0 0 n]
          by (simp add: z era_ok_def era_day_def long_year_def ac_simps)
      next
        case era
        then show ?thesis using t ok date_of_era_day [of 0 0 0 0 "n + 1"]
          by (simp add: z era_ok_def era_day_def long_year_def ac_simps)
      qed
    qed
    ultimately show ?thesis by (simp add: here)
  qed
qed

lemma date_of_day_civil: "date_of_day (n + 719468) = civil_date n"
proof (induction n)
  case 0
  have "date_of_day 719468 = march_date 1969 306"
    using date_of_era_day [of 3 17 1 306 4] by (simp add: era_ok_def era_day_def)
  then show ?case by (simp add: march_date_def civil_date_def)
next
  case (Suc n)
  then show ?case using date_of_next_day [of "n + 719468"] by (simp add: civil_date_def)
qed

section \<open>The machine words of the code\<close>

lemma of_nat_div_numeral:
  assumes "a < 2 ^ LENGTH('a::len)" "numeral k < (2 :: nat) ^ LENGTH('a)"
  shows "(of_nat a :: 'a word) div numeral k = of_nat (a div numeral k)"
  using assms by (simp add: word_arith_nat_div take_bit_nat_eq_self unsigned_of_nat unsigned_numeral)

lemma of_nat_less_numeral:
  assumes "a < 2 ^ LENGTH('a::len)" "numeral k < (2 :: nat) ^ LENGTH('a)"
  shows "(of_nat a :: 'a word) < numeral k \<longleftrightarrow> a < numeral k"
  using assms by (simp add: word_less_nat_alt take_bit_nat_eq_self unsigned_of_nat unsigned_numeral)

lemma of_nat_le_numeral:
  assumes "a < 2 ^ LENGTH('a::len)" "numeral k < (2 :: nat) ^ LENGTH('a)"
  shows "(of_nat a :: 'a word) \<le> numeral k \<longleftrightarrow> a \<le> numeral k"
  using assms by (simp add: word_le_nat_alt take_bit_nat_eq_self unsigned_of_nat unsigned_numeral)

lemma ucast_of_nat_word:
  assumes "a < 2 ^ LENGTH('a::len)"
  shows "(ucast (of_nat a :: 'a word) :: 'b::len word) = of_nat a"
  using assms by (simp add: take_bit_nat_eq_self unsigned_of_nat)

text \<open>The year and the day of the year of a day of an era.\<close>

lemma year_of_era_bounds:
  assumes "doe < 146097"
  shows "year_of_era doe < 400" "365 * year_of_era doe + year_of_era doe div 4 - year_of_era doe div 100 \<le> doe"
    "doe - (365 * year_of_era doe + year_of_era doe div 4 - year_of_era doe div 100) \<le> 365"
proof -
  from assms obtain c a b t where day: "doe = era_day c a b t" and ok: "era_ok c a b t" by (rule era_day_exists)
  let ?y = "100 * c + 4 * a + b"
  have y: "year_of_era doe = ?y" unfolding day by (rule year_of_era_day [OF ok])
  have bounds: "c < 4" "a < 25" "b < 4" "t \<le> 365" using ok by (auto simp: era_ok_def)
  show "year_of_era doe < 400" using bounds by (simp add: y)
  have "365 * ?y + ?y div 4 - ?y div 100 = 36524 * c + 1461 * a + 365 * b" using ok by (rule era_year_start)
  note start = this [folded y]
  show "365 * year_of_era doe + year_of_era doe div 4 - year_of_era doe div 100 \<le> doe"
    "doe - (365 * year_of_era doe + year_of_era doe div 4 - year_of_era doe div 100) \<le> 365"
    unfolding start using bounds(4) by (simp_all add: day era_day_def)
qed

lemma word_year_of_era:
  assumes "doe < 146097"
  shows "((of_nat doe :: u64) - of_nat doe div 1460 + of_nat doe div 36524 - of_nat doe div 146096) div 365
    = of_nat (year_of_era doe)"
proof -
  have q: "(of_nat doe :: u64) div 1460 = of_nat (doe div 1460)" "(of_nat doe :: u64) div 36524 = of_nat (doe div 36524)"
    "(of_nat doe :: u64) div 146096 = of_nat (doe div 146096)"
    using assms by (simp_all add: of_nat_div_numeral)
  have "doe div 146096 \<le> doe - doe div 1460 + doe div 36524" using assms by (cases "doe < 146096") auto
  then have "(of_nat doe :: u64) - of_nat (doe div 1460) + of_nat (doe div 36524) - of_nat (doe div 146096)
    = of_nat (doe - doe div 1460 + doe div 36524 - doe div 146096)" by (simp add: of_nat_diff)
  moreover have "doe - doe div 1460 + doe div 36524 - doe div 146096 < 2 ^ LENGTH(64)" using assms by simp
  ultimately show ?thesis
    unfolding q year_of_era_def by (elim ssubst) (rule of_nat_div_numeral, simp_all)
qed

lemma word_march_date:
  fixes y doy :: nat
  assumes "doy \<le> 365" "y < 2 ^ 63"
  defines "mp \<equiv> (5 * of_nat doy + 2) div 153 :: u64"
  defines "m \<equiv> if mp < 10 then mp + 3 else mp - 9"
  shows "ucast (if m \<le> 2 then of_nat y + 1 else of_nat y :: u64) * 10000 + ucast m * 100
      + ucast (of_nat doy - (153 * mp + 2) div 5 + 1)
    = (of_nat (date_code (march_date y doy)) :: u32)"
proof -
  define k where "k = (5 * doy + 2) div 153"
  have k: "k < 12" "153 * k \<le> 5 * doy + 2" using assms(1) by (auto simp: k_def)
  have "mp = of_nat (5 * doy + 2) div 153" by (simp add: mp_def add.commute)
  also have "\<dots> = of_nat k" unfolding k_def using assms(1) by (intro of_nat_div_numeral) simp_all
  finally have mp: "mp = of_nat k" .
  have "(153 * mp + 2) div 5 = of_nat (153 * k + 2) div 5" by (simp add: mp add.commute)
  also have "(of_nat (153 * k + 2) :: u64) div 5 = of_nat ((153 * k + 2) div 5)"
    using k by (intro of_nat_div_numeral) simp_all
  finally have "(153 * mp + 2) div 5 = of_nat ((153 * k + 2) div 5)" .
  moreover have le: "(153 * k + 2) div 5 \<le> doy" using k(2) by linarith
  ultimately have d: "of_nat doy - (153 * mp + 2) div 5 + 1 = (of_nat (doy - (153 * k + 2) div 5 + 1) :: u64)"
    by (simp add: of_nat_diff)
  have m: "m = of_nat (if k < 10 then k + 3 else k - 9)"
  proof -
    have "mp < 10 \<longleftrightarrow> k < 10" unfolding mp using k(1) by (intro of_nat_less_numeral) simp_all
    then show ?thesis by (auto simp: m_def mp of_nat_diff)
  qed
  have "m \<le> 2 \<longleftrightarrow> \<not> k < 10"
    unfolding m using k(1) of_nat_le_numeral [of "if k < 10 then k + 3 else k - 9", where 'a = 64] by auto
  then have y: "(if m \<le> 2 then of_nat y + 1 else of_nat y) = (of_nat (if k < 10 then y else y + 1) :: u64)"
    by simp
  have "date_code (march_date y doy)
    = (if k < 10 then y else y + 1) * 10000 + (if k < 10 then k + 3 else k - 9) * 100 + (doy - (153 * k + 2) div 5 + 1)"
    unfolding march_date_def Let_def k_def [symmetric] using k(1) by auto
  moreover have "(ucast (of_nat (if k < 10 then y else y + 1) :: u64) :: u32) = of_nat (if k < 10 then y else y + 1)"
    using assms(2) by (intro ucast_of_nat_word) simp
  moreover have "(ucast m :: u32) = of_nat (if k < 10 then k + 3 else k - 9)"
    unfolding m using k(1) by (intro ucast_of_nat_word) auto
  moreover have "(ucast (of_nat (doy - (153 * k + 2) div 5 + 1) :: u64) :: u32) = of_nat (doy - (153 * k + 2) div 5 + 1)"
    using assms(1) by (intro ucast_of_nat_word) simp
  ultimately show ?thesis unfolding d y by (simp only: of_nat_add of_nat_mult) simp
qed

lemma timestamp_to_date_civil:
  "timestamp_to_date ts = of_nat (date_code (civil_date (unat ts div 86400)))"
proof -
  define n where "n = unat ts div 86400"
  have "unat ts < 2 ^ 64" using unsigned_less [of ts, where 'a = nat] by simp
  then have n: "n < 2 ^ 48" unfolding n_def by simp
  have ts: "ts div 86400 = of_nat n" unfolding n_def by (simp add: word_arith_nat_div unsigned_numeral)
  define z where "z = n + 719468"
  define era where "era = z div 146097"
  define doe where "doe = z - era * 146097"
  have z: "ts div 86400 + 719468 = of_nat z" by (simp add: ts z_def)
  have era: "(of_nat z :: u64) div 146097 = of_nat era"
    unfolding era_def using n by (intro of_nat_div_numeral) (simp_all add: z_def)
  have "doe = z mod 146097" by (simp add: doe_def era_def minus_div_mult_eq_mod)
  then have doe: "doe < 146097" by simp
  have doe_w: "(of_nat z :: u64) - of_nat era * 146097 = of_nat doe"
    unfolding doe_def era_def by (simp add: of_nat_diff)
  define yoe where "yoe = year_of_era doe"
  define doy where "doy = doe - (365 * yoe + yoe div 4 - yoe div 100)"
  note b = year_of_era_bounds [OF doe, folded yoe_def, folded doy_def]
  have "(of_nat yoe :: u64) div 4 = of_nat (yoe div 4)" "(of_nat yoe :: u64) div 100 = of_nat (yoe div 100)"
    using b(1) by (auto intro!: of_nat_div_numeral)
  then have doy_w: "(of_nat doe :: u64) - (365 * of_nat yoe + of_nat yoe div 4 - of_nat yoe div 100) = of_nat doy"
    unfolding doy_def using b(2) by (simp add: of_nat_diff)
  have y: "of_nat yoe + of_nat era * 400 = (of_nat (yoe + era * 400) :: u64)" by simp
  have "yoe + era * 400 < 2 ^ 63" using b(1) n by (simp add: era_def z_def)
  note march = word_march_date [OF b(3) this]
  have "date_of_day z = march_date (yoe + era * 400) doy"
    by (simp add: date_of_day_def Let_def era_def doe_def yoe_def doy_def)
  then show ?thesis
    unfolding timestamp_to_date_def Let_def z era doe_w word_year_of_era [OF doe] yoe_def [symmetric] doy_w y march
    using date_of_day_civil [of n] by (simp add: z_def n_def)
qed

end
