(* ===== verification/Cli_Properties.thy ===== *)
theory Cli_Properties
  imports Cli_Safety Civil_Date Samples
begin

text \<open>
  The properties of the command line tool and of the calendar dates under which the daily figures
  are kept.
\<close>

section \<open>The tool\<close>

text \<open>
  C34. On a database whose series can be read, no command panics when its address and id arguments
  are ASCII: the process ends with status 0 and nothing on the error stream, or with status 1, no
  output and one line of error. No command changes anything but the cached leaderboards and the
  snapshot directory.
\<close>

theorem cli_total_and_read_only:
  assumes "db_readable db" "list_all is_ascii (hex_args (cli_command args))"
  shows "\<exists>ex r db'. cli_main lib ser io (Some (Inr db)) args = Some ex \<and>
    run_command lib ser io (cli_data_dir args) db (cli_json args) (cli_command args) = (r, db') \<and>
    (ex_code ex = 0 \<and> ex_stderr ex = [] \<or> ex_code ex = 1 \<and> ex_stdout ex = [] \<and> length (ex_stderr ex) = 1) \<and>
    db' = db\<lparr>db_leaderboard := db_leaderboard db', db_snapshots := db_snapshots db'\<rparr>"
proof -
  obtain r db' where run: "run_command lib ser io (cli_data_dir args) db (cli_json args) (cli_command args) = (r, db')"
    by fastforce
  then have frame: "db' = db\<lparr>db_leaderboard := db_leaderboard db', db_snapshots := db_snapshots db'\<rparr>"
    using run_command_frame [of lib ser io "cli_data_dir args" db "cli_json args" "cli_command args"] by simp
  have "r \<noteq> None" using run_command_total [OF assms, of lib ser io "cli_data_dir args" "cli_json args"] run by simp
  then obtain out where "r = Some out" by blast
  then show ?thesis using run frame by (cases out) (auto simp: cli_main_def)
qed

definition sample_lib :: cli_lib where
  "sample_lib = \<lparr>lib_to_string_pretty = (\<lambda>_. []), lib_io_error = (\<lambda>c. c), lib_upper = (\<lambda>s. s), lib_lower = (\<lambda>s. s),
     lib_debug = (\<lambda>s. s)\<rparr>"

definition sample_cli_orders :: cli_orders where
  "sample_cli_orders = \<lparr>co_positions = [], co_orders = [], co_tokens = [], co_users = [], co_traders = [], co_daily = [],
     co_snapshot = sample_io\<rparr>"

theorem cli_total_and_read_only_witness:
  "\<exists>db0 ex. perf_db_open sample_sde sample_de sample_crc [] [] [segment_path 0] perf_db_config_new empty_data_dir =
      Some (Inr db0) \<and>
    cli_main sample_lib (\<lambda>_. None) sample_cli_orders (Some (Inr db0))
      \<lparr>cli_data_dir = ''./data'', cli_json = False, cli_command = CmdUser ''0xff''\<rparr> = Some ex \<and>
    ex_stderr ex = [''error: user not found''] \<and> ex_code ex = 1"
proof -
  let ?args = "\<lparr>cli_data_dir = ''./data'', cli_json = False, cli_command = CmdUser ''0xff''\<rparr>"
  obtain db0 where db0: "perf_db_open sample_sde sample_de sample_crc [] [] [segment_path 0] perf_db_config_new
      empty_data_dir = Some (Inr db0)"
    using open_new by blast
  note new = open_new_series [OF db0]
  have "db_readable db0" using new(1) by (auto simp: db_readable_def series_ok_def)
  moreover have "list_all is_ascii (hex_args (cli_command ?args))" by (simp add: is_ascii_def)
  ultimately obtain ex where ex: "cli_main sample_lib (\<lambda>_. None) sample_cli_orders (Some (Inr db0)) ?args = Some ex"
    using cli_total_and_read_only by blast
  obtain a where "parse_address ''0xff'' = Some a" using ascii_parse [of "''0xff''"] by (auto simp: is_ascii_def)
  then have "ex_stderr ex = [''error: user not found''] \<and> ex_code ex = 1"
    using ex by (auto simp: cli_main_def cmd_user_def new(3) stores_new_def users_get_def users_new_def)
  with db0 ex show ?thesis by blast
qed

text \<open>
  C36. What the tool prints or lists is accepted back as an argument: the text of an address and of an
  id parses to it, a market is found by its number and by its symbol in any capitalisation, a
  timeframe by its name, and a timeframe's numeric code belongs to it alone.
\<close>

theorem text_forms_read_back:
  assumes "length a = 20" "length h = 32" "m \<in> set MARKETS" "is_ascii s" "map ascii_upper s = mm_symbol m"
  shows "parse_address (hex_addr a) = Some a \<and> parse_hash (hex_hash h) = Some h \<and>
    resolve_market lib (show_w (mm_id m)) = Inr (mm_id m) \<and> resolve_market lib s = Inr (mm_id m) \<and>
    resolve_timeframe (timeframe_as_str tf) = Inr tf \<and> (timeframe_from_u8 v = Some tf \<longleftrightarrow> v = timeframe_u8 tf)"
proof -
  have "timeframe_from_u8 v = Some tf \<Longrightarrow> v = timeframe_u8 tf"
    by (auto simp: timeframe_from_u8_def split: if_splits)
  then show ?thesis
    using assms resolve_market_id [OF assms(3), of lib] resolve_market_symbol [OF assms(3-5), of lib]
      parse_bytes_to_hex [of a 20] parse_bytes_to_hex [of h 32] timeframe_from_u8_u8 [of tf] resolve_timeframe_as_str [of tf]
    by (auto simp: parse_address_def parse_hash_def hex_addr_def hex_hash_def)
qed

theorem text_forms_read_back_witness:
  "parse_address (hex_addr (replicate 20 171)) = Some (replicate 20 171) \<and> resolve_market sample_lib ''eTh'' = Inr 1"
proof -
  let ?m = "\<lparr>mm_id = 1, mm_symbol = ''ETH'', mm_name = ''Ethereum''\<rparr>"
  have "?m \<in> set MARKETS" by (simp add: MARKETS_def)
  moreover have "is_ascii ''eTh''" "map ascii_upper ''eTh'' = mm_symbol ?m" by (simp_all add: is_ascii_def, code_simp)
  ultimately show ?thesis
    using text_forms_read_back [of "replicate 20 171" sample_id ?m "''eTh''" sample_lib] by (simp add: sample_id_def)
qed

text \<open>
  C38. The decimal printed for a fixed-point number reads as exactly that number, to all 18 digits,
  except that a negative number between minus one and zero is printed without its sign.
\<close>

theorem format_fixed_read_back:
  "read_fixed (format_fixed v) =
     Some (if - (10 ^ 18) < i128_val v \<and> i128_val v < 0 then - i128_val v else i128_val v)"
  using format_fixed_reads [of v] by simp

section \<open>Dates\<close>

text \<open>
  C40. The date code of a timestamp is year, month and day of the Gregorian calendar: the date reached
  by counting its days from 1970-01-01 with the lengths of the months and the leap rule, as the
  number \<open>yyyymmdd\<close> (modulo \<open>2 ^ 32\<close>, which the years up to 429496 do not reach).
\<close>

theorem timestamp_to_date_calendar:
  "unat (timestamp_to_date ts) = date_code (civil_date (unat ts div 86400)) mod 2 ^ 32"
  by (simp add: timestamp_to_date_civil unat_of_nat)

end
