(* ===== verification/Interleaving.thy ===== *)
theory Interleaving
  imports Prelude
begin

text \<open>
  Threads that share a state and locks. A program is a tree of atomic actions on the shared state
  and of acquisitions and releases of locks, what a thread does next depending on what its actions read. The
  machine runs a list of threads, each with a queue of calls, one step of one thread at a time. Proved
  here: locks taken in the order of a rank never block every thread, and every run ends.
\<close>

section \<open>Programs\<close>

datatype lock_mode = SharedMode | ExclusiveMode

datatype ('l, 's, 'a) prog =
    Ret 'a
  | Act "'s \<Rightarrow> ('l, 's, 'a) prog \<times> 's"
  | Acquire 'l lock_mode "('l, 's, 'a) prog"
  | Release 'l "('l, 's, 'a) prog"

text \<open>Induction, with the hypothesis for what follows each outcome of an action.\<close>

lemma prog_induct [case_names Ret Act Acquire Release]:
  assumes "\<And>a. P (Ret a)" and act: "\<And>f. (\<And>s. P (fst (f s))) \<Longrightarrow> P (Act f)"
    and "\<And>l m p. P p \<Longrightarrow> P (Acquire l m p)" and "\<And>l p. P p \<Longrightarrow> P (Release l p)"
  shows "P p"
proof (induction p)
  case (Act f)
  have "P (fst (f s))" for s by (rule Act [of "f s"]) (auto intro: fsts.intros)
  then show ?case by (rule act)
qed (use assms in auto)

primrec pbind :: "('l, 's, 'a) prog \<Rightarrow> ('a \<Rightarrow> ('l, 's, 'b) prog) \<Rightarrow> ('l, 's, 'b) prog" where
  "pbind (Ret a) k = k a"
| "pbind (Act f) k = Act (\<lambda>s. map_prod (\<lambda>p. pbind p k) id (f s))"
| "pbind (Acquire l m p) k = Acquire l m (pbind p k)"
| "pbind (Release l p) k = Release l (pbind p k)"

abbreviation pseq :: "('l, 's, 'a) prog \<Rightarrow> ('l, 's, 'b) prog \<Rightarrow> ('l, 's, 'b) prog" where
  "pseq p q \<equiv> pbind p (\<lambda>_. q)"

text \<open>One atomic action, and a program under a lock that its end releases.\<close>

definition act :: "('s \<Rightarrow> 'a \<times> 's) \<Rightarrow> ('l, 's, 'a) prog" where
  "act f = Act (\<lambda>s. map_prod Ret id (f s))"

definition guarded :: "'l \<Rightarrow> lock_mode \<Rightarrow> ('l, 's, 'a) prog \<Rightarrow> ('l, 's, 'a) prog" where
  "guarded l m p = Acquire l m (pbind p (\<lambda>a. Release l (Ret a)))"

definition reads :: "('s \<Rightarrow> 'a) \<Rightarrow> ('l, 's, 'a) prog" where
  "reads g = act (\<lambda>s. (g s, s))"

definition writes :: "('s \<Rightarrow> 's) \<Rightarrow> ('l, 's, unit) prog" where
  "writes f = act (\<lambda>s. ((), f s))"

definition locked_read :: "'l \<Rightarrow> ('s \<Rightarrow> 'a) \<Rightarrow> ('l, 's, 'a) prog" where
  "locked_read l g = guarded l SharedMode (reads g)"

definition locked_write :: "'l \<Rightarrow> ('s \<Rightarrow> 's) \<Rightarrow> ('l, 's, unit) prog" where
  "locked_write l f = guarded l ExclusiveMode (writes f)"

text \<open>The program run without interruption.\<close>

primrec run :: "('l, 's, 'a) prog \<Rightarrow> 's \<Rightarrow> 'a \<times> 's" where
  "run (Ret a) = (\<lambda>s. (a, s))"
| "run (Act f) = (\<lambda>s. let (h, s') = map_prod run id (f s) in h s')"
| "run (Acquire l m p) = run p"
| "run (Release l p) = run p"

lemma run_Act [simp]: "run (Act f) s = run (fst (f s)) (snd (f s))"
  by (simp add: split_beta)

declare run.simps(2) [simp del]

lemma run_pbind [simp]: "run (pbind p k) s = run (k (fst (run p s))) (snd (run p s))"
  by (induction p arbitrary: s rule: prog_induct) auto

lemma pbind_assoc: "pbind (pbind p k) h = pbind p (\<lambda>a. pbind (k a) h)"
  by (induction p rule: prog_induct) (auto simp: map_prod_def split_beta)

lemma run_act [simp]: "run (act f) s = f s"
  by (simp add: act_def)

lemma run_guarded [simp]: "run (guarded l m p) s = run p s"
  by (simp add: guarded_def)

lemma run_reads [simp]: "run (reads g) s = (g s, s)"
  by (simp add: reads_def)

lemma run_writes [simp]: "run (writes f) s = ((), f s)"
  by (simp add: writes_def)

lemma run_locked [simp]: "run (locked_read l g) s = (g s, s)" "run (locked_write l f) s = ((), f s)"
  by (simp_all add: locked_read_def locked_write_def)

text \<open>A program on a part of the state.\<close>

primrec zoom :: "('s \<Rightarrow> 'c) \<Rightarrow> (('c \<Rightarrow> 'c) \<Rightarrow> 's \<Rightarrow> 's) \<Rightarrow> ('l, 'c, 'a) prog \<Rightarrow> ('l, 's, 'a) prog" where
  "zoom get upd (Ret a) = Ret a"
| "zoom get upd (Act f) = Act (\<lambda>s. (\<lambda>(p, c). (p, upd (\<lambda>_. c) s)) (map_prod (zoom get upd) id (f (get s))))"
| "zoom get upd (Acquire l m p) = Acquire l m (zoom get upd p)"
| "zoom get upd (Release l p) = Release l (zoom get upd p)"

definition lens :: "('s \<Rightarrow> 'c) \<Rightarrow> (('c \<Rightarrow> 'c) \<Rightarrow> 's \<Rightarrow> 's) \<Rightarrow> bool" where
  "lens get upd \<longleftrightarrow> (\<forall>c s. get (upd (\<lambda>_. c) s) = c) \<and> (\<forall>s. upd (\<lambda>_. get s) s = s) \<and>
     (\<forall>c d s. upd (\<lambda>_. c) (upd (\<lambda>_. d) s) = upd (\<lambda>_. c) s)"

lemma run_zoom:
  assumes "lens get upd"
  shows "run (zoom get upd p) s = (fst (run p (get s)), upd (\<lambda>_. snd (run p (get s))) s)"
  using assms
proof (induction p arbitrary: s rule: prog_induct)
  case (Act f)
  then show ?case by (auto simp: lens_def split_beta)
qed (auto simp: lens_def)

section \<open>The order of the locks\<close>

text \<open>
  \<open>ordered r p h h'\<close>: a thread that holds the locks \<open>h\<close> runs \<open>p\<close>, whatever it reads, and ends with \<open>h'\<close>; it
  takes a lock only while those it holds have smaller rank, and it releases only locks that it holds.
\<close>

primrec ordered :: "('l \<Rightarrow> nat) \<Rightarrow> ('l, 's, 'a) prog \<Rightarrow> ('l \<times> lock_mode) list \<Rightarrow> ('l \<times> lock_mode) list \<Rightarrow> bool" where
  "ordered r (Ret a) = (\<lambda>h h'. h = h')"
| "ordered r (Act f) = (\<lambda>h h'. \<forall>s. fst (map_prod (ordered r) id (f s)) h h')"
| "ordered r (Acquire l m p) = (\<lambda>h h'. (\<forall>x \<in> set h. r (fst x) < r l) \<and> ordered r p ((l, m) # h) h')"
| "ordered r (Release l p) = (\<lambda>h h'. l \<in> fst ` set h \<and> ordered r p (filter (\<lambda>x. fst x \<noteq> l) h) h')"

lemma ordered_Act [simp]: "ordered r (Act f) h h' \<longleftrightarrow> (\<forall>s. ordered r (fst (f s)) h h')"
  by simp

declare ordered.simps(2) [simp del]

lemma ordered_pbind [intro]:
  "ordered r p h h1 \<Longrightarrow> (\<And>a. ordered r (k a) h1 h2) \<Longrightarrow> ordered r (pbind p k) h h2"
  by (induction p arbitrary: h rule: prog_induct) auto

lemma ordered_act [simp, intro]: "ordered r (act f) h h"
  by (simp add: act_def)

lemma ordered_reads [simp, intro]: "ordered r (reads g) h h"
  by (simp add: reads_def)

lemma ordered_writes [simp, intro]: "ordered r (writes f) h h"
  by (simp add: writes_def)

lemma ordered_guarded [intro]:
  assumes "\<forall>x \<in> set h. r (fst x) < r l" "ordered r p ((l, m) # h) ((l, m) # h)"
  shows "ordered r (guarded l m p) h h"
proof -
  have "filter (\<lambda>x. fst x \<noteq> l) h = h" using assms(1) by (auto simp: filter_id_conv)
  then have "ordered r (Release l (Ret a)) ((l, m) # h) h" for a by simp
  then show ?thesis using assms unfolding guarded_def by auto
qed

lemma ordered_locked [simp, intro]:
  "\<forall>x \<in> set h. r (fst x) < r l \<Longrightarrow> ordered r (locked_read l g) h h"
  "\<forall>x \<in> set h. r (fst x) < r l \<Longrightarrow> ordered r (locked_write l f) h h"
  by (auto simp: locked_read_def locked_write_def)

lemma ordered_zoom [simp]: "ordered r (zoom get upd p) h h'" if "ordered r p h h'"
  using that by (induction p arbitrary: h rule: prog_induct) (auto simp: split_beta)

section \<open>The machine\<close>

text \<open>
  A thread: the rest of its current call, the locks it holds and the calls to come. A call ends with
  \<open>None\<close> when it panics, and the thread with it.
\<close>

record ('l, 's, 'c) thread =
  th_prog :: "('l, 's, unit option) prog"
  th_held :: "('l \<times> lock_mode) list"
  th_queue :: "'c list"

definition thread_of :: "'c list \<Rightarrow> ('l, 's, 'c) thread" where
  "thread_of cs = \<lparr>th_prog = Ret (Some ()), th_held = [], th_queue = cs\<rparr>"

definition lock_free :: "('l, 's, 'c) thread list \<Rightarrow> 'l \<Rightarrow> lock_mode \<Rightarrow> bool" where
  "lock_free ts l m \<longleftrightarrow>
     (\<forall>t \<in> set ts. \<forall>x \<in> set (th_held t). fst x = l \<longrightarrow> m = SharedMode \<and> snd x = SharedMode)"

inductive mstep ::
  "('c \<Rightarrow> ('l, 's, unit option) prog) \<Rightarrow> ('l, 's, 'c) thread list \<times> 's \<Rightarrow> ('l, 's, 'c) thread list \<times> 's \<Rightarrow> bool"
  for code where
  m_call: "i < length ts \<Longrightarrow> ts ! i = \<lparr>th_prog = Ret (Some ()), th_held = h, th_queue = c # q\<rparr> \<Longrightarrow>
     mstep code (ts, s) (ts[i := \<lparr>th_prog = code c, th_held = h, th_queue = q\<rparr>], s)"
| m_act: "i < length ts \<Longrightarrow> ts ! i = \<lparr>th_prog = Act f, th_held = h, th_queue = q\<rparr> \<Longrightarrow>
     mstep code (ts, s) (ts[i := \<lparr>th_prog = fst (f s), th_held = h, th_queue = q\<rparr>], snd (f s))"
| m_acquire: "i < length ts \<Longrightarrow> ts ! i = \<lparr>th_prog = Acquire l m p, th_held = h, th_queue = q\<rparr> \<Longrightarrow> lock_free ts l m \<Longrightarrow>
     mstep code (ts, s) (ts[i := \<lparr>th_prog = p, th_held = (l, m) # h, th_queue = q\<rparr>], s)"
| m_release: "i < length ts \<Longrightarrow> ts ! i = \<lparr>th_prog = Release l p, th_held = h, th_queue = q\<rparr> \<Longrightarrow>
     mstep code (ts, s) (ts[i := \<lparr>th_prog = p, th_held = filter (\<lambda>x. fst x \<noteq> l) h, th_queue = q\<rparr>], s)"

abbreviation mreach ::
  "('c \<Rightarrow> ('l, 's, unit option) prog) \<Rightarrow> ('l, 's, 'c) thread list \<times> 's \<Rightarrow> ('l, 's, 'c) thread list \<times> 's \<Rightarrow> bool" where
  "mreach code \<equiv> (mstep code)\<^sup>*\<^sup>*"

definition thread_done :: "('l, 's, 'c) thread \<Rightarrow> bool" where
  "thread_done t \<longleftrightarrow> (case th_prog t of Ret None \<Rightarrow> True | Ret (Some _) \<Rightarrow> th_queue t = [] | _ \<Rightarrow> False)"

definition all_done :: "('l, 's, 'c) thread list \<Rightarrow> bool" where
  "all_done ts \<longleftrightarrow> (\<forall>t \<in> set ts. thread_done t)"

text \<open>The machine as a function of the thread that moves, for concrete runs.\<close>

definition move :: "('c \<Rightarrow> ('l, 's, unit option) prog) \<Rightarrow> nat \<Rightarrow> ('l, 's, 'c) thread list \<times> 's \<Rightarrow>
    (('l, 's, 'c) thread list \<times> 's) option" where
  "move code i = (\<lambda>(ts, s).
     if i < length ts then
       (let t = ts ! i; h = th_held t; q = th_queue t in
        case th_prog t of
          Ret None \<Rightarrow> None
        | Ret (Some _) \<Rightarrow> (case q of [] \<Rightarrow> None | c # q' \<Rightarrow> Some (ts[i := \<lparr>th_prog = code c, th_held = h, th_queue = q'\<rparr>], s))
        | Act f \<Rightarrow> (let (p, s') = f s in Some (ts[i := \<lparr>th_prog = p, th_held = h, th_queue = q\<rparr>], s'))
        | Acquire l m p \<Rightarrow>
            if lock_free ts l m then Some (ts[i := \<lparr>th_prog = p, th_held = (l, m) # h, th_queue = q\<rparr>], s) else None
        | Release l p \<Rightarrow> Some (ts[i := \<lparr>th_prog = p, th_held = filter (\<lambda>x. fst x \<noteq> l) h, th_queue = q\<rparr>], s))
     else None)"

fun moves :: "('c \<Rightarrow> ('l, 's, unit option) prog) \<Rightarrow> nat list \<Rightarrow> ('l, 's, 'c) thread list \<times> 's \<Rightarrow>
    (('l, 's, 'c) thread list \<times> 's) option" where
  "moves code [] c = Some c"
| "moves code (i # is) c = (case move code i c of None \<Rightarrow> None | Some c' \<Rightarrow> moves code is c')"

lemma mstep_move: "mstep code c c' \<longleftrightarrow> (\<exists>i. move code i c = Some c')"
proof
  assume "mstep code c c'"
  then show "\<exists>i. move code i c = Some c'"
  proof cases
    case (m_call i ts h d q s)
    then have "move code i c = Some c'" by (simp add: move_def)
    then show ?thesis ..
  next
    case (m_act i ts f h q s)
    then have "move code i c = Some c'" by (simp add: move_def split_beta)
    then show ?thesis ..
  next
    case (m_acquire i ts l m p h q s)
    then have "move code i c = Some c'" by (simp add: move_def)
    then show ?thesis ..
  next
    case (m_release i ts l p h q s)
    then have "move code i c = Some c'" by (simp add: move_def)
    then show ?thesis ..
  qed
next
  assume "\<exists>i. move code i c = Some c'"
  then obtain i ts s where c: "c = (ts, s)" and m: "move code i (ts, s) = Some c'" by (cases c) auto
  then have i: "i < length ts" by (auto simp: move_def split: if_splits)
  obtain p h q where t: "ts ! i = \<lparr>th_prog = p, th_held = h, th_queue = q\<rparr>" by (cases "ts ! i")
  show "mstep code c c'"
  proof (cases p)
    case (Ret r)
    then obtain d q' where "r = Some ()" "q = d # q'" using m t i by (auto simp: move_def split: option.splits list.splits)
    with Ret show ?thesis using m t i m_call [of i ts h d q' code s] by (auto simp: move_def c)
  next
    case (Act f)
    then show ?thesis using m t i m_act [of i ts f h q code s] by (auto simp: move_def c split_beta)
  next
    case (Acquire l m' p')
    then show ?thesis using m t i m_acquire [of i ts l m' p' h q code s] by (auto simp: move_def c split: if_splits)
  next
    case (Release l p')
    then show ?thesis using m t i m_release [of i ts l p' h q code s] by (auto simp: move_def c)
  qed
qed

lemma moves_mreach: "moves code is c = Some c' \<Longrightarrow> mreach code c c'"
proof (induction "is" arbitrary: c)
  case (Cons i "is")
  then obtain d where "move code i c = Some d" "mreach code d c'" by (auto split: option.splits)
  then show ?case by (meson mstep_move converse_rtranclp_into_rtranclp)
qed simp

section \<open>No deadlock\<close>

definition thread_ordered :: "('l \<Rightarrow> nat) \<Rightarrow> ('l, 's, 'c) thread \<Rightarrow> bool" where
  "thread_ordered r t \<longleftrightarrow> ordered r (th_prog t) (th_held t) []"

lemma thread_ordered_of [simp]: "thread_ordered r (thread_of cs)"
  by (simp add: thread_ordered_def thread_of_def)

lemma set_update_all: "\<forall>x \<in> set xs. P x \<Longrightarrow> P y \<Longrightarrow> \<forall>x \<in> set (xs[i := y]). P x"
  using set_update_subset_insert [of xs i y] by auto

lemma ordered_step:
  assumes "mstep code (ts, s) (ts', s')" "\<forall>t \<in> set ts. thread_ordered r t" "\<And>c. ordered r (code c) [] []"
  shows "\<forall>t \<in> set ts'. thread_ordered r t"
proof -
  have at: "thread_ordered r t" if "i < length ts" "ts ! i = t" for i t
    using that assms(2) by auto
  show ?thesis
    using assms(1)
  proof cases
    case (m_call i h c q)
    have "h = []" using at [OF m_call(3,4)] by (simp add: thread_ordered_def)
    then show ?thesis unfolding m_call(1)
      by (intro set_update_all [OF assms(2)]) (simp add: thread_ordered_def assms(3))
  next
    case (m_act i f h q)
    show ?thesis unfolding m_act(1)
      by (intro set_update_all [OF assms(2)]) (use at [OF m_act(3,4)] in \<open>simp add: thread_ordered_def\<close>)
  next
    case (m_acquire i l m p h q)
    show ?thesis unfolding m_acquire(1)
      by (intro set_update_all [OF assms(2)]) (use at [OF m_acquire(3,4)] in \<open>simp add: thread_ordered_def\<close>)
  next
    case (m_release i l p h q)
    show ?thesis unfolding m_release(1)
      by (intro set_update_all [OF assms(2)]) (use at [OF m_release(3,4)] in \<open>simp add: thread_ordered_def\<close>)
  qed
qed

text \<open>The lock a thread waits for, if it is about to take one.\<close>

definition waits_for :: "('l, 's, 'c) thread \<Rightarrow> 'l option" where
  "waits_for t = (case th_prog t of Acquire l _ _ \<Rightarrow> Some l | _ \<Rightarrow> None)"

lemma can_step_unless_waiting:
  assumes "t \<in> set ts" "\<not> thread_done t" "waits_for t = None"
  shows "\<exists>c'. mstep code (ts, s) c'"
proof -
  obtain i where i: "i < length ts" "ts ! i = t" using assms(1) by (meson in_set_conv_nth)
  have "move code i (ts, s) \<noteq> None"
    using i assms(2,3) by (auto simp: move_def Let_def waits_for_def thread_done_def split_beta split: prog.splits option.splits list.splits)
  then show ?thesis using mstep_move by blast
qed

lemma blocked_by:
  assumes "t \<in> set ts" "waits_for t = Some l" "\<nexists>c'. mstep code (ts, s) c'"
  obtains t' where "t' \<in> set ts" "l \<in> fst ` set (th_held t')"
proof -
  obtain i where i: "i < length ts" "ts ! i = t" using assms(1) by (meson in_set_conv_nth)
  obtain m p where p: "th_prog t = Acquire l m p" using assms(2) by (auto simp: waits_for_def split: prog.splits)
  have "\<not> lock_free ts l m"
  proof
    assume "lock_free ts l m"
    then have "move code i (ts, s) \<noteq> None" using i p by (simp add: move_def)
    then show False using assms(3) mstep_move by blast
  qed
  then show thesis using that by (force simp: lock_free_def)
qed

theorem no_deadlock:
  assumes ord: "\<forall>t \<in> set ts. thread_ordered r t" and stuck: "\<nexists>c'. mstep code (ts, s) c'"
  shows "all_done ts"
proof (rule ccontr)
  assume "\<not> all_done ts"
  then obtain t0 where t0: "t0 \<in> set ts" "\<not> thread_done t0" by (auto simp: all_done_def)
  define W where "W = {t \<in> set ts. waits_for t \<noteq> None}"
  have "waits_for t0 \<noteq> None" using can_step_unless_waiting [OF t0, of code s] stuck by metis
  then have "t0 \<in> W" using t0(1) by (simp add: W_def)
  then have "Max ((\<lambda>t. r (the (waits_for t))) ` W) \<in> (\<lambda>t. r (the (waits_for t))) ` W"
    by (intro Max_in) (auto simp: W_def)
  then obtain t where t: "t \<in> W" "r (the (waits_for t)) = Max ((\<lambda>t. r (the (waits_for t))) ` W)" by auto
  obtain l where l: "t \<in> set ts" "waits_for t = Some l" using t(1) by (auto simp: W_def)
  obtain u where u: "u \<in> set ts" "l \<in> fst ` set (th_held u)" using blocked_by [OF l stuck] .
  have "th_held u \<noteq> []" using u(2) by auto
  then have "\<not> thread_done u"
    using ord u(1) by (auto simp: thread_ordered_def thread_done_def split: prog.splits option.splits)
  then obtain k where k: "waits_for u = Some k" using can_step_unless_waiting [OF u(1), of code s] stuck by (metis not_None_eq)
  moreover have "ordered r (th_prog u) (th_held u) []" using ord u(1) by (simp add: thread_ordered_def)
  ultimately have "r l < r k" using u(2) by (auto simp: waits_for_def split: prog.splits)
  moreover have "u \<in> W" using u(1) k by (simp add: W_def)
  then have "r (the (waits_for u)) \<le> r (the (waits_for t))" unfolding t(2) by (simp add: W_def)
  ultimately show False using l k by simp
qed

section \<open>Every run ends\<close>

definition sub_prog :: "(('l, 's, 'a) prog \<times> ('l, 's, 'a) prog) set" where
  "sub_prog = {(fst (f s), Act f) |f s. True} \<union> {(p, Acquire l m p) |l m p. True} \<union> {(p, Release l p) |l p. True}"

lemma wf_sub_prog: "wf (sub_prog :: (('l, 's, 'a) prog \<times> ('l, 's, 'a) prog) set)"
proof (rule wfUNIVI)
  fix P :: "('l, 's, 'a) prog \<Rightarrow> bool" and p
  assume "\<forall>x. (\<forall>y. (y, x) \<in> sub_prog \<longrightarrow> P y) \<longrightarrow> P x"
  then have step: "(\<And>y. (y, x) \<in> sub_prog \<Longrightarrow> P y) \<Longrightarrow> P x" for x by blast
  show "P p"
    by (induction p rule: prog_induct) (rule step, force simp: sub_prog_def)+
qed

definition thread_less :: "(('l, 's, 'c) thread \<times> ('l, 's, 'c) thread) set" where
  "thread_less = inv_image (less_than <*lex*> sub_prog) (\<lambda>t. (length (th_queue t), th_prog t))"

lemma wf_thread_less: "wf thread_less"
  unfolding thread_less_def by (intro wf_inv_image wf_lex_prod wf_less_than wf_sub_prog)

lemma mstep_decreases:
  assumes "mstep code (ts, s) (ts', s')"
  shows "(mset ts', mset ts) \<in> mult thread_less"
proof -
  have "\<exists>i t. i < length ts \<and> ts' = ts[i := t] \<and> (t, ts ! i) \<in> thread_less"
    using assms by cases (rule exI, rule exI, force simp: thread_less_def sub_prog_def)+
  then obtain i t where i: "i < length ts" "ts' = ts[i := t]" and less: "(t, ts ! i) \<in> thread_less" by blast
  have "mset ts = (mset ts - {#ts ! i#}) + {#ts ! i#}" using i(1) by simp
  moreover have "mset ts' = (mset ts - {#ts ! i#}) + {#t#}" using i by (simp add: mset_update)
  ultimately show ?thesis
    using less one_step_implies_mult [of "{#ts ! i#}" "{#t#}" thread_less "mset ts - {#ts ! i#}"] by simp
qed

theorem mstep_terminates: "wfp (\<lambda>c' c. mstep code c c')"
proof -
  have "wf (inv_image (mult thread_less) (\<lambda>c :: ('l, 's, 'c) thread list \<times> 's. mset (fst c)))"
    by (intro wf_inv_image wf_mult wf_thread_less)
  then show ?thesis
    unfolding wfp_def by (rule wf_subset) (auto dest: mstep_decreases)
qed

text \<open>Every run can be continued to its end, and the end is reached with all calls completed.\<close>

lemma reach_ordered:
  assumes "mreach code (ts, s) (ts', s')" "\<forall>t \<in> set ts. thread_ordered r t" "\<And>c. ordered r (code c) [] []"
  shows "\<forall>t \<in> set ts'. thread_ordered r t"
  using assms(1,2)
proof (induction "(ts', s')" arbitrary: ts' s' rule: rtranclp_induct)
  case (step c)
  obtain us u where c: "c = (us, u)" by (cases c)
  show ?case
    using ordered_step [OF step.hyps(2) [unfolded c] step.hyps(3) [OF c step.prems]] assms(3) by blast
qed simp

theorem runs_complete:
  assumes "\<forall>t \<in> set ts. thread_ordered r t" "\<And>c. ordered r (code c) [] []"
  shows "\<exists>ts' s'. mreach code (ts, s) (ts', s') \<and> all_done ts'"
proof -
  have "\<exists>ts' s'. mreach code c (ts', s') \<and> all_done ts'" if "\<forall>t \<in> set (fst c). thread_ordered r t" for c
    using that
  proof (induction c rule: wfp_induct_rule [OF mstep_terminates [of code]])
    case (1 c)
    show ?case
    proof (cases "\<exists>d. mstep code c d")
      case True
      then obtain d where d: "mstep code c d" by blast
      have "\<forall>t \<in> set (fst d). thread_ordered r t"
        using ordered_step [of code "fst c" "snd c" "fst d" "snd d" r] d 1(2) assms(2) by simp
      then show ?thesis using 1(1) [OF d] d by (meson converse_rtranclp_into_rtranclp)
    next
      case False
      then show ?thesis using no_deadlock [of "fst c" r code "snd c"] 1(2) by (cases c) auto
    qed
  qed
  then show ?thesis using assms(1) by force
qed

end
