(* ===== verification/Schedules.thy ===== *)
theory Schedules
  imports Interleaving
begin

text \<open>
  Tools for runs of the machine: a thread that runs alone for a while does what \<open>run\<close> says; an invariant that
  every action keeps holds in every state of every run; and threads whose writes commute end where a sequential
  run of their calls ends.
\<close>

section \<open>One thread at a time\<close>

text \<open>No other thread holds a lock.\<close>

definition alone :: "('l, 's, 'c) thread list \<Rightarrow> nat \<Rightarrow> bool" where
  "alone ts i \<longleftrightarrow> i < length ts \<and> (\<forall>j < length ts. j \<noteq> i \<longrightarrow> th_held (ts ! j) = [])"

lemma alone_update [simp]: "alone (ts[i := t]) i = alone ts i"
  by (auto simp: alone_def)

lemma lock_free_alone:
  assumes a: "alone ts i" and t: "ts ! i = t" and h: "\<forall>x \<in> set (th_held t). fst x \<noteq> l"
  shows "lock_free ts l m"
proof -
  have "l \<notin> fst ` set (th_held u)" if u: "u \<in> set ts" for u
  proof -
    obtain j where j: "j < length ts" "ts ! j = u" using u by (meson in_set_conv_nth)
    then show ?thesis using a t h by (cases "j = i") (auto simp: alone_def)
  qed
  then show ?thesis by (force simp: lock_free_def)
qed

lemma solo_run:
  assumes "ordered r p h h'" "alone ts i" "ts ! i = \<lparr>th_prog = pbind p k, th_held = h, th_queue = q\<rparr>"
  shows "mreach code (ts, s) (ts[i := \<lparr>th_prog = k (fst (run p s)), th_held = h', th_queue = q\<rparr>], snd (run p s))"
  using assms
proof (induction p arbitrary: h ts s rule: prog_induct)
  case (Ret a)
  then have "ts[i := \<lparr>th_prog = k a, th_held = h', th_queue = q\<rparr>] = ts" by (metis ordered.simps(1) list_update_id pbind.simps(1))
  then show ?case by simp
next
  case (Act f)
  let ?t = "\<lparr>th_prog = pbind (fst (f s)) k, th_held = h, th_queue = q\<rparr>"
  have i: "i < length ts" using Act.prems(2) by (simp add: alone_def)
  have "mstep code (ts, s) (ts[i := ?t], snd (f s))"
    using m_act [OF i, of "\<lambda>s. map_prod (\<lambda>p. pbind p k) id (f s)" h q code s] Act.prems(3) by simp
  moreover have "mreach code (ts[i := ?t], snd (f s))
      (ts[i := \<lparr>th_prog = k (fst (run (Act f) s)), th_held = h', th_queue = q\<rparr>], snd (run (Act f) s))"
    using Act.IH [of s h "ts[i := ?t]" "snd (f s)"] Act.prems i by simp
  ultimately show ?case by (rule converse_rtranclp_into_rtranclp)
next
  case (Acquire l m p)
  let ?t = "\<lparr>th_prog = pbind p k, th_held = (l, m) # h, th_queue = q\<rparr>"
  have i: "i < length ts" using Acquire.prems(2) by (simp add: alone_def)
  have "\<forall>x \<in> set h. fst x \<noteq> l" using Acquire.prems(1) by auto
  then have "lock_free ts l m" using lock_free_alone [OF Acquire.prems(2,3)] by simp
  then have "mstep code (ts, s) (ts[i := ?t], s)"
    using m_acquire [OF i, of l m "pbind p k" h q code s] Acquire.prems(3) by simp
  moreover have "mreach code (ts[i := ?t], s) (ts[i := \<lparr>th_prog = k (fst (run p s)), th_held = h', th_queue = q\<rparr>], snd (run p s))"
    using Acquire.IH [of "(l, m) # h" "ts[i := ?t]" s] Acquire.prems i by simp
  ultimately show ?case unfolding run.simps by (rule converse_rtranclp_into_rtranclp)
next
  case (Release l p)
  let ?t = "\<lparr>th_prog = pbind p k, th_held = filter (\<lambda>x. fst x \<noteq> l) h, th_queue = q\<rparr>"
  have i: "i < length ts" using Release.prems(2) by (simp add: alone_def)
  have "mstep code (ts, s) (ts[i := ?t], s)"
    using m_release [OF i, of l "pbind p k" h q code s] Release.prems(3) by simp
  moreover have "mreach code (ts[i := ?t], s) (ts[i := \<lparr>th_prog = k (fst (run p s)), th_held = h', th_queue = q\<rparr>], snd (run p s))"
    using Release.IH [of "filter (\<lambda>x. fst x \<noteq> l) h" "ts[i := ?t]" s] Release.prems i by simp
  ultimately show ?case unfolding run.simps by (rule converse_rtranclp_into_rtranclp)
qed

text \<open>
  A segment of a schedule on threads that hold no lock: \<open>ps\<close> are the rests of their calls and \<open>qs\<close> their
  queues.
\<close>

abbreviation threads :: "(('l, 's, unit option) prog \<times> 'c list) list \<Rightarrow> ('l, 's, 'c) thread list" where
  "threads \<equiv> map (\<lambda>(p, q). \<lparr>th_prog = p, th_held = [], th_queue = q\<rparr>)"

lemma segment:
  assumes p: "ordered r p [] []" and i: "i < length xs" "xs ! i = (pbind p k, q)"
  shows "mreach code (threads xs, s) (threads (xs[i := (k (fst (run p s)), q)]), snd (run p s))"
proof -
  have "alone (threads xs) i" using i(1) by (simp add: alone_def split_beta)
  moreover have "threads xs ! i = \<lparr>th_prog = pbind p k, th_held = [], th_queue = q\<rparr>" using i by simp
  ultimately show ?thesis using solo_run [OF p, of "threads xs" i k q code s] by (simp add: map_update)
qed

lemma segment_call:
  assumes p: "ordered r p [] []" and i: "i < length xs" "xs ! i = (Ret (Some ()), c # q)" and c: "code c = pbind p k"
  shows "mreach code (threads xs, s) (threads (xs[i := (k (fst (run p s)), q)]), snd (run p s))"
proof -
  have "mstep code (threads xs, s) (threads (xs[i := (pbind p k, q)]), s)"
    using m_call [of i "threads xs" "[]" c q code s] i c by (simp add: map_update)
  also have "mreach code \<dots> (threads ((xs[i := (pbind p k, q)])[i := (k (fst (run p s)), q)]), snd (run p s))"
    by (rule segment [OF p]) (use i in simp_all)
  finally show ?thesis by simp
qed

lemma threads_of: "threads (map (\<lambda>q. (Ret (Some ()), q)) qs) = map thread_of qs"
  by (simp add: thread_of_def)

text \<open>A call of a thread that works on one table.\<close>

definition finishes :: "('l, 's, 'a) prog \<Rightarrow> ('l, 's, unit option) prog" where
  "finishes p = pbind p (\<lambda>_. Ret (Some ()))"

lemma pbind_Ret [simp]: "pbind p Ret = p"
  by (induction p rule: prog_induct) (simp_all add: map_prod_def split_beta)

section \<open>Invariants\<close>

text \<open>All actions of the program keep \<open>I\<close>, whatever was read before.\<close>

inductive keeps :: "('s \<Rightarrow> bool) \<Rightarrow> ('l, 's, 'a) prog \<Rightarrow> bool" for I where
  keeps_Ret: "keeps I (Ret a)"
| keeps_Act: "(\<And>s. I s \<Longrightarrow> I (snd (f s))) \<Longrightarrow> (\<And>s. keeps I (fst (f s))) \<Longrightarrow> keeps I (Act f)"
| keeps_Acquire: "keeps I p \<Longrightarrow> keeps I (Acquire l m p)"
| keeps_Release: "keeps I p \<Longrightarrow> keeps I (Release l p)"

inductive_simps keeps_simps [simp]:
  "keeps I (Ret a)" "keeps I (Act f)" "keeps I (Acquire l m p)" "keeps I (Release l p)"

lemma keeps_pbind: "keeps I p \<Longrightarrow> (\<And>a. keeps I (k a)) \<Longrightarrow> keeps I (pbind p k)"
  by (induction rule: keeps.induct) auto

lemma keeps_act: "(\<And>s. I s \<Longrightarrow> I (snd (f s))) \<Longrightarrow> keeps I (act f)"
  by (simp add: act_def)

lemma keeps_reads: "keeps I (reads g)"
  by (simp add: reads_def keeps_act)

lemma keeps_writes: "(\<And>s. I s \<Longrightarrow> I (f s)) \<Longrightarrow> keeps I (writes f)"
  by (simp add: writes_def keeps_act)

lemma keeps_guarded: "keeps I p \<Longrightarrow> keeps I (guarded l m p)"
  by (simp add: guarded_def keeps_pbind)

lemma keeps_locked: "keeps I (locked_read l g)" "(\<And>s. I s \<Longrightarrow> I (f s)) \<Longrightarrow> keeps I (locked_write l f)"
  by (simp_all add: locked_read_def locked_write_def keeps_guarded keeps_reads keeps_writes)

lemma keeps_zoom:
  assumes "keeps I p" "\<And>s. J s \<Longrightarrow> I (get s)" "\<And>s c. J s \<Longrightarrow> I c \<Longrightarrow> J (upd (\<lambda>_. c) s)"
  shows "keeps J (zoom get upd p)"
  using assms(1)
proof (induction rule: keeps.induct)
  case (keeps_Act f)
  then show ?case using assms(2,3) by (auto simp: split_beta)
qed simp_all

lemma keeps_cases:
  "(x = None \<Longrightarrow> keeps I p) \<Longrightarrow> (\<And>a. x = Some a \<Longrightarrow> keeps I (q a)) \<Longrightarrow> keeps I (case x of None \<Rightarrow> p | Some a \<Rightarrow> q a)"
  "(\<And>e. y = Inl e \<Longrightarrow> keeps I (f e)) \<Longrightarrow> (\<And>a. y = Inr a \<Longrightarrow> keeps I (g a)) \<Longrightarrow> keeps I (case y of Inl e \<Rightarrow> f e | Inr a \<Rightarrow> g a)"
  "(b \<Longrightarrow> keeps I p) \<Longrightarrow> (\<not> b \<Longrightarrow> keeps I p') \<Longrightarrow> keeps I (if b then p else p')"
  "(\<And>a c. z = (a, c) \<Longrightarrow> keeps I (k a c)) \<Longrightarrow> keeps I (case z of (a, c) \<Rightarrow> k a c)"
  by (auto split: option.splits sum.splits prod.splits)

lemmas keeps_rules = keeps_pbind keeps_cases keeps_Ret keeps_reads keeps_guarded keeps_locked(1)

text \<open>In every state of every run, the invariant holds and the rest of every thread keeps it.\<close>

definition invariant_holds :: "('c \<Rightarrow> ('l, 's, unit option) prog) \<Rightarrow> ('s \<Rightarrow> bool) \<Rightarrow> ('l, 's, 'c) thread list \<times> 's \<Rightarrow> bool" where
  "invariant_holds code I c \<longleftrightarrow> I (snd c) \<and>
     (\<forall>t \<in> set (fst c). keeps I (th_prog t) \<and> (\<forall>d \<in> set (th_queue t). keeps I (code d)))"

lemma invariant_holds_update:
  assumes "invariant_holds code I (ts, s)" "I s'" "keeps I p" "\<forall>d \<in> set q. keeps I (code d)"
  shows "invariant_holds code I (ts[i := \<lparr>th_prog = p, th_held = h, th_queue = q\<rparr>], s')"
  using assms set_update_subset_insert [of ts i "\<lparr>th_prog = p, th_held = h, th_queue = q\<rparr>"]
  by (auto simp: invariant_holds_def)

lemma invariant_step:
  assumes "mstep code c c'" "invariant_holds code I c"
  shows "invariant_holds code I c'"
  using assms(1)
proof cases
  case (m_call i ts h d q s)
  have "keeps I (code d)" "\<forall>d \<in> set q. keeps I (code d)" "I s"
    using assms(2) m_call nth_mem [of i ts] by (auto simp: invariant_holds_def)
  then show ?thesis using assms(2) m_call by (auto intro!: invariant_holds_update)
next
  case (m_act i ts f h q s)
  have k: "keeps I (Act f)" "\<forall>d \<in> set q. keeps I (code d)" "I s"
    using assms(2) m_act nth_mem [of i ts] by (auto simp: invariant_holds_def)
  then show ?thesis using assms(2) m_act by (auto intro!: invariant_holds_update)
next
  case (m_acquire i ts l m p h q s)
  have "keeps I (Acquire l m p)" "\<forall>d \<in> set q. keeps I (code d)" "I s"
    using assms(2) m_acquire nth_mem [of i ts] by (auto simp: invariant_holds_def)
  then show ?thesis using assms(2) m_acquire by (auto intro!: invariant_holds_update)
next
  case (m_release i ts l p h q s)
  have "keeps I (Release l p)" "\<forall>d \<in> set q. keeps I (code d)" "I s"
    using assms(2) m_release nth_mem [of i ts] by (auto simp: invariant_holds_def)
  then show ?thesis using assms(2) m_release by (auto intro!: invariant_holds_update)
qed

lemma invariant_reach:
  assumes "mreach code (map thread_of qs, s) (ts', s')" "I s" "\<And>q c. q \<in> set qs \<Longrightarrow> c \<in> set q \<Longrightarrow> keeps I (code c)"
  shows "I s'"
proof -
  have start: "invariant_holds code I (map thread_of qs, s)"
    using assms(2,3) by (auto simp: invariant_holds_def thread_of_def)
  have "invariant_holds code I (ts', s')"
    using assms(1) start by (induction rule: rtranclp_induct) (auto intro: invariant_step)
  then show ?thesis by (simp add: invariant_holds_def)
qed

section \<open>Readers\<close>

text \<open>A program that changes nothing.\<close>

inductive pure_prog :: "('l, 's, 'a) prog \<Rightarrow> bool" where
  pure_Ret: "pure_prog (Ret a)"
| pure_Act: "(\<And>s. snd (f s) = s) \<Longrightarrow> (\<And>s. pure_prog (fst (f s))) \<Longrightarrow> pure_prog (Act f)"
| pure_Acquire: "pure_prog p \<Longrightarrow> pure_prog (Acquire l m p)"
| pure_Release: "pure_prog p \<Longrightarrow> pure_prog (Release l p)"

inductive_simps pure_simps [simp]:
  "pure_prog (Ret a)" "pure_prog (Act f)" "pure_prog (Acquire l m p)" "pure_prog (Release l p)"

lemma pure_pbind: "pure_prog p \<Longrightarrow> (\<And>a. pure_prog (k a)) \<Longrightarrow> pure_prog (pbind p k)"
  by (induction rule: pure_prog.induct) auto

lemma pure_guarded: "pure_prog p \<Longrightarrow> pure_prog (guarded l m p)"
  by (simp add: guarded_def pure_pbind)

lemma pure_reads: "pure_prog (reads g)"
  by (simp add: reads_def act_def)

lemma pure_zoom: "(\<And>s. upd (\<lambda>_. get s) s = s) \<Longrightarrow> pure_prog p \<Longrightarrow> pure_prog (zoom get upd p)"
  by (induction p rule: prog_induct) (auto simp: split_beta)

lemma pure_locked_read: "pure_prog (locked_read l g)"
  by (simp add: locked_read_def pure_guarded pure_reads)

end
