(* ===== verification/Concurrent_Tables.thy ===== *)
theory Concurrent_Tables
  imports Schedules Positions Orders Balances
begin

text \<open>
  The operations of the tables with an index (\<open>state/positions.rs\<close>, \<open>orders.rs\<close>, \<open>balances.rs\<close>) as programs: one
  action per call of a hash map and per section under a lock, with the locks that the code takes
  around them. Run without interruption, each is the operation of the sequential model. \<open>shard\<close> is the choice of
  \<open>DashMap\<close> which of its locks guards a key.
\<close>

section \<open>Locks\<close>

datatype dash_map =
    PositionsMap | PositionsByUser | PositionsByMarket | OrdersMap | OrdersByUser | BalancesMap | UserTokensMap
  | UsersMap | ReferralCodesMap | TraderStatsMap | TraderDailyMap

datatype map_key =
    Key32 hash32 | KeyAddress address | KeyPair address address | KeyMarket u16 | KeyDay address u32 | KeyCode string

datatype lock =
    WalLock | TickStoreLock | CandleStoreLock | CandleBuilderLock | MarketLock nat | BookLock nat
  | CheckpointLock | EventsByMarketLock | EventsByTraderLock | PnlBoardLock | VolumeBoardLock | Shard dash_map nat

text \<open>
  The order in which nested locks are taken: the candle builder before the candle store, an index of a
  table before the table.
\<close>

fun map_rank :: "dash_map \<Rightarrow> nat" where
  "map_rank PositionsByUser = 1"
| "map_rank PositionsByMarket = 1"
| "map_rank OrdersByUser = 1"
| "map_rank UserTokensMap = 1"
| "map_rank ReferralCodesMap = 1"
| "map_rank _ = 2"

fun lock_rank :: "lock \<Rightarrow> nat" where
  "lock_rank CandleBuilderLock = 0"
| "lock_rank (Shard m _) = map_rank m"
| "lock_rank _ = 1"

abbreviation disciplined :: "(lock, 's, 'a) prog \<Rightarrow> bool" where
  "disciplined p \<equiv> ordered lock_rank p [] []"

named_theorems prog_defs \<open>definitions of programs\<close>

section \<open>Hash maps\<close>

text \<open>Accesses to a concurrent map that the state holds at \<open>get\<close>; \<open>l\<close> is the lock of the key's shard.\<close>

definition dm_get :: "lock \<Rightarrow> ('s \<Rightarrow> 'k \<rightharpoonup> 'v) \<Rightarrow> 'k \<Rightarrow> (lock, 's, 'v option) prog" where
  "dm_get l get k = locked_read l (\<lambda>s. get s k)"

definition dm_insert :: "lock \<Rightarrow> ((('k \<rightharpoonup> 'v) \<Rightarrow> ('k \<rightharpoonup> 'v)) \<Rightarrow> 's \<Rightarrow> 's) \<Rightarrow> 'k \<Rightarrow> 'v \<Rightarrow> (lock, 's, unit) prog" where
  "dm_insert l upd k v = locked_write l (upd (\<lambda>m. m(k \<mapsto> v)))"

definition dm_remove :: "lock \<Rightarrow> ('s \<Rightarrow> 'k \<rightharpoonup> 'v) \<Rightarrow> ((('k \<rightharpoonup> 'v) \<Rightarrow> ('k \<rightharpoonup> 'v)) \<Rightarrow> 's \<Rightarrow> 's) \<Rightarrow> 'k \<Rightarrow>
    (lock, 's, 'v option) prog" where
  "dm_remove l get upd k = guarded l ExclusiveMode (act (\<lambda>s. (get s k, upd (\<lambda>m. m(k := None)) s)))"

text \<open>\<open>entry(x).or_insert_with(HashSet::new).insert(k)\<close>.\<close>

definition idx_insert :: "lock \<Rightarrow> ((('x \<rightharpoonup> 'k set) \<Rightarrow> ('x \<rightharpoonup> 'k set)) \<Rightarrow> 's \<Rightarrow> 's) \<Rightarrow> 'x \<Rightarrow> 'k \<Rightarrow> (lock, 's, unit) prog" where
  "idx_insert l upd x k = locked_write l (upd (idx_add x k))"

text \<open>
  The removal from an index: under the guard of \<open>get_mut\<close> the key is taken out of the set; the guard is dropped before
  an empty set is removed from the map.
\<close>

definition idx_remove :: "lock \<Rightarrow> ('s \<Rightarrow> 'x \<rightharpoonup> 'k set) \<Rightarrow> ((('x \<rightharpoonup> 'k set) \<Rightarrow> ('x \<rightharpoonup> 'k set)) \<Rightarrow> 's \<Rightarrow> 's) \<Rightarrow> 'x \<Rightarrow> 'k \<Rightarrow>
    (lock, 's, unit) prog" where
  "idx_remove l get upd x k =
     pbind (guarded l ExclusiveMode (act (\<lambda>s. case get s x of
         None \<Rightarrow> (False, s)
       | Some S \<Rightarrow> (S - {k} = {}, upd (\<lambda>m. m(x \<mapsto> S - {k})) s))))
       (\<lambda>emptied. if emptied then locked_write l (upd (\<lambda>m. m(x := None))) else Ret ())"

text \<open>An iteration that reads the value of each key.\<close>

primrec collect :: "('k \<Rightarrow> lock) \<Rightarrow> ('s \<Rightarrow> 'k \<rightharpoonup> 'v) \<Rightarrow> 'k list \<Rightarrow> (lock, 's, 'v list) prog" where
  "collect l get [] = Ret []"
| "collect l get (k # ks) = pbind (dm_get (l k) get k) (\<lambda>v. pbind (collect l get ks)
     (\<lambda>vs. Ret (case v of None \<Rightarrow> vs | Some x \<Rightarrow> x # vs)))"

text \<open>
  A query by index: the guard on the set of ids is held while the values are read. \<open>order\<close> is the order in
  which a hash set is iterated.
\<close>

definition query :: "lock \<Rightarrow> ('s \<Rightarrow> 'x \<rightharpoonup> 'k set) \<Rightarrow> ('k set \<Rightarrow> 'k list) \<Rightarrow> ('k \<Rightarrow> lock) \<Rightarrow> ('s \<Rightarrow> 'k \<rightharpoonup> 'v) \<Rightarrow> 'x \<Rightarrow>
    (lock, 's, 'v list) prog" where
  "query il iget order l get x =
     guarded il SharedMode (pbind (reads (\<lambda>s. iget s x))
       (\<lambda>r. case r of None \<Rightarrow> Ret [] | Some S \<Rightarrow> collect l get (order S)))"

lemmas [prog_defs] = dm_get_def dm_insert_def dm_remove_def idx_insert_def idx_remove_def query_def

lemma run_collect [simp]: "run (collect l get ks) s = (values_of ks (get s), s)"
  by (induction ks) (auto simp: dm_get_def split: option.splits)

lemma run_dm_get [simp]: "run (dm_get l get k) s = (get s k, s)"
  by (simp add: dm_get_def)

lemma run_dm_insert [simp]: "run (dm_insert l upd k v) s = ((), upd (\<lambda>m. m(k \<mapsto> v)) s)"
  by (simp add: dm_insert_def)

lemma run_dm_remove [simp]: "run (dm_remove l get upd k) s = (get s k, upd (\<lambda>m. m(k := None)) s)"
  by (simp add: dm_remove_def)

lemma run_idx_insert [simp]: "run (idx_insert l upd x k) s = ((), upd (idx_add x k) s)"
  by (simp add: idx_insert_def)

text \<open>\<open>field\<close>: a record field, with its selector and its update.\<close>

definition field :: "('s \<Rightarrow> 'c) \<Rightarrow> (('c \<Rightarrow> 'c) \<Rightarrow> 's \<Rightarrow> 's) \<Rightarrow> bool" where
  "field get upd \<longleftrightarrow> (\<forall>f s. get (upd f s) = f (get s)) \<and> (\<forall>f g s. f (get s) = g (get s) \<longrightarrow> upd f s = upd g s) \<and>
     (\<forall>f g s. upd f (upd g s) = upd (\<lambda>c. f (g c)) s) \<and> (\<forall>s. upd (\<lambda>c. c) s = s)"

lemma fieldD:
  assumes "field get upd"
  shows "get (upd f s) = f (get s)" "f (get s) = g (get s) \<Longrightarrow> upd f s = upd g s"
    "upd f (upd g s) = upd (\<lambda>c. f (g c)) s" "upd (\<lambda>c. c) s = s"
  using assms unfolding field_def by blast+

lemma field_lens:
  assumes "field get upd"
  shows "lens get upd"
proof -
  have "upd (\<lambda>_. get s) s = s" for s
    using fieldD(2) [OF assms, of "\<lambda>_. get s" s "\<lambda>c. c"] fieldD(4) [OF assms] by simp
  then show ?thesis by (simp add: lens_def fieldD(1) [OF assms] fieldD(3) [OF assms])
qed

lemma run_idx_remove:
  assumes "field get upd"
  shows "run (idx_remove l get upd x k) s = ((), upd (idx_del x k) s)"
proof (cases "get s x")
  case None
  have "upd (idx_del x k) s = upd (\<lambda>c. c) s" by (rule fieldD(2) [OF assms]) (simp add: idx_del_def None)
  with None show ?thesis by (simp add: idx_remove_def fieldD(4) [OF assms])
next
  case (Some S)
  show ?thesis
  proof (cases "S - {k} = {}")
    case True
    have "upd (idx_del x k) s = upd (\<lambda>c. (c(x \<mapsto> S - {k}))(x := None)) s"
      by (rule fieldD(2) [OF assms]) (simp add: idx_del_def Some True Let_def)
    with Some True show ?thesis by (simp add: idx_remove_def fieldD(3) [OF assms])
  next
    case False
    have "upd (idx_del x k) s = upd (\<lambda>c. c(x \<mapsto> S - {k})) s"
      by (rule fieldD(2) [OF assms]) (simp only: idx_del_def Some Let_def False option.case if_False)
    with Some False show ?thesis by (simp add: idx_remove_def)
  qed
qed

lemma run_query: "run (query il iget order l get x) s = (case iget s x of None \<Rightarrow> [] | Some S \<Rightarrow> values_of (order S) (get s), s)"
  by (simp add: query_def split: option.splits)

lemma ordered_seq: "ordered r p h h \<Longrightarrow> (\<And>a. ordered r (k a) h h) \<Longrightarrow> ordered r (pbind p k) h h"
  by (rule ordered_pbind)

lemma ordered_cases:
  "(x = None \<Longrightarrow> ordered r p h h') \<Longrightarrow> (\<And>v. x = Some v \<Longrightarrow> ordered r (q v) h h') \<Longrightarrow>
    ordered r (case x of None \<Rightarrow> p | Some v \<Rightarrow> q v) h h'"
  "(\<And>e. y = Inl e \<Longrightarrow> ordered r (f e) h h') \<Longrightarrow> (\<And>v. y = Inr v \<Longrightarrow> ordered r (g v) h h') \<Longrightarrow>
    ordered r (case y of Inl e \<Rightarrow> f e | Inr v \<Rightarrow> g v) h h'"
  "(b \<Longrightarrow> ordered r p h h') \<Longrightarrow> (\<not> b \<Longrightarrow> ordered r p' h h') \<Longrightarrow> ordered r (if b then p else p') h h'"
  "(\<And>u v. z = (u, v) \<Longrightarrow> ordered r (k u v) h h') \<Longrightarrow> ordered r (case z of (u, v) \<Rightarrow> k u v) h h'"
  by (auto split: option.splits sum.splits prod.splits)

lemma ordered_Ret: "ordered r (Ret a) h h"
  by simp

lemma disciplined_locked:
  "disciplined (guarded l m (act f))" "disciplined (locked_read l g)" "disciplined (locked_write l w)"
  by (auto intro!: ordered_guarded)

lemmas disciplined_rules = ordered_seq ordered_cases ordered_Ret ordered_act ordered_reads ordered_writes disciplined_locked

lemma disciplined_maps:
  "disciplined (dm_get l get k)" "disciplined (dm_insert l upd k v)" "disciplined (dm_remove l get upd k)"
  "disciplined (idx_insert l iupd x k')" "disciplined (idx_remove l iget iupd x k')"
  unfolding prog_defs by (rule disciplined_rules | simp)+

lemma ordered_collect:
  "(\<And>k. \<forall>x \<in> set h. lock_rank (fst x) < lock_rank (l k)) \<Longrightarrow> ordered lock_rank (collect l get ks) h h"
  by (induction ks) (auto simp: dm_get_def intro!: ordered_seq)

lemma disciplined_query:
  "(\<And>k. lock_rank il < lock_rank (l k)) \<Longrightarrow> disciplined (query il iget order l get x)"
  unfolding query_def
  by (intro ordered_guarded ordered_seq ordered_reads ordered_cases ordered_Ret ordered_collect) auto

lemma disciplined_collect: "disciplined (collect l get ks)"
  by (rule ordered_collect) simp

lemma pure_collect: "pure_prog (collect l get ks)"
  by (induction ks) (auto simp: dm_get_def pure_locked_read intro!: pure_pbind)

lemma pure_query: "pure_prog (query il iget order l get x)"
  unfolding query_def by (auto intro!: pure_guarded pure_pbind pure_reads pure_collect split: option.splits)

section \<open>Positions\<close>

abbreviation (input) pos_lock :: "(map_key \<Rightarrow> nat) \<Rightarrow> hash32 \<Rightarrow> lock" where
  "pos_lock shard pid \<equiv> Shard PositionsMap (shard (Key32 pid))"

abbreviation (input) pos_user_lock :: "(map_key \<Rightarrow> nat) \<Rightarrow> address \<Rightarrow> lock" where
  "pos_user_lock shard a \<equiv> Shard PositionsByUser (shard (KeyAddress a))"

abbreviation (input) pos_market_lock :: "(map_key \<Rightarrow> nat) \<Rightarrow> u16 \<Rightarrow> lock" where
  "pos_market_lock shard m \<equiv> Shard PositionsByMarket (shard (KeyMarket m))"

definition positions_insert_prog :: "(map_key \<Rightarrow> nat) \<Rightarrow> position \<Rightarrow> (lock, position_table, unit) prog" where
  "positions_insert_prog shard p =
     (let pid = pos_position_id p; user = pos_user_address p; market = pos_market_id p in
      pseq (dm_insert (pos_lock shard pid) pt_positions_update pid p)
     (pseq (idx_insert (pos_user_lock shard user) pt_by_user_update user pid)
           (idx_insert (pos_market_lock shard market) pt_by_market_update market pid)))"

definition positions_get_prog :: "(map_key \<Rightarrow> nat) \<Rightarrow> hash32 \<Rightarrow> (lock, position_table, position option) prog" where
  "positions_get_prog shard pid = dm_get (pos_lock shard pid) pt_positions pid"

text \<open>The closure runs under the guard of \<open>get_mut\<close>.\<close>

definition positions_update_prog ::
  "(map_key \<Rightarrow> nat) \<Rightarrow> hash32 \<Rightarrow> (position \<Rightarrow> position) \<Rightarrow> (lock, position_table, bool) prog" where
  "positions_update_prog shard pid f = guarded (pos_lock shard pid) ExclusiveMode (act (positions_update pid f))"

definition positions_remove_prog :: "(map_key \<Rightarrow> nat) \<Rightarrow> hash32 \<Rightarrow> (lock, position_table, position option) prog" where
  "positions_remove_prog shard pid =
     pbind (dm_remove (pos_lock shard pid) pt_positions pt_positions_update pid) (\<lambda>r. case r of
       None \<Rightarrow> Ret None
     | Some p \<Rightarrow>
         pseq (idx_remove (pos_user_lock shard (pos_user_address p)) pt_by_user pt_by_user_update (pos_user_address p) pid)
        (pseq (idx_remove (pos_market_lock shard (pos_market_id p)) pt_by_market pt_by_market_update (pos_market_id p) pid)
              (Ret (Some p))))"

definition positions_by_user_prog ::
  "(map_key \<Rightarrow> nat) \<Rightarrow> (hash32 set \<Rightarrow> hash32 list) \<Rightarrow> address \<Rightarrow> (lock, position_table, position list) prog" where
  "positions_by_user_prog shard order user =
     query (pos_user_lock shard user) pt_by_user order (pos_lock shard) pt_positions user"

definition positions_by_market_prog ::
  "(map_key \<Rightarrow> nat) \<Rightarrow> (hash32 set \<Rightarrow> hash32 list) \<Rightarrow> u16 \<Rightarrow> (lock, position_table, position list) prog" where
  "positions_by_market_prog shard order market =
     query (pos_market_lock shard market) pt_by_market order (pos_lock shard) pt_positions market"

definition positions_all_prog :: "(map_key \<Rightarrow> nat) \<Rightarrow> hash32 list \<Rightarrow> (lock, position_table, position list) prog" where
  "positions_all_prog shard ks = collect (pos_lock shard) pt_positions ks"

lemmas position_progs = positions_insert_prog_def positions_get_prog_def positions_update_prog_def
  positions_remove_prog_def positions_by_user_prog_def positions_by_market_prog_def positions_all_prog_def

lemma position_fields [simp]:
  "field pt_positions pt_positions_update" "field pt_by_user pt_by_user_update" "field pt_by_market pt_by_market_update"
  by (simp_all add: field_def)

lemma run_positions:
  "run (positions_insert_prog shard p) t = ((), positions_insert p t)"
  "run (positions_get_prog shard pid) t = (positions_get t pid, t)"
  "run (positions_update_prog shard pid f) t = positions_update pid f t"
  "run (positions_remove_prog shard pid) t = positions_remove pid t"
  "run (positions_all_prog shard ks) t = (positions_all ks t, t)"
  by (simp_all add: position_progs positions_insert_def positions_get_def positions_remove_def positions_all_def Let_def
      run_idx_remove fun_upd_idem split: option.splits)

lemma run_positions_queries:
  "run (positions_by_user_prog shard order user) t =
    (case pt_by_user t user of None \<Rightarrow> [] | Some S \<Rightarrow> positions_by_user (order S) t user, t)"
  "run (positions_by_market_prog shard order m) t =
    (case pt_by_market t m of None \<Rightarrow> [] | Some S \<Rightarrow> positions_by_market (order S) t m, t)"
  by (simp_all add: position_progs run_query positions_by_user_def positions_by_market_def collect_from_index_def
      split: option.splits)

lemma disciplined_positions:
  "disciplined (positions_insert_prog shard p)" "disciplined (positions_get_prog shard pid)"
  "disciplined (positions_update_prog shard pid f)" "disciplined (positions_remove_prog shard pid)"
  "disciplined (positions_by_user_prog shard order user)" "disciplined (positions_by_market_prog shard order m)"
  "disciplined (positions_all_prog shard ks)"
  unfolding position_progs Let_def
  by (rule disciplined_rules disciplined_maps disciplined_collect disciplined_query | simp)+

section \<open>Orders\<close>

abbreviation (input) ord_lock :: "(map_key \<Rightarrow> nat) \<Rightarrow> hash32 \<Rightarrow> lock" where
  "ord_lock shard oid \<equiv> Shard OrdersMap (shard (Key32 oid))"

abbreviation (input) ord_user_lock :: "(map_key \<Rightarrow> nat) \<Rightarrow> address \<Rightarrow> lock" where
  "ord_user_lock shard a \<equiv> Shard OrdersByUser (shard (KeyAddress a))"

text \<open>\<open>if let Some(book) = self.orderbooks.get(..)\<close> and a write under the lock of the book; the number of books is fixed.\<close>

definition book_write :: "u16 \<Rightarrow> (orderbook \<Rightarrow> orderbook) \<Rightarrow> (lock, order_table, unit) prog" where
  "book_write market f =
     pbind (reads (\<lambda>t. length (ot_orderbooks t))) (\<lambda>n.
       if unat market < n then locked_write (BookLock (unat market)) (ot_orderbooks_update (with_book market f)) else Ret ())"

definition orders_insert_prog :: "(map_key \<Rightarrow> nat) \<Rightarrow> order \<Rightarrow> (lock, order_table, unit) prog" where
  "orders_insert_prog shard ord =
     (let oid = ord_order_id ord; user = ord_user_address ord; price = ord_trigger_price ord in
      pseq (dm_insert (ord_lock shard oid) ot_orders_update oid ord)
     (pseq (idx_insert (ord_user_lock shard user) ot_by_user_update user oid)
           (if order_is_active ord
            then book_write (ord_market_id ord) (if ord_is_long ord then add_bid price oid else add_ask price oid)
            else Ret ())))"

text \<open>The removal from the book, after the guard of the order has been dropped.\<close>

definition book_remove :: "order \<Rightarrow> hash32 \<Rightarrow> (lock, order_table, unit) prog" where
  "book_remove ord oid =
     (if order_is_active ord
      then book_write (ord_market_id ord)
        (if ord_is_long ord then remove_bid (ord_trigger_price ord) oid else remove_ask (ord_trigger_price ord) oid)
      else Ret ())"

text \<open>\<open>cancel\<close> and \<open>execute\<close>: a change of the order under its guard, then the removal from the book.\<close>

definition order_settle :: "(map_key \<Rightarrow> nat) \<Rightarrow> hash32 \<Rightarrow> (order \<Rightarrow> order) \<Rightarrow> (lock, order_table, order option) prog" where
  "order_settle shard oid f =
     pbind (guarded (ord_lock shard oid) ExclusiveMode (act (\<lambda>t. case ot_orders t oid of
         None \<Rightarrow> (None, t)
       | Some ord \<Rightarrow> (Some ord, t\<lparr>ot_orders := (ot_orders t)(oid \<mapsto> f ord)\<rparr>))))
       (\<lambda>r. case r of None \<Rightarrow> Ret None | Some ord \<Rightarrow> pseq (book_remove ord oid) (Ret (Some (f ord))))"

definition orders_cancel_prog :: "(map_key \<Rightarrow> nat) \<Rightarrow> hash32 \<Rightarrow> (lock, order_table, order option) prog" where
  "orders_cancel_prog shard oid = order_settle shard oid (\<lambda>ord. ord\<lparr>ord_status := OsCancelled\<rparr>)"

definition orders_execute_prog ::
  "(map_key \<Rightarrow> nat) \<Rightarrow> hash32 \<Rightarrow> i128 \<Rightarrow> hash32 \<Rightarrow> u64 \<Rightarrow> (lock, order_table, order option) prog" where
  "orders_execute_prog shard oid execution_price position_id executed_at =
     order_settle shard oid (\<lambda>ord. ord\<lparr>ord_status := OsExecuted, ord_execution_price := Some execution_price,
       ord_position_id := Some position_id, ord_executed_at := Some executed_at\<rparr>)"

definition orders_remove_prog :: "(map_key \<Rightarrow> nat) \<Rightarrow> hash32 \<Rightarrow> (lock, order_table, order option) prog" where
  "orders_remove_prog shard oid =
     pbind (dm_remove (ord_lock shard oid) ot_orders ot_orders_update oid) (\<lambda>r. case r of
       None \<Rightarrow> Ret None
     | Some ord \<Rightarrow>
         pseq (idx_remove (ord_user_lock shard (ord_user_address ord)) ot_by_user ot_by_user_update (ord_user_address ord) oid)
        (pseq (book_remove ord oid) (Ret (Some ord))))"

definition orders_by_user_prog ::
  "(map_key \<Rightarrow> nat) \<Rightarrow> (hash32 set \<Rightarrow> hash32 list) \<Rightarrow> address \<Rightarrow> (lock, order_table, order list) prog" where
  "orders_by_user_prog shard order user = query (ord_user_lock shard user) ot_by_user order (ord_lock shard) ot_orders user"

definition orders_all_prog :: "(map_key \<Rightarrow> nat) \<Rightarrow> hash32 list \<Rightarrow> (lock, order_table, order list) prog" where
  "orders_all_prog shard ks = collect (ord_lock shard) ot_orders ks"

lemmas order_progs = orders_insert_prog_def book_remove_def order_settle_def orders_cancel_prog_def
  orders_execute_prog_def orders_remove_prog_def orders_by_user_prog_def orders_all_prog_def

lemma order_fields [simp]: "field ot_orders ot_orders_update" "field ot_by_user ot_by_user_update"
  by (simp_all add: field_def)

lemma run_book_write [simp]: "run (book_write m f) t = ((), t\<lparr>ot_orderbooks := with_book m f (ot_orderbooks t)\<rparr>)"
  by (simp add: book_write_def with_book_def)

lemma run_orders:
  "run (orders_insert_prog shard ord) t = ((), orders_insert ord t)"
  "run (orders_cancel_prog shard oid) t = orders_cancel oid t"
  "run (orders_execute_prog shard oid price pid ts) t = orders_execute oid price pid ts t"
  "run (orders_remove_prog shard oid) t = orders_remove oid t"
  "run (orders_all_prog shard ks) t = (orders_all ks t, t)"
  by (simp_all add: order_progs orders_insert_def orders_cancel_def orders_execute_def
      orders_remove_def orders_all_def remove_from_orderbook_def Let_def run_idx_remove fun_upd_idem
      split: option.splits)

lemma run_orders_by_user:
  "run (orders_by_user_prog shard order user) t =
    (case ot_by_user t user of None \<Rightarrow> [] | Some S \<Rightarrow> orders_by_user (order S) t user, t)"
  by (simp add: orders_by_user_prog_def run_query orders_by_user_def split: option.splits)

lemma disciplined_orders:
  "disciplined (orders_insert_prog shard ord)" "disciplined (orders_cancel_prog shard oid)"
  "disciplined (orders_execute_prog shard oid price pid ts)" "disciplined (orders_remove_prog shard oid)"
  "disciplined (orders_by_user_prog shard order user)" "disciplined (orders_all_prog shard ks)"
  unfolding order_progs book_write_def Let_def
  by (rule disciplined_rules disciplined_maps disciplined_collect disciplined_query | simp)+

section \<open>Balances\<close>

abbreviation (input) bal_lock :: "(map_key \<Rightarrow> nat) \<Rightarrow> address \<times> address \<Rightarrow> lock" where
  "bal_lock shard k \<equiv> Shard BalancesMap (shard (KeyPair (fst k) (snd k)))"

definition balances_set_prog :: "(map_key \<Rightarrow> nat) \<Rightarrow> balance \<Rightarrow> (lock, balance_cache, unit) prog" where
  "balances_set_prog shard b =
     (let user = bal_user_address b; token = bal_token b in
      pseq (idx_insert (Shard UserTokensMap (shard (KeyAddress user))) bc_user_tokens_update user token)
           (dm_insert (bal_lock shard (user, token)) bc_balances_update (user, token) b))"

definition balances_get_prog :: "(map_key \<Rightarrow> nat) \<Rightarrow> address \<Rightarrow> address \<Rightarrow> (lock, balance_cache, balance option) prog" where
  "balances_get_prog shard user token = dm_get (bal_lock shard (user, token)) bc_balances (user, token)"

definition balances_remove_prog :: "(map_key \<Rightarrow> nat) \<Rightarrow> address \<Rightarrow> address \<Rightarrow> (lock, balance_cache, balance option) prog" where
  "balances_remove_prog shard user token =
     pbind (dm_remove (bal_lock shard (user, token)) bc_balances bc_balances_update (user, token)) (\<lambda>r. case r of
       None \<Rightarrow> Ret None
     | Some b \<Rightarrow>
         pseq (idx_remove (Shard UserTokensMap (shard (KeyAddress user))) bc_user_tokens bc_user_tokens_update user token)
              (Ret (Some b)))"

text \<open>The query iterates over the tokens of the user.\<close>

definition balances_user_balances_prog ::
  "(map_key \<Rightarrow> nat) \<Rightarrow> (address set \<Rightarrow> address list) \<Rightarrow> address \<Rightarrow> (lock, balance_cache, balance list) prog" where
  "balances_user_balances_prog shard order user =
     query (Shard UserTokensMap (shard (KeyAddress user))) bc_user_tokens order (\<lambda>t. bal_lock shard (user, t))
       (\<lambda>c t. bc_balances c (user, t)) user"

definition balances_all_prog :: "(map_key \<Rightarrow> nat) \<Rightarrow> (address \<times> address) list \<Rightarrow> (lock, balance_cache, balance list) prog" where
  "balances_all_prog shard ks = collect (bal_lock shard) bc_balances ks"

lemmas balance_progs = balances_set_prog_def balances_get_prog_def balances_remove_prog_def
  balances_user_balances_prog_def balances_all_prog_def

lemma balance_fields [simp]: "field bc_balances bc_balances_update" "field bc_user_tokens bc_user_tokens_update"
  by (simp_all add: field_def)

lemma run_balances:
  "run (balances_set_prog shard b) c = ((), balances_set b c)"
  "run (balances_get_prog shard user token) c = (balances_get c user token, c)"
  "run (balances_remove_prog shard user token) c = balances_remove user token c"
  "run (balances_all_prog shard ks) c = (balances_all ks c, c)"
  by (simp_all add: balance_progs balances_set_def balances_get_def balances_remove_def balances_all_def Let_def
      run_idx_remove fun_upd_idem split: option.splits)

lemma run_user_balances:
  "run (balances_user_balances_prog shard order user) c =
    (case bc_user_tokens c user of None \<Rightarrow> [] | Some S \<Rightarrow> balances_user_balances (order S) c user, c)"
  by (simp add: balances_user_balances_prog_def run_query balances_user_balances_def values_of_def split: option.splits)

lemma disciplined_balances:
  "disciplined (balances_set_prog shard b)" "disciplined (balances_get_prog shard user token)"
  "disciplined (balances_remove_prog shard user token)" "disciplined (balances_user_balances_prog shard torder user)"
  "disciplined (balances_all_prog shard ks)"
  unfolding balance_progs Let_def
  by (rule disciplined_rules disciplined_maps disciplined_collect disciplined_query | simp)+

end
