(* ===== verification/Concurrent_Stores.thy ===== *)
theory Concurrent_Stores
  imports Concurrent_Tables Market_State Users Checkpoint Event_Store Stats Leaderboard
begin

text \<open>
  The other in-memory stores as programs: \<open>relational/users.rs\<close>, \<open>relational/checkpoint.rs\<close>,
  \<open>storage/event_store.rs\<close>, \<open>aggregation/*.rs\<close> and \<open>state/market_state.rs\<close>, as in \<open>Concurrent_Tables\<close>.
\<close>

section \<open>Users\<close>

abbreviation (input) usr_lock :: "(map_key \<Rightarrow> nat) \<Rightarrow> address \<Rightarrow> lock" where
  "usr_lock shard a \<equiv> Shard UsersMap (shard (KeyAddress a))"

abbreviation (input) code_lock :: "(map_key \<Rightarrow> nat) \<Rightarrow> string \<Rightarrow> lock" where
  "code_lock shard c \<equiv> Shard ReferralCodesMap (shard (KeyCode c))"

text \<open>\<open>entry().or_insert_with(..)\<close>, then \<open>get_mut\<close> and the write of \<open>last_active_at\<close>.\<close>

definition users_ensure_prog :: "(map_key \<Rightarrow> nat) \<Rightarrow> address \<Rightarrow> u64 \<Rightarrow> (lock, user_store, unit) prog" where
  "users_ensure_prog shard a now =
     pseq (locked_write (usr_lock shard a) (us_users_update (\<lambda>m. case m a of
         Some _ \<Rightarrow> m | None \<Rightarrow> m(a \<mapsto> user_default a now))))
       (locked_write (usr_lock shard a) (us_users_update (\<lambda>m. case m a of
         None \<Rightarrow> m | Some u \<Rightarrow> m(a \<mapsto> u\<lparr>usr_last_active_at := Some now\<rparr>))))"

definition users_set_vault_prog :: "(map_key \<Rightarrow> nat) \<Rightarrow> address \<Rightarrow> address \<Rightarrow> (lock, user_store, unit) prog" where
  "users_set_vault_prog shard a vault = locked_write (usr_lock shard a) (users_set_vault a vault)"

text \<open>The writes of the code index, for a non-empty code.\<close>

definition code_write :: "(map_key \<Rightarrow> nat) \<Rightarrow> string option \<Rightarrow> ((string \<rightharpoonup> address) \<Rightarrow> (string \<rightharpoonup> address)) \<Rightarrow>
    (lock, user_store, unit) prog" where
  "code_write shard code f =
     (case code of None \<Rightarrow> Ret ()
      | Some c \<Rightarrow> if c \<noteq> [] then locked_write (code_lock shard c) (us_by_referral_code_update f) else Ret ())"

definition users_upsert_prog :: "(map_key \<Rightarrow> nat) \<Rightarrow> user \<Rightarrow> (lock, user_store, unit) prog" where
  "users_upsert_prog shard u =
     (let a = usr_address u in
      pseq (code_write shard (usr_referral_code u) (index_code (usr_referral_code u) a))
           (dm_insert (usr_lock shard a) us_users_update a u))"

definition users_update_prog :: "(map_key \<Rightarrow> nat) \<Rightarrow> address \<Rightarrow> (user \<Rightarrow> user) \<Rightarrow> (lock, user_store, bool) prog" where
  "users_update_prog shard a f =
     pbind (guarded (usr_lock shard a) ExclusiveMode (act (\<lambda>s. case us_users s a of
         None \<Rightarrow> (None, s)
       | Some u \<Rightarrow> (Some (usr_referral_code u, usr_referral_code (f u)), s\<lparr>us_users := (us_users s)(a \<mapsto> f u)\<rparr>))))
       (\<lambda>r. case r of
          None \<Rightarrow> Ret False
        | Some (old, new) \<Rightarrow>
            (if old \<noteq> new
             then pseq (code_write shard old (unindex_code old))
                 (pseq (code_write shard new (index_code new a)) (Ret True))
             else Ret True))"

text \<open>The guard on the code is held while the user is read.\<close>

definition users_by_referral_code_prog :: "(map_key \<Rightarrow> nat) \<Rightarrow> string \<Rightarrow> (lock, user_store, user option) prog" where
  "users_by_referral_code_prog shard code =
     guarded (code_lock shard code) SharedMode (pbind (reads (\<lambda>s. us_by_referral_code s code))
       (\<lambda>r. case r of None \<Rightarrow> Ret None | Some a \<Rightarrow> dm_get (usr_lock shard a) us_users a))"

definition users_all_prog :: "(map_key \<Rightarrow> nat) \<Rightarrow> address list \<Rightarrow> (lock, user_store, user list) prog" where
  "users_all_prog shard ks = collect (usr_lock shard) us_users ks"

lemmas user_progs = users_ensure_prog_def users_set_vault_prog_def code_write_def users_upsert_prog_def
  users_update_prog_def users_by_referral_code_prog_def users_all_prog_def

lemma run_users:
  "run (users_ensure_prog shard a now) s = ((), users_ensure a now s)"
  "run (users_set_vault_prog shard a vault) s = ((), users_set_vault a vault s)"
  "run (users_upsert_prog shard u) s = ((), users_upsert u s)"
  "run (users_by_referral_code_prog shard code) s = (users_by_referral_code s code, s)"
  "run (users_all_prog shard ks) s = (users_all ks s, s)"
  by (auto simp: user_progs users_ensure_def users_upsert_def users_by_referral_code_def users_get_def users_all_def
      index_code_def Let_def split: option.splits)

lemma run_users_update: "run (users_update_prog shard a f) s = users_update a f s"
  by (auto simp: user_progs users_update_def index_code_def unindex_code_def Let_def split: option.splits)

lemma disciplined_users:
  "disciplined (users_ensure_prog shard a now)" "disciplined (users_set_vault_prog shard a vault)"
  "disciplined (users_upsert_prog shard u)" "disciplined (users_update_prog shard a f)"
  "disciplined (users_all_prog shard ks)"
  unfolding user_progs Let_def
  by (rule disciplined_rules disciplined_maps disciplined_collect | simp)+

lemma disciplined_by_code: "disciplined (users_by_referral_code_prog shard code)"
  by (auto simp: users_by_referral_code_prog_def dm_get_def intro!: ordered_guarded ordered_seq split: option.splits)

section \<open>Checkpoint\<close>

definition checkpoint_save_prog :: "u64 \<Rightarrow> string \<Rightarrow> u64 \<Rightarrow> (lock, checkpoint_store, unit) prog" where
  "checkpoint_save_prog block hash timestamp =
     pseq (writes (cp_last_block_update (\<lambda>_. block)))
    (pseq (writes (cp_last_block_timestamp_update (\<lambda>_. timestamp)))
          (locked_write CheckpointLock (cp_last_block_hash_update (\<lambda>_. hash))))"

definition advance_block_prog :: "u64 \<Rightarrow> (lock, checkpoint_store, unit) prog" where
  "advance_block_prog block = writes (advance_block block)"

definition checkpoint_snapshot_prog :: "(lock, checkpoint_store, checkpoint_snapshot) prog" where
  "checkpoint_snapshot_prog =
     guarded CheckpointLock SharedMode (pbind (reads cp_last_block) (\<lambda>block. pbind (reads cp_last_block_hash) (\<lambda>hash.
       pbind (reads cp_last_block_timestamp) (\<lambda>timestamp.
         Ret \<lparr>cs_last_block = block, cs_last_block_hash = hash, cs_last_block_timestamp = timestamp\<rparr>))))"

lemmas checkpoint_progs = checkpoint_save_prog_def advance_block_prog_def checkpoint_snapshot_prog_def

lemma run_checkpoint:
  "run (checkpoint_save_prog block hash timestamp) c = ((), checkpoint_save block hash timestamp c)"
  "run (advance_block_prog block) c = ((), advance_block block c)"
  "run checkpoint_snapshot_prog c = (checkpoint_snapshot_of c, c)"
  by (simp_all add: checkpoint_progs checkpoint_save_def checkpoint_snapshot_of_def)

lemma disciplined_checkpoint:
  "disciplined (checkpoint_save_prog block hash timestamp)" "disciplined (advance_block_prog block)"
  "disciplined checkpoint_snapshot_prog"
  unfolding checkpoint_progs
  by (rule disciplined_rules ordered_guarded | simp)+

section \<open>Event store\<close>

definition events_append_prog :: "indexed_event \<Rightarrow> u16 option \<Rightarrow> address option \<Rightarrow> (lock, event_store, unit) prog" where
  "events_append_prog ev market_id trader =
     pseq (case market_id of
         Some mid \<Rightarrow> locked_write EventsByMarketLock (es_by_market_update (push_entry mid ev)) | None \<Rightarrow> Ret ())
    (pseq (case trader of
         Some a \<Rightarrow> locked_write EventsByTraderLock (es_by_trader_update (push_entry a ev)) | None \<Rightarrow> Ret ())
          (writes (es_total_count_update (\<lambda>n. n + 1))))"

lemma run_events_append: "run (events_append_prog ev m a) s = ((), events_append ev m a s)"
  by (simp add: events_append_prog_def events_append_def Let_def split: option.splits)

lemma disciplined_events_append: "disciplined (events_append_prog ev m a)"
  unfolding events_append_prog_def by (rule disciplined_rules | simp)+

section \<open>Statistics and leaderboards\<close>

abbreviation (input) stats_lock :: "(map_key \<Rightarrow> nat) \<Rightarrow> address \<Rightarrow> lock" where
  "stats_lock shard a \<equiv> Shard TraderStatsMap (shard (KeyAddress a))"

text \<open>Every operation on the statistics of a trader is one access of the map.\<close>

definition stats_write :: "(map_key \<Rightarrow> nat) \<Rightarrow> address \<Rightarrow> (trader_stats_store \<Rightarrow> trader_stats_store) \<Rightarrow>
    (lock, trader_stats_store, unit) prog" where
  "stats_write shard a f = locked_write (stats_lock shard a) f"

definition stats_all_prog :: "(map_key \<Rightarrow> nat) \<Rightarrow> address list \<Rightarrow> (lock, trader_stats_store, trader_stats list) prog" where
  "stats_all_prog shard ks = collect (stats_lock shard) (\<lambda>s. s) ks"

abbreviation (input) daily_lock :: "(map_key \<Rightarrow> nat) \<Rightarrow> address \<times> u32 \<Rightarrow> lock" where
  "daily_lock shard k \<equiv> Shard TraderDailyMap (shard (KeyDay (fst k) (snd k)))"

definition accumulate_trade_prog ::
  "(map_key \<Rightarrow> nat) \<Rightarrow> address \<Rightarrow> u32 \<Rightarrow> i128 \<Rightarrow> i128 \<Rightarrow> i128 \<Rightarrow> (lock, daily_stats_store, unit) prog" where
  "accumulate_trade_prog shard a date volume pnl fee =
     locked_write (daily_lock shard (a, date)) (accumulate_trade a date volume pnl fee)"

definition trader_daily_history_prog ::
  "(map_key \<Rightarrow> nat) \<Rightarrow> (address \<times> u32) list \<Rightarrow> address \<Rightarrow> nat \<Rightarrow> (lock, daily_stats_store, daily_stats list) prog" where
  "trader_daily_history_prog shard ks a limit =
     pbind (collect (daily_lock shard) (\<lambda>s. s) (filter (\<lambda>k. fst k = a) ks))
       (\<lambda>vs. Ret (take limit (sort_desc ds_date vs)))"

definition leaderboard_rebuild_prog :: "trader_stats list \<Rightarrow> u64 \<Rightarrow> (lock, leaderboard, unit) prog" where
  "leaderboard_rebuild_prog all_stats now =
     pseq (locked_write PnlBoardLock (rebuild_pnl all_stats now)) (locked_write VolumeBoardLock (rebuild_volume all_stats now))"

lemmas stats_progs = stats_write_def stats_all_prog_def accumulate_trade_prog_def trader_daily_history_prog_def
  leaderboard_rebuild_prog_def

lemma run_stats:
  "run (stats_write shard a f) s = ((), f s)"
  "run (stats_all_prog shard ks) s = (stats_all ks s, s)"
  "run (accumulate_trade_prog shard a date volume pnl fee) d = ((), accumulate_trade a date volume pnl fee d)"
  "run (trader_daily_history_prog shard dks a limit) d = (trader_daily_history dks d a limit, d)"
  "run (leaderboard_rebuild_prog all_stats now) lb = ((), leaderboard_rebuild all_stats now lb)"
  by (simp_all add: stats_progs stats_all_def trader_daily_history_def leaderboard_rebuild_def)

lemma disciplined_stats:
  "disciplined (stats_write shard a f)" "disciplined (stats_all_prog shard ks)"
  "disciplined (accumulate_trade_prog shard a date volume pnl fee)"
  "disciplined (trader_daily_history_prog shard dks a limit)" "disciplined (leaderboard_rebuild_prog all_stats now)"
  unfolding stats_progs by (rule disciplined_rules disciplined_collect | simp)+

section \<open>Market state\<close>

text \<open>The two stores of \<open>set_price\<close>, one after the other, without a lock.\<close>

definition set_price_prog :: "market_id \<Rightarrow> f64 \<Rightarrow> u64 \<Rightarrow> (lock, market_state_table, unit) prog" where
  "set_price_prog m price timestamp_ns =
     pbind (reads length) (\<lambda>n. if unat m < n
       then pseq (writes (on_slot m (sl_latest_price_bits_update (\<lambda>_. f64_bits price))))
                 (writes (on_slot m (sl_last_update_ns_update (\<lambda>_. timestamp_ns))))
       else Ret ())"

text \<open>A write of the warm fields under the lock of the slot.\<close>

definition inner_write :: "market_id \<Rightarrow> (market_inner \<Rightarrow> market_inner) \<Rightarrow> (lock, market_state_table, unit) prog" where
  "inner_write m f = pbind (reads length) (\<lambda>n.
     if unat m < n then locked_write (MarketLock (unat m)) (on_inner m f) else Ret ())"

definition set_funding_rate_prog :: "market_id \<Rightarrow> i128 \<Rightarrow> i128 \<Rightarrow> (lock, market_state_table, unit) prog" where
  "set_funding_rate_prog m rate_per_second rate_24h =
     inner_write m (\<lambda>i. i\<lparr>in_funding_rate_per_second := rate_per_second, in_funding_rate_24h := rate_24h\<rparr>)"

definition add_long_oi_prog :: "market_id \<Rightarrow> i128 \<Rightarrow> (lock, market_state_table, unit) prog" where
  "add_long_oi_prog m delta = inner_write m (\<lambda>i. i\<lparr>in_long_oi := in_long_oi i + delta\<rparr>)"

definition add_short_oi_prog :: "market_id \<Rightarrow> i128 \<Rightarrow> (lock, market_state_table, unit) prog" where
  "add_short_oi_prog m delta = inner_write m (\<lambda>i. i\<lparr>in_short_oi := in_short_oi i + delta\<rparr>)"

definition set_paused_prog :: "market_id \<Rightarrow> bool \<Rightarrow> (lock, market_state_table, unit) prog" where
  "set_paused_prog m paused = inner_write m (\<lambda>i. i\<lparr>in_paused := paused\<rparr>)"

text \<open>The price and its time are loaded one after the other, under the lock that guards the other fields only.\<close>

definition market_snapshot_prog :: "market_id \<Rightarrow> (lock, market_state_table, market_snapshot option) prog" where
  "market_snapshot_prog m =
     pbind (reads length) (\<lambda>n. if unat m < n
       then guarded (MarketLock (unat m)) SharedMode
         (pbind (reads (\<lambda>t. latest_price t m)) (\<lambda>price. pbind (reads (\<lambda>t. last_update_ns t m)) (\<lambda>ns.
            reads (\<lambda>t. map_option (\<lambda>sn. sn\<lparr>ms_latest_price := price, ms_last_update_ns := ns\<rparr>) (market_snapshot_of t m)))))
       else Ret None)"

lemmas market_progs = set_price_prog_def inner_write_def set_funding_rate_prog_def add_long_oi_prog_def
  add_short_oi_prog_def set_paused_prog_def market_snapshot_prog_def

lemma run_market:
  "run (set_price_prog m price ns) t = ((), set_price m price ns t)"
  "run (set_funding_rate_prog m a b) t = ((), set_funding_rate m a b t)"
  "run (add_long_oi_prog m d) t = ((), add_long_oi m d t)"
  "run (add_short_oi_prog m d) t = ((), add_short_oi m d t)"
  "run (set_paused_prog m p) t = ((), set_paused m p t)"
  "run (market_snapshot_prog m) t = (market_snapshot_of t m, t)"
  by (auto simp: market_progs market_write_defs on_slot_def market_snapshot_of_def latest_price_def last_update_ns_def
      slot_at_def Let_def)

lemma disciplined_market:
  "disciplined (set_price_prog m price ns)" "disciplined (set_funding_rate_prog m a b)"
  "disciplined (add_long_oi_prog m d)" "disciplined (add_short_oi_prog m d)" "disciplined (set_paused_prog m p)"
  "disciplined (market_snapshot_prog m)"
  unfolding market_progs by (rule disciplined_rules ordered_guarded | simp)+

end
