(* ===== verification/Concurrent_Engine.thy ===== *)
theory Concurrent_Engine
  imports Concurrent_Stores Engine
begin

text \<open>
  The calls of the engine (\<open>src/engine.rs\<close>) as programs over the whole database: the mutexes of the log, of the
  tick store, of the candle store and of the candle builder are taken as in the code, and between
  two accesses of a store any other thread may run. Run without interruption, a call is the operation of \<open>Engine\<close>.
\<close>

section \<open>Parts of the database\<close>

abbreviation on_stores :: "(stores \<Rightarrow> 'c) \<Rightarrow> (('c \<Rightarrow> 'c) \<Rightarrow> stores \<Rightarrow> stores) \<Rightarrow> (lock, 'c, 'a) prog \<Rightarrow> (lock, perf_db, 'a) prog" where
  "on_stores get upd \<equiv> zoom (\<lambda>db. get (db_stores db)) (\<lambda>f. db_stores_update (upd f))"

abbreviation on_market :: "(lock, market_state_table, 'a) prog \<Rightarrow> (lock, perf_db, 'a) prog" where
  "on_market \<equiv> on_stores st_market_state st_market_state_update"

abbreviation on_positions :: "(lock, position_table, 'a) prog \<Rightarrow> (lock, perf_db, 'a) prog" where
  "on_positions \<equiv> on_stores st_positions st_positions_update"

abbreviation on_orders :: "(lock, order_table, 'a) prog \<Rightarrow> (lock, perf_db, 'a) prog" where
  "on_orders \<equiv> on_stores st_orders st_orders_update"

abbreviation on_balances :: "(lock, balance_cache, 'a) prog \<Rightarrow> (lock, perf_db, 'a) prog" where
  "on_balances \<equiv> on_stores st_balances st_balances_update"

abbreviation on_users :: "(lock, user_store, 'a) prog \<Rightarrow> (lock, perf_db, 'a) prog" where
  "on_users \<equiv> on_stores st_users st_users_update"

abbreviation on_checkpoint :: "(lock, checkpoint_store, 'a) prog \<Rightarrow> (lock, perf_db, 'a) prog" where
  "on_checkpoint \<equiv> on_stores st_checkpoint st_checkpoint_update"

abbreviation on_trader_stats :: "(lock, trader_stats_store, 'a) prog \<Rightarrow> (lock, perf_db, 'a) prog" where
  "on_trader_stats \<equiv> on_stores st_trader_stats st_trader_stats_update"

abbreviation on_daily_stats :: "(lock, daily_stats_store, 'a) prog \<Rightarrow> (lock, perf_db, 'a) prog" where
  "on_daily_stats \<equiv> on_stores st_daily_stats st_daily_stats_update"

abbreviation on_events :: "(lock, event_store, 'a) prog \<Rightarrow> (lock, perf_db, 'a) prog" where
  "on_events \<equiv> on_stores st_events st_events_update"

lemma store_lenses [simp]:
  "lens (\<lambda>db. st_market_state (db_stores db)) (\<lambda>f. db_stores_update (st_market_state_update f))"
  "lens (\<lambda>db. st_positions (db_stores db)) (\<lambda>f. db_stores_update (st_positions_update f))"
  "lens (\<lambda>db. st_orders (db_stores db)) (\<lambda>f. db_stores_update (st_orders_update f))"
  "lens (\<lambda>db. st_balances (db_stores db)) (\<lambda>f. db_stores_update (st_balances_update f))"
  "lens (\<lambda>db. st_users (db_stores db)) (\<lambda>f. db_stores_update (st_users_update f))"
  "lens (\<lambda>db. st_checkpoint (db_stores db)) (\<lambda>f. db_stores_update (st_checkpoint_update f))"
  "lens (\<lambda>db. st_trader_stats (db_stores db)) (\<lambda>f. db_stores_update (st_trader_stats_update f))"
  "lens (\<lambda>db. st_daily_stats (db_stores db)) (\<lambda>f. db_stores_update (st_daily_stats_update f))"
  "lens (\<lambda>db. st_events (db_stores db)) (\<lambda>f. db_stores_update (st_events_update f))"
  by (simp_all add: lens_def)

lemma run_on_stores:
  "lens (\<lambda>db :: perf_db. get (db_stores db)) (\<lambda>f. db_stores_update (upd f)) \<Longrightarrow>
    run (on_stores get upd p) db =
      (fst (run p (get (db_stores db))), db\<lparr>db_stores := upd (\<lambda>_. snd (run p (get (db_stores db)))) (db_stores db)\<rparr>)"
  by (cases db) (simp add: run_zoom)

text \<open>A list of programs, one after the other.\<close>

primrec seqs :: "(lock, 's, unit) prog list \<Rightarrow> (lock, 's, unit) prog" where
  "seqs [] = Ret ()"
| "seqs (p # ps) = pseq p (seqs ps)"

abbreviation quiet :: "(lock, 's, 'a) prog \<Rightarrow> (lock, 's, unit) prog" where
  "quiet p \<equiv> pseq p (Ret ())"

definition publish_prog :: "channel \<Rightarrow> pubsub_message \<Rightarrow> (lock, perf_db, unit) prog" where
  "publish_prog ch msg = writes (db_pubsub_update (pubsub_send ch msg))"

section \<open>Chain events\<close>

definition append_event_prog :: "indexed_event \<Rightarrow> (lock, perf_db, unit) prog" where
  "append_event_prog ev =
     (let (mid, trader) = extract_event_keys (ie_event ev) in on_events (events_append_prog ev mid trader))"

definition on_position_opened_prog ::
  "(map_key \<Rightarrow> nat) \<Rightarrow> indexed_event \<Rightarrow> hash32 \<Rightarrow> address \<Rightarrow> u16 \<Rightarrow> bool \<Rightarrow> i128 \<Rightarrow> i128 \<Rightarrow> i128 \<Rightarrow> address \<Rightarrow> i128 \<Rightarrow>
     (lock, perf_db, unit) prog" where
  "on_position_opened_prog shard ev position_id user market_id is_long size_usd leverage entry_price
     collateral_token collateral_amount =
     (let pos = opened_position ev position_id user market_id is_long size_usd leverage entry_price
                  collateral_token collateral_amount
      in seqs
        [on_positions (positions_insert_prog shard pos),
         on_users (users_ensure_prog shard user (ie_block_timestamp ev)),
         on_trader_stats (stats_write shard user (stats_ensure user)),
         on_trader_stats (stats_write shard user (increment_open_positions user)),
         on_market (if is_long then add_long_oi_prog market_id size_usd else add_short_oi_prog market_id size_usd),
         publish_prog Positions (PositionUpdate pos)])"

definition on_position_closed_prog ::
  "(map_key \<Rightarrow> nat) \<Rightarrow> indexed_event \<Rightarrow> hash32 \<Rightarrow> address \<Rightarrow> u16 \<Rightarrow> i128 \<Rightarrow> i128 \<Rightarrow> i128 \<Rightarrow> bool \<Rightarrow> (lock, perf_db, unit) prog" where
  "on_position_closed_prog shard ev position_id user market_id closed_size_usd exit_price realized_pnl is_full_close =
     seqs
       [quiet (on_positions (positions_update_prog shard position_id
          (close_position ev closed_size_usd exit_price realized_pnl is_full_close))),
        on_trader_stats (stats_write shard user (stats_ensure user)),
        on_trader_stats (stats_write shard user (\<lambda>s. snd (increment_trade user closed_size_usd realized_pnl 0
          (0 < realized_pnl) False (ie_block_timestamp ev) s))),
        if is_full_close then on_trader_stats (stats_write shard user (decrement_open_positions user)) else Ret (),
        on_daily_stats (accumulate_trade_prog shard user (timestamp_to_date (ie_block_timestamp ev))
          closed_size_usd realized_pnl 0),
        pbind (on_positions (positions_get_prog shard position_id)) (\<lambda>r. case r of
          None \<Rightarrow> Ret ()
        | Some pos \<Rightarrow> seqs
            [on_market (if pos_is_long pos then add_long_oi_prog market_id (- closed_size_usd)
               else add_short_oi_prog market_id (- closed_size_usd)),
             publish_prog Positions (PositionUpdate pos)])]"

definition on_position_modified_prog :: "(map_key \<Rightarrow> nat) \<Rightarrow> hash32 \<Rightarrow> i128 \<Rightarrow> i128 \<Rightarrow> i128 \<Rightarrow> (lock, perf_db, unit) prog" where
  "on_position_modified_prog shard position_id new_size_usd new_collateral_usd new_collateral_amount =
     seqs
       [quiet (on_positions (positions_update_prog shard position_id
          (\<lambda>p. p\<lparr>pos_size_usd := new_size_usd, pos_collateral_usd := new_collateral_usd,
                 pos_collateral_amount := new_collateral_amount\<rparr>))),
        pbind (on_positions (positions_get_prog shard position_id)) (\<lambda>r. case r of
          None \<Rightarrow> Ret () | Some pos \<Rightarrow> publish_prog Positions (PositionUpdate pos))]"

definition on_order_placed_prog ::
  "(map_key \<Rightarrow> nat) \<Rightarrow> indexed_event \<Rightarrow> hash32 \<Rightarrow> address \<Rightarrow> u16 \<Rightarrow> u8 \<Rightarrow> bool \<Rightarrow> i128 \<Rightarrow> i128 \<Rightarrow> (lock, perf_db, unit) prog" where
  "on_order_placed_prog shard ev order_id user market_id order_type is_long trigger_price size_usd =
     (let order = placed_order ev order_id user market_id order_type is_long trigger_price size_usd
      in seqs
        [on_orders (orders_insert_prog shard order),
         on_users (users_ensure_prog shard user (ie_block_timestamp ev)),
         publish_prog Orders (OrderUpdate order)])"

text \<open>The publication of the order that \<open>execute\<close> or \<open>cancel\<close> returns.\<close>

definition publish_order_prog :: "(lock, perf_db, order option) prog \<Rightarrow> (lock, perf_db, unit) prog" where
  "publish_order_prog p =
     pbind p (\<lambda>r. case r of None \<Rightarrow> Ret () | Some order \<Rightarrow> publish_prog Orders (OrderUpdate order))"

definition on_liquidation_prog ::
  "(map_key \<Rightarrow> nat) \<Rightarrow> indexed_event \<Rightarrow> hash32 \<Rightarrow> address \<Rightarrow> u16 \<Rightarrow> i128 \<Rightarrow> i128 \<Rightarrow> (lock, perf_db, unit) prog" where
  "on_liquidation_prog shard ev position_id user market_id liquidation_price penalty =
     seqs
       [quiet (on_positions (positions_update_prog shard position_id
          (\<lambda>p. p\<lparr>pos_status := PsLiquidated, pos_exit_price := Some liquidation_price,
                 pos_close_tx := Some (ie_tx_hash ev), pos_close_block := Some (ie_block_number ev),
                 pos_closed_at := Some (ie_block_timestamp ev)\<rparr>))),
        on_trader_stats (stats_write shard user (stats_ensure user)),
        on_trader_stats (stats_write shard user (\<lambda>s. snd (increment_trade user 0 (- penalty) 0 False True
          (ie_block_timestamp ev) s))),
        on_trader_stats (stats_write shard user (decrement_open_positions user)),
        publish_prog Liquidations (LiquidationEvent position_id user market_id liquidation_price penalty)]"

text \<open>The last reading of the balance and its publication.\<close>

definition publish_balance_prog :: "(map_key \<Rightarrow> nat) \<Rightarrow> address \<Rightarrow> address \<Rightarrow> (lock, perf_db, unit) prog" where
  "publish_balance_prog shard user token =
     pbind (on_balances (balances_get_prog shard user token)) (\<lambda>r. case r of
       None \<Rightarrow> Ret () | Some bal \<Rightarrow> publish_prog Balances (BalanceUpdateMsg bal))"

text \<open>The balance is read, the new one is computed and written: three separate accesses.\<close>

definition on_collateral_deposited_prog ::
  "(map_key \<Rightarrow> nat) \<Rightarrow> indexed_event \<Rightarrow> address \<Rightarrow> address \<Rightarrow> i128 \<Rightarrow> (lock, perf_db, unit) prog" where
  "on_collateral_deposited_prog shard ev user token amount =
     pseq (on_users (users_ensure_prog shard user (ie_block_timestamp ev)))
       (pbind (on_balances (balances_get_prog shard user token)) (\<lambda>existing.
         let new_amount = (case existing of None \<Rightarrow> amount | Some b \<Rightarrow> bal_amount b + amount);
             new_locked = (case existing of None \<Rightarrow> 0 | Some b \<Rightarrow> bal_locked b)
         in pseq (on_balances (balances_set_prog shard \<lparr>bal_user_address = user, bal_token = token,
                bal_amount = new_amount, bal_locked = new_locked, bal_available = new_amount - new_locked\<rparr>))
              (publish_balance_prog shard user token)))"

definition on_collateral_withdrawn_prog ::
  "(map_key \<Rightarrow> nat) \<Rightarrow> address \<Rightarrow> address \<Rightarrow> i128 \<Rightarrow> (lock, perf_db, unit) prog" where
  "on_collateral_withdrawn_prog shard user token amount =
     pbind (on_balances (balances_get_prog shard user token)) (\<lambda>existing.
       let new_amount = (case existing of None \<Rightarrow> 0 | Some b \<Rightarrow> max (bal_amount b - amount) 0);
           new_locked = (case existing of None \<Rightarrow> 0 | Some b \<Rightarrow> bal_locked b)
       in pseq (on_balances (balances_set_prog shard \<lparr>bal_user_address = user, bal_token = token,
              bal_amount = new_amount, bal_locked = new_locked, bal_available = max (new_amount - new_locked) 0\<rparr>))
            (publish_balance_prog shard user token))"

fun handle_event_prog :: "(map_key \<Rightarrow> nat) \<Rightarrow> indexed_event \<Rightarrow> event \<Rightarrow> (lock, perf_db, unit) prog" where
  "handle_event_prog shard ev (PositionOpened pid user mid lng sz lev price token amt) =
     on_position_opened_prog shard ev pid user mid lng sz lev price token amt"
| "handle_event_prog shard ev (PositionClosed pid user mid sz price pnl full) =
     on_position_closed_prog shard ev pid user mid sz price pnl full"
| "handle_event_prog shard ev (PositionModified pid sz col amt) = on_position_modified_prog shard pid sz col amt"
| "handle_event_prog shard ev (OrderPlaced oid user mid ty lng price sz) =
     on_order_placed_prog shard ev oid user mid ty lng price sz"
| "handle_event_prog shard ev (OrderExecuted oid pid price) =
     publish_order_prog (on_orders (orders_execute_prog shard oid price pid (ie_block_timestamp ev)))"
| "handle_event_prog shard ev (OrderCancelled oid _) = publish_order_prog (on_orders (orders_cancel_prog shard oid))"
| "handle_event_prog shard ev (Liquidation pid user mid price pen _) = on_liquidation_prog shard ev pid user mid price pen"
| "handle_event_prog shard ev (FundingRateUpdated mid rate rate24) =
     pseq (on_market (set_funding_rate_prog mid rate rate24)) (publish_prog Funding (FundingUpdate mid rate rate24))"
| "handle_event_prog shard ev (CollateralDeposited user token amt) = on_collateral_deposited_prog shard ev user token amt"
| "handle_event_prog shard ev (CollateralWithdrawn user token amt) = on_collateral_withdrawn_prog shard user token amt"
| "handle_event_prog shard ev (VaultCreated user vault) =
     pseq (on_users (users_ensure_prog shard user (ie_block_timestamp ev))) (on_users (users_set_vault_prog shard user vault))"
| "handle_event_prog shard ev (MarketPaused mid) = on_market (set_paused_prog mid True)"
| "handle_event_prog shard ev _ = Ret ()"

text \<open>\<open>self.wal.lock().append(..)\<close>: the guard is dropped at the end of the statement.\<close>

definition wal_append_prog ::
  "(wal_entry \<Rightarrow> u8 list option) \<Rightarrow> (u8 list \<Rightarrow> u32) \<Rightarrow> bool \<Rightarrow> wal_entry \<Rightarrow> (lock, perf_db, unit result) prog" where
  "wal_append_prog ser crc due entry =
     guarded WalLock ExclusiveMode (act (\<lambda>db. let (r, w) = wal_append ser crc due entry (db_wal db) in (r, db\<lparr>db_wal := w\<rparr>)))"

text \<open>What follows the log entry of an event.\<close>

definition event_body :: "(map_key \<Rightarrow> nat) \<Rightarrow> indexed_event \<Rightarrow> (lock, perf_db, unit) prog" where
  "event_body shard ev =
     seqs [append_event_prog ev, handle_event_prog shard ev (ie_event ev), on_checkpoint (advance_block_prog (ie_block_number ev))]"

definition process_event_prog ::
  "(wal_entry \<Rightarrow> u8 list option) \<Rightarrow> (u8 list \<Rightarrow> u32) \<Rightarrow> (map_key \<Rightarrow> nat) \<Rightarrow> bool \<Rightarrow> indexed_event \<Rightarrow>
     (lock, perf_db, unit result) prog" where
  "process_event_prog ser crc shard due ev =
     pbind (wal_append_prog ser crc due (WalIndexedEvent ev)) (\<lambda>r. case r of
       Inl e \<Rightarrow> Ret (Inl e)
     | Inr _ \<Rightarrow> pseq (event_body shard ev) (Ret (Inr ())))"

lemma run_handle_event:
  "run (handle_event_prog shard ev e) db =
    ((), db\<lparr>db_stores := fst (handle_event ev e (db_stores db, db_pubsub db)),
            db_pubsub := snd (handle_event ev e (db_stores db, db_pubsub db))\<rparr>)"
  apply (cases e)
  apply (simp_all add: run_on_stores run_positions run_users run_stats run_market run_orders run_balances publish_prog_def
      on_position_opened_prog_def on_position_closed_prog_def on_position_modified_prog_def on_order_placed_prog_def
      publish_order_prog_def on_liquidation_prog_def publish_balance_prog_def on_collateral_deposited_prog_def
      on_collateral_withdrawn_prog_def
      on_position_opened_def on_position_closed_def on_position_modified_def on_order_placed_def
      on_order_executed_def on_order_cancelled_def on_liquidation_def on_funding_rate_updated_def publish_def publish_balance_def
      on_collateral_deposited_def on_collateral_withdrawn_def on_vault_created_def on_market_paused_def
      balances_set_raw_def Let_def split_beta split: option.splits)
  done

lemma run_append_event: "run (append_event_prog ev) db = ((), db\<lparr>db_stores := append_event ev (db_stores db)\<rparr>)"
  by (simp add: append_event_prog_def append_event_def run_on_stores run_events_append split_beta Let_def)

lemma run_event_body:
  "run (event_body shard ev) db =
    ((), db\<lparr>db_stores := fst (apply_event ev (db_stores db, db_pubsub db)),
            db_pubsub := snd (apply_event ev (db_stores db, db_pubsub db))\<rparr>)"
  by (simp add: event_body_def run_append_event run_handle_event run_on_stores run_checkpoint apply_event_def split_beta Let_def)

lemma run_wal_append:
  "run (wal_append_prog ser crc due entry) db =
    (fst (wal_append ser crc due entry (db_wal db)), db\<lparr>db_wal := snd (wal_append ser crc due entry (db_wal db))\<rparr>)"
  by (simp add: wal_append_prog_def split_beta Let_def)

lemma run_process_event: "run (process_event_prog ser crc shard due ev) db = process_event ser crc due ev db"
  by (simp add: process_event_prog_def process_event_def run_wal_append run_event_body split_beta Let_def
      split: sum.splits prod.splits)

section \<open>Price ticks\<close>

definition tick_store_append_prog :: "price_tick \<Rightarrow> (lock, perf_db, unit result option) prog" where
  "tick_store_append_prog tick =
     guarded TickStoreLock ExclusiveMode (act (\<lambda>db. case tick_store_append tick (db_tick_store db) of
         None \<Rightarrow> (None, db)
       | Some (r, ts) \<Rightarrow> (Some r, db\<lparr>db_tick_store := ts\<rparr>)))"

definition on_tick_prog :: "price_tick \<Rightarrow> (lock, perf_db, candle_output list) prog" where
  "on_tick_prog tick =
     guarded CandleBuilderLock ExclusiveMode (act (\<lambda>db. let (outputs, b) = on_tick tick (db_candle_builder db)
       in (outputs, db\<lparr>db_candle_builder := b\<rparr>)))"

text \<open>The block that holds the candle store while the closed candles are appended.\<close>

definition append_closed_prog :: "candle_output list \<Rightarrow> (lock, perf_db, unit result option) prog" where
  "append_closed_prog outputs =
     guarded CandleStoreLock ExclusiveMode (act (\<lambda>db. case append_closed outputs (db_candle_store db) of
         None \<Rightarrow> (None, db)
       | Some (r, cs) \<Rightarrow> (Some r, db\<lparr>db_candle_store := cs\<rparr>)))"

text \<open>What follows the log entry of a tick; \<open>None\<close> is a panic.\<close>

definition tick_body :: "price_tick \<Rightarrow> (lock, perf_db, candle_output list result option) prog" where
  "tick_body tick =
     pbind (tick_store_append_prog tick) (\<lambda>r. case r of
       None \<Rightarrow> Ret None
     | Some (Inl e) \<Rightarrow> Ret (Some (Inl e))
     | Some (Inr _) \<Rightarrow>
         pseq (on_market (set_price_prog (tick_market_id tick) (tick_price tick) (tick_timestamp_ns tick)))
        (pbind (on_tick_prog tick) (\<lambda>outputs.
         pbind (append_closed_prog outputs) (\<lambda>r. case r of
           None \<Rightarrow> Ret None
         | Some (Inl e) \<Rightarrow> Ret (Some (Inl e))
         | Some (Inr _) \<Rightarrow>
             pseq (publish_prog Prices (PriceUpdate (tick_market_id tick) (tick_price tick) (tick_timestamp_ns tick)))
                  (Ret (Some (Inr outputs)))))))"

definition ingest_tick_prog ::
  "(wal_entry \<Rightarrow> u8 list option) \<Rightarrow> (u8 list \<Rightarrow> u32) \<Rightarrow> bool \<Rightarrow> price_tick \<Rightarrow> (lock, perf_db, candle_output list result option) prog" where
  "ingest_tick_prog ser crc due tick =
     pbind (wal_append_prog ser crc due
        (WalPriceTick (tick_timestamp_ns tick) (tick_market_id tick) (tick_price tick))) (\<lambda>r. case r of
       Inl e \<Rightarrow> Ret (Some (Inl e))
     | Inr _ \<Rightarrow> tick_body tick)"

text \<open>A panic ends the run of the sequential model, which does not say what it leaves behind.\<close>

definition panicking_result :: "'a option \<times> 's \<Rightarrow> ('a \<times> 's) option" where
  "panicking_result x = map_option (\<lambda>r. (r, snd x)) (fst x)"

lemma run_ingest_tick: "panicking_result (run (ingest_tick_prog ser crc due tick) db) = ingest_tick ser crc due tick db"
  by (simp add: ingest_tick_prog_def tick_body_def ingest_tick_def run_wal_append tick_store_append_prog_def on_tick_prog_def
      append_closed_prog_def publish_prog_def panicking_result_def run_on_stores run_market split_beta Let_def
      split: sum.splits option.splits prod.splits)

section \<open>The log, the checkpoint and the leaderboards\<close>

definition sync_wal_prog :: "(lock, perf_db, unit) prog" where
  "sync_wal_prog = locked_write WalLock sync_wal"

definition save_checkpoint_prog :: "u64 \<Rightarrow> string \<Rightarrow> u64 \<Rightarrow> (lock, perf_db, unit) prog" where
  "save_checkpoint_prog block hash timestamp = on_checkpoint (checkpoint_save_prog block hash timestamp)"

definition rebuild_leaderboard_prog :: "(map_key \<Rightarrow> nat) \<Rightarrow> address list \<Rightarrow> u64 \<Rightarrow> (lock, perf_db, unit) prog" where
  "rebuild_leaderboard_prog shard ks now =
     pbind (on_trader_stats (stats_all_prog shard ks)) (\<lambda>all_stats.
       zoom db_leaderboard db_leaderboard_update (leaderboard_rebuild_prog all_stats now))"

lemma run_maintenance:
  "run sync_wal_prog db = ((), sync_wal db)"
  "run (save_checkpoint_prog block hash timestamp) db = ((), save_checkpoint block hash timestamp db)"
  "run (rebuild_leaderboard_prog shard ks now) db = ((), rebuild_leaderboard ks now db)"
  by (simp_all add: sync_wal_prog_def save_checkpoint_prog_def save_checkpoint_def rebuild_leaderboard_prog_def
      rebuild_leaderboard_def run_on_stores run_checkpoint run_stats run_zoom lens_def)

end
