(* ===== verification/Concurrent_Calls.thy ===== *)
theory Concurrent_Calls
  imports Concurrent_Engine
begin

text \<open>
  The snapshot and the shutdown as programs, the reads that hold two locks, and the calls that the threads of a
  process make. All calls take their locks in the order of \<open>lock_rank\<close>.
\<close>

section \<open>Snapshot and shutdown\<close>

primrec daily_entries_prog :: "(map_key \<Rightarrow> nat) \<Rightarrow> snapshot_orders \<Rightarrow> trader_stats list \<Rightarrow> (lock, perf_db, daily_stats_entry list) prog" where
  "daily_entries_prog shard io [] = Ret []"
| "daily_entries_prog shard io (ts # rest) =
     pbind (on_daily_stats (trader_daily_history_prog shard (so_daily io (ts_address ts)) (ts_address ts) 1000)) (\<lambda>history.
     pbind (daily_entries_prog shard io rest) (\<lambda>entries.
       Ret (map (\<lambda>ds. \<lparr>de_address = ts_address ts, de_stats = ds\<rparr>) history @ entries)))"

primrec market_states_prog :: "market_id list \<Rightarrow> (lock, perf_db, snapshot_market_state list) prog" where
  "market_states_prog [] = Ret []"
| "market_states_prog (m # ms) =
     pbind (on_market (market_snapshot_prog m)) (\<lambda>r. pbind (market_states_prog ms) (\<lambda>rest.
       Ret (case r of None \<Rightarrow> rest | Some sn \<Rightarrow> snapshot_market_state_of sn # rest)))"

text \<open>
  \<open>PerfDb::snapshot\<close> reads one store after the other, without a lock around the whole: the checkpoint first, then
  what follows here.
\<close>

definition snapshot_stores_prog ::
  "(state_snapshot \<Rightarrow> u8 list option) \<Rightarrow> (map_key \<Rightarrow> nat) \<Rightarrow> snapshot_orders \<Rightarrow> checkpoint_snapshot \<Rightarrow>
     (lock, perf_db, string result) prog" where
  "snapshot_stores_prog ser shard io cp =
     pbind (on_trader_stats (stats_all_prog shard (so_daily_traders io))) (\<lambda>traders.
     pbind (daily_entries_prog shard io traders) (\<lambda>daily.
     pbind (market_states_prog all_markets) (\<lambda>markets.
     pbind (on_positions (positions_all_prog shard (so_positions io))) (\<lambda>positions.
     pbind (on_orders (orders_all_prog shard (so_orders io))) (\<lambda>orders.
     pbind (on_balances (balances_all_prog shard (so_balances io))) (\<lambda>balances.
     pbind (on_users (users_all_prog shard (so_users io))) (\<lambda>users.
     pbind (on_trader_stats (stats_all_prog shard (so_trader_stats io))) (\<lambda>stats.
     pbind (on_checkpoint (reads cp_last_block_timestamp)) (\<lambda>timestamp.
       act (\<lambda>db. let (r, d) = write_snapshot ser
           \<lparr>ss_checkpoint = snapshot_checkpoint_of cp, ss_positions = positions, ss_orders = orders,
            ss_balances = balances, ss_users = users, ss_trader_stats = stats, ss_daily_stats = daily,
            ss_market_states = markets, ss_snapshot_timestamp = timestamp\<rparr> (db_snapshots db)
         in (r, db\<lparr>db_snapshots := d\<rparr>)))))))))))"

definition db_snapshot_prog ::
  "(state_snapshot \<Rightarrow> u8 list option) \<Rightarrow> (map_key \<Rightarrow> nat) \<Rightarrow> snapshot_orders \<Rightarrow> (lock, perf_db, string result) prog" where
  "db_snapshot_prog ser shard io = pbind (on_checkpoint checkpoint_snapshot_prog) (snapshot_stores_prog ser shard io)"

text \<open>The candle store is locked while the builder is.\<close>

definition flush_candles_prog :: "(lock, perf_db, unit result option) prog" where
  "flush_candles_prog =
     guarded CandleBuilderLock ExclusiveMode (guarded CandleStoreLock ExclusiveMode
       (act (\<lambda>db. case append_candles (builder_flush_all (db_candle_builder db)) (db_candle_store db) of
           None \<Rightarrow> (None, db)
         | Some (r, cs) \<Rightarrow> (Some r, db\<lparr>db_candle_store := cs\<rparr>))))"

definition perf_db_shutdown_prog ::
  "(state_snapshot \<Rightarrow> u8 list option) \<Rightarrow> (map_key \<Rightarrow> nat) \<Rightarrow> snapshot_orders \<Rightarrow> (lock, perf_db, unit result option) prog" where
  "perf_db_shutdown_prog ser shard io =
     pbind flush_candles_prog (\<lambda>r. case r of
       None \<Rightarrow> Ret None
     | Some (Inl e) \<Rightarrow> Ret (Some (Inl e))
     | Some (Inr _) \<Rightarrow>
         pseq (locked_write TickStoreLock id)
        (pseq sync_wal_prog
        (pbind (db_snapshot_prog ser shard io) (\<lambda>r. Ret (Some (map_sum (\<lambda>e. e) (\<lambda>_. ()) r))))))"

lemma run_daily_entries:
  "run (daily_entries_prog shard io traders) db =
    (concat (map (\<lambda>ts. map (\<lambda>ds. \<lparr>de_address = ts_address ts, de_stats = ds\<rparr>)
       (trader_daily_history (so_daily io (ts_address ts)) (st_daily_stats (db_stores db)) (ts_address ts) 1000)) traders), db)"
  by (induction traders) (simp_all add: run_on_stores run_stats)

lemma run_market_states:
  "run (market_states_prog ms) db =
    (List.map_filter (\<lambda>m. map_option snapshot_market_state_of (market_snapshot_of (st_market_state (db_stores db)) m)) ms, db)"
  by (induction ms) (simp_all add: run_on_stores run_market map_filter_simps split: option.splits)

lemma run_snapshot_stores:
  "run (snapshot_stores_prog ser shard io cp) db =
    (let (r, d) = write_snapshot ser ((state_snapshot_of io (db_stores db))\<lparr>ss_checkpoint := snapshot_checkpoint_of cp\<rparr>) (db_snapshots db)
     in (r, db\<lparr>db_snapshots := d\<rparr>))"
  by (simp add: snapshot_stores_prog_def state_snapshot_of_def run_on_stores run_checkpoint run_stats
      run_positions run_orders run_balances run_users run_daily_entries run_market_states daily_entries_def stats_all_def Let_def)

lemma run_snapshot: "run (db_snapshot_prog ser shard io) db = db_snapshot ser io db"
  by (simp add: db_snapshot_prog_def run_snapshot_stores db_snapshot_def run_on_stores run_checkpoint)
     (simp add: state_snapshot_of_def Let_def)

lemma run_shutdown: "panicking_result (run (perf_db_shutdown_prog ser shard io) db) = perf_db_shutdown ser io db"
  by (simp add: perf_db_shutdown_prog_def perf_db_shutdown_def flush_candles_prog_def panicking_result_def
      run_maintenance run_snapshot split_beta Let_def split: option.splits sum.splits prod.splits)

section \<open>Calls\<close>

text \<open>
  The calls of the threads: the operations of the engine, the removals from the tables, and the reads, which go
  through the public fields. \<open>snapshot_orders\<close> and the functions on sets are orders of iteration.
\<close>

text \<open>\<open>MarketStateTable::all_prices\<close>: one load per slot.\<close>

primrec price_loads :: "nat list \<Rightarrow> (lock, market_state_table, (market_id \<times> f64) list) prog" where
  "price_loads [] = Ret []"
| "price_loads (i # is) =
     pbind (reads (\<lambda>t. F64 (sl_latest_price_bits (t ! i)))) (\<lambda>price. pbind (price_loads is) (\<lambda>rest.
       Ret (if \<not> f64_eq price f64_zero then (word_of_nat i, price) # rest else rest)))"

definition all_prices_prog :: "(lock, market_state_table, (market_id \<times> f64) list) prog" where
  "all_prices_prog = pbind (reads length) (\<lambda>n. price_loads [0..<n])"

lemma run_price_loads:
  "run (price_loads is) t = (List.map_filter (\<lambda>(i, slot). let price = F64 (sl_latest_price_bits slot) in
     if \<not> f64_eq price f64_zero then Some (word_of_nat i, price) else None) (map (\<lambda>i. (i, t ! i)) is), t)"
  by (induction "is") (simp_all add: map_filter_simps Let_def)

lemma run_all_prices: "run all_prices_prog t = (all_prices t, t)"
proof -
  have "map (\<lambda>i. (i, t ! i)) [0..<length t] = enumerate 0 t"
    by (rule nth_equalityI) (simp_all add: nth_enumerate_eq)
  then show ?thesis by (simp add: all_prices_prog_def run_price_loads all_prices_def)
qed

lemma disciplined_all_prices: "disciplined all_prices_prog"
proof -
  have loads: "disciplined (price_loads is)" for "is"
    by (induction "is") (simp_all add: ordered_seq)
  show ?thesis unfolding all_prices_prog_def by (rule disciplined_rules loads | simp)+
qed

text \<open>
  \<open>OrderTable::orderbook\<close> hands a read guard of the book to its caller. The program is a caller that looks at the book and drops the
  guard; one that keeps the guard while it makes another call of the engine is not modelled (it can block itself).
\<close>

definition orders_orderbook_prog :: "market_id \<Rightarrow> (lock, order_table, orderbook option) prog" where
  "orders_orderbook_prog market =
     pbind (reads (\<lambda>t. length (ot_orderbooks t))) (\<lambda>n.
       if unat market < n then locked_read (BookLock (unat market)) (\<lambda>t. orders_orderbook t market) else Ret None)"

lemma run_orders_orderbook: "run (orders_orderbook_prog market) t = (orders_orderbook t market, t)"
  by (simp add: orders_orderbook_prog_def orders_orderbook_def)

lemma disciplined_orderbook: "disciplined (orders_orderbook_prog market)"
  unfolding orders_orderbook_prog_def by (rule disciplined_rules disciplined_maps | simp)+

text \<open>
  The calls of a client: the operations of \<open>PerfDb\<close>, and those of its public stores that it makes directly. Not among
  them are the stores of alerts, keys and competitions, and the updates by a closure of the client, which runs under a lock.
\<close>

datatype engine_call =
    CallTick bool price_tick
  | CallEvent bool indexed_event
  | CallSync
  | CallCheckpoint u64 string u64
  | CallLeaderboard "address list" u64
  | CallSnapshot snapshot_orders
  | CallShutdown snapshot_orders
  | CallRemovePosition hash32
  | CallRemoveOrder hash32
  | CallRemoveBalance address address
  | CallTicks market_id
  | CallCandles market_id timeframe
  | CallLiveCandle market_id timeframe
  | CallTickCount market_id
  | CallLatestTick market_id
  | CallCandleCount market_id timeframe
  | CallLatestPrice market_id
  | CallAllPrices
  | CallPnlBoard nat
  | CallVolumeBoard nat
  | CallMarketSnapshot market_id
  | CallPositionsByUser "hash32 set \<Rightarrow> hash32 list" address
  | CallPositionsByMarket "hash32 set \<Rightarrow> hash32 list" u16
  | CallOrdersByUser "hash32 set \<Rightarrow> hash32 list" address
  | CallUserBalances "address set \<Rightarrow> address list" address
  | CallUserByCode string
  | CallInsertPosition position
  | CallGetPosition hash32
  | CallInsertOrder order
  | CallCancelOrder hash32
  | CallExecuteOrder hash32 i128 hash32 u64
  | CallOrderbook market_id
  | CallSetBalance balance
  | CallGetBalance address address
  | CallUpsertUser user
  | CallSetReferralCode address string
  | CallReadCheckpoint

text \<open>The result of a call is not kept; a call that panics ends its thread.\<close>

abbreviation returns :: "(lock, perf_db, 'a) prog \<Rightarrow> (lock, perf_db, unit option) prog" where
  "returns p \<equiv> pbind p (\<lambda>_. Ret (Some ()))"

abbreviation may_panic :: "(lock, perf_db, 'a option) prog \<Rightarrow> (lock, perf_db, unit option) prog" where
  "may_panic p \<equiv> pbind p (\<lambda>r. Ret (map_option (\<lambda>_. ()) r))"

fun call_prog ::
  "(wal_entry \<Rightarrow> u8 list option) \<Rightarrow> (state_snapshot \<Rightarrow> u8 list option) \<Rightarrow> (u8 list \<Rightarrow> u32) \<Rightarrow> (map_key \<Rightarrow> nat) \<Rightarrow>
     engine_call \<Rightarrow> (lock, perf_db, unit option) prog" where
  "call_prog ser sser crc shard (CallTick due t) = may_panic (ingest_tick_prog ser crc due t)"
| "call_prog ser sser crc shard (CallEvent due ev) = returns (process_event_prog ser crc shard due ev)"
| "call_prog ser sser crc shard CallSync = returns sync_wal_prog"
| "call_prog ser sser crc shard (CallCheckpoint block hash ts) = returns (save_checkpoint_prog block hash ts)"
| "call_prog ser sser crc shard (CallLeaderboard ks now) = returns (rebuild_leaderboard_prog shard ks now)"
| "call_prog ser sser crc shard (CallSnapshot io) = returns (db_snapshot_prog sser shard io)"
| "call_prog ser sser crc shard (CallShutdown io) = may_panic (perf_db_shutdown_prog sser shard io)"
| "call_prog ser sser crc shard (CallRemovePosition pid) = returns (on_positions (positions_remove_prog shard pid))"
| "call_prog ser sser crc shard (CallRemoveOrder oid) = returns (on_orders (orders_remove_prog shard oid))"
| "call_prog ser sser crc shard (CallRemoveBalance user token) = returns (on_balances (balances_remove_prog shard user token))"
| "call_prog ser sser crc shard (CallTicks m) = may_panic (guarded TickStoreLock ExclusiveMode (reads (\<lambda>db. db_ticks db m)))"
| "call_prog ser sser crc shard (CallCandles m tf) = may_panic (guarded CandleStoreLock ExclusiveMode (reads (\<lambda>db. db_candles db m tf)))"
| "call_prog ser sser crc shard (CallLiveCandle m tf) = returns (guarded CandleBuilderLock ExclusiveMode (reads (\<lambda>db. db_live_candle db m tf)))"
| "call_prog ser sser crc shard (CallTickCount m) = returns (guarded TickStoreLock ExclusiveMode (reads (\<lambda>db. db_tick_count db m)))"
| "call_prog ser sser crc shard (CallLatestTick m) = may_panic (guarded TickStoreLock ExclusiveMode (reads (\<lambda>db. db_latest_tick db m)))"
| "call_prog ser sser crc shard (CallCandleCount m tf) = returns (guarded CandleStoreLock ExclusiveMode (reads (\<lambda>db. db_candle_count db m tf)))"
| "call_prog ser sser crc shard (CallLatestPrice m) = returns (reads (\<lambda>db. db_latest_price db m))"
| "call_prog ser sser crc shard CallAllPrices = returns (on_market all_prices_prog)"
| "call_prog ser sser crc shard (CallPnlBoard limit) = returns (guarded PnlBoardLock SharedMode (reads (\<lambda>db. db_pnl_leaderboard db limit)))"
| "call_prog ser sser crc shard (CallVolumeBoard limit) = returns (guarded VolumeBoardLock SharedMode (reads (\<lambda>db. db_volume_leaderboard db limit)))"
| "call_prog ser sser crc shard (CallMarketSnapshot m) = returns (on_market (market_snapshot_prog m))"
| "call_prog ser sser crc shard (CallPositionsByUser order user) = returns (on_positions (positions_by_user_prog shard order user))"
| "call_prog ser sser crc shard (CallPositionsByMarket order m) = returns (on_positions (positions_by_market_prog shard order m))"
| "call_prog ser sser crc shard (CallOrdersByUser order user) = returns (on_orders (orders_by_user_prog shard order user))"
| "call_prog ser sser crc shard (CallUserBalances order user) = returns (on_balances (balances_user_balances_prog shard order user))"
| "call_prog ser sser crc shard (CallUserByCode code) = returns (on_users (users_by_referral_code_prog shard code))"
| "call_prog ser sser crc shard (CallInsertPosition p) = returns (on_positions (positions_insert_prog shard p))"
| "call_prog ser sser crc shard (CallGetPosition pid) = returns (on_positions (positions_get_prog shard pid))"
| "call_prog ser sser crc shard (CallInsertOrder ord) = returns (on_orders (orders_insert_prog shard ord))"
| "call_prog ser sser crc shard (CallCancelOrder oid) = returns (on_orders (orders_cancel_prog shard oid))"
| "call_prog ser sser crc shard (CallExecuteOrder oid price pid ts) = returns (on_orders (orders_execute_prog shard oid price pid ts))"
| "call_prog ser sser crc shard (CallOrderbook m) = returns (on_orders (orders_orderbook_prog m))"
| "call_prog ser sser crc shard (CallSetBalance b) = returns (on_balances (balances_set_prog shard b))"
| "call_prog ser sser crc shard (CallGetBalance user token) = returns (on_balances (balances_get_prog shard user token))"
| "call_prog ser sser crc shard (CallUpsertUser u) = returns (on_users (users_upsert_prog shard u))"
| "call_prog ser sser crc shard (CallSetReferralCode a code) =
     returns (on_users (users_update_prog shard a (\<lambda>u. u\<lparr>usr_referral_code := Some code\<rparr>)))"
| "call_prog ser sser crc shard CallReadCheckpoint = returns (on_checkpoint checkpoint_snapshot_prog)"

section \<open>The order of the locks\<close>

lemma disciplined_seqs: "(\<And>p. p \<in> set ps \<Longrightarrow> disciplined p) \<Longrightarrow> disciplined (seqs ps)"
  by (induction ps) (auto intro!: ordered_seq)

lemma disciplined_on_stores: "disciplined p \<Longrightarrow> disciplined (on_stores get upd p)"
  by (rule ordered_zoom)

lemma disciplined_publish: "disciplined (publish_prog ch msg)"
  by (simp add: publish_prog_def)

lemmas disciplined_stores = disciplined_positions disciplined_orders disciplined_balances disciplined_users
  disciplined_by_code disciplined_checkpoint disciplined_events_append disciplined_stats disciplined_market

lemmas event_progs = on_position_opened_prog_def on_position_closed_prog_def on_position_modified_prog_def
  on_order_placed_prog_def publish_order_prog_def on_liquidation_prog_def publish_balance_prog_def
  on_collateral_deposited_prog_def on_collateral_withdrawn_prog_def

lemma disciplined_handle: "disciplined (handle_event_prog shard ev e)"
  by (cases e) (simp_all only: handle_event_prog.simps event_progs Let_def seqs.simps,
      (rule disciplined_rules disciplined_on_stores disciplined_stores disciplined_publish)+)

lemma disciplined_process_event: "disciplined (process_event_prog ser crc shard due ev)"
  unfolding process_event_prog_def wal_append_prog_def event_body_def append_event_prog_def Let_def seqs.simps
  by (rule disciplined_rules disciplined_on_stores disciplined_stores disciplined_handle)+

lemma disciplined_ingest_tick: "disciplined (ingest_tick_prog ser crc due t)"
  unfolding ingest_tick_prog_def wal_append_prog_def tick_body_def tick_store_append_prog_def on_tick_prog_def append_closed_prog_def
  by (rule disciplined_rules disciplined_on_stores disciplined_stores disciplined_publish)+

lemma disciplined_maintenance:
  "disciplined sync_wal_prog" "disciplined (save_checkpoint_prog block hash ts)" "disciplined (rebuild_leaderboard_prog shard ks now)"
  unfolding sync_wal_prog_def save_checkpoint_prog_def rebuild_leaderboard_prog_def
  by (rule disciplined_rules disciplined_on_stores disciplined_stores ordered_zoom)+

lemma disciplined_snapshot: "disciplined (snapshot_stores_prog sser shard io cp)" "disciplined (db_snapshot_prog sser shard io)"
proof -
  have daily: "disciplined (daily_entries_prog shard io traders)" for traders
    by (induction traders) (simp_all add: ordered_seq disciplined_stats)
  have markets: "disciplined (market_states_prog ms)" for ms
    by (induction ms) (simp_all add: ordered_seq disciplined_market)
  show rest: "disciplined (snapshot_stores_prog sser shard io cp)" for cp
    unfolding snapshot_stores_prog_def
    by (rule disciplined_rules disciplined_on_stores disciplined_stores daily markets)+
  show "disciplined (db_snapshot_prog sser shard io)"
    unfolding db_snapshot_prog_def
    by (rule disciplined_rules disciplined_on_stores disciplined_stores rest)+
qed

lemma disciplined_shutdown: "disciplined (perf_db_shutdown_prog sser shard io)"
proof -
  have flush: "disciplined flush_candles_prog"
    unfolding flush_candles_prog_def by (intro ordered_guarded ordered_act) auto
  show ?thesis
    unfolding perf_db_shutdown_prog_def
    by (rule disciplined_rules flush disciplined_snapshot disciplined_maintenance)+
qed

text \<open>Every call takes its locks in the order of their rank and returns without a lock.\<close>

lemma disciplined_call: "disciplined (call_prog ser sser crc shard c)"
proof -
  have "disciplined (guarded l m (reads g))" for l m and g :: "perf_db \<Rightarrow> 'b"
    by (rule ordered_guarded) auto
  note rules = this disciplined_orderbook disciplined_all_prices disciplined_process_event disciplined_ingest_tick disciplined_maintenance disciplined_snapshot disciplined_shutdown
  show ?thesis
    by (cases c) (simp_all only: call_prog.simps, (rule disciplined_rules rules disciplined_on_stores disciplined_stores)+)
qed

end
