(* ===== verification/Lanes.thy ===== *)
theory Lanes
  imports Interleaving
begin

text \<open>
  Programs on disjoint parts of the state. A state is determined by three views; an action or a program is
  local to a view if what it does and returns depends on that view only and the other two stay as they are. Two
  programs that are local to different views commute.
\<close>

definition local_to :: "('s \<Rightarrow> 'x) \<Rightarrow> ('s \<Rightarrow> 'y) \<Rightarrow> ('s \<Rightarrow> 'z) \<Rightarrow> ('s \<Rightarrow> 'r \<times> 's) \<Rightarrow> bool" where
  "local_to v u w f \<longleftrightarrow>
     (\<forall>s t. v s = v t \<longrightarrow> fst (f s) = fst (f t) \<and> v (snd (f s)) = v (snd (f t))) \<and>
     (\<forall>s. u (snd (f s)) = u s \<and> w (snd (f s)) = w s)"

lemma local_toI:
  assumes "\<And>s t. v s = v t \<Longrightarrow> fst (f s) = fst (f t)" "\<And>s t. v s = v t \<Longrightarrow> v (snd (f s)) = v (snd (f t))"
    and "\<And>s. u (snd (f s)) = u s" "\<And>s. w (snd (f s)) = w s"
  shows "local_to v u w f"
  using assms unfolding local_to_def by blast

lemma local_toD:
  assumes "local_to v u w f"
  shows "v s = v t \<Longrightarrow> fst (f s) = fst (f t)" "v s = v t \<Longrightarrow> v (snd (f s)) = v (snd (f t))"
    "u (snd (f s)) = u s" "w (snd (f s)) = w s"
  using assms unfolding local_to_def by blast+

definition joint :: "('s \<Rightarrow> 'x) \<Rightarrow> ('s \<Rightarrow> 'y) \<Rightarrow> ('s \<Rightarrow> 'z) \<Rightarrow> bool" where
  "joint v u w \<longleftrightarrow> (\<forall>s t. v s = v t \<longrightarrow> u s = u t \<longrightarrow> w s = w t \<longrightarrow> s = t)"

lemma local_commute:
  assumes j: "joint v u w" and f: "local_to v u w f" and g: "local_to u v w g"
  shows "fst (f (snd (g s))) = fst (f s)" "snd (f (snd (g s))) = snd (g (snd (f s)))"
proof -
  have gv: "v (snd (g s)) = v s" and fu: "u (snd (f s)) = u s" by (rule local_toD(3) [OF g]) (rule local_toD(3) [OF f])
  show "fst (f (snd (g s))) = fst (f s)" by (rule local_toD(1) [OF f gv])
  have "v (snd (f (snd (g s)))) = v (snd (g (snd (f s))))"
    using local_toD(2) [OF f gv] local_toD(3) [OF g, of "snd (f s)"] by simp
  moreover have "u (snd (f (snd (g s)))) = u (snd (g (snd (f s))))"
    using local_toD(2) [OF g fu] local_toD(3) [OF f, of "snd (g s)"] by simp
  moreover have "w (snd (f (snd (g s)))) = w (snd (g (snd (f s))))"
    by (simp only: local_toD(4) [OF f] local_toD(4) [OF g])
  ultimately show "snd (f (snd (g s))) = snd (g (snd (f s)))" using j unfolding joint_def by blast
qed

inductive lane :: "('s \<Rightarrow> 'x) \<Rightarrow> ('s \<Rightarrow> 'y) \<Rightarrow> ('s \<Rightarrow> 'z) \<Rightarrow> ('l, 's, 'a) prog \<Rightarrow> bool" for v u w where
  lane_Ret: "lane v u w (Ret a)"
| lane_Act: "local_to v u w f \<Longrightarrow> (\<And>s. lane v u w (fst (f s))) \<Longrightarrow> lane v u w (Act f)"
| lane_Acquire: "lane v u w p \<Longrightarrow> lane v u w (Acquire l m p)"
| lane_Release: "lane v u w p \<Longrightarrow> lane v u w (Release l p)"

inductive_simps lane_simps [simp]:
  "lane v u w (Ret a)" "lane v u w (Act f)" "lane v u w (Acquire l m p)" "lane v u w (Release l p)"

lemma local_bind:
  assumes f: "local_to v u w f" and k: "\<And>a. local_to v u w (k a)"
  shows "local_to v u w (\<lambda>s. k (fst (f s)) (snd (f s)))"
proof (rule local_toI)
  fix s t assume st: "v s = v t"
  note eq = local_toD(1,2) [OF f st]
  show "fst (k (fst (f s)) (snd (f s))) = fst (k (fst (f t)) (snd (f t)))"
    unfolding eq(1) by (rule local_toD(1) [OF k eq(2)])
  show "v (snd (k (fst (f s)) (snd (f s)))) = v (snd (k (fst (f t)) (snd (f t))))"
    unfolding eq(1) by (rule local_toD(2) [OF k eq(2)])
qed (simp_all only: local_toD(3,4) [OF f] local_toD(3,4) [OF k])

lemma local_pure: "local_to v u w (\<lambda>s. (a, s))"
  by (rule local_toI) simp_all

lemma local_result: "local_to v u w f \<Longrightarrow> local_to v u w (\<lambda>s. map_prod h id (f s))"
  using local_bind [of v u w f "\<lambda>a s. (h a, s)"] by (simp add: local_pure map_prod_def split_beta)

lemma lane_run: "lane v u w p \<Longrightarrow> local_to v u w (run p)"
proof (induction rule: lane.induct)
  case (lane_Act f)
  text \<open>What follows differs from state to state, but agrees where the view does.\<close>
  show ?case
  proof (rule local_toI)
    fix s t assume st: "v s = v t"
    note eq = local_toD(1,2) [OF lane_Act(1) st]
    show "fst (run (Act f) s) = fst (run (Act f) t)"
      unfolding run_Act eq(1) by (rule local_toD(1) [OF lane_Act(3) eq(2)])
    show "v (snd (run (Act f) s)) = v (snd (run (Act f) t))"
      unfolding run_Act eq(1) by (rule local_toD(2) [OF lane_Act(3) eq(2)])
  next
    fix s show "u (snd (run (Act f) s)) = u s" "w (snd (run (Act f) s)) = w s"
      by (simp_all only: run_Act local_toD(3,4) [OF lane_Act(3)] local_toD(3,4) [OF lane_Act(1)])
  qed
qed (simp_all add: local_pure)

lemma lane_act: "local_to v u w f \<Longrightarrow> lane v u w (act f)"
  by (simp add: act_def local_result)

lemma lane_pbind: "lane v u w p \<Longrightarrow> (\<And>a. lane v u w (k a)) \<Longrightarrow> lane v u w (pbind p k)"
  by (induction rule: lane.induct) (simp_all add: local_result)

lemma lane_guarded: "lane v u w p \<Longrightarrow> lane v u w (guarded l m p)"
  by (simp add: guarded_def lane_pbind)

lemma lane_reads:
  assumes "\<And>s t. v s = v t \<Longrightarrow> g s = g t"
  shows "lane v u w (reads g)"
  unfolding reads_def
proof (rule lane_act, rule local_toI)
  show "fst (g s, s) = fst (g t, t)" if "v s = v t" for s t unfolding fst_conv by (rule assms [OF that])
  show "v (snd (g s, s)) = v (snd (g t, t))" if "v s = v t" for s t unfolding snd_conv by (rule that)
qed simp_all

lemma lane_writes:
  assumes "\<And>s t. v s = v t \<Longrightarrow> v (f s) = v (f t)" "\<And>s. u (f s) = u s" "\<And>s. w (f s) = w s"
  shows "lane v u w (writes f)"
  unfolding writes_def
proof (rule lane_act, rule local_toI)
  show "v (snd ((), f s)) = v (snd ((), f t))" if "v s = v t" for s t unfolding snd_conv by (rule assms(1) [OF that])
qed (simp_all add: assms(2,3))

lemma lane_case:
  "(x = None \<Longrightarrow> lane v u w p) \<Longrightarrow> (\<And>a. x = Some a \<Longrightarrow> lane v u w (q a)) \<Longrightarrow> lane v u w (case x of None \<Rightarrow> p | Some a \<Rightarrow> q a)"
  "(\<And>e. y = Inl e \<Longrightarrow> lane v u w (f e)) \<Longrightarrow> (\<And>a. y = Inr a \<Longrightarrow> lane v u w (g a)) \<Longrightarrow> lane v u w (case y of Inl e \<Rightarrow> f e | Inr a \<Rightarrow> g a)"
  "(b \<Longrightarrow> lane v u w p) \<Longrightarrow> (\<not> b \<Longrightarrow> lane v u w p') \<Longrightarrow> lane v u w (if b then p else p')"
  "(\<And>a c. z = (a, c) \<Longrightarrow> lane v u w (k a c)) \<Longrightarrow> lane v u w (case z of (a, c) \<Rightarrow> k a c)"
  by (auto split: option.splits sum.splits prod.splits)

text \<open>A program on a part of the state, whose own views are coarser.\<close>

lemma lane_zoom:
  assumes "lane v' u' w' p"
    and "\<And>s t. v s = v t \<Longrightarrow> v' (get s) = v' (get t)"
    and "\<And>s t c d. v s = v t \<Longrightarrow> v' c = v' d \<Longrightarrow> v (upd (\<lambda>_. c) s) = v (upd (\<lambda>_. d) t)"
    and "\<And>s c. u' c = u' (get s) \<Longrightarrow> w' c = w' (get s) \<Longrightarrow> u (upd (\<lambda>_. c) s) = u s"
    and "\<And>s c. u' c = u' (get s) \<Longrightarrow> w' c = w' (get s) \<Longrightarrow> w (upd (\<lambda>_. c) s) = w s"
  shows "lane v u w (zoom get upd p)"
  using assms(1)
proof (induction rule: lane.induct)
  case (lane_Act f)
  have "local_to v u w (\<lambda>s. (zoom get upd (fst (f (get s))), upd (\<lambda>_. snd (f (get s))) s))"
  proof (rule local_toI)
    fix s t assume st: "v s = v t"
    note eq = local_toD(1,2) [OF lane_Act(1) assms(2) [OF st]]
    show "fst (zoom get upd (fst (f (get s))), upd (\<lambda>_. snd (f (get s))) s) =
        fst (zoom get upd (fst (f (get t))), upd (\<lambda>_. snd (f (get t))) t)" by (simp only: fst_conv eq(1))
    show "v (snd (zoom get upd (fst (f (get s))), upd (\<lambda>_. snd (f (get s))) s)) =
        v (snd (zoom get upd (fst (f (get t))), upd (\<lambda>_. snd (f (get t))) t))"
      unfolding snd_conv by (rule assms(3) [OF st eq(2)])
  next
    fix s
    note keep = local_toD(3,4) [OF lane_Act(1), of "get s"]
    show "u (snd (zoom get upd (fst (f (get s))), upd (\<lambda>_. snd (f (get s))) s)) = u s"
      unfolding snd_conv by (rule assms(4) [OF keep])
    show "w (snd (zoom get upd (fst (f (get s))), upd (\<lambda>_. snd (f (get s))) s)) = w s"
      unfolding snd_conv by (rule assms(5) [OF keep])
  qed
  then show ?case using lane_Act(3) by (simp add: split_beta)
qed simp_all

lemma lane_whole: "lane id (\<lambda>_. ()) (\<lambda>_. ()) p"
  by (induction p rule: prog_induct) (auto intro: local_toI)

lemma lane_part:
  assumes "\<And>s t. v s = v t \<Longrightarrow> get s = get t" "\<And>s t c. v s = v t \<Longrightarrow> v (upd (\<lambda>_. c) s) = v (upd (\<lambda>_. c) t)"
    and "\<And>s c. u (upd (\<lambda>_. c) s) = u s" "\<And>s c. w (upd (\<lambda>_. c) s) = w s"
  shows "lane v u w (zoom get upd p)"
proof (rule lane_zoom [OF lane_whole])
  show "id (get s) = id (get t)" if "v s = v t" for s t using assms(1) [OF that] by simp
  show "v (upd (\<lambda>_. c) s) = v (upd (\<lambda>_. d) t)" if "v s = v t" "id c = id d" for s t c d
    using assms(2) [OF that(1), of c] that(2) by simp
qed (rule assms)+

end
