(* ===== verification/Two_Writers.thy ===== *)
theory Two_Writers
  imports Lanes Schedules
begin

text \<open>
  Two writers and any number of readers. Each call of a writer first commits to a part of the state that the
  writers share, in one atomic action, and then works on a part of its own. The interface says no more than that;
  under it, every interleaving of the two ends where a sequential run of the calls ends, in the order
  of their commits.
\<close>

section \<open>The steps of one thread\<close>

inductive tstep :: "('c \<Rightarrow> ('l, 's, unit option) prog) \<Rightarrow> ('l, 's, 'c) thread \<times> 's \<Rightarrow> ('l, 's, 'c) thread \<times> 's \<Rightarrow> bool"
  for code where
  t_call: "tstep code (\<lparr>th_prog = Ret (Some ()), th_held = h, th_queue = c # q\<rparr>, s) (\<lparr>th_prog = code c, th_held = h, th_queue = q\<rparr>, s)"
| t_act: "tstep code (\<lparr>th_prog = Act f, th_held = h, th_queue = q\<rparr>, s) (\<lparr>th_prog = fst (f s), th_held = h, th_queue = q\<rparr>, snd (f s))"
| t_acquire: "tstep code (\<lparr>th_prog = Acquire l m p, th_held = h, th_queue = q\<rparr>, s) (\<lparr>th_prog = p, th_held = (l, m) # h, th_queue = q\<rparr>, s)"
| t_release: "tstep code (\<lparr>th_prog = Release l p, th_held = h, th_queue = q\<rparr>, s)
    (\<lparr>th_prog = p, th_held = filter (\<lambda>x. fst x \<noteq> l) h, th_queue = q\<rparr>, s)"

lemma mstep_thread:
  assumes "mstep code (ts, s) (ts', s')"
  obtains i t' where "i < length ts" "ts' = ts[i := t']" "tstep code (ts ! i, s) (t', s')"
  using assms
proof cases
  case (m_call i h c q)
  then show thesis using that t_call by metis
next
  case (m_act i f h q)
  then show thesis using that t_act by metis
next
  case (m_acquire i l m p h q)
  then show thesis using that t_acquire by metis
next
  case (m_release i l p h q)
  then show thesis using that t_release by metis
qed

text \<open>
  \<open>phase code L p cs t\<close>: the thread has to run \<open>p\<close>, a program of its lane, and to commit the calls \<open>cs\<close>. A call that has
  begun and has not committed counts as still to come.
\<close>

inductive phase :: "('c \<Rightarrow> ('l, 's, unit option) prog) \<Rightarrow> (('l, 's, unit option) prog \<Rightarrow> bool) \<Rightarrow> ('l, 's, unit option) prog \<Rightarrow>
    'c list \<Rightarrow> ('l, 's, 'c) thread \<Rightarrow> bool" for code L where
  committed: "L p \<Longrightarrow> phase code L p q \<lparr>th_prog = p, th_held = h, th_queue = q\<rparr>"
| begun: "code c = p \<or> (\<exists>l m. code c = Acquire l m p) \<Longrightarrow>
    phase code L (Ret (Some ())) (c # q) \<lparr>th_prog = p, th_held = h, th_queue = q\<rparr>"

lemma phase_lane: "phase code (lane v u w) p cs t \<Longrightarrow> lane v u w p"
  by (erule phase.cases) simp_all

lemma phase_of: "phase code (lane v u w) (Ret (Some ())) cs (thread_of cs)"
  unfolding thread_of_def by (rule committed) simp

lemma phase_done:
  assumes "phase code (lane v u w) p cs t" "thread_done t" "\<And>c. c \<in> set cs \<Longrightarrow> \<exists>l m f. code c = Acquire l m (Act f)"
  shows "p = Ret None \<or> p = Ret (Some ()) \<and> cs = []"
  using assms(1)
proof cases
  case (committed h)
  then show ?thesis using assms(2) by (auto simp: thread_done_def split: prog.splits option.splits)
next
  case (begun c q' q h)
  then show ?thesis using assms(2) assms(3) [of c] by (auto simp: thread_done_def)
qed

definition commits :: "('s \<Rightarrow> 'x) \<Rightarrow> ('s \<Rightarrow> 'y) \<Rightarrow> ('s \<Rightarrow> 'z) \<Rightarrow> ('l, 's, 'a) prog \<Rightarrow> bool" where
  "commits v u w p \<longleftrightarrow> (\<exists>l m f. p = Acquire l m (Act f) \<and> local_to w v u f \<and> (\<forall>s. lane v u w (fst (f s))))"

lemma commits_guarded: "local_to w v u f \<Longrightarrow> commits v u w (guarded l m (act f))"
  by (auto simp: commits_def guarded_def act_def map_prod_def split_beta intro: local_bind [where k = "\<lambda>a s. (Release l (Ret a), s)", simplified] local_pure)

lemma commits_pbind: "commits v u w p \<Longrightarrow> (\<And>a. lane v u w (k a)) \<Longrightarrow> commits v u w (pbind p k)"
  by (auto simp: commits_def local_result lane_pbind)

lemma phase_step [consumes 3, case_names stutter work commit]:
  assumes "tstep code (t, s) (t', s')" "phase code (lane v u w) p cs t" "\<forall>c \<in> set cs. commits v u w (code c)"
  obtains (stutter) p' where "phase code (lane v u w) p' cs t'" "s' = s" "run p' = run p"
  | (work) f where "p = Act f" "phase code (lane v u w) (fst (f s)) cs t'" "s' = snd (f s)"
  | (commit) c cs' l m f where "p = Ret (Some ())" "cs = c # cs'" "code c = Acquire l m (Act f)" "local_to w v u f"
      "phase code (lane v u w) (fst (f s)) cs' t'" "s' = snd (f s)"
  using assms(2)
proof cases
  case (committed h)
  show thesis
    using assms(1) unfolding committed
  proof cases
    case (t_call h' c q)
    then have "phase code (lane v u w) p cs t'" using phase.begun [of code c "code c"] by simp
    then show thesis using t_call stutter by blast
  next
    case (t_act f)
    then have "phase code (lane v u w) (fst (f s)) cs t'" using committed(2) by (auto intro!: phase.committed)
    then show thesis using t_act work by blast
  next
    case (t_acquire l m p')
    then have "phase code (lane v u w) p' cs t'" using committed(2) by (auto intro!: phase.committed)
    then show thesis using t_acquire stutter by simp
  next
    case (t_release l p')
    then have "phase code (lane v u w) p' cs t'" using committed(2) by (auto intro!: phase.committed)
    then show thesis using t_release stutter by simp
  qed
next
  case (begun c p' q h)
  obtain l m f where c: "code c = Acquire l m (Act f)" "local_to w v u f" "\<forall>s. lane v u w (fst (f s))"
    using assms(3) begun(2) unfolding commits_def by auto
  show thesis
    using assms(1) unfolding begun(3)
  proof cases
    case (t_act f')
    then have "f' = f" using begun(4) c(1) by auto
    then have "phase code (lane v u w) (fst (f s)) q t'" using t_act c(3) by (auto intro!: phase.committed)
    then show thesis using t_act \<open>f' = f\<close> begun c commit by blast
  next
    case (t_acquire l' m' p'')
    then have "phase code (lane v u w) p cs t'" using begun c(1) phase.begun [of code c p''] by auto
    then show thesis using t_acquire stutter by simp
  qed (use begun(4) c(1) in auto)
qed

section \<open>Sequential runs\<close>

text \<open>The calls one after the other; \<open>None\<close> when one panics.\<close>

fun seq_run :: "('c \<Rightarrow> ('l, 's, unit option) prog) \<Rightarrow> 'c list \<Rightarrow> 's \<Rightarrow> 's option" where
  "seq_run code [] s = Some s"
| "seq_run code (c # cs) s = (case run (code c) s of (None, _) \<Rightarrow> None | (Some _, s') \<Rightarrow> seq_run code cs s')"

lemma seq_run_append: "seq_run code (xs @ ys) s = Option.bind (seq_run code xs s) (seq_run code ys)"
  by (induction xs arbitrary: s) (auto split: option.splits prod.splits)

text \<open>Where two programs under way will end, the first one's panic counting as a panic.\<close>

definition outcome :: "('l, 's, unit option) prog \<Rightarrow> ('l, 's, unit option) prog \<Rightarrow> 's \<Rightarrow> 's option" where
  "outcome p q s = (if fst (run p s) = None then None else Some (snd (run q (snd (run p s)))))"

lemma seq_run_snoc: "seq_run code (zs @ [c]) s0 = Option.bind (seq_run code zs s0) (outcome (code c) (Ret (Some ())))"
proof -
  have "seq_run code [c] s = outcome (code c) (Ret (Some ())) s" for s
    by (auto simp: outcome_def split: prod.splits option.splits)
  then show ?thesis by (simp only: seq_run_append fun_eq_iff cong: Option.bind_cong)
qed

lemma local_swap: "local_to v u w f \<Longrightarrow> local_to v w u f"
  by (rule local_toI; rule local_toD; assumption)

section \<open>The interface\<close>

locale two_writers =
  fixes code :: "'c \<Rightarrow> ('l, 's, unit option) prog" and v :: "'s \<Rightarrow> 'x" and u :: "'s \<Rightarrow> 'y" and w :: "'s \<Rightarrow> 'z"
    and first second reader :: "'c \<Rightarrow> bool"
  assumes views: "joint v u w"
    and first: "first c \<Longrightarrow> commits v u w (code c)"
    and second: "second c \<Longrightarrow> commits u v w (code c)"
    and second_returns: "second c \<Longrightarrow> fst (run (code c) s) \<noteq> None"
    and disjoint: "second c \<Longrightarrow> \<not> first c"
    and reader: "reader c \<Longrightarrow> pure_prog (code c)"
begin

lemma rotations: "joint u v w" "joint v w u" "joint w v u" "joint w u v" "joint u w v"
  using views unfolding joint_def by blast+

text \<open>The state that \<open>lin zs pa ca pb cb s\<close> describes is on its way to the end of the sequential run of \<open>zs\<close>.\<close>

definition lin :: "'s \<Rightarrow> 'c list \<Rightarrow> 'c list \<Rightarrow> 'c list \<Rightarrow> ('l, 's, unit option) prog \<Rightarrow> 'c list \<Rightarrow>
    ('l, 's, unit option) prog \<Rightarrow> 'c list \<Rightarrow> 's \<Rightarrow> bool" where
  "lin s0 xs ys zs pa ca pb cb s \<longleftrightarrow> lane v u w pa \<and> lane u v w pb \<and> fst (run pb s) \<noteq> None \<and>
     (\<forall>c \<in> set ca. first c) \<and> (\<forall>c \<in> set cb. second c) \<and> filter first zs @ ca = xs \<and> filter (\<lambda>c. \<not> first c) zs @ cb = ys \<and>
     seq_run code zs s0 = outcome pa pb s"

lemma lin_first_work:
  assumes l: "lin s0 xs ys zs (Act f) ca pb cb s"
  shows "lin s0 xs ys zs (fst (f s)) ca pb cb (snd (f s))"
proof -
  have f: "local_to v u w f" and pb: "lane u v w pb" using l by (simp_all add: lin_def)
  have "fst (run pb (snd (f s))) = fst (run pb s)" by (rule local_commute(1) [OF rotations(1) lane_run [OF pb] f])
  then show ?thesis using l by (simp add: lin_def outcome_def)
qed

lemma lin_second_work:
  assumes l: "lin s0 xs ys zs pa ca (Act f) cb s"
  shows "lin s0 xs ys zs pa ca (fst (f s)) cb (snd (f s))"
proof -
  have f: "local_to u v w f" and pa: "lane v u w pa" and pb: "lane u v w (Act f)" using l by (simp_all add: lin_def)
  note c = local_commute [OF views lane_run [OF pa] f, of s]
  have "fst (f (snd (run pa s))) = fst (f s)" by (rule local_commute(1) [OF rotations(1) f lane_run [OF pa]])
  then have "outcome pa (fst (f s)) (snd (f s)) = outcome pa (Act f) s" by (simp add: outcome_def c)
  then show ?thesis using l by (simp add: lin_def)
qed

lemma lin_first_commit:
  assumes l: "lin s0 xs ys zs (Ret (Some ())) (c # ca) pb cb s" and c: "code c = Acquire l' m (Act f)" and f: "local_to w v u f"
    and p: "lane v u w (fst (f s))"
  shows "lin s0 xs ys (zs @ [c]) (fst (f s)) ca pb cb (snd (f s))"
proof -
  have pb: "lane u v w pb" and fc: "first c" and zs: "seq_run code zs s0 = Some (snd (run pb s))"
    using l by (simp_all add: lin_def outcome_def)
  have f': "local_to w u v f" using f by (rule local_swap)
  have pb': "local_to u w v (run pb)" using lane_run [OF pb] by (rule local_swap)
  have 1: "fst (f (snd (run pb s))) = fst (f s)" by (rule local_commute(1) [OF rotations(4) f' pb'])
  have 2: "snd (f (snd (run pb s))) = snd (run pb (snd (f s)))" by (rule local_commute(2) [OF rotations(4) f' pb'])
  have 3: "fst (run pb (snd (f s))) = fst (run pb s)" by (rule local_commute(1) [OF rotations(5) pb' f'])
  note 4 = local_commute [OF views lane_run [OF p] lane_run [OF pb], of "snd (f s)"]
  have "seq_run code (zs @ [c]) s0 = outcome (fst (f s)) pb (snd (f s))"
    by (simp add: seq_run_snoc zs c outcome_def 1 2 4)
  then show ?thesis using l p fc 3 by (simp add: lin_def)
qed

lemma lin_second_commit:
  assumes l: "lin s0 xs ys zs pa ca (Ret (Some ())) (c # cb) s" and c: "code c = Acquire l' m (Act f)" and f: "local_to w u v f"
    and p: "lane u v w (fst (f s))"
  shows "lin s0 xs ys (zs @ [c]) pa ca (fst (f s)) cb (snd (f s))"
proof -
  have pa: "lane v u w pa" and sc: "second c" and zs: "seq_run code zs s0 = outcome pa (Ret (Some ())) s"
    using l by (simp_all add: lin_def)
  have f': "local_to w v u f" using f by (rule local_swap)
  have pa': "local_to v w u (run pa)" using lane_run [OF pa] by (rule local_swap)
  have 1: "fst (f (snd (run pa s))) = fst (f s)" by (rule local_commute(1) [OF rotations(3) f' pa'])
  have 2: "snd (f (snd (run pa s))) = snd (run pa (snd (f s)))" by (rule local_commute(2) [OF rotations(3) f' pa'])
  have 3: "fst (run pa (snd (f s))) = fst (run pa s)" by (rule local_commute(1) [OF rotations(2) pa' f'])
  have r: "fst (run (fst (f t)) (snd (f t))) \<noteq> None" for t using second_returns [OF sc, of t] unfolding c run.simps(3) run_Act .
  have "seq_run code (zs @ [c]) s0 = outcome pa (fst (f s)) (snd (f s))"
    using r [of "snd (run pa s)"] by (simp add: seq_run_snoc zs c outcome_def 1 2 3)
  then show ?thesis using l p sc r [of s] disjoint [OF sc] by (simp add: lin_def)
qed

text \<open>A reader's step changes nothing.\<close>

lemma reader_step:
  assumes "tstep code (t, s) (t', s')" "pure_prog (th_prog t)" "\<forall>c \<in> set (th_queue t). reader c"
  shows "s' = s" "pure_prog (th_prog t')" "\<forall>c \<in> set (th_queue t'). reader c"
  using assms by (cases; auto simp: reader)+

inductive lin_config :: "'s \<Rightarrow> 'c list \<Rightarrow> 'c list \<Rightarrow> ('l, 's, 'c) thread list \<times> 's \<Rightarrow> bool" for s0 xs ys where
  "lin s0 xs ys zs pa ca pb cb s \<Longrightarrow> phase code (lane v u w) pa ca ta \<Longrightarrow> phase code (lane u v w) pb cb tb \<Longrightarrow>
    (\<And>r. r \<in> set rs \<Longrightarrow> pure_prog (th_prog r) \<and> (\<forall>c \<in> set (th_queue r). reader c)) \<Longrightarrow>
    lin_config s0 xs ys (ta # tb # rs, s)"

lemma lin_step:
  assumes "lin_config s0 xs ys (ts, s)" "mstep code (ts, s) (ts', s')"
  shows "lin_config s0 xs ys (ts', s')"
  using assms(1)
proof cases
  case (1 zs pa ca pb cb ta tb rs)
  obtain i t' where i: "i < length ts" "ts' = ts[i := t']" and st: "tstep code (ts ! i, s) (t', s')"
    using assms(2) by (rule mstep_thread)
  have ca: "\<forall>c \<in> set ca. commits v u w (code c)" using 1(2) first by (simp add: lin_def)
  have cb: "\<forall>c \<in> set cb. commits u v w (code c)" using 1(2) second by (simp add: lin_def)
  consider "i = 0" | "i = 1" | j where "i = Suc (Suc j)" by (metis One_nat_def not0_implies_Suc)
  then show ?thesis
  proof cases
    assume i0: "i = 0"
    have ts': "ts' = t' # tb # rs" using i 1(1) i0 by simp
    have st: "tstep code (ta, s) (t', s')" using st 1(1) i0 by simp
    from st 1(3) ca show ?thesis
    proof (cases rule: phase_step)
      case (stutter p')
      then have "lin s0 xs ys zs p' ca pb cb s" using 1(2) phase_lane [OF stutter(1)] by (simp add: lin_def outcome_def)
      then show ?thesis unfolding ts' stutter(2) using stutter(1) 1(4,5) by (rule lin_config.intros)
    next
      case (work f)
      then show ?thesis unfolding ts' work(3)
        using lin_first_work [OF 1(2) [unfolded work(1)]] work(2) 1(4,5) by (intro lin_config.intros)
    next
      case (commit c cs' l m f)
      have "lin s0 xs ys (zs @ [c]) (fst (f s)) cs' pb cb (snd (f s))"
        by (rule lin_first_commit [OF 1(2) [unfolded commit(1,2)] commit(3,4) phase_lane [OF commit(5)]])
      then show ?thesis unfolding ts' commit(6) using commit(5) 1(4,5) by (rule lin_config.intros)
    qed
  next
    assume i1: "i = 1"
    have ts': "ts' = ta # t' # rs" using i 1(1) i1 by simp
    have st: "tstep code (tb, s) (t', s')" using st 1(1) i1 by simp
    from st 1(4) cb show ?thesis
    proof (cases rule: phase_step)
      case (stutter p')
      then have "lin s0 xs ys zs pa ca p' cb s" using 1(2) phase_lane [OF stutter(1)] by (simp add: lin_def outcome_def)
      then show ?thesis unfolding ts' stutter(2) using 1(3) stutter(1) 1(5) by (rule lin_config.intros)
    next
      case (work f)
      then show ?thesis unfolding ts' work(3)
        using lin_second_work [OF 1(2) [unfolded work(1)]] 1(3) work(2) 1(5) by (intro lin_config.intros)
    next
      case (commit c cs' l m f)
      have "lin s0 xs ys (zs @ [c]) pa ca (fst (f s)) cs' (snd (f s))"
        by (rule lin_second_commit [OF 1(2) [unfolded commit(1,2)] commit(3,4) phase_lane [OF commit(5)]])
      then show ?thesis unfolding ts' commit(6) using 1(3) commit(5) 1(5) by (rule lin_config.intros)
    qed
  next
    fix j assume j: "i = Suc (Suc j)"
    have ts': "ts' = ta # tb # rs[j := t']" and jl: "j < length rs" using i 1(1) j by simp_all
    have st: "tstep code (rs ! j, s) (t', s')" using st 1(1) j by simp
    have r: "pure_prog (th_prog (rs ! j))" "\<forall>c \<in> set (th_queue (rs ! j)). reader c" using 1(5) [OF nth_mem [OF jl]] by auto
    note r' = reader_step [OF st r]
    have "pure_prog (th_prog t) \<and> (\<forall>c \<in> set (th_queue t). reader c)" if "t \<in> set (rs[j := t'])" for t
      using that set_update_subset_insert [of rs j t'] 1(5) [of t] r'(2,3) by auto
    then show ?thesis unfolding ts' r'(1) using 1(2,3,4) by (intro lin_config.intros)
  qed
qed

lemma lin_start:
  assumes "\<forall>c \<in> set xs. first c" "\<forall>c \<in> set ys. second c" "\<forall>q \<in> set qs. \<forall>c \<in> set q. reader c"
  shows "lin_config s0 xs ys (map thread_of (xs # ys # qs), s0)"
proof -
  have "lin s0 xs ys [] (Ret (Some ())) xs (Ret (Some ())) ys s0" using assms(1,2) by (simp add: lin_def outcome_def)
  moreover have "pure_prog (th_prog r) \<and> (\<forall>c \<in> set (th_queue r). reader c)" if "r \<in> set (map thread_of qs)" for r
    using that assms(3) by (auto simp: thread_of_def)
  ultimately show ?thesis unfolding list.map using phase_of phase_of by (intro lin_config.intros)
qed

lemma lin_reach: "mreach code (ts, s) (ts', s') \<Longrightarrow> lin_config s0 xs ys (ts, s) \<Longrightarrow> lin_config s0 xs ys (ts', s')"
proof (induction "(ts', s')" arbitrary: ts' s' rule: rtranclp_induct)
  case (step c)
  then show ?case using lin_step by (cases c) blast
qed

text \<open>
  At the end of a run both queues are empty and the state is that of a sequential run; only a panic of the first
  writer leaves some of its calls behind.
\<close>

theorem linearized:
  assumes calls: "\<forall>c \<in> set xs. first c" "\<forall>c \<in> set ys. second c" "\<forall>q \<in> set qs. \<forall>c \<in> set q. reader c"
    and run: "mreach code (map thread_of (xs # ys # qs), s0) (ts, s)" and fin: "all_done ts"
  obtains (all) zs where "zs \<in> shuffles xs ys" "seq_run code zs s0 = Some s"
  | (panic) zs k where "zs \<in> shuffles (take k xs) ys" "seq_run code zs s0 = None"
proof -
  have "lin_config s0 xs ys (ts, s)" by (rule lin_reach [OF run lin_start [OF calls]])
  then show thesis
  proof cases
    case (1 zs pa ca pb cb ta tb rs)
    have ca: "\<exists>l m f. code c = Acquire l m (Act f)" if "c \<in> set ca" for c
      using that 1(2) first [of c] unfolding lin_def commits_def by blast
    have cb: "\<exists>l m f. code c = Acquire l m (Act f)" if "c \<in> set cb" for c
      using that 1(2) second [of c] unfolding lin_def commits_def by blast
    have zs: "zs \<in> shuffles (filter first zs) (filter (\<lambda>c. \<not> first c) zs)" by (rule partition_in_shuffles)
    have b: "pb = Ret (Some ())" "cb = []"
      using phase_done [OF 1(4) _ cb] fin 1(1,2) by (auto simp: all_done_def lin_def)
    have "pa = Ret None \<or> pa = Ret (Some ()) \<and> ca = []"
      using phase_done [OF 1(3) _ ca] fin 1(1) by (auto simp: all_done_def)
    then show thesis
    proof
      assume a: "pa = Ret None"
      have "filter first zs = take (length (filter first zs)) xs" using 1(2) by (auto simp: lin_def)
      with zs 1(2) b have "zs \<in> shuffles (take (length (filter first zs)) xs) ys" by (simp add: lin_def)
      then show thesis by (rule panic) (use 1(2) a in \<open>simp add: lin_def outcome_def\<close>)
    next
      assume a: "pa = Ret (Some ()) \<and> ca = []"
      have "zs \<in> shuffles xs ys" using zs 1(2) a b by (simp add: lin_def)
      then show thesis by (rule all) (use 1(2) a b in \<open>simp add: lin_def outcome_def\<close>)
    qed
  qed
qed

end

end
