(* ===== verification/Engine_Restart.thy ===== *)
theory Engine_Restart
  imports Engine_Lifecycle Wal_Crash Book_Levels
begin

text \<open>
  Restarting from a snapshot and the log behind it. The log is not cut when a snapshot is written: at
  the next start the entries of the blocks that the snapshot covers are skipped, the price ticks among
  them are replayed again, and the later entries are replayed on top.
\<close>

section \<open>States that agree up to the event history and the order inside a level\<close>

definition similar :: "stores \<Rightarrow> stores \<Rightarrow> bool" where
  "similar s t \<longleftrightarrow>
     erase_market (st_market_state s) = erase_market (st_market_state t) \<and>
     erase_positions (st_positions s) = erase_positions (st_positions t) \<and>
     same_orders (st_orders s) (st_orders t) \<and>
     st_balances s = st_balances t \<and> st_users s = st_users t \<and> st_checkpoint s = st_checkpoint t \<and>
     st_trader_stats s = st_trader_stats t \<and> st_daily_stats s = st_daily_stats t"

lemma similar_trans: "similar s t \<Longrightarrow> similar t u \<Longrightarrow> similar s u"
  by (auto simp: similar_def intro: same_orders_trans)

lemma similar_erased: "same_erased s t \<Longrightarrow> similar s t"
  by (simp add: similar_def same_erased_def)

lemma similar_restored:
  assumes "restored s t" "orders_ok (st_orders s)" "few_daily (st_daily_stats s)"
  shows "similar s t"
proof -
  have "same_orders (st_orders s) (st_orders t)"
    using assms(1,2) by (intro orders_ok_same) (simp_all add: restored_def)
  then show ?thesis using assms by (simp add: similar_def restored_def recent_daily_few)
qed

text \<open>The handlers change the books of both states alike.\<close>

lemma handle_books:
  assumes "same_orders r (st_orders s)"
  shows "similar (fst (handle_event ev e (s\<lparr>st_orders := r, st_events := h\<rparr>, bus))) (fst (handle_event ev e (s, bus)))"
proof -
  note ops = same_orders_ops [OF assms]
  have found: "fst (orders_cancel k r) = fst (orders_cancel k (st_orders s))"
    "fst (orders_execute k price pid ts r) = fst (orders_execute k price pid ts (st_orders s))" for k price pid ts
    using assms by (simp_all add: same_orders_def orders_cancel_def orders_execute_def Let_def split: option.split)
  show ?thesis
    using assms
    by (cases e)
       (auto simp: similar_def on_position_opened_def on_position_closed_def on_position_modified_def on_order_placed_def
        on_order_executed_def on_order_cancelled_def on_liquidation_def on_funding_rate_updated_def
        on_collateral_deposited_def on_collateral_withdrawn_def on_vault_created_def on_market_paused_def
        Let_def split_beta ops found split: option.splits)
qed

lemma similar_applied:
  assumes "replayed (ie_event ev)" "b < ie_block_number ev" "similar s t"
  shows "similar (fst (apply_event ev (s, bus))) (replay_wal_entry b (WalIndexedEvent ev) t)"
proof -
  let ?s = "s\<lparr>st_orders := st_orders t, st_events := st_events t\<rparr>"
  have "same_erased ?s t" using assms(3) by (simp add: similar_def same_erased_def)
  then have "similar (fst (apply_event ev (?s, bus))) (replay_wal_entry b (WalIndexedEvent ev) t)"
    by (rule similar_erased [OF replay_applied [OF assms(1,2)]])
  moreover have "append_event ev s =
      (append_event ev ?s)\<lparr>st_orders := st_orders s, st_events := st_events (append_event ev s)\<rparr>"
    by (simp add: append_event_def split_beta Let_def)
  then have "similar (fst (apply_event ev (s, bus))) (fst (apply_event ev (?s, bus)))"
    using handle_books [of "st_orders s" "append_event ev ?s" ev "ie_event ev" "st_events (append_event ev s)" bus] assms(3)
    by (auto simp: apply_event_def split_beta Let_def similar_def append_event_def)
  ultimately show ?thesis by (rule similar_trans [rotated])
qed

lemma similar_priced: "similar s t \<Longrightarrow> similar (priced x s) (priced x t)"
  using erase_market_writes(1) [of "st_market_state s" "st_market_state t"] by (simp add: similar_def priced_def)

section \<open>Price writes\<close>

definition write_price :: "wal_entry \<Rightarrow> market_state_table \<Rightarrow> market_state_table" where
  "write_price e t = (case e of WalPriceTick ts m p \<Rightarrow> set_price m p ts t | _ \<Rightarrow> t)"

text \<open>The last price and time that the entries write for a market.\<close>

definition last_price :: "market_id \<Rightarrow> wal_entry list \<Rightarrow> (f64 \<times> u64) option" where
  "last_price m es = fold (\<lambda>e acc. case e of WalPriceTick ts m' p \<Rightarrow> if m' = m then Some (p, ts) else acc | _ \<Rightarrow> acc) es None"

definition put_price :: "f64 \<times> u64 \<Rightarrow> market_slot \<Rightarrow> market_slot" where
  "put_price pt sl = sl\<lparr>sl_latest_price_bits := f64_bits (fst pt), sl_last_update_ns := snd pt\<rparr>"

lemma last_price_snoc:
  "last_price m (es @ [e]) = (case e of WalPriceTick ts m' p \<Rightarrow> if m' = m then Some (p, ts) else last_price m es | _ \<Rightarrow> last_price m es)"
  by (cases e) (simp_all add: last_price_def)

lemma set_price_put: "slot_at (set_price m p ts t) k = (if k = m then map_option (put_price (p, ts)) (slot_at t k) else slot_at t k)"
  by (cases "slot_at t m") (auto simp: set_price_def slot_at_on_slot put_price_def)

lemma put_put: "put_price a (put_price b sl) = put_price a sl"
  by (simp add: put_price_def)

lemma length_write_prices [simp]: "length (fold write_price es t) = length t"
  by (induction es arbitrary: t) (simp_all add: write_price_def split: wal_entry.splits)

lemma slot_at_write_prices:
  "slot_at (fold write_price es t) m = (case last_price m es of None \<Rightarrow> slot_at t m | Some pt \<Rightarrow> map_option (put_price pt) (slot_at t m))"
proof (induction es rule: rev_induct)
  case (snoc e es)
  then show ?case
    by (cases e) (auto simp: last_price_snoc write_price_def set_price_put put_put option.map_comp comp_def
        split: option.splits)
qed (simp add: last_price_def)

text \<open>The state shows the last prices of the entries.\<close>

definition prices_shown :: "wal_entry list \<Rightarrow> market_state_table \<Rightarrow> bool" where
  "prices_shown es t \<longleftrightarrow> (\<forall>m pt sl. last_price m es = Some pt \<longrightarrow> slot_at t m = Some sl \<longrightarrow> put_price pt sl = sl)"

lemma prices_shown_rewrite:
  assumes "prices_shown es t" "length t = MARKET_COUNT"
  shows "fold write_price es t = t"
proof (rule market_table_eqI)
  show "slot_at (fold write_price es t) m = slot_at t m" for m
    using assms(1) by (auto simp: slot_at_write_prices prices_shown_def split: option.splits)
       (metis (no_types, lifting) map_option_cong option.map_ident_strong option.set_cases)
qed (simp_all add: assms(2))

lemma prices_shown_tick: "prices_shown es t \<Longrightarrow> prices_shown (es @ [WalPriceTick ts m p]) (set_price m p ts t)"
  by (auto simp: prices_shown_def last_price_snoc set_price_put put_price_def split: if_splits)

text \<open>Processing an event writes no price.\<close>

definition price_part :: "market_state_table \<Rightarrow> (u64 \<times> u64) list" where
  "price_part t = map (\<lambda>sl. (sl_latest_price_bits sl, sl_last_update_ns sl)) t"

lemma price_part_inner [simp]: "price_part (on_inner m f t) = price_part t"
  by (auto simp: price_part_def on_inner_def on_slot_def intro!: nth_equalityI simp: nth_list_update)

lemma price_part_handle: "price_part (st_market_state (fst (handle_event ev e l))) = price_part (st_market_state (fst l))"
  by (cases l; cases e)
     (auto simp: on_position_opened_def on_position_closed_def on_position_modified_def on_order_placed_def
      on_order_executed_def on_order_cancelled_def on_liquidation_def on_funding_rate_updated_def
      on_collateral_deposited_def on_collateral_withdrawn_def on_vault_created_def on_market_paused_def
      add_long_oi_def add_short_oi_def set_funding_rate_def set_paused_def Let_def split_beta split: option.splits)

lemma price_part_apply: "price_part (st_market_state (fst (apply_event ev l))) = price_part (st_market_state (fst l))"
proof -
  have "st_market_state (append_event ev s) = st_market_state s" for s
    by (simp add: append_event_def split_beta Let_def)
  then show ?thesis
    using price_part_handle [of ev "ie_event ev" "(append_event ev (fst l), snd l)"]
    by (simp add: apply_event_def split_beta Let_def)
qed

lemma prices_shown_part: "price_part t = price_part u \<Longrightarrow> prices_shown es t \<Longrightarrow> prices_shown es u"
proof -
  assume pp: "price_part t = price_part u" and shown: "prices_shown es t"
  have len: "length t = length u" using arg_cong [OF pp, of length] by (simp add: price_part_def)
  have "put_price pt sl = sl" if "last_price m es = Some pt" "slot_at u m = Some sl" for m pt sl
  proof -
    have m: "unat m < length u" "sl = u ! unat m" using that(2) by (auto simp: slot_at_def split: if_splits)
    then have "slot_at t m = Some (t ! unat m)" using len by (simp add: slot_at_def)
    then have "put_price pt (t ! unat m) = t ! unat m" using shown that(1) by (simp only: prices_shown_def)
    moreover have "sl_latest_price_bits (t ! unat m) = sl_latest_price_bits sl" "sl_last_update_ns (t ! unat m) = sl_last_update_ns sl"
      using arg_cong [OF pp, of "\<lambda>x. x ! unat m"] m len by (simp_all add: price_part_def)
    ultimately show ?thesis by (cases sl; cases "t ! unat m") (simp add: put_price_def)
  qed
  then show "prices_shown es u" by (auto simp: prices_shown_def)
qed

section \<open>The two parts of the log\<close>

text \<open>Inputs before the snapshot, at blocks that it covers; only their prices are replayed.\<close>

fun covered :: "u64 \<Rightarrow> engine_input \<Rightarrow> bool" where
  "covered b (EventIn ev) \<longleftrightarrow> ie_block_number ev \<le> b"
| "covered b (TickIn t) \<longleftrightarrow> price_tick_valid t"

fun covered_entry :: "u64 \<Rightarrow> wal_entry \<Rightarrow> bool" where
  "covered_entry b (WalIndexedEvent ev) \<longleftrightarrow> ie_block_number ev \<le> b"
| "covered_entry b (WalPriceTick ts m p) \<longleftrightarrow> True"
| "covered_entry b _ \<longleftrightarrow> False"

definition covered_state :: "u64 \<Rightarrow> wal_entry list \<Rightarrow> stores \<Rightarrow> bool" where
  "covered_state b es s \<longleftrightarrow> list_all (covered_entry b) es \<and> prices_shown es (st_market_state s)"

lemma replay_covered:
  "list_all (covered_entry b) es \<Longrightarrow>
    fold (replay_wal_entry b) es s = s\<lparr>st_market_state := fold write_price es (st_market_state s)\<rparr>"
proof (induction es arbitrary: s)
  case (Cons e es)
  then show ?case by (cases e) (simp_all add: replay_wal_entry_def write_price_def)
qed simp

interpretation covered: store_tracker "covered b" "covered_state b" for b
proof
  show "covered_state b (es @ [WalIndexedEvent ev]) (fst (apply_event ev (s, bus)))"
    if "covered b (EventIn ev)" "covered_state b es s" for ev es s bus
  proof -
    have "last_price m (es @ [WalIndexedEvent ev]) = last_price m es" for m by (simp add: last_price_snoc)
    then have "prices_shown (es @ [WalIndexedEvent ev]) t = prices_shown es t" for t by (simp add: prices_shown_def)
    moreover have "prices_shown es (st_market_state (fst (apply_event ev (s, bus))))"
      by (rule prices_shown_part [of "st_market_state s"]) (use that in \<open>simp_all add: price_part_apply covered_state_def\<close>)
    ultimately show ?thesis using that by (simp add: covered_state_def)
  qed
  show "covered_state b (es @ [tick_entry t]) (priced t s)"
    if "covered b (TickIn t)" "covered_state b es s" "length (st_market_state s) = MARKET_COUNT" for t es s
    using that prices_shown_tick by (simp add: covered_state_def tick_entry_def priced_def)
qed simp

text \<open>Inputs after the snapshot: replayed on top of what was restored.\<close>

fun later :: "u64 \<Rightarrow> engine_input \<Rightarrow> bool" where
  "later b (EventIn ev) \<longleftrightarrow> replayed (ie_event ev) \<and> b < ie_block_number ev"
| "later b (TickIn t) \<longleftrightarrow> price_tick_valid t"

definition resumed_state :: "u64 \<Rightarrow> wal_entry list \<Rightarrow> stores \<Rightarrow> wal_entry list \<Rightarrow> stores \<Rightarrow> bool" where
  "resumed_state b es0 r es s \<longleftrightarrow> (\<exists>es'. es = es0 @ es' \<and> similar s (fold (replay_wal_entry b) es' r))"

interpretation later: store_tracker "later b" "resumed_state b es0 r" for b es0 r
proof
  show "resumed_state b es0 r (es @ [WalIndexedEvent ev]) (fst (apply_event ev (s, bus)))"
    if l: "later b (EventIn ev)" and st: "resumed_state b es0 r es s" for ev es s bus
  proof -
    obtain es' where es': "es = es0 @ es'" "similar s (fold (replay_wal_entry b) es' r)"
      using st by (auto simp: resumed_state_def)
    have "similar (fst (apply_event ev (s, bus))) (replay_wal_entry b (WalIndexedEvent ev) (fold (replay_wal_entry b) es' r))"
      using l by (intro similar_applied [OF _ _ es'(2)]) simp_all
    then show ?thesis using es'(1) by (auto simp: resumed_state_def intro!: exI [of _ "es' @ [WalIndexedEvent ev]"])
  qed
  show "resumed_state b es0 r (es @ [tick_entry t]) (priced t s)"
    if "later b (TickIn t)" and st: "resumed_state b es0 r es s" and "length (st_market_state s) = MARKET_COUNT" for t es s
  proof -
    obtain es' where es': "es = es0 @ es'" "similar s (fold (replay_wal_entry b) es' r)"
      using st by (auto simp: resumed_state_def)
    have "replay_wal_entry b (tick_entry t) x = priced t x" for x by (simp add: tick_entry_def replay_wal_entry_def priced_def)
    then show ?thesis
      using similar_priced [OF es'(2)] es'(1) by (auto simp: resumed_state_def intro!: exI [of _ "es' @ [tick_entry t]"])
  qed
qed simp

section \<open>A snapshot and the log behind it\<close>

lemma run_inv_sync: "run_inv tr ser crc n es db \<Longrightarrow> run_inv tr ser crc n es (sync_wal db)"
  by (simp add: run_inv_def sync_wal_def series_ok_def wal_holds_sync)

lemma run_inv_snapshot:
  "run_inv tr ser crc n es db \<Longrightarrow> tr' es (db_stores db) \<Longrightarrow> run_inv tr' ser crc n es (snd (db_snapshot sser io db))"
  by (simp add: run_inv_def db_snapshot_def split_beta Let_def series_ok_def)

lemma run_inv_open:
  assumes "perf_db_open sde de crc [] [] [segment_path 0] config empty_data_dir = Some (Inr db0)" "tr [] stores_new"
  shows "run_inv tr ser crc 0 [] db0" "db_snapshots db0 = Map.empty"
  using open_new_inv [OF assms(1)] assms(2) by (auto simp: recovery_inv_def run_inv_def)

lemma restored_replay:
  assumes "restored s r" "covered_state b es s" "length (st_market_state s) = MARKET_COUNT"
  shows "fold (replay_wal_entry b) es r = r"
  using assms prices_shown_rewrite [of es "st_market_state s"]
  by (simp add: replay_covered covered_state_def restored_def)

lemma restart_from_snapshot:
  fixes db1 io
  defines "b \<equiv> cp_last_block (st_checkpoint (db_stores db1))"
    and "snap \<equiv> state_snapshot_of io (db_stores db1)"
  assumes xs1: "\<forall>(due, x) \<in> set xs1. covered b x \<and> entry_codec_ok ser de (input_entry x)"
    and xs2: "\<forall>(due, x) \<in> set xs2. later b x \<and> entry_codec_ok ser de (input_entry x)"
    and lim: "length xs1 + length xs2 < SERIES_LIMIT"
    and db0: "perf_db_open sde de crc [] [] [segment_path 0] config empty_data_dir = Some (Inr db0)"
    and db1: "db_run ser crc xs1 db0 = Some db1"
    and ok: "stores_ok (db_stores db1)" "snapshot_orders_ok io (db_stores db1)"
    and few: "few_daily (st_daily_stats (db_stores db1))"
    and codec: "sser snap = Some p" "sde p = Some snap"
  shows "\<exists>db2. db_run ser crc xs2 (snd (db_snapshot sser io db1)) = Some db2 \<and>
    (\<forall>names. enumerates names (dom (dd_wal (data_dir_of (sync_wal db2)))) \<longrightarrow>
      (\<exists>db3. perf_db_open sde de crc [snapshot_filename b] names names config (data_dir_of (sync_wal db2)) = Some (Inr db3) \<and>
        similar (db_stores db2) (db_stores db3) \<and>
        (\<forall>m. db_ticks db3 m = db_ticks db2 m) \<and> (\<forall>m tf. db_candles db3 m tf = db_candles db2 m tf)))"
proof -
  let ?e1 = "map (\<lambda>y. input_entry (snd y)) xs1" and ?e2 = "map (\<lambda>y. input_entry (snd y)) xs2"
  let ?dbs = "snd (db_snapshot sser io db1)" and ?r = "restore_snapshot snap stores_new"
  have "covered_state b [] stores_new" by (simp add: covered_state_def prices_shown_def last_price_def)
  note new = run_inv_open(1) [where tr = "covered_state b" and ser = ser, OF db0 this]
    run_inv_open(2) [where tr = "covered_state b", OF db0 this]
  have "\<forall>(due, x) \<in> set xs1. covered b x \<and> ser (input_entry x) \<noteq> None" using xs1 entry_codec_ok_ser by fast
  from covered.run [OF new(1) _ this] lim db1 have inv1: "run_inv (covered_state b) ser crc (length xs1) ?e1 db1" by auto
  have snaps: "db_snapshots db1 = Map.empty" using db_run_snapshots [OF db1] new(2) by simp
  have r: "restored (db_stores db1) ?r" unfolding snap_def by (rule restore_snapshot_of [OF ok])
  have "db_snapshots ?dbs = [snapshot_filename b \<mapsto> p]"
    using codec(1) snaps
    by (simp add: snap_def b_def db_snapshot_def write_snapshot_def split_beta Let_def state_snapshot_of_def
        snapshot_checkpoint_of_def checkpoint_snapshot_of_def)
  then have load: "load_latest_snapshot sde [snapshot_filename b] (db_snapshots ?dbs) = Inr (Some snap)"
    using snapshot_and_restore(1) [where db = db1 and io = io and sser = sser and sde = sde and p = p and names = "[snapshot_filename b]"]
      ok codec snaps by (simp add: snap_def snapshot_dir_ok_def enumerates_def)
  have "resumed_state b ?e1 ?r ?e1 (db_stores db1)"
    using similar_restored [OF r _ few] ok(1) by (simp add: resumed_state_def stores_ok_def)
  note inv = run_inv_snapshot [where tr' = "resumed_state b ?e1 ?r", OF inv1 this, of sser io]
  have "\<forall>(due, x) \<in> set xs2. later b x \<and> ser (input_entry x) \<noteq> None" using xs2 entry_codec_ok_ser by fast
  from later.run [OF inv lim this] obtain db2 where db2: "db_run ser crc xs2 ?dbs = Some db2"
    "run_inv (resumed_state b ?e1 ?r) ser crc (length xs1 + length xs2) (?e1 @ ?e2) db2" by auto
  have "db_snapshots (sync_wal db2) = db_snapshots ?dbs" using db_run_snapshots [OF db2(1)] by simp
  then have load2: "load_latest_snapshot sde [snapshot_filename b] (db_snapshots (sync_wal db2)) = Inr (Some snap)"
    using load by simp
  obtain tks cl where s2: "series_ok (length xs1 + length xs2) (sync_wal db2) tks cl"
    and w2: "wal_holds ser crc (?e1 @ ?e2) (db_wal (sync_wal db2))"
    and sim: "similar (db_stores db2) (fold (replay_wal_entry b) ?e2 ?r)"
    using run_inv_sync [OF db2(2)] by (auto simp: run_inv_def resumed_state_def)
  have base: "fold (replay_wal_entry b) ?e1 ?r = ?r"
    by (rule restored_replay [OF r]) (use inv1 in \<open>auto simp: run_inv_def series_ok_def\<close>)
  have cod: "\<forall>e \<in> set (?e1 @ ?e2). entry_codec_ok ser de e" using xs1 xs2 by auto
  have blk: "snapshot_block (Some snap) = b" "snapshot_base (Some snap) = ?r"
    by (simp_all add: snapshot_block_def snapshot_base_def snap_def b_def state_snapshot_of_def Let_def
        snapshot_checkpoint_of_def checkpoint_snapshot_of_def)
  show ?thesis
    using db2(1) sim base open_replays [OF s2 w2 _ _ cod load2 open_bus(1) [OF db0]]
    by (fastforce simp: blk data_dir_of_def)
qed

end
