(* ===== verification/Linearization.thy ===== *)
theory Linearization
  imports Concurrent_Calls Two_Writers Engine_Restart Engine_Lifecycle
begin

text \<open>
  The way the engine is meant to be driven: one thread feeds price ticks, one feeds chain events, any number of
  threads read. Whatever the interleaving of their accesses, the database ends in the state of a run
  of the inputs one after another, in the order of their log entries.
\<close>

section \<open>What ticks and events touch\<close>

definition tick_view ::
  "perf_db \<Rightarrow> tick_store \<times> candle_store \<times> candle_builder \<times> (u64 \<times> u64) list \<times> pubsub_message list" where
  "tick_view db = (db_tick_store db, db_candle_store db, db_candle_builder db,
     price_part (st_market_state (db_stores db)), ps_sent (db_pubsub db) Prices)"

definition event_view :: "perf_db \<Rightarrow> stores \<times> market_inner list \<times> (channel \<Rightarrow> pubsub_message list)" where
  "event_view db = ((db_stores db)\<lparr>st_market_state := []\<rparr>, map sl_inner (st_market_state (db_stores db)),
     (ps_sent (db_pubsub db))(Prices := []))"

definition rest_view :: "perf_db \<Rightarrow> wal_state \<times> perf_db_config \<times> referral_engine \<times> leaderboard \<times> alert_store \<times>
    api_key_store \<times> competition_store \<times> dir \<times> nat" where
  "rest_view db = (db_wal db, db_config db, db_referrals db, db_leaderboard db, db_alerts db, db_api_keys db,
     db_competitions db, db_snapshots db, ps_capacity (db_pubsub db))"

lemma market_table_parts: "price_part t = price_part u \<Longrightarrow> map sl_inner t = map sl_inner u \<Longrightarrow> t = u"
proof (rule nth_equalityI)
  assume p: "price_part t = price_part u" and i: "map sl_inner t = map sl_inner u"
  show len: "length t = length u" using i by (rule map_eq_imp_length_eq)
  fix k assume k: "k < length t"
  have "sl_latest_price_bits (t ! k) = sl_latest_price_bits (u ! k)" "sl_last_update_ns (t ! k) = sl_last_update_ns (u ! k)"
    using arg_cong [OF p, of "\<lambda>x. x ! k"] k len by (simp_all add: price_part_def)
  moreover have "sl_inner (t ! k) = sl_inner (u ! k)" using arg_cong [OF i, of "\<lambda>x. x ! k"] k len by simp
  ultimately show "t ! k = u ! k" by (intro market_slot.equality) simp_all
qed

lemma joint_views: "joint tick_view event_view rest_view"
proof -
  have "s = t" if v: "tick_view s = tick_view t" "event_view s = event_view t" "rest_view s = rest_view t" for s t
  proof -
    have p: "ps_sent (db_pubsub s) Prices = ps_sent (db_pubsub t) Prices" using v(1) by (simp add: tick_view_def)
    have f: "(ps_sent (db_pubsub s))(Prices := []) = (ps_sent (db_pubsub t))(Prices := [])"
      using v(2) by (simp add: event_view_def)
    have "ps_sent (db_pubsub s) c = ps_sent (db_pubsub t) c" for c
      using fun_cong [OF f, of c] p by (cases "c = Prices") simp_all
    moreover have "ps_capacity (db_pubsub s) = ps_capacity (db_pubsub t)" using v(3) by (simp add: rest_view_def)
    ultimately have pubsub: "db_pubsub s = db_pubsub t" by (intro pubsub_bus.equality) auto
    have m: "st_market_state (db_stores s) = st_market_state (db_stores t)"
      using v(1,2) by (intro market_table_parts) (simp_all add: tick_view_def event_view_def)
    have "(db_stores s)\<lparr>st_market_state := []\<rparr> = (db_stores t)\<lparr>st_market_state := []\<rparr>" using v(2) by (simp add: event_view_def)
    from arg_cong [OF this, of "\<lambda>x. x\<lparr>st_market_state := st_market_state (db_stores t)\<rparr>"] m
    have "(db_stores s)\<lparr>st_market_state := st_market_state (db_stores s)\<rparr> = db_stores t" by simp
    then have "db_stores s = db_stores t" by simp
    with pubsub show "s = t" using v(1,3) by (intro perf_db.equality) (simp_all add: tick_view_def rest_view_def)
  qed
  then show ?thesis unfolding joint_def by blast
qed

lemma joint_rotate: "joint v u w \<Longrightarrow> joint u v w" "joint v u w \<Longrightarrow> joint v w u" "joint v u w \<Longrightarrow> joint w v u"
  by (auto simp: joint_def)

abbreviation tick_lane :: "(lock, perf_db, 'a) prog \<Rightarrow> bool" where
  "tick_lane \<equiv> lane tick_view event_view rest_view"

abbreviation event_lane :: "(lock, perf_db, 'a) prog \<Rightarrow> bool" where
  "event_lane \<equiv> lane event_view tick_view rest_view"

lemma nth_price_part: "i < length t \<Longrightarrow> price_part t ! i = (sl_latest_price_bits (t ! i), sl_last_update_ns (t ! i))"
  by (simp add: price_part_def)

lemma length_price_part [simp]: "length (price_part t) = length t"
  by (simp add: price_part_def)

lemma price_part_on_slot:
  "price_part (on_slot m f t) = (if unat m < length t
     then (price_part t)[unat m := (sl_latest_price_bits (f (t ! unat m)), sl_last_update_ns (f (t ! unat m)))] else price_part t)"
  by (simp add: on_slot_def price_part_def map_update)

lemma inner_part_on_slot: "(\<And>s. sl_inner (f s) = sl_inner s) \<Longrightarrow> map sl_inner (on_slot m f t) = map sl_inner t"
  by (simp add: on_slot_def map_update list_update_same_conv)

text \<open>Writing a price in the table: local to the prices.\<close>

lemma price_part_length: "price_part s = price_part t \<Longrightarrow> length s = length t"
  using length_price_part by metis

lemma price_part_write:
  assumes p: "price_part s = price_part t"
    and f: "\<And>a b. sl_latest_price_bits a = sl_latest_price_bits b \<Longrightarrow> sl_last_update_ns a = sl_last_update_ns b \<Longrightarrow>
      sl_latest_price_bits (f a) = sl_latest_price_bits (f b) \<and> sl_last_update_ns (f a) = sl_last_update_ns (f b)"
  shows "price_part (on_slot m f s) = price_part (on_slot m f t)"
proof (cases "unat m < length t")
  case True
  then have "unat m < length s" using price_part_length [OF p] by simp
  moreover have "price_part s ! unat m = price_part t ! unat m" using p by simp
  ultimately have "sl_latest_price_bits (f (s ! unat m)) = sl_latest_price_bits (f (t ! unat m)) \<and>
      sl_last_update_ns (f (s ! unat m)) = sl_last_update_ns (f (t ! unat m))"
    using True by (intro f) (simp_all add: nth_price_part)
  with \<open>unat m < length s\<close> show ?thesis using True p by (simp add: price_part_on_slot)
next
  case False
  then show ?thesis using p price_part_length [OF p] by (simp add: price_part_on_slot)
qed

lemma lane_set_price: "lane price_part (map sl_inner) (\<lambda>_. ()) (set_price_prog m price ns)"
proof -
  have w: "lane price_part (map sl_inner) (\<lambda>_. ()) (writes (on_slot m f))"
    if "f \<in> {sl_latest_price_bits_update (\<lambda>_. f64_bits price), sl_last_update_ns_update (\<lambda>_. ns)}" for f
  proof (rule lane_writes)
    show "price_part (on_slot m f s) = price_part (on_slot m f t)" if "price_part s = price_part t" for s t
      using that by (rule price_part_write) (use \<open>f \<in> _\<close> in auto)
    show "map sl_inner (on_slot m f s) = map sl_inner s" for s
      by (rule inner_part_on_slot) (use that in auto)
  qed simp
  have r: "lane price_part (map sl_inner) (\<lambda>_. ()) (reads length)"
    by (rule lane_reads) (rule price_part_length)
  show ?thesis
    unfolding set_price_prog_def by (intro lane_pbind r lane_case w lane_Ret) auto
qed

text \<open>Writing under the lock of a slot: local to the other fields.\<close>

lemma inner_part_write:
  assumes i: "map sl_inner s = map sl_inner t"
  shows "map sl_inner (on_inner m f s) = map sl_inner (on_inner m f t)"
proof -
  have len: "length s = length t" using i by (rule map_eq_imp_length_eq)
  have "sl_inner (s ! unat m) = sl_inner (t ! unat m)" if "unat m < length t"
    using arg_cong [OF i, of "\<lambda>x. x ! unat m"] that len by simp
  then show ?thesis using i len by (simp add: on_inner_def on_slot_def map_update)
qed

lemma price_part_on_inner: "price_part (on_inner m f t) = price_part t"
  using nth_price_part [of "unat m" t] by (simp add: on_inner_def price_part_on_slot list_update_same_conv)

lemma lane_inner_write: "lane (map sl_inner) price_part (\<lambda>_. ()) (inner_write m f)"
proof -
  have w: "lane (map sl_inner) price_part (\<lambda>_. ()) (writes (on_inner m f))"
    by (rule lane_writes) (rule inner_part_write, assumption, rule price_part_on_inner, rule refl)
  have r: "lane (map sl_inner) price_part (\<lambda>_. ()) (reads length)"
    by (rule lane_reads) (rule map_eq_imp_length_eq)
  show ?thesis
    unfolding inner_write_def locked_write_def by (intro lane_pbind r lane_case lane_guarded w lane_Ret)
qed

lemma tick_lane_market: "lane price_part (map sl_inner) (\<lambda>_. ()) p \<Longrightarrow> tick_lane (on_market p)"
  by (erule lane_zoom) (auto simp: tick_view_def event_view_def rest_view_def)

lemma event_lane_market: "lane (map sl_inner) price_part (\<lambda>_. ()) p \<Longrightarrow> event_lane (on_market p)"
  by (erule lane_zoom) (auto simp: tick_view_def event_view_def rest_view_def)

text \<open>All other stores belong to the events as a whole.\<close>

lemma event_lane_store:
  assumes "\<And>st x. get (st\<lparr>st_market_state := x\<rparr>) = get st"
    and "\<And>st c x. upd (\<lambda>_. c) (st\<lparr>st_market_state := x\<rparr>) = (upd (\<lambda>_. c) st)\<lparr>st_market_state := x\<rparr>"
    and "\<And>st c. st_market_state (upd (\<lambda>_. c) st) = st_market_state st"
  shows "event_lane (on_stores get upd p)"
proof (rule lane_part)
  fix s t assume v: "event_view s = event_view t"
  then have st: "(db_stores s)\<lparr>st_market_state := []\<rparr> = (db_stores t)\<lparr>st_market_state := []\<rparr>" by (simp add: event_view_def)
  show "get (db_stores s) = get (db_stores t)" using arg_cong [OF st, of get] by (simp only: assms(1))
  show "event_view (db_stores_update (upd (\<lambda>_. c)) s) = event_view (db_stores_update (upd (\<lambda>_. c)) t)" for c
    using arg_cong [OF st, of "upd (\<lambda>_. c)"] v by (simp add: event_view_def assms(2,3))
qed (simp_all add: tick_view_def rest_view_def assms(3))

lemma event_lane_stores:
  "event_lane (on_positions p)" "event_lane (on_orders q)" "event_lane (on_balances b)" "event_lane (on_users us)"
  "event_lane (on_checkpoint cp)" "event_lane (on_trader_stats st)" "event_lane (on_daily_stats d)" "event_lane (on_events es)"
  by (rule event_lane_store; simp)+

lemma event_lane_publish:
  assumes "ch \<noteq> Prices"
  shows "event_lane (publish_prog ch msg)"
  unfolding publish_prog_def
proof (rule lane_writes)
  fix s t assume v: "event_view s = event_view t"
  then have f: "(ps_sent (db_pubsub s))(Prices := []) = (ps_sent (db_pubsub t))(Prices := [])" by (simp add: event_view_def)
  have "ps_sent (db_pubsub s) ch = ps_sent (db_pubsub t) ch" using fun_cong [OF f, of ch] assms by simp
  then show "event_view (db_pubsub_update (pubsub_send ch msg) s) = event_view (db_pubsub_update (pubsub_send ch msg) t)"
    using v assms by (simp add: event_view_def pubsub_send_def fun_upd_twist)
qed (use assms in \<open>simp_all add: tick_view_def rest_view_def pubsub_send_def\<close>)

section \<open>The bodies of the two calls\<close>

lemma tick_lane_body: "tick_lane (tick_body t)"
proof -
  have ticks: "tick_lane (tick_store_append_prog t)"
    unfolding tick_store_append_prog_def
    by (intro lane_guarded lane_act local_toI)
      (auto simp: tick_view_def event_view_def rest_view_def split: option.splits)
  have builder: "tick_lane (on_tick_prog t)"
    unfolding on_tick_prog_def
    by (intro lane_guarded lane_act local_toI)
      (auto simp: tick_view_def event_view_def rest_view_def split_beta Let_def)
  have candles: "tick_lane (append_closed_prog outputs)" for outputs
    unfolding append_closed_prog_def
    by (intro lane_guarded lane_act local_toI)
      (auto simp: tick_view_def event_view_def rest_view_def split: option.splits)
  have prices: "tick_lane (publish_prog Prices msg)" for msg
    unfolding publish_prog_def
    by (rule lane_writes) (auto simp: tick_view_def event_view_def rest_view_def pubsub_send_def)
  show ?thesis
    unfolding tick_body_def
    by (rule lane_pbind lane_case lane_Ret ticks builder candles prices tick_lane_market lane_set_price)+
qed

lemma event_lane_body: "event_lane (event_body shard ev)"
proof -
  have market: "event_lane (on_market (add_long_oi_prog m d))" "event_lane (on_market (add_short_oi_prog m d))"
    "event_lane (on_market (set_funding_rate_prog m a b))" "event_lane (on_market (set_paused_prog m p))" for m d a b p
    unfolding add_long_oi_prog_def add_short_oi_prog_def set_funding_rate_prog_def set_paused_prog_def
    by (rule event_lane_market lane_inner_write)+
  have publish: "event_lane (publish_prog Positions msg)" "event_lane (publish_prog Orders msg)"
    "event_lane (publish_prog Liquidations msg)" "event_lane (publish_prog Balances msg)" "event_lane (publish_prog Funding msg)" for msg
    by (rule event_lane_publish, simp)+
  have handle: "event_lane (handle_event_prog shard ev e)" for e
    by (cases e) (simp_all only: handle_event_prog.simps event_progs Let_def seqs.simps if_distrib [of "on_market"],
      (rule lane_pbind lane_case lane_Ret market publish event_lane_stores)+)
  show ?thesis
    unfolding event_body_def append_event_prog_def Let_def seqs.simps
    by (rule lane_pbind lane_case lane_Ret handle event_lane_stores)+
qed

lemma wal_append_local:
  "local_to rest_view tick_view event_view
     (\<lambda>db. let (r, w) = wal_append ser crc due entry (db_wal db) in (r, db\<lparr>db_wal := w\<rparr>))"
  by (rule local_toI) (auto simp: rest_view_def tick_view_def event_view_def split_beta Let_def)

section \<open>The threads\<close>

definition tick_call :: "engine_call \<Rightarrow> bool" where
  "tick_call c \<longleftrightarrow> (case c of CallTick _ _ \<Rightarrow> True | _ \<Rightarrow> False)"

definition event_call :: "engine_call \<Rightarrow> bool" where
  "event_call c \<longleftrightarrow> (case c of CallEvent _ _ \<Rightarrow> True | _ \<Rightarrow> False)"

text \<open>The calls that only read.\<close>

definition read_call :: "engine_call \<Rightarrow> bool" where
  "read_call c \<longleftrightarrow> (case c of CallTicks _ \<Rightarrow> True | CallCandles _ _ \<Rightarrow> True | CallLiveCandle _ _ \<Rightarrow> True
     | CallMarketSnapshot _ \<Rightarrow> True | CallPositionsByUser _ _ \<Rightarrow> True | CallPositionsByMarket _ _ \<Rightarrow> True
     | CallTickCount _ \<Rightarrow> True | CallLatestTick _ \<Rightarrow> True | CallCandleCount _ _ \<Rightarrow> True | CallLatestPrice _ \<Rightarrow> True
     | CallAllPrices \<Rightarrow> True | CallPnlBoard _ \<Rightarrow> True | CallVolumeBoard _ \<Rightarrow> True
     | CallGetPosition _ \<Rightarrow> True | CallGetBalance _ _ \<Rightarrow> True | CallOrderbook _ \<Rightarrow> True | CallReadCheckpoint \<Rightarrow> True
     | CallOrdersByUser _ _ \<Rightarrow> True | CallUserBalances _ _ \<Rightarrow> True | CallUserByCode _ \<Rightarrow> True | _ \<Rightarrow> False)"

lemma tick_commits:
  assumes "tick_call c"
  shows "commits tick_view event_view rest_view (call_prog ser sser crc shard c)"
proof -
  obtain due t where c: "c = CallTick due t" using assms by (auto simp: tick_call_def split: engine_call.splits)
  show ?thesis
    unfolding c call_prog.simps ingest_tick_prog_def wal_append_prog_def
    by (intro commits_pbind commits_guarded wal_append_local lane_case lane_Ret tick_lane_body)
qed

lemma event_commits:
  assumes "event_call c"
  shows "commits event_view tick_view rest_view (call_prog ser sser crc shard c)"
proof -
  obtain due ev where c: "c = CallEvent due ev" using assms by (auto simp: event_call_def split: engine_call.splits)
  show ?thesis
    unfolding c call_prog.simps process_event_prog_def wal_append_prog_def
    by (intro commits_pbind commits_guarded local_swap [OF wal_append_local] lane_case lane_pbind lane_Ret event_lane_body)
qed

lemma pure_by_code: "pure_prog (users_by_referral_code_prog shard code)"
  unfolding users_by_referral_code_prog_def dm_get_def
  by (auto intro!: pure_guarded pure_pbind pure_reads pure_locked_read split: option.splits)

lemma pure_market_snapshot: "pure_prog (market_snapshot_prog m)"
  unfolding market_snapshot_prog_def by (auto intro!: pure_guarded pure_pbind pure_reads)

lemma pure_gets:
  "pure_prog (positions_get_prog shard pid)" "pure_prog (balances_get_prog shard user token)"
  "pure_prog (orders_orderbook_prog market)" "pure_prog checkpoint_snapshot_prog"
  unfolding positions_get_prog_def balances_get_prog_def orders_orderbook_prog_def checkpoint_snapshot_prog_def dm_get_def
  by (auto intro!: pure_guarded pure_pbind pure_reads pure_locked_read)

lemma pure_all_prices: "pure_prog all_prices_prog"
proof -
  have "pure_prog (price_loads is)" for "is"
    by (induction "is") (auto intro!: pure_pbind pure_reads)
  then show ?thesis unfolding all_prices_prog_def by (intro pure_pbind pure_reads)
qed

lemma pure_on_stores: "pure_prog p \<Longrightarrow> (\<And>st. upd (\<lambda>_. get st) st = st) \<Longrightarrow> pure_prog (on_stores get upd p)"
  by (rule pure_zoom) simp_all

lemma read_pure: "read_call c \<Longrightarrow> pure_prog (call_prog ser sser crc shard c)"
  by (cases c) (simp_all add: read_call_def pure_pbind pure_guarded pure_reads pure_on_stores pure_query pure_by_code pure_gets pure_all_prices
      pure_market_snapshot positions_by_user_prog_def positions_by_market_prog_def orders_by_user_prog_def
      balances_user_balances_prog_def)

interpretation feed: two_writers "call_prog ser sser crc shard" tick_view event_view rest_view tick_call event_call read_call
  for ser sser crc shard
proof
  show "fst (run (call_prog ser sser crc shard c) s) \<noteq> None" if "event_call c" for c s
    using that by (cases c) (simp_all add: event_call_def)
  show "\<not> tick_call c" if "event_call c" for c
    using that by (cases c) (simp_all add: event_call_def tick_call_def)
qed (fact joint_views tick_commits event_commits read_pure)+

section \<open>Runs of the threads as runs of the engine\<close>

text \<open>The calls of the price feed and of the indexer, and the same as inputs of a sequential run.\<close>

definition feed_calls :: "(bool \<times> price_tick) list \<Rightarrow> engine_call list" where
  "feed_calls = map (\<lambda>(due, t). CallTick due t)"

definition index_calls :: "(bool \<times> indexed_event) list \<Rightarrow> engine_call list" where
  "index_calls = map (\<lambda>(due, ev). CallEvent due ev)"

definition tick_inputs :: "(bool \<times> price_tick) list \<Rightarrow> (bool \<times> engine_input) list" where
  "tick_inputs = map (\<lambda>(due, t). (due, TickIn t))"

definition event_inputs :: "(bool \<times> indexed_event) list \<Rightarrow> (bool \<times> engine_input) list" where
  "event_inputs = map (\<lambda>(due, ev). (due, EventIn ev))"

fun input_call :: "bool \<times> engine_input \<Rightarrow> engine_call" where
  "input_call (due, EventIn ev) = CallEvent due ev"
| "input_call (due, TickIn t) = CallTick due t"

lemma inputs_calls: "map input_call (tick_inputs ticks) = feed_calls ticks" "map input_call (event_inputs evs) = index_calls evs"
  by (simp_all add: feed_calls_def index_calls_def tick_inputs_def event_inputs_def split_beta)

lemma calls_kind: "c \<in> set (feed_calls ticks) \<Longrightarrow> tick_call c" "c \<in> set (index_calls evs) \<Longrightarrow> event_call c"
  by (auto simp: feed_calls_def index_calls_def tick_call_def event_call_def)

lemma seq_run_inputs: "seq_run (call_prog ser sser crc shard) (map input_call xs) db = db_run ser crc xs db"
proof (induction ser crc xs db rule: db_run.induct)
  case (2 ser crc due ev xs db)
  then show ?case by (simp add: run_process_event split: prod.splits)
next
  case (3 ser crc due t xs db)
  show ?case
  proof (cases "fst (run (ingest_tick_prog ser crc due t) db)")
    case None
    then have "ingest_tick ser crc due t db = None"
      using run_ingest_tick [of ser crc due t db] by (simp add: panicking_result_def)
    with None show ?thesis by simp
  next
    case (Some r)
    then have i: "ingest_tick ser crc due t db = Some (r, snd (run (ingest_tick_prog ser crc due t) db))"
      using run_ingest_tick [of ser crc due t db] by (simp add: panicking_result_def)
    with Some show ?thesis using 3 [OF i refl] by simp
  qed
qed simp

lemma shuffles_map: "zs \<in> shuffles (map f xs) (map f ys) \<Longrightarrow> \<exists>us \<in> shuffles xs ys. zs = map f us"
proof (induction xs ys arbitrary: zs rule: shuffles.induct)
  case (3 x xs y ys)
  from "3.prems" consider (l) vs where "zs = f x # vs" "vs \<in> shuffles (map f xs) (map f (y # ys))"
    | (r) vs where "zs = f y # vs" "vs \<in> shuffles (map f (x # xs)) (map f ys)" by auto
  then show ?case
  proof cases
    case l
    then obtain us where us: "us \<in> shuffles xs (y # ys)" "vs = map f us" using "3.IH"(1) by blast
    then have "x # us \<in> shuffles (x # xs) (y # ys)" by simp
    then show ?thesis using l(1) us(2) by (metis list.map(2))
  next
    case r
    then obtain us where us: "us \<in> shuffles (x # xs) ys" "vs = map f us" using "3.IH"(2) by blast
    then have "y # us \<in> shuffles (x # xs) (y # ys)" by simp
    then show ?thesis using r(1) us(2) by (metis list.map(2))
  qed
qed simp_all

lemma feed_linearized:
  assumes readers: "\<forall>q \<in> set qs. \<forall>c \<in> set q. read_call c"
    and run: "mreach (call_prog ser sser crc shard) (map thread_of (feed_calls ticks # index_calls evs # qs), db0) (ts, db)"
    and fin: "all_done ts"
  shows "(\<exists>zs \<in> shuffles (tick_inputs ticks) (event_inputs evs). db_run ser crc zs db0 = Some db) \<or>
    (\<exists>k. \<exists>zs \<in> shuffles (take k (tick_inputs ticks)) (event_inputs evs). db_run ser crc zs db0 = None)"
proof -
  have kinds: "\<forall>c \<in> set (feed_calls ticks). tick_call c" "\<forall>c \<in> set (index_calls evs). event_call c" using calls_kind by auto
  from kinds readers run fin show ?thesis
  proof (cases rule: feed.linearized)
    case (all zs)
    then obtain us where us: "us \<in> shuffles (tick_inputs ticks) (event_inputs evs)" "zs = map input_call us"
      using shuffles_map unfolding inputs_calls [symmetric] by blast
    then show ?thesis using all(2) by (auto simp: seq_run_inputs)
  next
    case (panic zs k)
    then obtain us where us: "us \<in> shuffles (take k (tick_inputs ticks)) (event_inputs evs)" "zs = map input_call us"
      using shuffles_map unfolding inputs_calls [symmetric] take_map by blast
    then show ?thesis using panic(2) by (auto simp: seq_run_inputs)
  qed
qed

text \<open>With inputs that the log can rebuild, no interleaving panics, and the files of the synced database give its state.\<close>

lemma concurrent_run_recovers:
  assumes ok: "\<forall>(due, x) \<in> set (tick_inputs ticks @ event_inputs evs). recoverable x \<and> entry_codec_ok ser de (input_entry x)"
    and lim: "length ticks + length evs < SERIES_LIMIT"
    and db0: "perf_db_open sde de crc [] [] [segment_path 0] config empty_data_dir = Some (Inr db0)"
    and readers: "\<forall>q \<in> set qs. \<forall>c \<in> set q. read_call c"
    and run: "mreach (call_prog ser sser crc shard) (map thread_of (feed_calls ticks # index_calls evs # qs), db0) (ts, db)"
    and fin: "all_done ts"
  shows "\<exists>zs \<in> shuffles (tick_inputs ticks) (event_inputs evs). db_run ser crc zs db0 = Some db"
    and "enumerates names (dom (dd_wal (data_dir_of (sync_wal db)))) \<Longrightarrow>
      \<exists>db2. perf_db_open sde de crc [] names names config (data_dir_of (sync_wal db)) = Some (Inr db2) \<and>
        erase (db_stores db) = erase (db_stores db2) \<and>
        (\<forall>m. db_ticks db2 m = db_ticks db m) \<and> (\<forall>m tf. db_candles db2 m tf = db_candles db m tf)"
proof -
  have rec: "\<exists>db1. db_run ser crc zs db0 = Some db1 \<and>
    (\<forall>names. enumerates names (dom (dd_wal (data_dir_of (sync_wal db1)))) \<longrightarrow>
      (\<exists>db2. perf_db_open sde de crc [] names names config (data_dir_of (sync_wal db1)) = Some (Inr db2) \<and>
        erase (db_stores db1) = erase (db_stores db2) \<and>
        (\<forall>m. db_ticks db2 m = db_ticks db1 m) \<and> (\<forall>m tf. db_candles db2 m tf = db_candles db1 m tf)))"
    if zs: "zs \<in> shuffles (take k (tick_inputs ticks)) (event_inputs evs)" for zs k
  proof (rule run_and_recover [OF _ _ db0])
    have "set zs \<subseteq> set (tick_inputs ticks @ event_inputs evs)"
      using set_shuffles [OF zs] set_take_subset [of k "tick_inputs ticks"] by auto
    then show "\<forall>(due, x) \<in> set zs. recoverable x \<and> entry_codec_ok ser de (input_entry x)" using ok by blast
    have "length (tick_inputs ticks) = length ticks" "length (event_inputs evs) = length evs"
      by (simp_all add: tick_inputs_def event_inputs_def)
    then show "length zs < SERIES_LIMIT" using length_shuffles [OF zs] lim by simp
  qed
  from feed_linearized [OF readers run fin] obtain zs where zs: "zs \<in> shuffles (tick_inputs ticks) (event_inputs evs)"
    "db_run ser crc zs db0 = Some db" using rec by fastforce
  then show "\<exists>zs \<in> shuffles (tick_inputs ticks) (event_inputs evs). db_run ser crc zs db0 = Some db" by blast
  show "\<exists>db2. perf_db_open sde de crc [] names names config (data_dir_of (sync_wal db)) = Some (Inr db2) \<and>
        erase (db_stores db) = erase (db_stores db2) \<and>
        (\<forall>m. db_ticks db2 m = db_ticks db m) \<and> (\<forall>m tf. db_candles db2 m tf = db_candles db m tf)"
    if "enumerates names (dom (dd_wal (data_dir_of (sync_wal db))))"
    using rec [of zs "length (tick_inputs ticks)"] zs that by auto
qed

end
