(* ===== verification/Broadcast.thy ===== *)
theory Broadcast
  imports Pubsub
begin

text \<open>
  The operations of \<open>PubSubBus\<close> over the channels of \<open>tokio::sync::broadcast\<close>, and what a subscriber receives.
  The channels are not part of this repository: their operations are an argument, and what their documentation
  promises is the hypothesis \<open>broadcast_ok\<close>.
\<close>

section \<open>The bus\<close>

text \<open>The outcome of \<open>try_recv\<close>: a message, the number of messages missed, or none at the moment.\<close>

datatype 'm received = Received 'm | Lagged nat | Nothing

record ('ch, 'rx, 'm) broadcast_ops =
  bc_channel :: "nat \<Rightarrow> 'ch panicking"
  bc_send :: "'m \<Rightarrow> 'ch \<Rightarrow> nat option \<times> 'ch"
  bc_subscribe :: "'ch \<Rightarrow> 'rx \<times> 'ch"
  bc_receiver_count :: "'ch \<Rightarrow> nat"
  bc_try_recv :: "'ch \<Rightarrow> 'rx \<Rightarrow> 'm received \<times> 'rx"

definition DEFAULT_CAPACITY :: nat where
  "DEFAULT_CAPACITY = 4096"

definition bus_with_capacity :: "('ch, 'rx, 'm) broadcast_ops \<Rightarrow> nat \<Rightarrow> (channel \<Rightarrow> 'ch) panicking" where
  "bus_with_capacity ops capacity = map_option (\<lambda>s _. s) (bc_channel ops capacity)"

definition bus_new :: "('ch, 'rx, 'm) broadcast_ops \<Rightarrow> (channel \<Rightarrow> 'ch) panicking" where
  "bus_new ops = bus_with_capacity ops DEFAULT_CAPACITY"

definition bus_publish :: "('ch, 'rx, 'm) broadcast_ops \<Rightarrow> channel \<Rightarrow> 'm \<Rightarrow> (channel \<Rightarrow> 'ch) \<Rightarrow> nat \<times> (channel \<Rightarrow> 'ch)" where
  "bus_publish ops ch msg bus =
     (let (r, s) = bc_send ops msg (bus ch) in (case r of None \<Rightarrow> 0 | Some n \<Rightarrow> n, bus(ch := s)))"

definition bus_subscribe :: "('ch, 'rx, 'm) broadcast_ops \<Rightarrow> channel \<Rightarrow> (channel \<Rightarrow> 'ch) \<Rightarrow> 'rx \<times> (channel \<Rightarrow> 'ch)" where
  "bus_subscribe ops ch bus = (let (rx, s) = bc_subscribe ops (bus ch) in (rx, bus(ch := s)))"

definition bus_receiver_count :: "('ch, 'rx, 'm) broadcast_ops \<Rightarrow> channel \<Rightarrow> (channel \<Rightarrow> 'ch) \<Rightarrow> nat" where
  "bus_receiver_count ops ch bus = bc_receiver_count ops (bus ch)"

text \<open>A subscriber that takes \<open>n\<close> times from its receiver.\<close>

fun receive :: "('ch, 'rx, 'm) broadcast_ops \<Rightarrow> 'ch \<Rightarrow> nat \<Rightarrow> 'rx \<Rightarrow> 'm received list" where
  "receive ops ch 0 rx = []"
| "receive ops ch (Suc n) rx = (let (r, rx') = bc_try_recv ops ch rx in r # receive ops ch n rx')"

definition publish_all :: "('ch, 'rx, 'm) broadcast_ops \<Rightarrow> (channel \<times> 'm) list \<Rightarrow> (channel \<Rightarrow> 'ch) \<Rightarrow> channel \<Rightarrow> 'ch" where
  "publish_all ops = fold (\<lambda>(ch, msg) bus. snd (bus_publish ops ch msg bus))"

section \<open>What the channels promise\<close>

text \<open>
  A channel cannot be made with a capacity of 0 or of more than half the range, and starts without receivers. While it has none, a message is refused; otherwise it is added to a log and the
  number of receivers is returned. The channel keeps the newest of these messages, at least as many as its
  capacity says. A receiver has a place in the log, at first its end; one that is behind what is kept is told how many
  messages it missed and goes on with the oldest one kept.
\<close>

definition broadcast_ok ::
  "('ch, 'rx, 'm) broadcast_ops \<Rightarrow> ('ch \<Rightarrow> 'm list) \<Rightarrow> ('ch \<Rightarrow> nat) \<Rightarrow> ('rx \<Rightarrow> nat) \<Rightarrow> bool" where
  "broadcast_ok ops sent kept place \<longleftrightarrow>
     (\<forall>c. (bc_channel ops c = None \<longleftrightarrow> \<not> capacity_ok c) \<and>
        (\<forall>ch. bc_channel ops c = Some ch \<longrightarrow> sent ch = [] \<and> c \<le> kept ch \<and> bc_receiver_count ops ch = 0)) \<and>
     (\<forall>m ch. fst (bc_send ops m ch) = (if bc_receiver_count ops ch = 0 then None else Some (bc_receiver_count ops ch)) \<and>
        sent (snd (bc_send ops m ch)) = (if bc_receiver_count ops ch = 0 then sent ch else sent ch @ [m]) \<and>
        kept (snd (bc_send ops m ch)) = kept ch \<and> bc_receiver_count ops (snd (bc_send ops m ch)) = bc_receiver_count ops ch) \<and>
     (\<forall>ch. place (fst (bc_subscribe ops ch)) = length (sent ch) \<and> sent (snd (bc_subscribe ops ch)) = sent ch \<and>
        kept (snd (bc_subscribe ops ch)) = kept ch \<and>
        bc_receiver_count ops (snd (bc_subscribe ops ch)) = Suc (bc_receiver_count ops ch)) \<and>
     (\<forall>ch rx. length (sent ch) \<le> place rx \<longrightarrow> fst (bc_try_recv ops ch rx) = Nothing \<and> place (snd (bc_try_recv ops ch rx)) = place rx) \<and>
     (\<forall>ch rx. place rx < length (sent ch) \<and> length (sent ch) \<le> place rx + kept ch \<longrightarrow>
        fst (bc_try_recv ops ch rx) = Received (sent ch ! place rx) \<and> place (snd (bc_try_recv ops ch rx)) = Suc (place rx)) \<and>
     (\<forall>ch rx. place rx + kept ch < length (sent ch) \<longrightarrow>
        fst (bc_try_recv ops ch rx) = Lagged (length (sent ch) - kept ch - place rx) \<and>
        place (snd (bc_try_recv ops ch rx)) = length (sent ch) - kept ch)"

lemma broadcast_new:
  assumes "broadcast_ok ops sent kept place"
  shows "bc_channel ops c = None \<longleftrightarrow> \<not> capacity_ok c"
    "bc_channel ops c = Some ch \<Longrightarrow> sent ch = []" "bc_channel ops c = Some ch \<Longrightarrow> c \<le> kept ch"
    "bc_channel ops c = Some ch \<Longrightarrow> bc_receiver_count ops ch = 0"
  using assms unfolding broadcast_ok_def by blast+

lemma broadcast_send:
  assumes "broadcast_ok ops sent kept place"
  shows "fst (bc_send ops m ch) = (if bc_receiver_count ops ch = 0 then None else Some (bc_receiver_count ops ch))"
    "sent (snd (bc_send ops m ch)) = (if bc_receiver_count ops ch = 0 then sent ch else sent ch @ [m])"
    "kept (snd (bc_send ops m ch)) = kept ch" "bc_receiver_count ops (snd (bc_send ops m ch)) = bc_receiver_count ops ch"
  using assms unfolding broadcast_ok_def by blast+

lemma broadcast_subscribe:
  assumes "broadcast_ok ops sent kept place"
  shows "place (fst (bc_subscribe ops ch)) = length (sent ch)" "sent (snd (bc_subscribe ops ch)) = sent ch"
    "kept (snd (bc_subscribe ops ch)) = kept ch"
    "bc_receiver_count ops (snd (bc_subscribe ops ch)) = Suc (bc_receiver_count ops ch)"
  using assms unfolding broadcast_ok_def by blast+

lemma broadcast_recv:
  assumes "broadcast_ok ops sent kept place"
  shows "length (sent ch) \<le> place rx \<Longrightarrow> fst (bc_try_recv ops ch rx) = Nothing"
    "length (sent ch) \<le> place rx \<Longrightarrow> place (snd (bc_try_recv ops ch rx)) = place rx"
    "place rx < length (sent ch) \<Longrightarrow> length (sent ch) \<le> place rx + kept ch \<Longrightarrow>
      fst (bc_try_recv ops ch rx) = Received (sent ch ! place rx)"
    "place rx < length (sent ch) \<Longrightarrow> length (sent ch) \<le> place rx + kept ch \<Longrightarrow> place (snd (bc_try_recv ops ch rx)) = Suc (place rx)"
    "place rx + kept ch < length (sent ch) \<Longrightarrow>
      fst (bc_try_recv ops ch rx) = Lagged (length (sent ch) - kept ch - place rx)"
    "place rx + kept ch < length (sent ch) \<Longrightarrow> place (snd (bc_try_recv ops ch rx)) = length (sent ch) - kept ch"
  using assms unfolding broadcast_ok_def by blast+

section \<open>What a subscriber receives\<close>

text \<open>The messages of one channel among those published.\<close>

definition on_channel :: "channel \<Rightarrow> (channel \<times> 'm) list \<Rightarrow> 'm list" where
  "on_channel ch ms = map snd (filter (\<lambda>x. fst x = ch) ms)"

text \<open>A message reaches every receiver of its channel and no other one; \<open>publish\<close> returns how many there are.\<close>

lemma publish_reaches:
  assumes "broadcast_ok ops sent kept place"
  shows "fst (bus_publish ops c m bus) = bus_receiver_count ops c bus"
    "bus_receiver_count ops ch (snd (bus_publish ops c m bus)) = bus_receiver_count ops ch bus"
    "kept (snd (bus_publish ops c m bus) ch) = kept (bus ch)"
    "sent (snd (bus_publish ops c m bus) ch) =
      (if c = ch \<and> bus_receiver_count ops ch bus \<noteq> 0 then sent (bus ch) @ [m] else sent (bus ch))"
  by (auto simp: bus_publish_def bus_receiver_count_def broadcast_send [OF assms] split_beta Let_def)

lemma publish_all_log:
  assumes "broadcast_ok ops sent kept place" "bus_receiver_count ops ch bus \<noteq> 0"
  shows "sent (publish_all ops ms bus ch) = sent (bus ch) @ on_channel ch ms \<and> kept (publish_all ops ms bus ch) = kept (bus ch)"
  using assms(2)
proof (induction ms arbitrary: bus)
  case (Cons x ms)
  obtain c m where x: "x = (c, m)" by (cases x)
  have p: "publish_all ops (x # ms) bus = publish_all ops ms (snd (bus_publish ops c m bus))"
    by (simp add: publish_all_def x)
  show ?case
    using Cons.IH [of "snd (bus_publish ops c m bus)"] Cons.prems
    unfolding p by (auto simp: publish_reaches [OF assms(1)] x on_channel_def)
qed (simp add: publish_all_def on_channel_def)

lemma receive_in_order:
  assumes ok: "broadcast_ok ops sent kept place" and k: "length (sent ch) \<le> place rx + kept ch" "place rx \<le> length (sent ch)"
  shows "receive ops ch (length (sent ch) - place rx + n) rx = map Received (drop (place rx) (sent ch)) @ replicate n Nothing"
  using k
proof (induction "length (sent ch) - place rx" arbitrary: rx)
  case 0
  have "receive ops ch n rx = replicate n Nothing" if "length (sent ch) \<le> place rx" for n rx
    using that
  proof (induction n arbitrary: rx)
    case (Suc n)
    then show ?case using broadcast_recv(1,2) [OF ok, of ch rx] by (simp add: split_beta)
  qed simp
  then show ?case using 0 by simp
next
  case (Suc d)
  then have lt: "place rx < length (sent ch)" by simp
  note r = broadcast_recv(3,4) [OF ok lt Suc.prems(1)]
  have "receive ops ch (length (sent ch) - place rx + n) rx =
      Received (sent ch ! place rx) # receive ops ch (length (sent ch) - Suc (place rx) + n) (snd (bc_try_recv ops ch rx))"
    using lt r by (simp add: Suc_diff_Suc [symmetric] split_beta)
  also have "\<dots> = Received (sent ch ! place rx) # map Received (drop (Suc (place rx)) (sent ch)) @ replicate n Nothing"
    using Suc.hyps(1) [of "snd (bc_try_recv ops ch rx)"] Suc.hyps(2) Suc.prems lt r by simp
  finally show ?case using Cons_nth_drop_Suc [OF lt] by (metis append_Cons list.map(2))
qed

lemma new_bus_log:
  assumes "broadcast_ok ops sent kept place" "bus_with_capacity ops c = Some bus"
  shows "sent (bus ch) = []" "c \<le> kept (bus ch)" "bus_receiver_count ops ch bus = 0"
  using assms(2) broadcast_new(2-4) [OF assms(1), of c] by (auto simp: bus_with_capacity_def bus_receiver_count_def)

lemma new_bus_made:
  assumes "broadcast_ok ops sent kept place"
  shows "bus_with_capacity ops c = None \<longleftrightarrow> pubsub_with_capacity c = None" "\<exists>bus. bus_new ops = Some bus"
proof -
  show "bus_with_capacity ops c = None \<longleftrightarrow> pubsub_with_capacity c = None"
    using broadcast_new(1) [OF assms, of c] by (auto simp: bus_with_capacity_def pubsub_with_capacity_def)
  have "bc_channel ops DEFAULT_CAPACITY \<noteq> None"
    unfolding broadcast_new(1) [OF assms] by (simp add: DEFAULT_CAPACITY_def capacity_ok_def)
  then show "\<exists>bus. bus_new ops = Some bus" by (auto simp: bus_new_def bus_with_capacity_def)
qed

text \<open>
  A subscriber that is not overrun receives what was published on its channel since it subscribed, in order, and
  nothing else; one that is overrun is told so once and receives the newest messages.
\<close>

lemma subscriber_receives:
  fixes ops :: "('ch, 'rx, 'm) broadcast_ops"
  assumes ok: "broadcast_ok ops sent kept place" and sub: "bus_subscribe ops ch bus = (rx, bus')"
    and fin: "bus'' = publish_all ops ms bus' ch"
  shows "length (on_channel ch ms) \<le> kept (bus ch) \<Longrightarrow>
      receive ops bus'' (length (on_channel ch ms) + n) rx = map Received (on_channel ch ms) @ replicate n Nothing"
    and "kept (bus ch) < length (on_channel ch ms) \<Longrightarrow>
      receive ops bus'' (Suc (kept (bus ch))) rx = Lagged (length (on_channel ch ms) - kept (bus ch)) #
        map Received (drop (length (on_channel ch ms) - kept (bus ch)) (on_channel ch ms))"
proof -
  have s: "rx = fst (bc_subscribe ops (bus ch))" "bus' ch = snd (bc_subscribe ops (bus ch))"
    using sub by (auto simp: bus_subscribe_def split_beta Let_def)
  have b: "sent (bus' ch) = sent (bus ch)" "kept (bus' ch) = kept (bus ch)" "place rx = length (sent (bus ch))"
    unfolding s by (simp_all add: broadcast_subscribe [OF ok])
  have cnt: "bus_receiver_count ops ch bus' \<noteq> 0" by (simp add: bus_receiver_count_def s broadcast_subscribe [OF ok])
  have e: "sent bus'' = sent (bus ch) @ on_channel ch ms" "kept bus'' = kept (bus ch)"
    unfolding fin using publish_all_log [OF ok cnt, of ms] by (simp_all add: b)
  show "receive ops bus'' (length (on_channel ch ms) + n) rx = map Received (on_channel ch ms) @ replicate n Nothing"
    if "length (on_channel ch ms) \<le> kept (bus ch)"
    using receive_in_order [OF ok, of bus'' rx n] that by (simp add: e b)
  show "receive ops bus'' (Suc (kept (bus ch))) rx = Lagged (length (on_channel ch ms) - kept (bus ch)) #
        map Received (drop (length (on_channel ch ms) - kept (bus ch)) (on_channel ch ms))"
    if lag: "kept (bus ch) < length (on_channel ch ms)"
  proof -
    let ?rx = "snd (bc_try_recv ops bus'' rx)"
    have over: "place rx + kept bus'' < length (sent bus'')" using lag by (simp add: e b)
    have p: "place ?rx = length (sent bus'') - kept bus''" by (rule broadcast_recv(6) [OF ok over])
    have "length (sent bus'') - place ?rx = kept (bus ch)" using lag by (simp add: p e)
    then have "receive ops bus'' (kept (bus ch)) ?rx = map Received (drop (place ?rx) (sent bus''))"
      using receive_in_order [OF ok, of bus'' ?rx 0] lag by (simp add: p e)
    moreover have "drop (place ?rx) (sent bus'') = drop (length (on_channel ch ms) - kept (bus ch)) (on_channel ch ms)"
      using lag by (simp add: p e)
    ultimately have "receive ops bus'' (kept (bus ch)) ?rx =
        map Received (drop (length (on_channel ch ms) - kept (bus ch)) (on_channel ch ms))" by (simp only:)
    moreover have "fst (bc_try_recv ops bus'' rx) = Lagged (length (on_channel ch ms) - kept (bus ch))"
      using broadcast_recv(5) [OF ok over] by (simp add: e b)
    ultimately show ?thesis by (simp add: split_beta)
  qed
qed

section \<open>A subscriber that reads while others publish\<close>

text \<open>What happens to the bus: a message is published, or the subscriber tries to take one.\<close>

datatype 'm bus_action = Publish channel 'm | TryRecv

fun subscriber :: "('ch, 'rx, 'm) broadcast_ops \<Rightarrow> channel \<Rightarrow> 'm bus_action list \<Rightarrow> 'rx \<Rightarrow> (channel \<Rightarrow> 'ch) \<Rightarrow> 'm received list" where
  "subscriber ops ch [] rx bus = []"
| "subscriber ops ch (Publish c m # as) rx bus = subscriber ops ch as rx (snd (bus_publish ops c m bus))"
| "subscriber ops ch (TryRecv # as) rx bus =
     (let (r, rx') = bc_try_recv ops (bus ch) rx in r # subscriber ops ch as rx' bus)"

fun published :: "channel \<Rightarrow> 'm bus_action list \<Rightarrow> 'm list" where
  "published ch [] = []"
| "published ch (Publish c m # as) = (if c = ch then m # published ch as else published ch as)"
| "published ch (TryRecv # as) = published ch as"

text \<open>The messages that are still to be taken, and that they are never more than the capacity.\<close>

fun backlog :: "channel \<Rightarrow> 'm bus_action list \<Rightarrow> nat \<Rightarrow> nat" where
  "backlog ch [] n = n"
| "backlog ch (Publish c m # as) n = backlog ch as (if c = ch then Suc n else n)"
| "backlog ch (TryRecv # as) n = backlog ch as (n - 1)"

fun keeps_up :: "nat \<Rightarrow> channel \<Rightarrow> 'm bus_action list \<Rightarrow> nat \<Rightarrow> bool" where
  "keeps_up cap ch [] n \<longleftrightarrow> n \<le> cap"
| "keeps_up cap ch (Publish c m # as) n \<longleftrightarrow> n \<le> cap \<and> keeps_up cap ch as (if c = ch then Suc n else n)"
| "keeps_up cap ch (TryRecv # as) n \<longleftrightarrow> n \<le> cap \<and> keeps_up cap ch as (n - 1)"

fun messages :: "'m received list \<Rightarrow> 'm list" where
  "messages [] = []"
| "messages (Received m # rs) = m # messages rs"
| "messages (Lagged n # rs) = messages rs"
| "messages (Nothing # rs) = messages rs"

definition no_lag :: "'m received list \<Rightarrow> bool" where
  "no_lag rs \<longleftrightarrow> (\<forall>n. Lagged n \<notin> set rs)"

lemma keeps_up_now: "keeps_up cap ch as n \<Longrightarrow> n \<le> cap"
  by (cases "(cap, ch, as, n)" rule: keeps_up.cases) simp_all

text \<open>A subscriber that keeps up takes the messages of its channel one after the other; the backlog is what is left.\<close>

lemma subscriber_keeps_up:
  assumes ok: "broadcast_ok ops sent kept place" and cap: "cap \<le> kept (bus ch)" and cnt: "bus_receiver_count ops ch bus \<noteq> 0"
    and n: "length (sent (bus ch)) = place rx + n" and up: "keeps_up cap ch as n"
  shows "\<exists>rest. messages (subscriber ops ch as rx bus) @ rest = drop (place rx) (sent (bus ch)) @ published ch as \<and>
    length rest = backlog ch as n \<and> no_lag (subscriber ops ch as rx bus)"
  using cap cnt n up
proof (induction as arbitrary: rx bus n)
  case Nil
  then show ?case by (simp add: no_lag_def)
next
  case (Cons a as)
  show ?case
  proof (cases a)
    case (Publish c m)
    let ?bus = "snd (bus_publish ops c m bus)" and ?n = "if c = ch then Suc n else n"
    have pre: "cap \<le> kept (?bus ch)" "bus_receiver_count ops ch ?bus \<noteq> 0" "length (sent (?bus ch)) = place rx + ?n" "keeps_up cap ch as ?n"
      using Cons.prems Publish by (auto simp: publish_reaches [OF ok])
    from Cons.IH [OF this] show ?thesis using Cons.prems(2,3) by (auto simp: Publish publish_reaches [OF ok])
  next
    case TryRecv
    show ?thesis
    proof (cases n)
      case 0
      then have "length (sent (bus ch)) \<le> place rx" using Cons.prems(3) by simp
      note r = broadcast_recv(1,2) [OF ok this]
      have "length (sent (bus ch)) = place (snd (bc_try_recv ops (bus ch) rx)) + 0" "keeps_up cap ch as 0"
        using Cons.prems(3,4) 0 r TryRecv by simp_all
      from Cons.IH [OF Cons.prems(1,2) this] show ?thesis using r 0 by (simp add: TryRecv split_beta no_lag_def)
    next
      case (Suc k)
      have "n \<le> cap" using keeps_up_now [OF Cons.prems(4)] .
      then have in_log: "place rx < length (sent (bus ch))" "length (sent (bus ch)) \<le> place rx + kept (bus ch)"
        using Cons.prems(1,3) Suc by simp_all
      note r = broadcast_recv(3,4) [OF ok in_log]
      have "length (sent (bus ch)) = place (snd (bc_try_recv ops (bus ch) rx)) + k" "keeps_up cap ch as k"
        using Cons.prems(3,4) Suc r TryRecv by simp_all
      from Cons.IH [OF Cons.prems(1,2) this] show ?thesis
        using r Cons_nth_drop_Suc [OF in_log(1)] by (auto simp: TryRecv Suc split_beta no_lag_def simp flip: Cons_nth_drop_Suc [OF in_log(1)])
    qed
  qed
qed

text \<open>A subscriber of a new bus, from the start.\<close>

lemma new_subscriber_keeps_up:
  assumes ok: "broadcast_ok ops sent kept place" and new: "bus_with_capacity ops cap = Some bus0"
    and sub: "bus_subscribe ops ch bus0 = (rx, bus)" and up: "keeps_up cap ch as 0"
  shows "messages (subscriber ops ch as rx bus) = take (length (published ch as) - backlog ch as 0) (published ch as) \<and>
    no_lag (subscriber ops ch as rx bus)"
proof -
  have s: "rx = fst (bc_subscribe ops (bus0 ch))" "bus ch = snd (bc_subscribe ops (bus0 ch))"
    using sub by (auto simp: bus_subscribe_def split_beta Let_def)
  have b: "sent (bus ch) = []" "cap \<le> kept (bus ch)" "place rx = 0" "bus_receiver_count ops ch bus \<noteq> 0"
    unfolding bus_receiver_count_def s by (simp_all add: broadcast_subscribe [OF ok] new_bus_log [OF ok new])
  have "length (sent (bus ch)) = place rx + 0" by (simp add: b)
  from subscriber_keeps_up [OF ok b(2,4) this up] obtain rest where
    "messages (subscriber ops ch as rx bus) @ rest = published ch as" "length rest = backlog ch as 0" "no_lag (subscriber ops ch as rx bus)"
    by (auto simp: b(1))
  then show ?thesis by (metis append_eq_conv_conj diff_add_inverse2 length_append)
qed

section \<open>The kinds of messages\<close>

fun message_fits :: "channel \<Rightarrow> pubsub_message \<Rightarrow> bool" where
  "message_fits Prices (PriceUpdate _ _ _) \<longleftrightarrow> True"
| "message_fits Positions (PositionUpdate _) \<longleftrightarrow> True"
| "message_fits Orders (OrderUpdate _) \<longleftrightarrow> True"
| "message_fits Trades (TradeExecuted _) \<longleftrightarrow> True"
| "message_fits Liquidations (LiquidationEvent _ _ _ _ _) \<longleftrightarrow> True"
| "message_fits Funding (FundingUpdate _ _ _) \<longleftrightarrow> True"
| "message_fits Balances (BalanceUpdateMsg _) \<longleftrightarrow> True"
| "message_fits _ _ \<longleftrightarrow> False"

definition channels_typed :: "pubsub_bus \<Rightarrow> bool" where
  "channels_typed bus \<longleftrightarrow> (\<forall>ch. \<forall>m \<in> set (ps_sent bus ch). message_fits ch m)"

lemma channels_typed_send: "channels_typed bus \<Longrightarrow> message_fits ch m \<Longrightarrow> channels_typed (pubsub_send ch m bus)"
  by (auto simp: channels_typed_def pubsub_send_def)

section \<open>A channel that keeps its promises\<close>

text \<open>A list of messages with a capacity and the number of receivers; a receiver counts what it has read.\<close>

definition list_ops :: "('m list \<times> nat \<times> nat, nat, 'm) broadcast_ops" where
  "list_ops = \<lparr>bc_channel = (\<lambda>c. if capacity_ok c then Some ([], c, 0) else None),
     bc_send = (\<lambda>m (l, c, n). if n = 0 then (None, l, c, n) else (Some n, l @ [m], c, n)),
     bc_subscribe = (\<lambda>(l, c, n). (length l, l, c, Suc n)), bc_receiver_count = (\<lambda>(l, c, n). n),
     bc_try_recv = (\<lambda>(l, c, n) i. if length l \<le> i then (Nothing, i)
       else if length l \<le> i + c then (Received (l ! i), Suc i) else (Lagged (length l - c - i), length l - c))\<rparr>"

lemma list_ops_ok: "broadcast_ok list_ops fst (\<lambda>(l, c, n). c) (\<lambda>n. n)"
  by (auto simp: broadcast_ok_def list_ops_def)

end
