(* ===== verification/Streams.thy ===== *)
theory Streams
  imports Linearization Broadcast
begin

text \<open>
  What the engine publishes on the price channel: one message per tick of a known market, in the order of the
  feed, whatever runs at the same time; and what a subscriber receives of it.
\<close>

section \<open>The price channel\<close>

definition price_message :: "price_tick \<Rightarrow> pubsub_message" where
  "price_message t = PriceUpdate (tick_market_id t) (tick_price t) (tick_timestamp_ns t)"

definition known_market :: "price_tick \<Rightarrow> bool" where
  "known_market t \<longleftrightarrow> unat (tick_market_id t) < MARKET_COUNT"

fun input_ticks :: "(bool \<times> engine_input) list \<Rightarrow> price_tick list" where
  "input_ticks [] = []"
| "input_ticks ((_, TickIn t) # xs) = t # input_ticks xs"
| "input_ticks ((_, EventIn _) # xs) = input_ticks xs"

lemma event_sends_no_price: "ps_sent (snd (apply_event ev l)) Prices = ps_sent (snd l) Prices"
  by (cases l; cases "ie_event ev")
     (auto simp: apply_event_def Let_def split_beta publish_def publish_balance_def pubsub_send_def
      on_position_opened_def on_position_closed_def on_position_modified_def on_order_placed_def
      on_order_executed_def on_order_cancelled_def on_liquidation_def on_funding_rate_updated_def
      on_collateral_deposited_def on_collateral_withdrawn_def on_vault_created_def on_market_paused_def split: option.splits)

lemma process_event_prices:
  "ps_sent (db_pubsub (snd (process_event ser crc due ev db))) Prices = ps_sent (db_pubsub db) Prices"
  using event_sends_no_price [of ev "(db_stores db, db_pubsub db)"]
  by (simp add: process_event_def Let_def split_beta split: sum.splits)

lemma tick_publishes:
  "ingest_tick ser crc due t db = Some (Inr outs, db') \<Longrightarrow> db_pubsub db' = pubsub_send Prices (price_message t) (db_pubsub db)"
  "ingest_tick ser crc due t db = Some (Inl e, db') \<Longrightarrow> db_pubsub db' = db_pubsub db"
  by (auto simp: ingest_tick_def price_message_def Let_def split_beta split: sum.splits option.splits prod.splits)

lemma run_publishes_prices:
  assumes "recovery_inv ser crc n es db" "n + length xs < SERIES_LIMIT"
    and "\<forall>(due, x) \<in> set xs. recoverable x \<and> ser (input_entry x) \<noteq> None" "db_run ser crc xs db = Some db'"
  shows "ps_sent (db_pubsub db') Prices = ps_sent (db_pubsub db) Prices @ map price_message (filter known_market (input_ticks xs))"
  using assms
proof (induction xs arbitrary: n es db)
  case (Cons y xs)
  obtain due x where y: "y = (due, x)" by (cases y)
  have x: "recoverable x" "ser (input_entry x) \<noteq> None" using Cons.prems(3) by (auto simp: y)
  then obtain p where p: "ser (input_entry x) = Some p" by auto
  have lim: "Suc n < SERIES_LIMIT" using Cons.prems(2) by simp
  note IH = Cons.IH [of "Suc n" "es @ [input_entry x]"]
  show ?case
  proof (cases x)
    case (EventIn ev)
    have "recovery_inv ser crc (Suc n) (es @ [input_entry x]) (snd (process_event ser crc due ev db))"
      using recovery.event [OF Cons.prems(1) lim, of ev p due] x(1) p EventIn by simp
    from IH [OF this] Cons.prems(2-4) EventIn show ?thesis by (simp add: y process_event_prices)
  next
    case (TickIn t)
    obtain out db1 where i: "ingest_tick ser crc due t db = Some (out, db1)" "recovery_inv ser crc (Suc n) (es @ [input_entry x]) db1"
      using recovery.tick [OF Cons.prems(1) lim, of t p due] x(1) p TickIn by auto
    obtain tks cl where s: "series_ok n db tks cl" using Cons.prems(1) by (auto simp: run_inv_def)
    obtain w where w: "wal_append ser crc due (WalPriceTick (tick_timestamp_ns t) (tick_market_id t) (tick_price t)) (db_wal db) = (Inr (), w)"
      using wal_append_some [of ser "tick_entry t" crc due "db_wal db"] x(2) TickIn by (auto simp: tick_entry_def)
    have sent: "ps_sent (db_pubsub db1) Prices = ps_sent (db_pubsub db) Prices @ map price_message (filter known_market [t])"
    proof (cases "known_market t")
      case True
      then have "\<exists>outs. out = Inr outs"
        using ingest_tick_ok [OF s _ _ _ w] i(1) lim x(1) TickIn by (auto simp: known_market_def)
      then show ?thesis using tick_publishes(1) i(1) True by (auto simp: pubsub_send_def)
    next
      case False
      then have "\<exists>e. out = Inl e" using ingest_tick_invalid [OF _ w] i(1) by (auto simp: known_market_def)
      then show ?thesis using tick_publishes(2) i(1) False by auto
    qed
    have "ps_sent (db_pubsub db') Prices = ps_sent (db_pubsub db1) Prices @ map price_message (filter known_market (input_ticks xs))"
      using IH [OF i(2)] Cons.prems(2-4) i(1) TickIn by (simp add: y)
    then show ?thesis using TickIn by (simp add: y sent)
  qed
qed simp

section \<open>Under concurrency\<close>

lemma input_ticks_shuffle: "zs \<in> shuffles xs ys \<Longrightarrow> input_ticks ys = [] \<Longrightarrow> input_ticks zs = input_ticks xs"
proof (induction xs ys arbitrary: zs rule: shuffles.induct)
  case (3 x xs y ys)
  obtain d e where y: "y = (d, EventIn e)" "input_ticks ys = []"
    using "3.prems"(2) by (cases y; cases "snd y") auto
  obtain d' i where x: "x = (d', i)" by (cases x)
  from "3.prems"(1) show ?case
    using "3.IH" "3.prems"(2) y x by (cases i) auto
qed simp_all

lemma input_ticks_inputs: "input_ticks (tick_inputs ticks) = map snd ticks" "input_ticks (event_inputs evs) = []"
proof -
  show "input_ticks (tick_inputs ticks) = map snd ticks" by (induction ticks) (auto simp: tick_inputs_def)
  show "input_ticks (event_inputs evs) = []" by (induction evs) (auto simp: event_inputs_def)
qed

text \<open>A subscriber that keeps up with a new engine receives the accepted ticks of the feed, in its order.\<close>

lemma price_stream:
  fixes ops :: "('ch, 'rx, pubsub_message) broadcast_ops"
  assumes ok: "\<forall>(due, x) \<in> set (tick_inputs ticks @ event_inputs evs). recoverable x \<and> entry_codec_ok ser de (input_entry x)"
    and lim: "length ticks + length evs < SERIES_LIMIT"
    and db0: "perf_db_open sde de crc [] [] [segment_path 0] config empty_data_dir = Some (Inr db0)"
    and readers: "\<forall>q \<in> set qs. \<forall>c \<in> set q. read_call c"
    and run: "mreach (call_prog ser sser crc shard) (map thread_of (feed_calls ticks # index_calls evs # qs), db0) (ts, db)"
    and fin: "all_done ts"
  shows "ps_sent (db_pubsub db) Prices = map price_message (filter known_market (map snd ticks))"
    and "broadcast_ok ops sent kept place \<Longrightarrow> bus_with_capacity ops (pc_pubsub_capacity config) = Some bus0 \<Longrightarrow>
      bus_subscribe ops Prices bus0 = (rx, bus) \<Longrightarrow> published Prices as = ps_sent (db_pubsub db) Prices \<Longrightarrow>
      keeps_up (pc_pubsub_capacity config) Prices as 0 \<Longrightarrow>
      messages (subscriber ops Prices as rx bus) =
        take (length (filter known_market (map snd ticks)) - backlog Prices as 0)
          (map price_message (filter known_market (map snd ticks))) \<and> no_lag (subscriber ops Prices as rx bus)"
proof -
  obtain zs where zs: "zs \<in> shuffles (tick_inputs ticks) (event_inputs evs)" "db_run ser crc zs db0 = Some db"
    using concurrent_run_recovers(1) [OF ok lim db0 readers run fin] by blast
  have inv: "recovery_inv ser crc 0 [] db0" by (rule open_new_inv(1) [OF db0])
  have bus: "db_pubsub db0 = pubsub_empty (pc_pubsub_capacity config)" by (rule open_bus(2) [OF db0])
  have "set zs \<subseteq> set (tick_inputs ticks @ event_inputs evs)" using set_shuffles [OF zs(1)] by auto
  then have acc: "\<forall>(due, x) \<in> set zs. recoverable x \<and> ser (input_entry x) \<noteq> None" using ok entry_codec_ok_ser by fast
  have "length zs < SERIES_LIMIT" using length_shuffles [OF zs(1)] lim by (simp add: tick_inputs_def event_inputs_def)
  from run_publishes_prices [OF inv _ acc zs(2)] this
  show sent: "ps_sent (db_pubsub db) Prices = map price_message (filter known_market (map snd ticks))"
    using input_ticks_shuffle [OF zs(1)] by (simp add: bus pubsub_empty_def input_ticks_inputs)
  show "messages (subscriber ops Prices as rx bus) =
        take (length (filter known_market (map snd ticks)) - backlog Prices as 0)
          (map price_message (filter known_market (map snd ticks))) \<and> no_lag (subscriber ops Prices as rx bus)"
    if b: "broadcast_ok ops sent kept place" "bus_with_capacity ops (pc_pubsub_capacity config) = Some bus0"
      "bus_subscribe ops Prices bus0 = (rx, bus)" and as: "published Prices as = ps_sent (db_pubsub db) Prices"
      and up: "keeps_up (pc_pubsub_capacity config) Prices as 0"
    using new_subscriber_keeps_up [OF b up] by (simp add: as sent)
qed

end
