(* ===== verification/Typed_State.thy ===== *)
theory Typed_State
  imports Concurrent_Calls Broadcast Engine_Steps Book_Levels
begin

text \<open>
  What a reader may rely on at any moment: every record is stored under its own key, the tables of the markets have
  their fixed lengths, the levels of a book are sorted and not empty, trades are counted once, the boards are
  ranked, and every channel carries messages of its own kind. It holds in every state of every interleaving of every calls.
\<close>

section \<open>The shape of the state\<close>

definition orders_typed :: "order_table \<Rightarrow> bool" where
  "orders_typed t \<longleftrightarrow> keyed_by ord_order_id (ot_orders t) \<and> length (ot_orderbooks t) = MARKET_COUNT \<and>
     (\<forall>b \<in> set (ot_orderbooks t). book_shaped b)"

definition stats_typed :: "trader_stats_store \<Rightarrow> bool" where
  "stats_typed s \<longleftrightarrow> stats_ok s \<and> trades_balanced s"

definition stores_typed :: "stores \<Rightarrow> bool" where
  "stores_typed s \<longleftrightarrow>
     keyed_by pos_position_id (pt_positions (st_positions s)) \<and> orders_typed (st_orders s) \<and>
     keyed_by bal_key (bc_balances (st_balances s)) \<and> keyed_by usr_address (us_users (st_users s)) \<and>
     stats_typed (st_trader_stats s) \<and> daily_ok (st_daily_stats s) \<and> length (st_market_state s) = MARKET_COUNT"

definition state_typed :: "perf_db \<Rightarrow> bool" where
  "state_typed db \<longleftrightarrow> stores_typed (db_stores db) \<and> leaderboard_ok (db_leaderboard db) \<and> channels_typed (db_pubsub db)"

lemma state_typed_new:
  "db_stores db = stores_new \<Longrightarrow> leaderboard_ok (db_leaderboard db) \<Longrightarrow> db_pubsub db = pubsub_empty c \<Longrightarrow> state_typed db"
  by (simp add: state_typed_def stores_typed_def stores_new_def positions_new_def orders_new_def orders_typed_def
      balances_new_def users_new_def stats_typed_def trades_balanced_new market_state_new_def book_shaped_def
      orderbook_new_def side_shaped_def channels_typed_def pubsub_empty_def)

section \<open>Every action keeps the shape\<close>

lemma keyed_by_put: "keyed_by kid m \<Longrightarrow> kid v = k \<Longrightarrow> keyed_by kid (m(k \<mapsto> v))"
  by (auto simp: keyed_by_def)

lemma keyed_by_remove: "keyed_by kid m \<Longrightarrow> keyed_by kid (m(k := None))"
  by (auto simp: keyed_by_def)

text \<open>Programs on one table.\<close>

abbreviation keeps_positions :: "(lock, position_table, 'a) prog \<Rightarrow> bool" where
  "keeps_positions \<equiv> keeps (\<lambda>t. keyed_by pos_position_id (pt_positions t))"

abbreviation keeps_orders :: "(lock, order_table, 'a) prog \<Rightarrow> bool" where
  "keeps_orders \<equiv> keeps orders_typed"

abbreviation keeps_balances :: "(lock, balance_cache, 'a) prog \<Rightarrow> bool" where
  "keeps_balances \<equiv> keeps (\<lambda>c. keyed_by bal_key (bc_balances c))"

abbreviation keeps_users :: "(lock, user_store, 'a) prog \<Rightarrow> bool" where
  "keeps_users \<equiv> keeps (\<lambda>s. keyed_by usr_address (us_users s))"

abbreviation keeps_market :: "(lock, market_state_table, 'a) prog \<Rightarrow> bool" where
  "keeps_market \<equiv> keeps (\<lambda>t. length t = MARKET_COUNT)"

text \<open>An index is a field of its own: a program on it keeps what does not look at it.\<close>

lemma keeps_idx:
  assumes "\<And>f s. I (upd f s) = I s"
  shows "keeps I (idx_insert l upd x k)" "keeps I (idx_remove l get upd x k)"
  unfolding idx_insert_def idx_remove_def
  by (intro keeps_rules keeps_locked(2) keeps_act; simp add: assms split: option.splits)+

lemma keeps_collect: "keeps I (collect l get ks)"
  by (induction ks) (auto simp: dm_get_def intro!: keeps_rules)

lemma keeps_query: "keeps I (query il iget order l get x)"
  unfolding query_def by (auto intro!: keeps_rules keeps_collect)

lemma keeps_dm_get: "keeps I (dm_get l get k)"
  unfolding dm_get_def by (rule keeps_locked)

lemma keeps_position_ops:
  "keeps_positions (positions_insert_prog shard p)" "keeps_positions (positions_remove_prog shard pid)"
  "(\<And>p. pos_position_id (f p) = pos_position_id p) \<Longrightarrow> keeps_positions (positions_update_prog shard pid f)"
  unfolding position_progs Let_def dm_insert_def dm_remove_def
  by (intro keeps_rules keeps_idx keeps_locked(2) keeps_act;
      auto simp: keyed_by_put keyed_by_remove positions_update_def keyed_by_def split: option.splits if_splits)+

lemma keeps_book_write:
  assumes "\<And>b. book_shaped b \<Longrightarrow> book_shaped (f b)"
  shows "keeps_orders (book_write m f)"
proof -
  have "orders_typed (ot_orderbooks_update (with_book m f) t)" if "orders_typed t" for t
    using with_book_shaped [of "ot_orderbooks t" f m] that assms by (simp add: orders_typed_def)
  then show ?thesis unfolding book_write_def by (intro keeps_rules keeps_locked(2)) simp
qed

lemma keeps_book_remove: "keeps_orders (book_remove ord oid)"
  unfolding book_remove_def by (intro keeps_rules keeps_book_write) (auto simp: book_shaped_ops)

lemma keeps_order_settle:
  assumes "\<And>ord. ord_order_id (f ord) = ord_order_id ord"
  shows "keeps_orders (order_settle shard oid f)"
  unfolding order_settle_def
  by (intro keeps_rules keeps_book_remove keeps_act) (auto simp: orders_typed_def keyed_by_def assms split: option.splits)

lemma keeps_order_ops:
  "keeps_orders (orders_insert_prog shard ord)" "keeps_orders (orders_cancel_prog shard oid)"
  "keeps_orders (orders_execute_prog shard oid price pid ts)" "keeps_orders (orders_remove_prog shard oid)"
  unfolding orders_insert_prog_def orders_cancel_prog_def orders_execute_prog_def orders_remove_prog_def Let_def
    dm_insert_def dm_remove_def
  by (intro keeps_rules keeps_idx keeps_locked(2) keeps_act keeps_book_write keeps_book_remove keeps_order_settle;
      auto simp: orders_typed_def keyed_by_put keyed_by_remove book_shaped_ops)+

lemma keeps_balance_ops:
  "keeps_balances (balances_set_prog shard b)" "keeps_balances (balances_remove_prog shard user token)"
  unfolding balances_set_prog_def balances_remove_prog_def Let_def dm_insert_def dm_remove_def
  by (intro keeps_rules keeps_idx keeps_locked(2) keeps_act; auto simp: keyed_by_put keyed_by_remove bal_key_def)+

lemma keeps_user_ops:
  "keeps_users (users_ensure_prog shard a now)" "keeps_users (users_set_vault_prog shard a vault)"
  unfolding users_ensure_prog_def users_set_vault_prog_def
  by (intro keeps_rules keeps_locked(2);
      auto simp: keyed_by_def user_default_def users_set_vault_def split: option.splits if_splits)+

lemma keeps_code_write: "keeps_users (code_write shard code f)"
  unfolding code_write_def by (auto intro!: keeps_rules keeps_locked(2) split: option.splits)

lemma keeps_user_writes:
  "keeps_users (users_upsert_prog shard u)"
  "(\<And>u. usr_address (f u) = usr_address u) \<Longrightarrow> keeps_users (users_update_prog shard a f)"
  unfolding users_upsert_prog_def users_update_prog_def Let_def dm_insert_def
  by (intro keeps_rules keeps_code_write keeps_locked(2) keeps_act; auto simp: keyed_by_def split: option.splits if_splits)+

lemma keeps_market_ops:
  "keeps_market (set_price_prog m price ns)" "keeps_market (add_long_oi_prog m d)" "keeps_market (add_short_oi_prog m d)"
  "keeps_market (set_funding_rate_prog m a b)" "keeps_market (set_paused_prog m p)"
  unfolding set_price_prog_def add_long_oi_prog_def add_short_oi_prog_def set_funding_rate_prog_def set_paused_prog_def
    inner_write_def
  by (intro keeps_rules keeps_writes keeps_locked(2); simp add: on_slot_def on_inner_def)+

lemma keeps_stats_ops:
  "keeps stats_typed (stats_write shard a (stats_ensure a'))"
  "keeps stats_typed (stats_write shard a (increment_open_positions a'))"
  "keeps stats_typed (stats_write shard a (decrement_open_positions a'))"
  "\<not> (w \<and> l) \<Longrightarrow> keeps stats_typed (stats_write shard a (\<lambda>s. snd (increment_trade a' v p f w l t s)))"
  unfolding stats_write_def
  by (intro keeps_locked(2); simp add: stats_typed_def stats_ok_ensure stats_ok_increment_open stats_ok_decrement_open
      stats_ok_increment_trade trades_balanced_ops)+

lemma keeps_daily_op: "keeps daily_ok (accumulate_trade_prog shard a d v p f)"
  unfolding accumulate_trade_prog_def by (intro keeps_locked(2) daily_ok_accumulate)

section \<open>Every call keeps the shape\<close>

abbreviation keeps_state :: "(lock, perf_db, 'a) prog \<Rightarrow> bool" where
  "keeps_state \<equiv> keeps state_typed"

lemma keeps_on_stores:
  "keeps_positions p \<Longrightarrow> keeps_state (on_positions p)" "keeps_orders q \<Longrightarrow> keeps_state (on_orders q)"
  "keeps_balances b \<Longrightarrow> keeps_state (on_balances b)" "keeps_users us \<Longrightarrow> keeps_state (on_users us)"
  "keeps stats_typed st \<Longrightarrow> keeps_state (on_trader_stats st)" "keeps daily_ok d \<Longrightarrow> keeps_state (on_daily_stats d)"
  "keeps_market m \<Longrightarrow> keeps_state (on_market m)" "keeps (\<lambda>_. True) cp \<Longrightarrow> keeps_state (on_checkpoint cp)"
  "keeps (\<lambda>_. True) es \<Longrightarrow> keeps_state (on_events es)"
  by (erule keeps_zoom; simp add: state_typed_def stores_typed_def)+

lemma keeps_True: "keeps (\<lambda>_. True) p"
  by (induction p rule: prog_induct) auto

lemma keeps_publish: "message_fits ch msg \<Longrightarrow> keeps_state (publish_prog ch msg)"
  unfolding publish_prog_def by (rule keeps_writes) (simp add: state_typed_def channels_typed_send)

lemmas keeps_calls = keeps_on_stores(1-7) keeps_on_stores(8,9) [OF keeps_True] keeps_position_ops keeps_order_ops keeps_balance_ops
  keeps_user_ops keeps_market_ops keeps_stats_ops keeps_daily_op keeps_publish keeps_collect keeps_query keeps_dm_get

lemma keeps_handle: "keeps_state (handle_event_prog shard ev e)"
  by (cases e) (simp_all only: handle_event_prog.simps event_progs Let_def seqs.simps balances_get_prog_def positions_get_prog_def,
      (rule keeps_rules keeps_calls | simp add: close_position_def Let_def)+)

lemma leaderboard_ok_halves: "leaderboard_ok lb \<Longrightarrow> leaderboard_ok (rebuild_pnl all_stats now lb)"
  "leaderboard_ok lb \<Longrightarrow> leaderboard_ok (rebuild_volume all_stats now lb)"
  using board_ok_ranked [OF rebuild_pnl_ranked [of lb all_stats now]] board_ok_ranked [OF rebuild_volume_ranked [of lb all_stats now]]
  by (simp_all add: leaderboard_ok_def rebuild_pnl_def rebuild_volume_def Let_def)

text \<open>The parts of the database that the shape does not mention.\<close>

lemma state_typed_other [simp]:
  "state_typed (db\<lparr>db_wal := x\<rparr>) = state_typed db" "state_typed (db\<lparr>db_tick_store := ts\<rparr>) = state_typed db"
  "state_typed (db\<lparr>db_candle_store := cs\<rparr>) = state_typed db" "state_typed (db\<lparr>db_candle_builder := cb\<rparr>) = state_typed db"
  "state_typed (db\<lparr>db_snapshots := d\<rparr>) = state_typed db" "state_typed (sync_wal db) = state_typed db"
  by (simp_all add: state_typed_def sync_wal_def)

lemma keeps_process_event: "keeps_state (process_event_prog ser crc shard due ev)"
  unfolding process_event_prog_def wal_append_prog_def event_body_def append_event_prog_def Let_def seqs.simps
  by (rule keeps_rules keeps_calls keeps_handle keeps_act | simp add: split_beta)+

lemma keeps_ingest_tick: "keeps_state (ingest_tick_prog ser crc due t)"
  unfolding ingest_tick_prog_def wal_append_prog_def tick_body_def tick_store_append_prog_def on_tick_prog_def append_closed_prog_def
  by (rule keeps_rules keeps_calls keeps_act | simp add: split_beta split: option.splits)+

lemma keeps_snapshot: "keeps_state (db_snapshot_prog sser shard io)"
proof -
  have stats: "keeps stats_typed (stats_all_prog shard ks)" for ks
    unfolding stats_all_prog_def by (rule keeps_collect)
  have daily: "keeps_state (daily_entries_prog shard io traders)" for traders
    by (induction traders) (auto simp: trader_daily_history_prog_def intro!: keeps_rules keeps_calls)
  have "keeps_market (market_snapshot_prog m)" for m
    unfolding market_snapshot_prog_def by (auto intro!: keeps_rules)
  then have markets: "keeps_state (market_states_prog ms)" for ms
    by (induction ms) (auto intro!: keeps_rules keeps_calls)
  show ?thesis
    unfolding db_snapshot_prog_def snapshot_stores_prog_def positions_all_prog_def orders_all_prog_def balances_all_prog_def users_all_prog_def
    by (rule keeps_rules keeps_calls stats daily markets keeps_act | simp add: split_beta Let_def)+
qed

lemma keeps_maintenance:
  "keeps_state sync_wal_prog" "keeps_state (save_checkpoint_prog block hash ts)" "keeps_state (rebuild_leaderboard_prog shard ks now)"
proof -
  have "keeps leaderboard_ok (leaderboard_rebuild_prog all_stats now)" for all_stats
    unfolding leaderboard_rebuild_prog_def by (intro keeps_rules keeps_locked(2) leaderboard_ok_halves)
  then have "keeps_state (zoom db_leaderboard db_leaderboard_update (leaderboard_rebuild_prog all_stats now))" for all_stats
    by (rule keeps_zoom) (simp_all add: state_typed_def)
  then show "keeps_state (rebuild_leaderboard_prog shard ks now)"
    unfolding rebuild_leaderboard_prog_def stats_all_prog_def by (intro keeps_rules keeps_calls)
  show "keeps_state sync_wal_prog" unfolding sync_wal_prog_def by (rule keeps_locked) simp
  show "keeps_state (save_checkpoint_prog block hash ts)" unfolding save_checkpoint_prog_def by (rule keeps_calls)
qed

lemma keeps_shutdown: "keeps_state (perf_db_shutdown_prog sser shard io)"
proof -
  have flush: "keeps_state flush_candles_prog"
    unfolding flush_candles_prog_def by (intro keeps_rules keeps_act) (simp split: option.splits prod.splits)
  show ?thesis
    unfolding perf_db_shutdown_prog_def
    by (rule keeps_rules flush keeps_maintenance(1) keeps_snapshot keeps_locked(2) | simp)+
qed

lemma keeps_call: "keeps_state (call_prog ser sser crc shard c)"
proof -
  have market: "keeps_market (market_snapshot_prog m)" for m
    unfolding market_snapshot_prog_def by (auto intro!: keeps_rules)
  have code: "keeps_users (users_by_referral_code_prog shard code)" for code
    unfolding users_by_referral_code_prog_def by (auto intro!: keeps_rules keeps_dm_get)
  have book: "keeps_orders (orders_orderbook_prog m)" for m
    unfolding orders_orderbook_prog_def by (auto intro!: keeps_rules keeps_locked(1))
  have loads: "keeps_market (price_loads is)" for "is"
    by (induction "is") (auto intro!: keeps_rules)
  have prices: "keeps_market all_prices_prog" unfolding all_prices_prog_def by (intro keeps_rules loads)
  have code_set: "keeps_users (users_update_prog shard a (\<lambda>u. u\<lparr>usr_referral_code := Some code\<rparr>))" for a code
    by (rule keeps_user_writes) simp
  show ?thesis
    by (cases c) (simp_all only: call_prog.simps positions_get_prog_def balances_get_prog_def positions_by_user_prog_def positions_by_market_prog_def orders_by_user_prog_def
        balances_user_balances_prog_def, (rule keeps_rules keeps_calls market code book prices code_set keeps_user_writes(1) keeps_process_event keeps_ingest_tick
        keeps_snapshot keeps_maintenance keeps_shutdown)+)
qed

text \<open>In particular the counters of a trader add up whenever somebody reads them.\<close>

lemma always_typed:
  assumes "mreach (call_prog ser sser crc shard) (map thread_of qs, db0) (ts, db)" "state_typed db0"
  shows "state_typed db"
  using assms by (rule invariant_reach) (rule keeps_call)

end
