(* ===== verification/Commuting.thy ===== *)
theory Commuting
  imports Two_Writers
begin

text \<open>
  Any number of threads whose writes commute. Each call either writes, with actions that the thread owns, or only
  reads. Under this interface every run ends in the state of the run that executes the threads one after the
  other, whatever was interleaved.
\<close>

section \<open>Programs of given actions\<close>

text \<open>All actions satisfy \<open>A\<close>, and the program returns without a panic.\<close>

inductive acts_in :: "(('s \<Rightarrow> ('l, 's, 'a option) prog \<times> 's) \<Rightarrow> bool) \<Rightarrow> ('l, 's, 'a option) prog \<Rightarrow> bool" for A where
  acts_Ret: "acts_in A (Ret (Some a))"
| acts_Act: "A f \<Longrightarrow> (\<And>s. acts_in A (fst (f s))) \<Longrightarrow> acts_in A (Act f)"
| acts_Acquire: "acts_in A p \<Longrightarrow> acts_in A (Acquire l m p)"
| acts_Release: "acts_in A p \<Longrightarrow> acts_in A (Release l p)"

inductive_simps acts_simps [simp]:
  "acts_in A (Ret a)" "acts_in A (Act f)" "acts_in A (Acquire l m p)" "acts_in A (Release l p)"

text \<open>What two actions of different threads must satisfy.\<close>

definition commute :: "('s \<Rightarrow> 'a \<times> 's) \<Rightarrow> ('s \<Rightarrow> 'b \<times> 's) \<Rightarrow> bool" where
  "commute f g \<longleftrightarrow> (\<forall>s. fst (f (snd (g s))) = fst (f s) \<and> fst (g (snd (f s))) = fst (g s) \<and>
     snd (f (snd (g s))) = snd (g (snd (f s))))"

abbreviation silent :: "('s \<Rightarrow> 'a \<times> 's) \<Rightarrow> bool" where
  "silent f \<equiv> \<forall>s. snd (f s) = s"

lemma run_silent: "acts_in silent p \<Longrightarrow> snd (run p s) = s"
  by (induction arbitrary: s rule: acts_in.induct) auto

section \<open>The interface\<close>

locale commuting_threads =
  fixes code :: "'c \<Rightarrow> ('l, 's, unit option) prog" and owns :: "nat \<Rightarrow> ('s \<Rightarrow> ('l, 's, unit option) prog \<times> 's) \<Rightarrow> bool"
    and allowed :: "nat \<Rightarrow> 'c \<Rightarrow> bool"
  assumes owners_commute: "i \<noteq> j \<Longrightarrow> owns i f \<Longrightarrow> owns j g \<Longrightarrow> commute f g"
    and calls: "allowed i c \<Longrightarrow> acts_in (owns i) (code c) \<or> acts_in silent (code c)"
begin

abbreviation fine :: "nat \<Rightarrow> ('l, 's, unit option) prog \<Rightarrow> bool" where
  "fine i p \<equiv> acts_in (owns i) p \<or> acts_in silent p"

text \<open>The effect of what is left of a thread, and of all threads in turn.\<close>

definition left_over :: "('l, 's, 'c) thread \<Rightarrow> 's \<Rightarrow> 's" where
  "left_over t s = fold (\<lambda>c s. snd (run (code c) s)) (th_queue t) (snd (run (th_prog t) s))"

definition thread_fine :: "nat \<Rightarrow> ('l, 's, 'c) thread \<Rightarrow> bool" where
  "thread_fine i t \<longleftrightarrow> fine i (th_prog t) \<and> (\<forall>c \<in> set (th_queue t). allowed i c)"

definition threads_fine :: "nat \<Rightarrow> ('l, 's, 'c) thread list \<Rightarrow> bool" where
  "threads_fine k ts \<longleftrightarrow> (\<forall>j < length ts. thread_fine (k + j) (ts ! j))"

lemma threads_fine_Cons [simp]: "threads_fine k (t # ts) \<longleftrightarrow> thread_fine k t \<and> threads_fine (Suc k) ts"
  by (auto simp: threads_fine_def nth_Cons less_Suc_eq_0_disj split: nat.splits)

lemma run_commutes:
  assumes "acts_in (owns j) p" "owns i f" "i \<noteq> j"
  shows "fst (f (snd (run p s))) = fst (f s) \<and> snd (f (snd (run p s))) = snd (run p (snd (f s)))"
  using assms(1)
proof (induction arbitrary: s rule: acts_in.induct)
  case (acts_Act g)
  have c: "commute f g" using owners_commute [OF assms(3,2) acts_Act.hyps(1)] .
  then have "fst (f (snd (g s))) = fst (f s)" "snd (f (snd (g s))) = snd (g (snd (f s)))" "fst (g (snd (f s))) = fst (g s)"
    by (simp_all add: commute_def)
  then show ?case using acts_Act.IH [of s "snd (g s)"] by simp
qed simp_all

lemma fine_commutes:
  assumes "fine j p" "owns i f" "i \<noteq> j"
  shows "fst (f (snd (run p s))) = fst (f s) \<and> snd (f (snd (run p s))) = snd (run p (snd (f s)))"
  using assms(1)
proof
  assume "acts_in (owns j) p"
  then show ?thesis by (rule run_commutes [OF _ assms(2,3)])
qed (simp add: run_silent)

lemma queue_commutes:
  assumes "\<forall>c \<in> set q. allowed j c" "owns i f" "i \<noteq> j"
  shows "fst (f (fold (\<lambda>c s. snd (run (code c) s)) q s)) = fst (f s) \<and>
    snd (f (fold (\<lambda>c s. snd (run (code c) s)) q s)) = fold (\<lambda>c s. snd (run (code c) s)) q (snd (f s))"
  using assms(1)
proof (induction q arbitrary: s)
  case (Cons c q)
  have "fine j (code c)" using Cons.prems calls by simp
  then show ?case using fine_commutes [OF _ assms(2,3), of "code c" s] Cons.IH [of "snd (run (code c) s)"] Cons.prems by simp
qed simp

lemma left_over_commutes:
  assumes "thread_fine j t" "owns i f" "i \<noteq> j"
  shows "fst (f (left_over t s)) = fst (f s) \<and> snd (f (left_over t s)) = left_over t (snd (f s))"
  using queue_commutes [OF _ assms(2,3), of "th_queue t" "snd (run (th_prog t) s)"] fine_commutes [OF _ assms(2,3), of "th_prog t" s]
    assms(1) by (simp add: left_over_def thread_fine_def)

lemma tstep_fine:
  assumes "tstep code (t, s) (t', s')" "thread_fine i t"
  shows "thread_fine i t'"
  using assms by cases (auto simp: thread_fine_def calls)

text \<open>The threads before the one that moves: its action is passed through their effects.\<close>

lemma effect_before:
  assumes "threads_fine k us" "tstep code (t, s) (t', s')" "thread_fine i t" "k + length us \<le> i"
  shows "left_over t' (fold left_over us s') = left_over t (fold left_over us s)"
  using assms(2)
proof cases
  case (t_act f h q)
  let ?x = "fold left_over us s"
  consider "acts_in (owns i) (Act f)" | "acts_in silent (Act f)" using assms(3) t_act(1) by (auto simp: thread_fine_def)
  then show ?thesis
  proof cases
    assume "acts_in (owns i) (Act f)"
    then have o: "owns i f" by simp
    have "fst (f ?x) = fst (f s) \<and> snd (f ?x) = fold left_over us (snd (f s))"
      using assms(1,4)
    proof (induction us arbitrary: k s)
      case (Cons u us)
      then have "fst (f (left_over u s)) = fst (f s) \<and> snd (f (left_over u s)) = left_over u (snd (f s))"
        by (intro left_over_commutes [OF _ o]) auto
      then show ?case using Cons.IH [of "Suc k" "left_over u s"] Cons.prems by simp
    qed simp
    then show ?thesis using t_act by (simp add: left_over_def)
  next
    assume sil: "acts_in silent (Act f)"
    then have "snd (run (fst (f s)) y) = y" "snd (run (Act f) y) = y" for y by (auto intro!: run_silent simp del: run_Act)
    moreover have "snd (f s) = s" using sil by simp
    ultimately show ?thesis using t_act by (simp add: left_over_def del: run_Act)
  qed
qed (simp_all add: left_over_def)

lemma step_effect:
  assumes "mstep code (ts, s) (ts', s')" "threads_fine 0 ts"
  shows "threads_fine 0 ts'" "fold left_over ts' s' = fold left_over ts s"
proof -
  obtain i t' where i: "i < length ts" "ts' = ts[i := t']" and st: "tstep code (ts ! i, s) (t', s')"
    using assms(1) by (rule mstep_thread)
  have ti: "thread_fine i (ts ! i)" using assms(2) i(1) by (simp add: threads_fine_def)
  then have "thread_fine i t'" using tstep_fine [OF st] by simp
  then show "threads_fine 0 ts'" using assms(2) i by (auto simp: threads_fine_def nth_list_update)
  have us: "threads_fine 0 (take i ts)" using assms(2) by (simp add: threads_fine_def)
  have ts: "ts = take i ts @ ts ! i # drop (Suc i) ts" using i(1) by (rule id_take_nth_drop)
  have ts': "ts' = take i ts @ t' # drop (Suc i) ts" unfolding i(2) using i(1) by (rule upd_conv_take_nth_drop)
  have "fold left_over ts' s' = fold left_over (drop (Suc i) ts) (left_over t' (fold left_over (take i ts) s'))"
    by (subst ts') simp
  also have "\<dots> = fold left_over (drop (Suc i) ts) (left_over (ts ! i) (fold left_over (take i ts) s))"
    using effect_before [OF us st ti] by simp
  also have "\<dots> = fold left_over ts s" by (subst (3) ts) simp
  finally show "fold left_over ts' s' = fold left_over ts s" .
qed

lemma reach_effect:
  assumes "mreach code (ts, s) (ts', s')" "threads_fine 0 ts"
  shows "threads_fine 0 ts' \<and> fold left_over ts' s' = fold left_over ts s"
  using assms
proof (induction "(ts', s')" arbitrary: ts' s' rule: rtranclp_induct)
  case (step c)
  obtain us u where c: "c = (us, u)" by (cases c)
  show ?case using step_effect [OF step.hyps(2) [unfolded c]] step.hyps(3) [OF c step.prems] by simp
qed simp

text \<open>All calls, thread by thread.\<close>

definition in_turn :: "'c list list \<Rightarrow> 's \<Rightarrow> 's" where
  "in_turn qs = fold (fold (\<lambda>c s. snd (run (code c) s))) qs"

theorem ends_in_turn:
  assumes "mreach code (map thread_of qs, s) (ts, s')" "all_done ts" "\<And>i c. i < length qs \<Longrightarrow> c \<in> set (qs ! i) \<Longrightarrow> allowed i c"
  shows "s' = in_turn qs s"
proof -
  have "threads_fine 0 (map thread_of qs :: ('l, 's, 'c) thread list)"
    using assms(3) by (auto simp: threads_fine_def thread_fine_def thread_of_def)
  from reach_effect [OF assms(1) this] have f: "threads_fine 0 ts" and e: "fold left_over ts s' = fold left_over (map thread_of qs) s"
    by simp_all
  have "left_over t x = x" if t: "t \<in> set ts" for t x
  proof -
    obtain i where "i < length ts" "ts ! i = t" using t by (meson in_set_conv_nth)
    then have "thread_fine i t" using f by (auto simp: threads_fine_def)
    moreover have "thread_done t" using assms(2) t by (simp add: all_done_def)
    ultimately have "th_prog t = Ret (Some ())" "th_queue t = []"
      by (auto simp: thread_fine_def thread_done_def split: prog.splits option.splits)
    then show ?thesis by (simp add: left_over_def)
  qed
  then have "fold left_over ts s' = s'" by (induction ts) auto
  moreover have "left_over (thread_of q :: ('l, 's, 'c) thread) = fold (\<lambda>c s. snd (run (code c) s)) q" for q
    by (simp add: left_over_def thread_of_def fun_eq_iff)
  then have "fold left_over (map thread_of qs :: ('l, 's, 'c) thread list) s = in_turn qs s"
    by (simp add: in_turn_def fold_map comp_def)
  ultimately show ?thesis using e by simp
qed

end

end
