(* ===== verification/Position_Writers.thy ===== *)
theory Position_Writers
  imports Commuting Schedules Concurrent_Tables
begin

text \<open>
  Threads that insert and update positions, each with ids of its own, next to any queries. Without removals the
  operations of the position table commute at the granularity of its locks: whatever the interleaving, the
  table ends as if the threads had run one after the other, its indices included.
\<close>

datatype position_call =
    InsertPosition position
  | UpdatePosition hash32 "position \<Rightarrow> position"
  | GetPosition hash32
  | PositionsByUser "hash32 set \<Rightarrow> hash32 list" address
  | PositionsByMarket "hash32 set \<Rightarrow> hash32 list" u16
  | AllPositions "hash32 list"

fun position_code :: "(map_key \<Rightarrow> nat) \<Rightarrow> position_call \<Rightarrow> (lock, position_table, unit option) prog" where
  "position_code shard (InsertPosition p) = finishes (positions_insert_prog shard p)"
| "position_code shard (UpdatePosition pid f) = finishes (positions_update_prog shard pid f)"
| "position_code shard (GetPosition pid) = finishes (positions_get_prog shard pid)"
| "position_code shard (PositionsByUser order user) = finishes (positions_by_user_prog shard order user)"
| "position_code shard (PositionsByMarket order m) = finishes (positions_by_market_prog shard order m)"
| "position_code shard (AllPositions ks) = finishes (positions_all_prog shard ks)"

text \<open>The same calls on the table of the sequential model.\<close>

fun position_effect :: "position_call \<Rightarrow> position_table \<Rightarrow> position_table" where
  "position_effect (InsertPosition p) t = positions_insert p t"
| "position_effect (UpdatePosition pid f) t = snd (positions_update pid f t)"
| "position_effect _ t = t"

text \<open>The thread that a call belongs to, when ids are divided among the threads.\<close>

fun owned_call :: "(hash32 \<Rightarrow> nat) \<Rightarrow> nat \<Rightarrow> position_call \<Rightarrow> bool" where
  "owned_call owner i (InsertPosition p) \<longleftrightarrow> owner (pos_position_id p) = i"
| "owned_call owner i (UpdatePosition pid f) \<longleftrightarrow> owner pid = i"
| "owned_call owner i _ \<longleftrightarrow> True"

text \<open>An action on the entry of one id, or an addition to an index.\<close>

definition entry_action :: "hash32 \<Rightarrow> (position_table \<Rightarrow> 'r \<times> position_table) \<Rightarrow> bool" where
  "entry_action pid f \<longleftrightarrow> (\<exists>q h. \<forall>t. f t = (q (pt_positions t pid),
     pt_positions_update (\<lambda>m. m(pid := h (m pid))) t))"

lemma entry_actionI:
  "(\<And>t. f t = (q (pt_positions t pid), pt_positions_update (\<lambda>m. m(pid := h (m pid))) t)) \<Longrightarrow> entry_action pid f"
  unfolding entry_action_def by (rule exI, rule exI, rule allI)

definition index_action :: "(position_table \<Rightarrow> 'r \<times> position_table) \<Rightarrow> bool" where
  "index_action f \<longleftrightarrow> (\<exists>q x pid. \<forall>t. f t = (q, pt_by_user_update (idx_add x pid) t)) \<or>
     (\<exists>q x pid. \<forall>t. f t = (q, pt_by_market_update (idx_add x pid) t))"

definition owns_position :: "(hash32 \<Rightarrow> nat) \<Rightarrow> nat \<Rightarrow> (position_table \<Rightarrow> 'r \<times> position_table) \<Rightarrow> bool" where
  "owns_position owner i f \<longleftrightarrow> (\<exists>pid. owner pid = i \<and> entry_action pid f) \<or> index_action f"

lemma idx_add_commute: "idx_add x k (idx_add y j m) = idx_add y j (idx_add x k m)"
  by (auto simp: idx_add_def fun_eq_iff insert_commute split: option.splits)

lemma commute_sym: "commute f g \<Longrightarrow> commute g f"
  by (simp add: commute_def)

lemma commute_entries:
  assumes "pid \<noteq> pid'" "entry_action pid f" "entry_action pid' g"
  shows "commute f g"
proof -
  obtain q h where f: "\<forall>t. f t = (q (pt_positions t pid), pt_positions_update (\<lambda>m. m(pid := h (m pid))) t)"
    using assms(2) by (auto simp: entry_action_def)
  obtain q' h' where g: "\<forall>t. g t = (q' (pt_positions t pid'), pt_positions_update (\<lambda>m. m(pid' := h' (m pid'))) t)"
    using assms(3) by (auto simp: entry_action_def)
  show ?thesis using assms(1) by (simp add: commute_def f g fun_upd_twist)
qed

lemma commute_entry_index: "entry_action pid f \<Longrightarrow> index_action g \<Longrightarrow> commute f g"
  by (auto simp: entry_action_def index_action_def commute_def)

lemma commute_indices: "index_action f \<Longrightarrow> index_action g \<Longrightarrow> commute f g"
  by (auto simp: index_action_def commute_def idx_add_commute)

lemma owners_commute: "i \<noteq> j \<Longrightarrow> owns_position owner i f \<Longrightarrow> owns_position owner j g \<Longrightarrow> commute f g"
  unfolding owns_position_def using commute_entries commute_entry_index commute_sym commute_indices by metis

lemma entry_result: "entry_action pid f \<Longrightarrow> entry_action pid (\<lambda>t. map_prod r id (f t))"
proof -
  assume "entry_action pid f"
  then obtain q h where "\<forall>t. f t = (q (pt_positions t pid), pt_positions_update (\<lambda>m. m(pid := h (m pid))) t)"
    by (auto simp: entry_action_def)
  then show ?thesis by (intro entry_actionI [where q = "\<lambda>x. r (q x)" and h = h]) simp
qed

lemma index_result: "index_action f \<Longrightarrow> index_action (\<lambda>t. map_prod r id (f t))"
  unfolding index_action_def by fastforce

lemma owns_result: "owns_position owner i f \<Longrightarrow> owns_position owner i (\<lambda>t. map_prod r id (f t))"
  unfolding owns_position_def using entry_result index_result by blast

lemma acts_guarded:
  assumes "owns_position owner i f" "\<And>a. acts_in (owns_position owner i) (k a)"
  shows "acts_in (owns_position owner i) (pbind (guarded l m (act f)) k)"
  using assms(2) owns_result [OF assms(1), of "\<lambda>a. Release l (k a)"] by (simp add: guarded_def act_def prod.map_comp comp_def id_def)

lemma acts_pure: "pure_prog p \<Longrightarrow> acts_in silent (finishes p)"
  by (induction rule: pure_prog.induct) (simp_all add: finishes_def)

lemma owned_actions:
  "owner pid = i \<Longrightarrow> owns_position owner i (\<lambda>t. ((), pt_positions_update (\<lambda>m. m(pid \<mapsto> p)) t))"
  "owner pid = i \<Longrightarrow> owns_position owner i (positions_update pid f)"
  "owns_position owner i (\<lambda>t. ((), pt_by_user_update (idx_add u pid) t))"
  "owns_position owner i (\<lambda>t. ((), pt_by_market_update (idx_add x pid) t))"
proof -
  have "positions_update pid f t = (pt_positions t pid \<noteq> None, pt_positions_update (\<lambda>m. m(pid := map_option f (m pid))) t)" for t
    by (cases t) (simp add: positions_update_def fun_upd_idem split: option.splits)
  then have "entry_action pid (positions_update pid f)"
    by (intro entry_actionI [where q = "\<lambda>x. x \<noteq> None" and h = "map_option f"])
  then show "owner pid = i \<Longrightarrow> owns_position owner i (positions_update pid f)" by (auto simp: owns_position_def)
  show "owner pid = i \<Longrightarrow> owns_position owner i (\<lambda>t. ((), pt_positions_update (\<lambda>m. m(pid \<mapsto> p)) t))"
    unfolding owns_position_def
    by (intro disjI1 exI [of _ pid] conjI entry_actionI [where q = "\<lambda>_. ()" and h = "\<lambda>_. Some p"]) simp_all
qed (unfold owns_position_def index_action_def, blast+)

lemma owned_call_acts:
  assumes "owned_call owner i c"
  shows "acts_in (owns_position owner i) (position_code shard c) \<or> acts_in silent (position_code shard c)"
proof (cases c)
  case (InsertPosition p)
  then have "acts_in (owns_position owner i) (position_code shard c)"
    using assms unfolding InsertPosition position_code.simps finishes_def positions_insert_prog_def Let_def pbind_assoc
      dm_insert_def idx_insert_def locked_write_def writes_def
    by (intro acts_guarded owned_actions) simp_all
  then show ?thesis ..
next
  case (UpdatePosition pid f)
  then have "acts_in (owns_position owner i) (position_code shard c)"
    using assms unfolding UpdatePosition position_code.simps finishes_def positions_update_prog_def
    by (intro acts_guarded owned_actions) simp_all
  then show ?thesis ..
qed (simp_all add: acts_pure positions_get_prog_def positions_by_user_prog_def positions_by_market_prog_def
    positions_all_prog_def dm_get_def pure_locked_read pure_query pure_collect)

interpretation position_writers: commuting_threads "position_code shard" "owns_position owner" "owned_call owner"
  for shard owner
  by unfold_locales (use owners_commute owned_call_acts in blast)+

lemma effect_run: "snd (run (position_code shard c) t) = position_effect c t"
  by (cases c) (simp_all add: finishes_def run_positions run_positions_queries)

lemma position_writers_in_turn:
  assumes "mreach (position_code shard) (map thread_of qs, t) (ts, t')" "all_done ts"
    and "\<forall>i < length qs. \<forall>c \<in> set (qs ! i). owned_call owner i c"
  shows "t' = fold (fold position_effect) qs t"
proof -
  have "t' = position_writers.in_turn shard qs t"
    by (rule position_writers.ends_in_turn [OF assms(1,2)]) (use assms(3) in auto)
  then show ?thesis by (simp add: position_writers.in_turn_def effect_run)
qed

text \<open>With insertions of new ids and closures that leave the keys alone, the indices are exact at the end.\<close>

fun inserted_id :: "position_call \<Rightarrow> hash32 list" where
  "inserted_id (InsertPosition p) = [pos_position_id p]"
| "inserted_id _ = []"

fun fits_table :: "position_table \<Rightarrow> position_call \<Rightarrow> bool" where
  "fits_table t (InsertPosition p) \<longleftrightarrow> pt_positions t (pos_position_id p) = None"
| "fits_table t (UpdatePosition pid f) \<longleftrightarrow> keeps_position_keys f"
| "fits_table t _ \<longleftrightarrow> True"

lemma fits_after:
  assumes "fits_table t d" "set (inserted_id c) \<inter> set (inserted_id d) = {}"
  shows "fits_table (position_effect c t) d"
proof (cases d)
  case (InsertPosition p)
  then show ?thesis using assms
    by (cases c) (auto simp: positions_insert_def positions_update_def Let_def split: option.splits)
qed (use assms(1) in simp_all)

lemma effects_ok:
  assumes "positions_ok t" "\<forall>c \<in> set cs. fits_table t c" "distinct (concat (map inserted_id cs))"
  shows "positions_ok (fold position_effect cs t)"
  using assms
proof (induction cs arbitrary: t)
  case (Cons c cs)
  have "positions_ok (position_effect c t)"
    using Cons.prems(1,2) by (cases c) (auto intro: positions_ok_insert positions_ok_update)
  moreover have "\<forall>d \<in> set cs. fits_table (position_effect c t) d"
    using Cons.prems(2,3) by (fastforce intro: fits_after)
  ultimately show ?case using Cons.IH Cons.prems(3) by simp
qed simp

lemma fold_fold_concat: "fold (fold f) xss s = fold f (concat xss) s"
  by (induction xss arbitrary: s) simp_all

lemma position_writers_exact:
  assumes run: "mreach (position_code shard) (map thread_of qs, t) (ts, t')" "all_done ts"
    and owned: "\<forall>i < length qs. \<forall>c \<in> set (qs ! i). owned_call owner i c"
    and ok: "positions_ok t" "\<forall>c \<in> set (concat qs). fits_table t c" "distinct (concat (map inserted_id (concat qs)))"
  shows "t' = fold (fold position_effect) qs t" "positions_ok t'"
proof -
  show "t' = fold (fold position_effect) qs t" by (rule position_writers_in_turn [OF run owned])
  then show "positions_ok t'" using effects_ok [OF ok] by (simp only: fold_fold_concat)
qed

end
