(* ===== verification/Races.thy ===== *)
theory Races
  imports Concurrent_Calls Schedules
begin

text \<open>
  What can happen when two threads write to the same table at the same time: schedules of the machine, built
  from segments in which one thread runs alone. Every one of them ends in a state that no sequential run of the
  same calls reaches.
\<close>

text \<open>The segments of the schedules: the start of a call, and the continuation of one.\<close>

lemma call_starts:
  assumes "disciplined p" "c = pbind p k" "k (fst (run p s)) = p'" "snd (run p s) = s'"
  shows "mreach id (threads [(Ret (Some ()), c # q), y], s) (threads [(p', q), y], s')"
    and "mreach id (threads [y, (Ret (Some ()), c # q)], s) (threads [y, (p', q)], s')"
  using segment_call [where code = id and r = lock_rank and p = p and k = k and i = 0 and xs = "[(Ret (Some ()), c # q), y]"]
    segment_call [where code = id and r = lock_rank and p = p and k = k and i = 1 and xs = "[y, (Ret (Some ()), c # q)]"] assms
  by auto

lemma call_continues:
  assumes "disciplined p" "c = pbind p k" "k (fst (run p s)) = p'" "snd (run p s) = s'"
  shows "mreach id (threads [(c, q), y], s) (threads [(p', q), y], s')"
    and "mreach id (threads [y, (c, q)], s) (threads [y, (p', q)], s')"
  using segment [where code = id and r = lock_rank and p = p and k = k and i = 0 and xs = "[(c, q), y]"]
    segment [where code = id and r = lock_rank and p = p and k = k and i = 1 and xs = "[y, (c, q)]"] assms
  by auto

lemma call_finishes:
  assumes "disciplined p" "fst (run p s) = Some ()" "snd (run p s) = s'"
  shows "mreach id (threads [(p, q), y], s) (threads [(Ret (Some ()), q), y], s')"
    and "mreach id (threads [y, (p, q)], s) (threads [y, (Ret (Some ()), q)], s')"
  using call_continues [where p = p and k = Ret and c = p] assms by auto

lemma whole_call:
  assumes "disciplined p" "snd (run p s) = s'"
  shows "mreach id (threads [(Ret (Some ()), finishes p # q), y], s) (threads [(Ret (Some ()), q), y], s')"
    and "mreach id (threads [y, (Ret (Some ()), finishes p # q)], s) (threads [y, (Ret (Some ()), q)], s')"
  using call_starts [where p = p and k = "\<lambda>_. Ret (Some ())" and c = "finishes p"] assms by (auto simp: finishes_def)

lemma threads_start: "map thread_of [q, q'] = threads [(Ret (Some ()), q), (Ret (Some ()), q')]"
  by (simp add: thread_of_def)

lemma threads_done: "all_done (threads [(Ret (Some ()), []), (Ret (Some ()), [])])"
  by (simp add: all_done_def thread_done_def)

section \<open>A removal and an insertion for the same user\<close>

text \<open>The first half of the removal from an index, up to the release of the set, and what follows.\<close>

lemma idx_remove_split:
  "idx_remove l get upd x k = pbind (guarded l ExclusiveMode (act (\<lambda>s. case get s x of
         None \<Rightarrow> (False, s)
       | Some S \<Rightarrow> (S - {k} = {}, upd (\<lambda>m. m(x \<mapsto> S - {k})) s))))
     (\<lambda>emptied. if emptied then locked_write l (upd (\<lambda>m. m(x := None))) else Ret ())"
  by (rule idx_remove_def)

lemma remove_insert_loses_index:
  assumes p: "pt_positions t a = Some p" and user: "pos_user_address p = u" and only: "pt_by_user t u = Some {a}"
    and q: "pos_user_address q = u" "pos_position_id q \<noteq> a"
  shows "\<exists>ts t'.
    mreach id (map thread_of [[finishes (positions_remove_prog shard a)], [finishes (positions_insert_prog shard q)]], t) (ts, t') \<and>
    all_done ts \<and> positions_get t' (pos_position_id q) = Some q \<and> pt_by_user t' u = None"
proof -
  let ?rem = "finishes (positions_remove_prog shard a)" and ?ins = "finishes (positions_insert_prog shard q)"
  let ?ul = "Shard PositionsByUser (shard (KeyAddress u))"
  let ?t1 = "pt_positions_update (\<lambda>m. m(a := None)) t"
  let ?t2 = "pt_by_user_update (\<lambda>m. m(u \<mapsto> {})) ?t1"
  let ?market = "idx_remove (Shard PositionsByMarket (shard (KeyMarket (pos_market_id p)))) pt_by_market pt_by_market_update
      (pos_market_id p) a"
  let ?clear = "locked_write ?ul (pt_by_user_update (\<lambda>m. m(u := None))) :: (lock, position_table, unit) prog"
  let ?take = "guarded ?ul ExclusiveMode (act (\<lambda>s. case pt_by_user s u of
         None \<Rightarrow> (False, s) | Some S \<Rightarrow> (S - {a} = {}, pt_by_user_update (\<lambda>m. m(u \<mapsto> S - {a})) s)))"
  let ?del = "dm_remove (Shard PositionsMap (shard (Key32 a))) pt_positions pt_positions_update a"
  let ?fin = "\<lambda>e. pseq (if e then ?clear else Ret ()) (pseq ?market (Ret (Some ())))"
  have "\<exists>k. ?rem = pbind ?del k \<and> k (Some p) = pbind ?take ?fin"
    unfolding finishes_def positions_remove_prog_def pbind_assoc
    by (rule exI, rule conjI, rule refl) (simp add: user idx_remove_split pbind_assoc)
  then obtain k where k: "?rem = pbind ?del k" "k (Some p) = pbind ?take ?fin" by blast
  have 1: "mreach id (threads [(Ret (Some ()), [?rem]), (Ret (Some ()), [?ins])], t)
      (threads [(pbind ?take ?fin, []), (Ret (Some ()), [?ins])], ?t1)"
    by (rule call_starts(1) [OF disciplined_maps(3) k(1)]) (simp_all add: p k(2))
  have 2: "mreach id (threads [(pbind ?take ?fin, []), (Ret (Some ()), [?ins])], ?t1)
      (threads [(?fin True, []), (Ret (Some ()), [?ins])], ?t2)"
    by (rule call_continues(1) [OF disciplined_locked(1) refl]) (simp_all add: only)
  have 3: "mreach id (threads [(?fin True, []), (Ret (Some ()), [?ins])], ?t2)
      (threads [(?fin True, []), (Ret (Some ()), [])], positions_insert q ?t2)"
    by (rule whole_call(2)) (simp_all add: disciplined_positions run_positions)
  have 4: "mreach id (threads [(?fin True, []), (Ret (Some ()), [])], positions_insert q ?t2)
      (threads [(Ret (Some ()), []), (Ret (Some ()), [])], snd (run (?fin True) (positions_insert q ?t2)))"
    by (rule call_finishes(1)) (simp_all add: ordered_seq disciplined_locked disciplined_maps run_idx_remove)
  have r: "mreach id (map thread_of [[?rem], [?ins]], t)
      (threads [(Ret (Some ()), []), (Ret (Some ()), [])], snd (run (?fin True) (positions_insert q ?t2)))"
    unfolding threads_start by (rule rtranclp_trans [OF rtranclp_trans [OF rtranclp_trans [OF 1 2] 3] 4])
  have "positions_get (snd (run (?fin True) (positions_insert q ?t2))) (pos_position_id q) = Some q \<and>
      pt_by_user (snd (run (?fin True) (positions_insert q ?t2))) u = None"
    using q by (simp add: positions_insert_def positions_get_def Let_def run_idx_remove)
  with r threads_done show ?thesis by blast
qed

section \<open>A cancellation between the two halves of an insertion\<close>

text \<open>The order is in the table before it is in its book: a cancellation in between finds it, and leaves the book to the insertion.\<close>

lemma cancel_insert_leaves_order_in_book:
  assumes act: "order_is_active ord" and m: "unat (ord_market_id ord) < length (ot_orderbooks t)"
  shows "\<exists>ts t'.
    mreach id (map thread_of [[finishes (orders_insert_prog shard ord)], [finishes (orders_cancel_prog shard (ord_order_id ord))]], t)
      (ts, t') \<and> all_done ts \<and>
    map_option ord_status (orders_get t' (ord_order_id ord)) = Some OsCancelled \<and>
    ord_order_id ord \<in> side_ids (book_side_of (ord_is_long ord) (ot_orderbooks t' ! unat (ord_market_id ord))) (ord_trigger_price ord)"
proof -
  let ?oid = "ord_order_id ord"
  let ?ins = "finishes (orders_insert_prog shard ord)" and ?can = "finishes (orders_cancel_prog shard ?oid)"
  let ?put = "dm_insert (Shard OrdersMap (shard (Key32 ?oid))) ot_orders_update ?oid ord"
  let ?t1 = "ot_orders_update (\<lambda>m. m(?oid \<mapsto> ord)) t"
  let ?rest = "pseq (idx_insert (Shard OrdersByUser (shard (KeyAddress (ord_user_address ord)))) ot_by_user_update (ord_user_address ord) ?oid)
     (pseq (book_write (ord_market_id ord) (if ord_is_long ord then add_bid (ord_trigger_price ord) ?oid else add_ask (ord_trigger_price ord) ?oid))
       (Ret (Some ())))"
  have k: "?ins = pseq ?put ?rest"
    by (simp add: finishes_def orders_insert_prog_def pbind_assoc act Let_def)
  have 1: "mreach id (threads [(Ret (Some ()), [?ins]), (Ret (Some ()), [?can])], t) (threads [(?rest, []), (Ret (Some ()), [?can])], ?t1)"
    by (rule call_starts(1) [OF disciplined_maps(2) k]) simp_all
  have 2: "mreach id (threads [(?rest, []), (Ret (Some ()), [?can])], ?t1) (threads [(?rest, []), (Ret (Some ()), [])], snd (orders_cancel ?oid ?t1))"
    by (rule whole_call(2)) (simp_all add: disciplined_orders run_orders)
  have 3: "mreach id (threads [(?rest, []), (Ret (Some ()), [])], snd (orders_cancel ?oid ?t1))
      (threads [(Ret (Some ()), []), (Ret (Some ()), [])], snd (run ?rest (snd (orders_cancel ?oid ?t1))))"
  proof (rule call_finishes(1))
    show "disciplined ?rest" unfolding book_write_def
      by (rule disciplined_rules disciplined_maps | simp)+
  qed simp_all
  have r: "mreach id (map thread_of [[?ins], [?can]], t)
      (threads [(Ret (Some ()), []), (Ret (Some ()), [])], snd (run ?rest (snd (orders_cancel ?oid ?t1))))"
    unfolding threads_start by (rule rtranclp_trans [OF rtranclp_trans [OF 1 2] 3])
  have "map_option ord_status (orders_get (snd (run ?rest (snd (orders_cancel ?oid ?t1)))) ?oid) = Some OsCancelled"
    by (simp add: orders_cancel_def orders_get_def Let_def)
  moreover have "?oid \<in> side_ids (book_side_of (ord_is_long ord) (ot_orderbooks (snd (run ?rest (snd (orders_cancel ?oid ?t1)))) !
      unat (ord_market_id ord))) (ord_trigger_price ord)"
    using m by (simp add: orders_cancel_def Let_def with_book_def remove_from_orderbook_def book_side_of_def add_bid_def add_ask_def
        side_ids_push)
  ultimately show ?thesis using r threads_done by blast
qed

section \<open>Two deposits\<close>

text \<open>The new balance is computed outside of any lock: of two deposits at the same time one can be lost.\<close>

lemma deposits_lose_one:
  fixes db :: perf_db
  assumes b: "balances_get (st_balances (db_stores db)) user token = Some b"
  shows "\<exists>ts db'.
    mreach id (map thread_of [[finishes (on_collateral_deposited_prog shard ev user token x)],
      [finishes (on_collateral_deposited_prog shard ev' user token y)]], db) (ts, db') \<and> all_done ts \<and>
    map_option bal_amount (balances_get (st_balances (db_stores db')) user token) = Some (bal_amount b + x)"
proof -
  let ?d1 = "on_collateral_deposited_prog shard ev user token x" and ?d2 = "on_collateral_deposited_prog shard ev' user token y"
  let ?read = "pseq (on_users (users_ensure_prog shard user (ie_block_timestamp ev))) (on_balances (balances_get_prog shard user token))"
  let ?set = "on_balances (balances_set_prog shard \<lparr>bal_user_address = user, bal_token = token, bal_amount = bal_amount b + x,
      bal_locked = bal_locked b, bal_available = bal_amount b + x - bal_locked b\<rparr>)"
  let ?rest = "pseq ?set (pseq (publish_balance_prog shard user token) (Ret (Some ())))"
  let ?db1 = "snd (run ?read db)" and ?fin = "\<lambda>db. snd (run ?rest db)"
  have "\<exists>k. finishes ?d1 = pbind ?read k \<and> k (Some b) = ?rest"
    unfolding finishes_def on_collateral_deposited_prog_def pbind_assoc
    by (rule exI, rule conjI, rule refl) (simp add: pbind_assoc Let_def)
  then obtain k where k: "finishes ?d1 = pbind ?read k" "k (Some b) = ?rest" by blast
  have d: "disciplined ?read" "disciplined ?d2" "disciplined ?rest"
    unfolding on_collateral_deposited_prog_def publish_balance_prog_def Let_def
    by (rule disciplined_rules disciplined_on_stores disciplined_stores disciplined_publish)+
  have "fst (run ?read db) = Some b" using b by (simp add: run_on_stores run_users run_balances)
  then have 1: "mreach id (threads [(Ret (Some ()), [finishes ?d1]), (Ret (Some ()), [finishes ?d2])], db)
      (threads [(?rest, []), (Ret (Some ()), [finishes ?d2])], ?db1)"
    by (intro call_starts(1) [OF d(1) k(1)]) (simp_all add: k(2))
  have 2: "mreach id (threads [(?rest, []), (Ret (Some ()), [finishes ?d2])], ?db1) (threads [(?rest, []), (Ret (Some ()), [])], snd (run ?d2 ?db1))"
    by (rule whole_call(2) [OF d(2) refl])
  have 3: "mreach id (threads [(?rest, []), (Ret (Some ()), [])], snd (run ?d2 ?db1))
      (threads [(Ret (Some ()), []), (Ret (Some ()), [])], ?fin (snd (run ?d2 ?db1)))"
    by (rule call_finishes(1) [OF d(3) _ refl]) simp
  have r: "mreach id (map thread_of [[finishes ?d1], [finishes ?d2]], db)
      (threads [(Ret (Some ()), []), (Ret (Some ()), [])], ?fin (snd (run ?d2 ?db1)))"
    unfolding threads_start by (rule rtranclp_trans [OF rtranclp_trans [OF 1 2] 3])
  have "map_option bal_amount (balances_get (st_balances (db_stores (?fin s))) user token) = Some (bal_amount b + x)" for s
    by (simp add: publish_balance_prog_def run_on_stores run_balances publish_prog_def balances_set_def balances_get_def Let_def)
  with r threads_done show ?thesis by blast
qed

section \<open>Torn reads\<close>

text \<open>
  \<open>CheckpointStore::save\<close> is said to be atomic, and so is \<open>MarketStateTable::set_price\<close>: in the middle of either, a reader
  gets the new block with the old hash and time, or the new price with the old time. The lock that the reader
  takes does not keep the writer out.
\<close>

lemma checkpoint_torn:
  "\<exists>ts c'. mreach id (map thread_of [[finishes (checkpoint_save_prog block hash timestamp)], []], c) (ts, c') \<and>
    lock_free ts CheckpointLock SharedMode \<and>
    run checkpoint_snapshot_prog c' = (\<lparr>cs_last_block = block, cs_last_block_hash = cp_last_block_hash c,
      cs_last_block_timestamp = cp_last_block_timestamp c\<rparr>, c')"
proof -
  let ?rest = "pseq (writes (cp_last_block_timestamp_update (\<lambda>_. timestamp)))
    (pseq (locked_write CheckpointLock (cp_last_block_hash_update (\<lambda>_. hash))) (Ret (Some ())))"
  have "finishes (checkpoint_save_prog block hash timestamp) = pseq (writes (cp_last_block_update (\<lambda>_. block))) ?rest"
    by (simp add: finishes_def checkpoint_save_prog_def pbind_assoc)
  then have "mreach id (threads [(Ret (Some ()), [finishes (checkpoint_save_prog block hash timestamp)]), (Ret (Some ()), [])], c)
      (threads [(?rest, []), (Ret (Some ()), [])], c\<lparr>cp_last_block := block\<rparr>)"
    by (intro call_starts(1) [where p = "writes (cp_last_block_update (\<lambda>_. block))"]) auto
  moreover have "lock_free (threads [(?rest, []), (Ret (Some ()), [])]) CheckpointLock SharedMode" by (simp add: lock_free_def)
  moreover have "run checkpoint_snapshot_prog (c\<lparr>cp_last_block := block\<rparr>) =
      (\<lparr>cs_last_block = block, cs_last_block_hash = cp_last_block_hash c, cs_last_block_timestamp = cp_last_block_timestamp c\<rparr>,
       c\<lparr>cp_last_block := block\<rparr>)"
    by (simp add: run_checkpoint checkpoint_snapshot_of_def)
  ultimately show ?thesis unfolding threads_start by blast
qed

lemma price_torn:
  assumes m: "unat m < length t"
  shows "\<exists>ts t' sn. mreach id (map thread_of [[finishes (set_price_prog m price ns)], []], t) (ts, t') \<and>
    lock_free ts (MarketLock (unat m)) SharedMode \<and>
    fst (run (market_snapshot_prog m) t') = Some sn \<and> ms_latest_price sn = price \<and> ms_last_update_ns sn = last_update_ns t m"
proof -
  let ?w = "on_slot m (sl_latest_price_bits_update (\<lambda>_. f64_bits price))"
  let ?first = "pseq (reads length) (writes ?w) :: (lock, market_state_table, unit) prog"
  let ?rest = "pseq (writes (on_slot m (sl_last_update_ns_update (\<lambda>_. ns)))) (Ret (Some ()))"
  let ?w' = "pseq (writes ?w) ?rest :: (lock, market_state_table, unit option) prog"
  have k: "finishes (set_price_prog m price ns) = pbind (reads length) (\<lambda>n. if unat m < n then ?w' else Ret (Some ()))"
    unfolding finishes_def set_price_prog_def pbind_assoc
    by (rule arg_cong [where f = "pbind (reads length)"]) (simp add: fun_eq_iff pbind_assoc)
  have 1: "mreach id (threads [(Ret (Some ()), [finishes (set_price_prog m price ns)]), (Ret (Some ()), [])], t)
      (threads [(?w', []), (Ret (Some ()), [])], t)"
    by (rule call_starts(1) [OF ordered_reads k]) (simp_all add: m)
  have 2: "mreach id (threads [(?w', []), (Ret (Some ()), [])], t) (threads [(?rest, []), (Ret (Some ()), [])], ?w t)"
    by (rule call_continues(1) [OF ordered_writes refl]) simp_all
  have "mreach id (map thread_of [[finishes (set_price_prog m price ns)], []], t) (threads [(?rest, []), (Ret (Some ()), [])], ?w t)"
    unfolding threads_start by (rule rtranclp_trans [OF 1 2])
  moreover have "lock_free (threads [(?rest, []), (Ret (Some ()), [])]) (MarketLock (unat m)) SharedMode" by (simp add: lock_free_def)
  moreover obtain sn where "market_snapshot_of (?w t) m = Some sn" "ms_latest_price sn = price" "ms_last_update_ns sn = last_update_ns t m"
    using m by (simp add: market_snapshot_of_def latest_price_def last_update_ns_def slot_at_def on_slot_def Let_def)
  ultimately show ?thesis by (auto simp: run_market)
qed

end
