(* ===== verification/Torn_Snapshot.thy ===== *)
theory Torn_Snapshot
  imports Races Engine_Restart
begin

text \<open>
  \<open>PerfDb::snapshot\<close> reads the checkpoint first and the stores after it, without a lock around the whole. When an event
  is processed in between, the file is named after the old block and holds the effects of the new one, and the next
  start replays the event on top of them.
\<close>

text \<open>The snapshot that is written: the state after the event with the checkpoint from before it.\<close>

definition torn_snapshot :: "snapshot_orders \<Rightarrow> stores \<Rightarrow> stores \<Rightarrow> state_snapshot" where
  "torn_snapshot io s s' = (state_snapshot_of io s')\<lparr>ss_checkpoint := snapshot_checkpoint_of (checkpoint_snapshot_of (st_checkpoint s))\<rparr>"

lemma torn_block [simp]: "sc_last_block (ss_checkpoint (torn_snapshot io s s')) = cp_last_block (st_checkpoint s)"
  by (simp add: torn_snapshot_def snapshot_checkpoint_of_def checkpoint_snapshot_of_def)

text \<open>The schedule: the snapshot reads the checkpoint, the event is processed, the snapshot reads the rest.\<close>

lemma snapshot_around_event:
  assumes db': "db' = snd (process_event ser crc due ev db)"
    and codec: "sser (torn_snapshot io (db_stores db) (db_stores db')) = Some p"
  shows "mreach (call_prog ser sser crc shard) (map thread_of [[CallSnapshot io], [CallEvent due ev]], db)
    (threads [(Ret (Some ()), []), (Ret (Some ()), [])],
     db'\<lparr>db_snapshots := (db_snapshots db')(snapshot_filename (cp_last_block (st_checkpoint (db_stores db))) \<mapsto> p)\<rparr>)"
proof -
  let ?code = "call_prog ser sser crc shard" and ?cp = "checkpoint_snapshot_of (st_checkpoint (db_stores db))"
  let ?first = "on_checkpoint checkpoint_snapshot_prog"
  let ?rest = "returns (snapshot_stores_prog sser shard io ?cp)"
  have "disciplined ?first" by (rule disciplined_on_stores) (rule disciplined_checkpoint)
  then have 1: "mreach ?code (threads [(Ret (Some ()), [CallSnapshot io]), (Ret (Some ()), [CallEvent due ev])], db)
      (threads [(?rest, []), (Ret (Some ()), [CallEvent due ev])], db)"
    using segment_call [where code = ?code and r = lock_rank and i = 0 and p = ?first and c = "CallSnapshot io" and q = "[]"
        and xs = "[(Ret (Some ()), [CallSnapshot io]), (Ret (Some ()), [CallEvent due ev])]" and s = db
        and k = "\<lambda>cp. returns (snapshot_stores_prog sser shard io cp)"]
    by (simp add: db_snapshot_prog_def pbind_assoc run_on_stores run_checkpoint)
  have 2: "mreach ?code (threads [(?rest, []), (Ret (Some ()), [CallEvent due ev])], db)
      (threads [(?rest, []), (Ret (Some ()), [])], db')"
    using segment_call [where code = ?code and r = lock_rank and i = 1 and p = "process_event_prog ser crc shard due ev"
        and c = "CallEvent due ev" and q = "[]" and xs = "[(?rest, []), (Ret (Some ()), [CallEvent due ev])]" and s = db
        and k = "\<lambda>_. Ret (Some ())"] disciplined_process_event
    by (simp add: run_process_event db')
  have "disciplined ?rest" by (rule disciplined_rules disciplined_snapshot)+
  then have 3: "mreach ?code (threads [(?rest, []), (Ret (Some ()), [])], db')
      (threads [(Ret (Some ()), []), (Ret (Some ()), [])], snd (run ?rest db'))"
    using segment [where code = ?code and r = lock_rank and i = 0 and p = ?rest and k = Ret and q = "[]"
        and xs = "[(?rest, []), (Ret (Some ()), [])]" and s = db'] by simp
  have "snd (run ?rest db') =
      db'\<lparr>db_snapshots := (db_snapshots db')(snapshot_filename (cp_last_block (st_checkpoint (db_stores db))) \<mapsto> p)\<rparr>"
    using codec unfolding torn_snapshot_def
    by (simp add: run_snapshot_stores write_snapshot_def snapshot_checkpoint_of_def checkpoint_snapshot_of_def Let_def)
  then show ?thesis using rtranclp_trans [OF rtranclp_trans [OF 1 2] 3] by (simp add: thread_of_def)
qed

text \<open>What the file restores: all of the later state but the checkpoint.\<close>

lemma torn_restores:
  assumes "stores_ok s'" "snapshot_orders_ok io s'"
  shows "restored (s'\<lparr>st_checkpoint := st_checkpoint s\<rparr>) (restore_snapshot (torn_snapshot io s s') stores_new)"
  using restore_snapshot_of [OF assms]
  by (simp add: restored_def restore_snapshot_def torn_snapshot_def checkpoint_save_def snapshot_checkpoint_of_def
      checkpoint_snapshot_of_def stores_new_def)

text \<open>The number of trades counted for a trader, and the trade that a closed position counts for it.\<close>

definition trades_of :: "address \<Rightarrow> stores \<Rightarrow> u32" where
  "trades_of a s = (case st_trader_stats s a of None \<Rightarrow> 0 | Some t \<Rightarrow> ts_total_trades t)"

lemma replay_closed_counts:
  assumes "ie_event ev = PositionClosed pid user mid sz price pnl full" "b < ie_block_number ev"
  shows "trades_of user (replay_wal_entry b (WalIndexedEvent ev) s) = trades_of user s + 1"
  using assms(2)
  by (auto simp: replay_wal_entry_def replay_event_def replay_position_closed_def assms(1) trades_of_def append_event_def stats_ensure_def increment_trade_def bump_trade_def
      decrement_open_positions_def trader_stats_zero_def Let_def split_beta split: option.splits)

text \<open>
  A database takes inputs up to block \<open>b\<close>. A snapshot is written while an event of a later block that closes a
  position is processed. The stores end as if the event had been processed alone, but in some schedule the files are
  such that the next start counts the trade twice.
\<close>

lemma torn_snapshot_counts_twice:
  fixes db1 io ser crc due ev
  defines "b \<equiv> cp_last_block (st_checkpoint (db_stores db1))" and "db2 \<equiv> snd (process_event ser crc due ev db1)"
    and "snap \<equiv> torn_snapshot io (db_stores db1) (db_stores (snd (process_event ser crc due ev db1)))"
  assumes xs1: "\<forall>(due, x) \<in> set xs1. covered b x \<and> entry_codec_ok ser de (input_entry x)"
    and ev: "ie_event ev = PositionClosed pid user mid sz price pnl full" "b < ie_block_number ev" "entry_codec_ok ser de (WalIndexedEvent ev)"
    and lim: "Suc (length xs1) < SERIES_LIMIT"
    and db0: "perf_db_open sde de crc [] [] [segment_path 0] config empty_data_dir = Some (Inr db0)"
    and db1: "db_run ser crc xs1 db0 = Some db1"
    and ok: "stores_ok (db_stores db2)" "snapshot_orders_ok io (db_stores db2)"
    and codec: "sser snap = Some p" "sde p = Some snap"
  shows "\<exists>ts db. mreach (call_prog ser sser crc shard) (map thread_of [[CallSnapshot io], [CallEvent due ev]], db1) (ts, db) \<and>
    all_done ts \<and> db_stores db = db_stores db2 \<and>
    (\<forall>names. enumerates names (dom (dd_wal (data_dir_of (sync_wal db)))) \<longrightarrow>
      (\<exists>db3. perf_db_open sde de crc [snapshot_filename b] names names config (data_dir_of (sync_wal db)) = Some (Inr db3) \<and>
        trades_of user (db_stores db3) = trades_of user (db_stores db) + 1))"
proof -
  let ?e1 = "map (\<lambda>y. input_entry (snd y)) xs1" and ?db = "db2\<lparr>db_snapshots := (db_snapshots db2)(snapshot_filename b \<mapsto> p)\<rparr>"
  let ?r = "restore_snapshot snap stores_new"
  have "covered_state b [] stores_new" by (simp add: covered_state_def prices_shown_def last_price_def)
  note new = run_inv_open(1) [where tr = "covered_state b" and ser = ser, OF db0 this]
    run_inv_open(2) [where tr = "covered_state b", OF db0 this]
  have "\<forall>(due, x) \<in> set xs1. covered b x \<and> ser (input_entry x) \<noteq> None" using xs1 entry_codec_ok_ser by fast
  from covered.run [OF new(1) _ this] lim db1 have inv1: "run_inv (covered_state b) ser crc (length xs1) ?e1 db1" by auto
  then have inv1': "run_inv (resumed_state b ?e1 (db_stores db1)) ser crc (length xs1) ?e1 db1"
    by (auto simp: run_inv_def resumed_state_def similar_def)
  obtain q where q: "ser (WalIndexedEvent ev) = Some q" using entry_codec_ok_ser [OF ev(3)] by auto
  have "later b (EventIn ev)" using ev(1,2) by (simp add: replayed_def)
  from later.event [OF inv1' lim q this, of due]
  have inv2: "run_inv (resumed_state b ?e1 (db_stores db1)) ser crc (Suc (length xs1)) (?e1 @ [WalIndexedEvent ev]) db2"
    by (simp add: db2_def)
  have "db_run ser crc [(due, EventIn ev)] db1 = Some db2" by (simp add: db2_def)
  then have snaps: "db_snapshots db2 = Map.empty" using db_run_snapshots new(2) db1 by metis
  have reach: "mreach (call_prog ser sser crc shard) (map thread_of [[CallSnapshot io], [CallEvent due ev]], db1)
      (threads [(Ret (Some ()), []), (Ret (Some ()), [])], ?db)"
    using snapshot_around_event [where db = db1 and db' = db2 and sser = sser and io = io and p = p, OF db2_def [THEN meta_eq_to_obj_eq]] codec(1)
    by (simp add: snap_def db2_def b_def)
  have "run_inv (resumed_state b ?e1 (db_stores db1)) ser crc (Suc (length xs1)) (?e1 @ [WalIndexedEvent ev]) ?db"
    using inv2 by (simp add: run_inv_def series_ok_def)
  from run_inv_sync [OF this] obtain tks cl where s: "series_ok (Suc (length xs1)) (sync_wal ?db) tks cl"
    and w: "wal_holds ser crc (?e1 @ [WalIndexedEvent ev]) (db_wal (sync_wal ?db))" by (auto simp: run_inv_def)
  have cod: "\<forall>e \<in> set (?e1 @ [WalIndexedEvent ev]). entry_codec_ok ser de e" using xs1 ev(3) by auto
  have d: "db_snapshots (sync_wal ?db) = [snapshot_filename b \<mapsto> p]" by (simp add: snaps)
  have "load_latest_snapshot sde [snapshot_filename b] [snapshot_filename b \<mapsto> p] =
      (case read_snapshot sde [snapshot_filename b \<mapsto> p] (snapshot_filename b) of Inl e \<Rightarrow> Inl e | Inr s \<Rightarrow> Inr (Some s))"
    by (rule load_latest_max) (auto simp: snapshot_dir_ok_def enumerates_def split: if_splits)
  then have load: "load_latest_snapshot sde [snapshot_filename b] (db_snapshots (sync_wal ?db)) = Inr (Some snap)"
    unfolding d using codec(2) by (simp add: read_snapshot_def)
  have blk: "snapshot_block (Some snap) = b" "snapshot_base (Some snap) = ?r"
    by (simp_all add: snapshot_block_def snapshot_base_def snap_def b_def)
  have "restored ((db_stores db2)\<lparr>st_checkpoint := st_checkpoint (db_stores db1)\<rparr>) ?r"
    unfolding snap_def using torn_restores [OF ok] by (simp add: db2_def)
  then have stats: "trades_of user ?r = trades_of user (db_stores db2)" by (simp add: restored_def trades_of_def)
  have "list_all (covered_entry b) ?e1" using inv1 by (auto simp: run_inv_def covered_state_def)
  then have "trades_of user (fold (replay_wal_entry b) ?e1 ?r) = trades_of user ?r"
    by (simp add: replay_covered trades_of_def)
  then have "trades_of user (fold (replay_wal_entry b) (?e1 @ [WalIndexedEvent ev]) ?r) = trades_of user (db_stores db2) + 1"
    using replay_closed_counts [OF ev(1,2)] stats by simp
  then have re: "\<exists>db3. perf_db_open sde de crc [snapshot_filename b] names names config (data_dir_of (sync_wal ?db)) = Some (Inr db3) \<and>
      trades_of user (db_stores db3) = trades_of user (db_stores db2) + 1"
    if "enumerates names (dom (dd_wal (data_dir_of (sync_wal ?db))))" for names
    using open_replays [OF s w _ _ cod load open_bus(1) [OF db0]] that by (fastforce simp: blk data_dir_of_def)
  have "all_done (threads [(Ret (Some ()), []), (Ret (Some ()), [])] :: (lock, perf_db, engine_call) thread list)"
    by (simp add: all_done_def thread_done_def)
  with reach re show ?thesis by (intro exI [of _ ?db] exI conjI) auto
qed

end
