(* ===== verification/Sample_Runs.thy ===== *)
theory Sample_Runs
  imports Samples Engine_Restart
begin

text \<open>The concrete runs that the witnesses share: a new database that takes the first event of the samples, and the second.\<close>

text \<open>The bus of a new database with the default configuration.\<close>

abbreviation sample_bus :: pubsub_bus where
  "sample_bus \<equiv> pubsub_empty (pc_pubsub_capacity perf_db_config_new)"

definition sample_stores :: stores where
  "sample_stores = fst (apply_event sample_opened (stores_new, sample_bus))"

definition sample_stores2 :: stores where
  "sample_stores2 = fst (apply_event sample_closed (apply_event sample_opened (stores_new, sample_bus)))"

definition sample_run_io :: snapshot_orders where
  "sample_run_io = sample_io\<lparr>so_positions := [sample_id], so_users := [alice], so_trader_stats := [alice],
     so_daily_traders := [alice]\<rparr>"

definition sample_run_io2 :: snapshot_orders where
  "sample_run_io2 = sample_run_io\<lparr>so_daily := (\<lambda>_. [(alice, timestamp_to_date (ie_block_timestamp sample_closed))])\<rparr>"

lemma sample_codec_of: "(d, x) \<in> set sample_inputs \<Longrightarrow> recoverable x \<and> entry_codec_ok sample_ser sample_de (input_entry x)"
  using sample_inputs_codec by fast

lemma sample_events_codec [simp]:
  "entry_codec_ok sample_ser sample_de (WalIndexedEvent sample_opened)" "entry_codec_ok sample_ser sample_de (WalIndexedEvent sample_closed)"
  using sample_codec_of [of False "EventIn sample_opened"] sample_codec_of [of False "EventIn sample_closed"]
  by (simp_all add: sample_inputs_def)

lemma sample_stores_block [simp]: "cp_last_block (st_checkpoint sample_stores) = 5"
  by (simp add: sample_stores_def apply_event_def split_beta Let_def sample_opened_def at_block_def advance_block_def)

lemma sample_stores_ok [simp]: "stores_ok sample_stores"
proof -
  have "event_fits stores_new sample_opened"
    by (simp add: event_fits_def stores_new_def positions_new_def sample_opened_def at_block_def)
  then show ?thesis unfolding sample_stores_def by (rule stores_ok_apply [OF stores_ok_new])
qed

lemma sample_stores2_ok [simp]: "stores_ok sample_stores2"
proof -
  have "event_fits sample_stores sample_closed" by (simp add: event_fits_def sample_closed_def at_block_def)
  from stores_ok_apply [OF sample_stores_ok this] show ?thesis
    unfolding sample_stores2_def sample_stores_def by (metis prod.collapse)
qed

lemmas sample_state_defs = sample_opened_def sample_closed_def at_block_def snapshot_orders_ok_def iterates_def
  sample_io_def apply_event_def append_event_def on_position_opened_def on_position_closed_def opened_position_def publish_def
  stores_new_def positions_new_def positions_insert_def positions_update_def positions_get_def orders_new_def balances_new_def
  users_new_def stats_new_def daily_new_def users_ensure_def stats_ensure_def increment_open_positions_def
  decrement_open_positions_def increment_trade_def accumulate_trade_def Let_def

lemma sample_run_io_ok [simp]: "snapshot_orders_ok sample_run_io sample_stores"
  unfolding sample_run_io_def sample_stores_def by (simp add: sample_state_defs)

lemma sample_few [simp]: "few_daily (st_daily_stats sample_stores)"
  unfolding few_daily_def sample_stores_def by (simp add: sample_state_defs)

lemma sample_run_io2_ok [simp]: "snapshot_orders_ok sample_run_io2 sample_stores2"
  unfolding sample_run_io2_def sample_run_io_def sample_stores2_def by (auto simp: sample_state_defs split_beta)

lemma sample_first_run:
  obtains db0 db1 where "perf_db_open sde sample_de sample_crc [] [] [segment_path 0] perf_db_config_new empty_data_dir = Some (Inr db0)"
    "db_run sample_ser sample_crc [(False, EventIn sample_opened)] db0 = Some db1" "db_stores db1 = sample_stores"
    "db_stores (snd (process_event sample_ser sample_crc False sample_closed db1)) = sample_stores2"
proof -
  obtain db0 where db0: "perf_db_open sde sample_de sample_crc [] [] [segment_path 0] perf_db_config_new empty_data_dir =
      Some (Inr db0)" and st: "db_stores db0 = stores_new"
    using open_new by blast
  note bus = open_bus(2) [OF db0]
  obtain w where w: "wal_append sample_ser sample_crc False (WalIndexedEvent sample_opened) (db_wal db0) = (Inr (), w)"
    using wal_append_some entry_codec_ok_ser [OF sample_events_codec(1)] by blast
  let ?db1 = "snd (process_event sample_ser sample_crc False sample_opened db0)"
  obtain w2 where w2: "wal_append sample_ser sample_crc False (WalIndexedEvent sample_closed) (db_wal ?db1) = (Inr (), w2)"
    using wal_append_some entry_codec_ok_ser [OF sample_events_codec(2)] by blast
  have "db_stores ?db1 = sample_stores" by (simp add: process_event_ok [OF w] st bus sample_stores_def)
  moreover have "db_stores (snd (process_event sample_ser sample_crc False sample_closed ?db1)) = sample_stores2"
    by (subst process_event_ok [OF w2]) (simp add: process_event_ok [OF w] st bus sample_stores2_def)
  ultimately show thesis using that [OF db0, of ?db1] by simp
qed

end
