(* ===== verification/Thread_Properties.thy ===== *)
theory Thread_Properties
  imports Linearization Streams Typed_State Position_Writers Torn_Snapshot Sample_Runs
begin

text \<open>
  The properties of the engine that several threads use at once, with their witnesses.
\<close>

section \<open>The price feed and the indexer\<close>

text \<open>Some run of the calls exists, to the end.\<close>

lemma some_run: "\<exists>ts db'. mreach (call_prog ser sser crc shard) (map thread_of qs, db) (ts, db') \<and> all_done ts"
  by (rule runs_complete [where r = lock_rank]) (auto simp: disciplined_call)

definition sample_ticks :: "(bool \<times> price_tick) list" where
  "sample_ticks = [(True, sample_tick), (False, sample_tick2)]"

definition sample_events :: "(bool \<times> indexed_event) list" where
  "sample_events = [(False, sample_opened), (False, sample_closed), (False, sample_deposit)]"

definition sample_readers :: "engine_call list list" where
  "sample_readers = [[CallMarketSnapshot 1, CallPositionsByUser (\<lambda>_. []) alice], [CallTicks 1, CallUserByCode ''x'']]"

lemma sample_readers_read: "\<forall>q \<in> set sample_readers. \<forall>c \<in> set q. read_call c"
  by (simp add: sample_readers_def read_call_def)

lemma sample_threads_ok:
  "\<forall>(due, x) \<in> set (tick_inputs sample_ticks @ event_inputs sample_events). recoverable x \<and> entry_codec_ok sample_ser sample_de (input_entry x)"
  "length sample_ticks + length sample_events < SERIES_LIMIT"
proof -
  have "set (tick_inputs sample_ticks @ event_inputs sample_events) = set sample_inputs"
    by (auto simp: tick_inputs_def event_inputs_def sample_ticks_def sample_events_def sample_inputs_def)
  then show "\<forall>(due, x) \<in> set (tick_inputs sample_ticks @ event_inputs sample_events).
      recoverable x \<and> entry_codec_ok sample_ser sample_de (input_entry x)"
    using sample_inputs_codec by simp
qed (simp add: sample_ticks_def sample_events_def SERIES_LIMIT_def)

text \<open>A database whose channels hold one message.\<close>

abbreviation sample_narrow_config :: perf_db_config where
  "sample_narrow_config \<equiv> perf_db_config_new\<lparr>pc_pubsub_capacity := 1\<rparr>"

text \<open>
  C2. Linearization. One thread feeds price ticks, one feeds chain events, any number of threads read, and their
  accesses to the stores are interleaved in any way that the locks allow. When all have returned, the database is the
  one that some sequential run of the same inputs gives, in which the ticks and the events each keep their
  order; the exception is a run in which a sequential run of a part of the inputs would have panicked too.
\<close>

theorem feed_and_indexer_linearize:
  assumes "\<forall>q \<in> set qs. \<forall>c \<in> set q. read_call c"
    and "mreach (call_prog ser sser crc shard) (map thread_of (feed_calls ticks # index_calls evs # qs), db0) (ts, db)" "all_done ts"
  shows "(\<exists>zs \<in> shuffles (tick_inputs ticks) (event_inputs evs). db_run ser crc zs db0 = Some db) \<or>
    (\<exists>k. \<exists>zs \<in> shuffles (take k (tick_inputs ticks)) (event_inputs evs). db_run ser crc zs db0 = None)"
  by (rule feed_linearized [OF assms])

theorem feed_and_indexer_linearize_witness:
  "\<exists>db0 ts db. perf_db_open sample_sde sample_de sample_crc [] [] [segment_path 0] perf_db_config_new empty_data_dir = Some (Inr db0) \<and>
    mreach (call_prog sample_ser (\<lambda>_. None) sample_crc (\<lambda>_. 0))
      (map thread_of (feed_calls sample_ticks # index_calls sample_events # sample_readers), db0) (ts, db) \<and> all_done ts \<and>
    ((\<exists>zs \<in> shuffles (tick_inputs sample_ticks) (event_inputs sample_events). db_run sample_ser sample_crc zs db0 = Some db) \<or>
     (\<exists>k. \<exists>zs \<in> shuffles (take k (tick_inputs sample_ticks)) (event_inputs sample_events). db_run sample_ser sample_crc zs db0 = None))"
proof -
  obtain db0 where "perf_db_open sample_sde sample_de sample_crc [] [] [segment_path 0] perf_db_config_new empty_data_dir = Some (Inr db0)"
    using open_new by blast
  moreover obtain ts db where run: "mreach (call_prog sample_ser (\<lambda>_. None) sample_crc (\<lambda>_. 0))
      (map thread_of (feed_calls sample_ticks # index_calls sample_events # sample_readers), db0) (ts, db)" "all_done ts"
    using some_run by blast
  note feed_and_indexer_linearize [OF sample_readers_read run]
  ultimately show ?thesis using run by (intro exI conjI)
qed

text \<open>
  C3. Recovery after a concurrent run. With inputs that the log can rebuild, a feed, an indexer and readers on a new
  database never panic, whatever the interleaving; the result is that of a sequential run, and opening the
  synced files again rebuilds its stores up to the fields that replay does not write, and its series exactly.
\<close>

theorem concurrent_runs_recover:
  assumes "\<forall>(due, x) \<in> set (tick_inputs ticks @ event_inputs evs). recoverable x \<and> entry_codec_ok ser de (input_entry x)"
    and "length ticks + length evs < SERIES_LIMIT"
    and "perf_db_open sde de crc [] [] [segment_path 0] config empty_data_dir = Some (Inr db0)"
    and "\<forall>q \<in> set qs. \<forall>c \<in> set q. read_call c"
    and "mreach (call_prog ser sser crc shard) (map thread_of (feed_calls ticks # index_calls evs # qs), db0) (ts, db)" "all_done ts"
  shows "(\<exists>zs \<in> shuffles (tick_inputs ticks) (event_inputs evs). db_run ser crc zs db0 = Some db) \<and>
    (\<forall>names. enumerates names (dom (dd_wal (data_dir_of (sync_wal db)))) \<longrightarrow>
      (\<exists>db2. perf_db_open sde de crc [] names names config (data_dir_of (sync_wal db)) = Some (Inr db2) \<and>
        erase (db_stores db) = erase (db_stores db2) \<and>
        (\<forall>m. db_ticks db2 m = db_ticks db m) \<and> (\<forall>m tf. db_candles db2 m tf = db_candles db m tf)))"
  using concurrent_run_recovers [OF assms] by blast

theorem concurrent_runs_recover_witness:
  "\<exists>db0 ts db zs. perf_db_open sample_sde sample_de sample_crc [] [] [segment_path 0] perf_db_config_new empty_data_dir = Some (Inr db0) \<and>
    mreach (call_prog sample_ser (\<lambda>_. None) sample_crc (\<lambda>_. 0))
      (map thread_of (feed_calls sample_ticks # index_calls sample_events # sample_readers), db0) (ts, db) \<and> all_done ts \<and>
    zs \<in> shuffles (tick_inputs sample_ticks) (event_inputs sample_events) \<and> db_run sample_ser sample_crc zs db0 = Some db"
proof -
  obtain db0 where db0: "perf_db_open sample_sde sample_de sample_crc [] [] [segment_path 0] perf_db_config_new empty_data_dir = Some (Inr db0)"
    using open_new by blast
  obtain ts db where run: "mreach (call_prog sample_ser (\<lambda>_. None) sample_crc (\<lambda>_. 0))
      (map thread_of (feed_calls sample_ticks # index_calls sample_events # sample_readers), db0) (ts, db)" "all_done ts"
    using some_run by blast
  show ?thesis using concurrent_runs_recover [OF sample_threads_ok db0 sample_readers_read run] db0 run by blast
qed

text \<open>
  C20. The price stream. Under the same threads the price channel carries one message per tick of a known market, in
  the order of the feed. A subscriber from the start tries to take messages whenever it likes; as long as it is never behind by more than the
  capacity that the database was configured with, it is not told of a lag and has taken these messages, one after the other, all but
  those that it still has to take.
\<close>

theorem price_stream_in_order:
  fixes ops :: "('ch, 'rx, pubsub_message) broadcast_ops"
  assumes "\<forall>(due, x) \<in> set (tick_inputs ticks @ event_inputs evs). recoverable x \<and> entry_codec_ok ser de (input_entry x)"
    and "length ticks + length evs < SERIES_LIMIT"
    and "perf_db_open sde de crc [] [] [segment_path 0] config empty_data_dir = Some (Inr db0)"
    and "\<forall>q \<in> set qs. \<forall>c \<in> set q. read_call c"
    and "mreach (call_prog ser sser crc shard) (map thread_of (feed_calls ticks # index_calls evs # qs), db0) (ts, db)" "all_done ts"
    and "broadcast_ok ops sent kept place" "bus_with_capacity ops (pc_pubsub_capacity config) = Some bus0"
    and "bus_subscribe ops Prices bus0 = (rx, bus)" "published Prices as = ps_sent (db_pubsub db) Prices"
    and "keeps_up (pc_pubsub_capacity config) Prices as 0"
  shows "ps_sent (db_pubsub db) Prices = map price_message (filter known_market (map snd ticks)) \<and>
    messages (subscriber ops Prices as rx bus) =
      take (length (filter known_market (map snd ticks)) - backlog Prices as 0)
        (map price_message (filter known_market (map snd ticks))) \<and>
    no_lag (subscriber ops Prices as rx bus)"
  by (rule conjI [OF price_stream(1) [OF assms(1-6)] price_stream(2) [OF assms]])

theorem price_stream_in_order_witness:
  "\<exists>db0 ts db bus0 rx bus. bus_with_capacity list_ops (pc_pubsub_capacity sample_narrow_config) = Some bus0 \<and>
    perf_db_open sample_sde sample_de sample_crc [] [] [segment_path 0] sample_narrow_config empty_data_dir = Some (Inr db0) \<and>
    mreach (call_prog sample_ser (\<lambda>_. None) sample_crc (\<lambda>_. 0))
      (map thread_of (feed_calls sample_ticks # index_calls sample_events # sample_readers), db0) (ts, db) \<and> all_done ts \<and>
    bus_subscribe list_ops Prices bus0 = (rx, bus) \<and>
    messages (subscriber list_ops Prices [Publish Prices (price_message sample_tick), TryRecv, TryRecv,
      Publish Prices (price_message sample_tick2), TryRecv] rx bus) = [price_message sample_tick, price_message sample_tick2]"
proof -
  let ?as = "[Publish Prices (price_message sample_tick), TryRecv, TryRecv, Publish Prices (price_message sample_tick2), TryRecv]"
  have cfg: "config_ok sample_narrow_config" by (simp add: config_ok_def capacity_ok_def)
  obtain db0 where db0: "perf_db_open sample_sde sample_de sample_crc [] [] [segment_path 0] sample_narrow_config empty_data_dir = Some (Inr db0)"
    using open_new [OF cfg] by blast
  obtain ts db where run: "mreach (call_prog sample_ser (\<lambda>_. None) sample_crc (\<lambda>_. 0))
      (map thread_of (feed_calls sample_ticks # index_calls sample_events # sample_readers), db0) (ts, db)" "all_done ts"
    using some_run by blast
  obtain bus0 :: "channel \<Rightarrow> pubsub_message list \<times> nat \<times> nat"
    where new: "bus_with_capacity list_ops (pc_pubsub_capacity sample_narrow_config) = Some bus0"
    by (auto simp: bus_with_capacity_def list_ops_def capacity_ok_def)
  obtain rx bus where sub: "bus_subscribe list_ops Prices bus0 = (rx, bus)" by (cases "bus_subscribe list_ops Prices bus0")
  have known: "filter known_market (map snd sample_ticks) = [sample_tick, sample_tick2]"
    by (simp add: sample_ticks_def known_market_def sample_tick_def sample_tick2_def MARKET_COUNT_def)
  have "ps_sent (db_pubsub db) Prices = map price_message [sample_tick, sample_tick2]"
    using price_stream(1) [OF sample_threads_ok db0 sample_readers_read run] by (simp only: known)
  then have as: "published Prices ?as = ps_sent (db_pubsub db) Prices" by simp
  have up: "keeps_up (pc_pubsub_capacity sample_narrow_config) Prices ?as 0" by simp
  have "messages (subscriber list_ops Prices ?as rx bus) = [price_message sample_tick, price_message sample_tick2]"
    using price_stream_in_order [OF sample_threads_ok db0 sample_readers_read run list_ops_ok new sub as up] by (simp add: known)
  with new db0 run sub show ?thesis by blast
qed

section \<open>All calls\<close>

text \<open>
  C11. No deadlock. The threads make the calls of \<open>engine_call\<close>: all operations of \<open>PerfDb\<close>, and the reads and writes of its
  positions, orders, books, balances, users and checkpoint listed there, a book being looked at with its guard dropped before the next call. However
  far they have come, some thread can go on unless all calls have returned (or panicked), every run comes to an end,
  and it can be continued to one where all are done.
\<close>

theorem calls_complete:
  assumes "mreach (call_prog ser sser crc shard) (map thread_of qs, db0) (ts, db)"
  shows "(all_done ts \<or> (\<exists>c. mstep (call_prog ser sser crc shard) (ts, db) c)) \<and>
    (\<exists>ts' db'. mreach (call_prog ser sser crc shard) (ts, db) (ts', db') \<and> all_done ts') \<and>
    \<not> (\<exists>f. f 0 = (ts, db) \<and> (\<forall>i. mstep (call_prog ser sser crc shard) (f i) (f (Suc i))))"
proof -
  have ord: "\<forall>t \<in> set ts. thread_ordered lock_rank t"
    by (rule reach_ordered [OF assms]) (auto simp: disciplined_call)
  have "all_done ts \<or> (\<exists>c. mstep (call_prog ser sser crc shard) (ts, db) c)" using no_deadlock [OF ord] by blast
  moreover have "\<exists>ts' db'. mreach (call_prog ser sser crc shard) (ts, db) (ts', db') \<and> all_done ts'"
    by (rule runs_complete [OF ord]) (rule disciplined_call)
  moreover have "\<not> (\<exists>f. f 0 = (ts, db) \<and> (\<forall>i. mstep (call_prog ser sser crc shard) (f i) (f (Suc i))))"
    using mstep_terminates [of "call_prog ser sser crc shard"] unfolding wfp_def wf_iff_no_infinite_down_chain by blast
  ultimately show ?thesis by blast
qed

theorem calls_complete_witness:
  "\<exists>db0. perf_db_open sample_sde sample_de sample_crc [] [] [segment_path 0] perf_db_config_new empty_data_dir = Some (Inr db0) \<and>
    (\<exists>ts' db'. mreach (call_prog sample_ser (\<lambda>_. None) sample_crc (\<lambda>_. 0))
      (map thread_of [[CallSync, CallEvent False sample_opened], [CallSnapshot sample_io], [CallRemovePosition sample_id]], db0)
      (ts', db') \<and> all_done ts')"
proof -
  obtain db0 where "perf_db_open sample_sde sample_de sample_crc [] [] [segment_path 0] perf_db_config_new empty_data_dir = Some (Inr db0)"
    using open_new by blast
  then show ?thesis using calls_complete [OF rtranclp.rtrancl_refl] by blast
qed

text \<open>
  C12. Well-formed at every moment. In every state of every interleaving of any calls of \<open>engine_call\<close>, in the middle of them
  too, each record is stored under its own key, the tables of the markets have their fixed lengths, the price levels of the
  books are sorted and not empty, wins, losses and liquidations add up to the trades of a trader, the boards are
  ranked, and every channel has carried messages of its own kind only.
\<close>

theorem state_always_typed:
  assumes "mreach (call_prog ser sser crc shard) (map thread_of qs, db0) (ts, db)" "state_typed db0"
  shows "state_typed db"
  by (rule always_typed [OF assms])

theorem state_always_typed_witness:
  "\<exists>db0 ts db. perf_db_open sample_sde sample_de sample_crc [] [] [segment_path 0] perf_db_config_new empty_data_dir = Some (Inr db0) \<and>
    mreach (call_prog sample_ser (\<lambda>_. None) sample_crc (\<lambda>_. 0))
      (map thread_of [[CallEvent False sample_opened], [CallRemovePosition sample_id, CallLeaderboard [alice] 7]], db0) (ts, db) \<and>
    all_done ts \<and> state_typed db"
proof -
  obtain db0 where db0: "perf_db_open sample_sde sample_de sample_crc [] [] [segment_path 0] perf_db_config_new empty_data_dir = Some (Inr db0)"
    and st: "db_stores db0 = stores_new"
    using open_new by blast
  have "db_pubsub db0 = pubsub_empty (pc_pubsub_capacity perf_db_config_new)" by (rule open_bus(2) [OF db0])
  moreover have "leaderboard_ok (db_leaderboard db0)" using db_ok_open [OF db0] by (simp add: db_ok_def)
  ultimately have "state_typed db0" using state_typed_new st by blast
  moreover obtain ts db where "mreach (call_prog sample_ser (\<lambda>_. None) sample_crc (\<lambda>_. 0))
      (map thread_of [[CallEvent False sample_opened], [CallRemovePosition sample_id, CallLeaderboard [alice] 7]], db0) (ts, db)" "all_done ts"
    using some_run by blast
  ultimately show ?thesis using state_always_typed db0 by blast
qed

section \<open>Writers of the position table\<close>

text \<open>
  C14. Concurrent writers of positions. Threads insert new positions and update positions, each with ids of its own,
  and others query. Whatever the interleaving, the table ends as if the threads had run one after the other, with
  exact indices.
\<close>

theorem position_writers_deterministic:
  assumes "mreach (position_code shard) (map thread_of qs, t) (ts, t')" "all_done ts"
    and "\<forall>i < length qs. \<forall>c \<in> set (qs ! i). owned_call owner i c"
    and "positions_ok t" "\<forall>c \<in> set (concat qs). fits_table t c" "distinct (concat (map inserted_id (concat qs)))"
  shows "t' = fold (fold position_effect) qs t \<and> positions_ok t'"
  using position_writers_exact [OF assms] by blast

definition sample_position2 :: position where
  "sample_position2 = sample_position\<lparr>pos_position_id := replicate 32 8\<rparr>"

lemma sample_position2_fields [simp]:
  "pos_position_id sample_position = sample_id" "pos_user_address sample_position = alice" "pos_market_id sample_position = 1"
  "pos_position_id sample_position2 = replicate 32 8" "pos_user_address sample_position2 = alice" "pos_market_id sample_position2 = 1"
  by (simp_all add: sample_position2_def sample_position_def opened_position_def)

lemma sample_ids_differ [simp]: "replicate 32 8 \<noteq> sample_id" "sample_id \<noteq> replicate 32 8"
  by (simp_all add: sample_id_def replicate_eq_replicate)

theorem position_writers_deterministic_witness:
  "\<exists>ts t'. mreach (position_code (\<lambda>_. 0))
      (map thread_of [[InsertPosition sample_position], [InsertPosition sample_position2, PositionsByUser (\<lambda>_. []) alice]], positions_new) (ts, t') \<and>
    all_done ts \<and> t' = positions_insert sample_position2 (positions_insert sample_position positions_new)"
proof -
  let ?qs = "[[InsertPosition sample_position], [InsertPosition sample_position2, PositionsByUser (\<lambda>_. []) alice]]"
  have "disciplined (position_code (\<lambda>_. 0) c)" for c
    by (cases c) (auto simp: finishes_def intro!: ordered_seq disciplined_positions)
  then have "\<exists>ts t'. mreach (position_code (\<lambda>_. 0)) (map thread_of ?qs, positions_new) (ts, t') \<and> all_done ts"
    by (intro runs_complete [where r = lock_rank]) auto
  then obtain ts t' where r: "mreach (position_code (\<lambda>_. 0)) (map thread_of ?qs, positions_new) (ts, t')" "all_done ts" by blast
  have "\<forall>i < length ?qs. \<forall>c \<in> set (?qs ! i). owned_call (\<lambda>k. if k = sample_id then 0 else 1) i c"
    by (auto simp: less_Suc_eq_0_disj numeral_2_eq_2)
  moreover have "\<forall>c \<in> set (concat ?qs). fits_table positions_new c" by (simp add: positions_new_def)
  moreover have "distinct (concat (map inserted_id (concat ?qs)))" by simp
  ultimately have "t' = fold (fold position_effect) ?qs positions_new"
    using position_writers_deterministic [OF r _ positions_ok_new] by blast
  then show ?thesis using r by auto
qed

text \<open>
  C15. A removal can make an open position invisible. Removing the only position of a user while another one is inserted
  for the same user can leave the index without an entry for the user, for good, with the new position in the
  table; each of the two sequential orders lists it.
\<close>

theorem removal_race_loses_index:
  assumes "pt_positions t a = Some p" "pos_user_address p = u" "pt_by_user t u = Some {a}"
    and "pos_user_address q = u" "pos_position_id q \<noteq> a"
  shows "(\<exists>ts t'.
      mreach id (map thread_of [[finishes (positions_remove_prog shard a)], [finishes (positions_insert_prog shard q)]], t) (ts, t') \<and>
      all_done ts \<and> positions_get t' (pos_position_id q) = Some q \<and> pt_by_user t' u = None) \<and>
    pt_by_user (positions_insert q (snd (positions_remove a t))) u = Some {pos_position_id q} \<and>
    pt_by_user (snd (positions_remove a (positions_insert q t))) u = Some {pos_position_id q}"
proof -
  have "pt_by_user (positions_insert q (snd (positions_remove a t))) u = Some {pos_position_id q}"
    using assms by (simp add: positions_insert_def positions_remove_def idx_add_def idx_del_def Let_def)
  moreover have "pt_by_user (snd (positions_remove a (positions_insert q t))) u = Some {pos_position_id q}"
    using assms by (auto simp: positions_insert_def positions_remove_def idx_add_def idx_del_def Let_def)
  ultimately show ?thesis using remove_insert_loses_index [OF assms] by blast
qed

theorem removal_race_loses_index_witness:
  "\<exists>ts t'. mreach id (map thread_of [[finishes (positions_remove_prog (\<lambda>_. 0) sample_id)], [finishes (positions_insert_prog (\<lambda>_. 0) sample_position2)]],
      positions_insert sample_position positions_new) (ts, t') \<and> all_done ts \<and>
    positions_get t' (replicate 32 8) = Some sample_position2 \<and> pt_by_user t' alice = None"
proof -
  have "pt_positions (positions_insert sample_position positions_new) sample_id = Some sample_position"
    "pt_by_user (positions_insert sample_position positions_new) alice = Some {sample_id}"
    by (simp_all add: positions_insert_def positions_new_def idx_add_def Let_def)
  then show ?thesis
    using removal_race_loses_index [of "positions_insert sample_position positions_new" sample_id sample_position alice sample_position2 "\<lambda>_. 0"]
    by simp
qed

text \<open>
  C16. A cancelled order can stay in the book. When an order is cancelled between the two halves of its insertion, it is
  cancelled in the table and stands in the book of its market; after either sequential order it does not stand
  there or is active.
\<close>

theorem cancellation_race_leaves_book:
  assumes "order_is_active ord" "unat (ord_market_id ord) < length (ot_orderbooks t)" "ot_orders t (ord_order_id ord) = None"
  shows "(\<exists>ts t'.
      mreach id (map thread_of [[finishes (orders_insert_prog shard ord)], [finishes (orders_cancel_prog shard (ord_order_id ord))]], t)
        (ts, t') \<and> all_done ts \<and>
      map_option ord_status (orders_get t' (ord_order_id ord)) = Some OsCancelled \<and>
      ord_order_id ord \<in> side_ids (book_side_of (ord_is_long ord) (ot_orderbooks t' ! unat (ord_market_id ord))) (ord_trigger_price ord)) \<and>
    ord_order_id ord \<notin> side_ids (book_side_of (ord_is_long ord)
      (ot_orderbooks (snd (orders_cancel (ord_order_id ord) (orders_insert ord t))) ! unat (ord_market_id ord))) (ord_trigger_price ord) \<and>
    orders_get (orders_insert ord (snd (orders_cancel (ord_order_id ord) t))) (ord_order_id ord) = Some ord"
proof -
  have "ord_order_id ord \<notin> side_ids (book_side_of (ord_is_long ord)
      (ot_orderbooks (snd (orders_cancel (ord_order_id ord) (orders_insert ord t))) ! unat (ord_market_id ord))) (ord_trigger_price ord)"
    using assms by (simp add: orders_cancel_def orders_insert_def Let_def with_book_def remove_from_orderbook_def book_side_of_def
        add_bid_def add_ask_def remove_bid_def remove_ask_def side_ids_push side_ids_remove)
  moreover have "orders_get (orders_insert ord (snd (orders_cancel (ord_order_id ord) t))) (ord_order_id ord) = Some ord"
    using assms(3) by (simp add: orders_cancel_def orders_insert_def orders_get_def Let_def)
  ultimately show ?thesis using cancel_insert_leaves_order_in_book [OF assms(1,2)] by blast
qed

theorem cancellation_race_leaves_book_witness:
  "\<exists>ts t'. mreach id (map thread_of [[finishes (orders_insert_prog (\<lambda>_. 0) sample_order)], [finishes (orders_cancel_prog (\<lambda>_. 0) sample_id)]],
      orders_new) (ts, t') \<and> all_done ts \<and>
    map_option ord_status (orders_get t' sample_id) = Some OsCancelled \<and> sample_id \<in> side_ids (ob_bids (ot_orderbooks t' ! 1)) 40"
proof -
  have "ord_order_id sample_order = sample_id" "ord_is_long sample_order" "ord_market_id sample_order = 1" "ord_trigger_price sample_order = 40"
    "order_is_active sample_order"
    by (simp_all add: sample_order_def placed_order_def order_is_active_def)
  then show ?thesis
    using cancellation_race_leaves_book [of sample_order orders_new "\<lambda>_. 0"]
    by (simp add: orders_new_def MARKET_COUNT_def book_side_of_def)
qed

section \<open>Torn reads\<close>

text \<open>
  C17. Neither the checkpoint nor a price is written at once. In the middle of \<open>save\<close> a reader that takes the lock of the
  checkpoint gets the new block with the old hash and time; in the middle of \<open>set_price\<close> a snapshot of the
  market pairs the new price with the time of the old one. No lock keeps the reader out.
\<close>

theorem torn_reads:
  assumes "unat m < length t"
  shows "(\<exists>ts c'. mreach id (map thread_of [[finishes (checkpoint_save_prog block hash timestamp)], []], c) (ts, c') \<and>
      lock_free ts CheckpointLock SharedMode \<and>
      run checkpoint_snapshot_prog c' = (\<lparr>cs_last_block = block, cs_last_block_hash = cp_last_block_hash c,
        cs_last_block_timestamp = cp_last_block_timestamp c\<rparr>, c')) \<and>
    (\<exists>ts t' sn. mreach id (map thread_of [[finishes (set_price_prog m price ns)], []], t) (ts, t') \<and>
      lock_free ts (MarketLock (unat m)) SharedMode \<and>
      fst (run (market_snapshot_prog m) t') = Some sn \<and> ms_latest_price sn = price \<and> ms_last_update_ns sn = last_update_ns t m)"
  using checkpoint_torn price_torn [OF assms] by blast

theorem torn_reads_witness:
  "\<exists>ts t' sn. mreach id (map thread_of [[finishes (set_price_prog 1 (F64 7) 9)], []], market_state_new) (ts, t') \<and>
    fst (run (market_snapshot_prog 1) t') = Some sn \<and> ms_latest_price sn = F64 7 \<and> ms_last_update_ns sn = 0"
proof -
  have "unat (1 :: market_id) < length market_state_new" by (simp add: market_state_new_def MARKET_COUNT_def)
  moreover have "last_update_ns market_state_new 1 = 0"
    by (simp add: last_update_ns_def slot_at_def market_state_new_def MARKET_COUNT_def market_slot_new_def)
  ultimately show ?thesis using torn_reads [of 1 market_state_new] by metis
qed

text \<open>
  C18. A snapshot is not of one moment. A database takes inputs up to block \<open>b\<close>; a snapshot is written while an event
  of a later block that closes a position is processed. The stores end as after the event alone, but in some
  schedule the snapshot is filed under \<open>b\<close> with the effects of the event, and the next start counts the trade twice.
\<close>

theorem torn_snapshot_double_counts:
  fixes db1 io ser crc due ev
  defines "b \<equiv> cp_last_block (st_checkpoint (db_stores db1))" and "db2 \<equiv> snd (process_event ser crc due ev db1)"
    and "snap \<equiv> torn_snapshot io (db_stores db1) (db_stores (snd (process_event ser crc due ev db1)))"
  assumes "\<forall>(due, x) \<in> set xs1. covered b x \<and> entry_codec_ok ser de (input_entry x)"
    and "ie_event ev = PositionClosed pid user mid sz price pnl full" "b < ie_block_number ev" "entry_codec_ok ser de (WalIndexedEvent ev)"
    and "Suc (length xs1) < SERIES_LIMIT"
    and "perf_db_open sde de crc [] [] [segment_path 0] config empty_data_dir = Some (Inr db0)"
    and "db_run ser crc xs1 db0 = Some db1"
    and "stores_ok (db_stores db2)" "snapshot_orders_ok io (db_stores db2)"
    and "sser snap = Some p" "sde p = Some snap"
  shows "\<exists>ts db. mreach (call_prog ser sser crc shard) (map thread_of [[CallSnapshot io], [CallEvent due ev]], db1) (ts, db) \<and>
    all_done ts \<and> db_stores db = db_stores db2 \<and>
    (\<forall>names. enumerates names (dom (dd_wal (data_dir_of (sync_wal db)))) \<longrightarrow>
      (\<exists>db3. perf_db_open sde de crc [snapshot_filename b] names names config (data_dir_of (sync_wal db)) = Some (Inr db3) \<and>
        trades_of user (db_stores db3) = trades_of user (db_stores db) + 1))"
  using assms(4-) unfolding b_def db2_def snap_def by (rule torn_snapshot_counts_twice)

theorem torn_snapshot_double_counts_witness:
  "\<exists>db1 ts db. mreach (call_prog sample_ser (\<lambda>_. Some [5]) sample_crc (\<lambda>_. 0))
      (map thread_of [[CallSnapshot sample_run_io2], [CallEvent False sample_closed]], db1) (ts, db) \<and> all_done ts \<and>
    db_stores db1 = sample_stores \<and> db_stores db = sample_stores2"
proof -
  let ?sde = "\<lambda>_. Some (torn_snapshot sample_run_io2 sample_stores sample_stores2)"
  obtain db0 db1 where db0: "perf_db_open ?sde sample_de sample_crc [] [] [segment_path 0] perf_db_config_new empty_data_dir = Some (Inr db0)"
    and db1: "db_run sample_ser sample_crc [(False, EventIn sample_opened)] db0 = Some db1" "db_stores db1 = sample_stores"
    and db2: "db_stores (snd (process_event sample_ser sample_crc False sample_closed db1)) = sample_stores2"
    using sample_first_run by blast
  have xs1: "\<forall>(due, x) \<in> set [(False, EventIn sample_opened)]. covered (cp_last_block (st_checkpoint (db_stores db1))) x \<and>
      entry_codec_ok sample_ser sample_de (input_entry x)"
    by (simp add: db1(2)) (simp add: sample_opened_def at_block_def)
  have ev: "ie_event sample_closed = PositionClosed sample_id alice 1 5000 50 700 True"
    "cp_last_block (st_checkpoint (db_stores db1)) < ie_block_number sample_closed"
    by (simp_all add: db1(2)) (simp_all add: sample_closed_def at_block_def)
  have lim: "Suc (length [(False, EventIn sample_opened)]) < SERIES_LIMIT" by (simp add: SERIES_LIMIT_def)
  have st: "stores_ok (db_stores (snd (process_event sample_ser sample_crc False sample_closed db1)))"
    "snapshot_orders_ok sample_run_io2 (db_stores (snd (process_event sample_ser sample_crc False sample_closed db1)))"
    by (simp_all add: db2)
  have sde: "?sde [5] = Some (torn_snapshot sample_run_io2 (db_stores db1)
      (db_stores (snd (process_event sample_ser sample_crc False sample_closed db1))))" by (simp add: db1(2) db2)
  from torn_snapshot_double_counts [where sser = "\<lambda>_. Some [5]" and shard = "\<lambda>_. 0", OF xs1 ev sample_events_codec(2) lim db0 db1(1) st refl sde]
  show ?thesis unfolding db2 using db1(2) by blast
qed

end
