(* ===== verification/Engine_Shutdown.thy ===== *)
theory Engine_Shutdown
  imports Engine_Restart
begin

text \<open>
  A graceful shutdown: the live candles are appended to the series, the log is synced and a snapshot is written. And
  what the candle builder does after the next start, which seeds it with the last stored candles.
\<close>

section \<open>Flushing the live candles\<close>

lemma append_candles_closed: "append_candles cs store = append_closed (map ClosedCandle cs) store"
  by (induction cs arbitrary: store) (simp_all split: option.splits sum.splits prod.splits)

lemma filter_keyed:
  assumes "distinct ks" "\<And>k x. f k = Some x \<Longrightarrow> P x \<longleftrightarrow> k = k0"
  shows "filter P (List.map_filter f ks) = (if k0 \<in> set ks then (case f k0 of None \<Rightarrow> [] | Some x \<Rightarrow> [x]) else [])"
  using assms(1)
proof (induction ks)
  case (Cons k ks)
  then show ?case using assms(2) by (auto simp: map_filter_simps split: option.splits)
qed (simp add: map_filter_simps)

definition live_candles :: "candle_builder \<Rightarrow> market_id \<times> timeframe \<Rightarrow> candle_record list" where
  "live_candles b = (\<lambda>(m, tf). case builder_current b m tf of None \<Rightarrow> [] | Some c \<Rightarrow> [c])"

lemma length_live: "length (live_candles b k) \<le> 1"
  by (cases k) (simp add: live_candles_def split: option.splits)

lemma closed_map_ClosedCandle:
  "closed_candles m tf (map ClosedCandle cs) = filter (\<lambda>c. cdl_market_id c = m \<and> cdl_timeframe c = timeframe_u8 tf) cs"
  by (induction cs) auto

lemma closed_flush:
  assumes "builder_ok b"
  shows "closed_candles m tf (map ClosedCandle (builder_flush_all b)) = live_candles b (m, tf)"
proof -
  have "filter (\<lambda>c. cdl_market_id c = m \<and> cdl_timeframe c = timeframe_u8 tf) (builder_flush_all b) =
      (if (m, tf) \<in> set market_timeframes
       then (case map_option (candle_to_record m tf) (b ! candle_flat_index m tf) of None \<Rightarrow> [] | Some x \<Rightarrow> [x]) else [])"
    unfolding builder_flush_all_def
    by (subst filter_keyed [where ?k0.0 = "(m, tf)", OF distinct_market_timeframes])
      (auto simp: candle_to_record_def timeframe_u8_inj)
  moreover have "candle_flat_index m tf < length b \<longleftrightarrow> unat m < MARKET_COUNT"
    using assms flat_index_bound [of m tf] by (simp add: builder_ok_def)
  ultimately show ?thesis
    by (simp add: closed_map_ClosedCandle live_candles_def builder_current_def in_market_timeframes)
qed

lemma closable_flush: "x \<in> set (map ClosedCandle (builder_flush_all b)) \<Longrightarrow> closable x"
  by (auto simp: builder_flush_all_def map_filter_def closable_def candle_to_record_def in_market_timeframes)

lemma length_flush: "length (builder_flush_all b) \<le> MARKET_COUNT * TF_COUNT"
proof -
  have "length (List.map_filter f ks) \<le> length ks" for f :: "market_id \<times> timeframe \<Rightarrow> candle_record option" and ks
    by (simp add: map_filter_def length_filter_le)
  from this [of _ market_timeframes] show ?thesis by (simp add: builder_flush_all_def length_market_timeframes)
qed

lemma flush_ok:
  assumes s: "series_ok n db tks cl" and lim: "n < SERIES_LIMIT"
  obtains cs where "append_candles (builder_flush_all (db_candle_builder db)) (db_candle_store db) = Some (Inr (), cs)"
    and "series_ok (Suc n) (db\<lparr>db_candle_store := cs\<rparr>) tks (\<lambda>k. cl k @ live_candles (db_candle_builder db) k)"
proof -
  let ?b = "db_candle_builder db" and ?N = "32 * n + MARKET_COUNT * TF_COUNT"
  have b: "builder_ok ?b" and r: "candle_store_repr (db_candle_store db) cl" and len: "\<And>k. length (cl k) \<le> 32 * n"
    using s by (auto simp: series_ok_def)
  have "length (cl k) + length (map ClosedCandle (builder_flush_all ?b)) \<le> ?N" for k
    using len [of k] length_flush [of ?b] by simp
  moreover have "?N * 48 + 48 < MMAP_LIMIT" using lim by (simp add: SERIES_LIMIT_def MMAP_LIMIT_def MARKET_COUNT_def TF_COUNT_def)
  ultimately obtain cs where cs: "append_closed (map ClosedCandle (builder_flush_all ?b)) (db_candle_store db) = Some (Inr (), cs)"
    "candle_store_repr cs (\<lambda>(m, tf). cl (m, tf) @ closed_candles m tf (map ClosedCandle (builder_flush_all ?b)))"
    using append_closed_ok [OF r, of "map ClosedCandle (builder_flush_all ?b)" ?N] closable_flush by blast
  have "candle_store_repr cs (\<lambda>k. cl k @ live_candles ?b k)" using cs(2) by (simp add: closed_flush [OF b] case_prod_beta')
  moreover have "length (cl k @ live_candles ?b k) \<le> 32 * Suc n" for k using len [of k] length_live [of ?b k] by simp
  moreover have "length (tks m) \<le> Suc n" for m using s by (simp add: series_ok_def le_SucI)
  ultimately show thesis using that [OF cs(1) [folded append_candles_closed]] s by (simp add: series_ok_def)
qed

section \<open>Shutdown\<close>

lemma live_out_of_range: "builder_ok b \<Longrightarrow> \<not> unat m < MARKET_COUNT \<Longrightarrow> live_candles b (m, tf) = []"
  using flat_index_bound [of m tf] by (simp add: live_candles_def builder_current_def builder_ok_def)

text \<open>A shutdown does not fail, and leaves what a sync and a snapshot leave after the live candles were appended.\<close>

lemma shutdown_ok:
  assumes s: "series_ok n db tks cl" "n < SERIES_LIMIT" and p: "sser (state_snapshot_of io (db_stores db)) = Some p"
  obtains db1 where "perf_db_shutdown sser io db = Some (Inr (), snd (db_snapshot sser io db1))"
    and "series_ok (Suc n) db1 tks (\<lambda>k. cl k @ live_candles (db_candle_builder db) k)" "db_stores db1 = db_stores db"
    and "db_snapshots db1 = db_snapshots db" "db_wal db1 = wal_sync (db_wal db)"
    and "\<forall>m. db_ticks db1 m = db_ticks db m"
    and "\<forall>m tf. db_candles db1 m tf = map_option (\<lambda>cs. cs @ live_candles (db_candle_builder db) (m, tf)) (db_candles db m tf)"
proof -
  obtain cs where cs: "append_candles (builder_flush_all (db_candle_builder db)) (db_candle_store db) = Some (Inr (), cs)"
    and s': "series_ok (Suc n) (db\<lparr>db_candle_store := cs\<rparr>) tks (\<lambda>k. cl k @ live_candles (db_candle_builder db) k)"
    using flush_ok [OF s] by blast
  let ?db1 = "sync_wal (db\<lparr>db_candle_store := cs\<rparr>)"
  have st: "db_stores ?db1 = db_stores db" by (simp add: sync_wal_def)
  have "perf_db_shutdown sser io db = Some (Inr (), snd (db_snapshot sser io ?db1))"
    using cs p by (simp add: perf_db_shutdown_def db_snapshot_def write_snapshot_def split_beta Let_def st)
  moreover have "series_ok (Suc n) ?db1 tks (\<lambda>k. cl k @ live_candles (db_candle_builder db) k)"
    using s' by (simp add: series_ok_def sync_wal_def)
  moreover have "db_candles ?db1 m tf = map_option (\<lambda>cs. cs @ live_candles (db_candle_builder db) (m, tf)) (db_candles db m tf)" for m tf
  proof -
    have "candle_store_repr (db_candle_store db) cl" "builder_ok (db_candle_builder db)"
      "candle_store_repr cs (\<lambda>k. cl k @ live_candles (db_candle_builder db) k)"
      using s(1) s' by (simp_all add: series_ok_def)
    then show ?thesis using live_out_of_range [of "db_candle_builder db" m tf]
      by (auto simp: db_candles_def sync_wal_def candle_store_candles_repr)
  qed
  ultimately show thesis using that [of ?db1] st by (simp add: sync_wal_def db_ticks_def)
qed

section \<open>The builder after a start\<close>

definition seeded :: "candle_record \<Rightarrow> candle_buffer" where
  "seeded c = \<lparr>cb_bucket_start_ns = cdl_timestamp_ns c, cb_open = cdl_open c, cb_high = cdl_high c, cb_low = cdl_low c,
     cb_close = cdl_close c, cb_volume = cdl_volume c, cb_tick_count = 0\<rparr>"

lemma seed_slot:
  assumes "candle_store_repr cs cl" "seed_builder cs ks b = Some b'" "builder_ok b" "set ks \<subseteq> set market_timeframes"
    and "unat m < MARKET_COUNT"
  shows "b' ! candle_flat_index m tf =
    (if (m, tf) \<in> set ks \<and> cl (m, tf) \<noteq> [] then Some (seeded (last (cl (m, tf)))) else b ! candle_flat_index m tf)"
  using assms(2-4)
proof (induction ks arbitrary: b)
  case (Cons k ks)
  obtain m' tf' where k: "k = (m', tf')" by (cases k)
  have m': "unat m' < MARKET_COUNT" using Cons.prems(3) by (simp add: k in_market_timeframes)
  have lst: "candle_store_latest cs m' tf' = Some (last_opt (cl (m', tf')))"
    using m' by (simp add: candle_store_latest_def candle_store_candles_repr [OF assms(1)])
  show ?case
  proof (cases "cl (m', tf') = []")
    case True
    then show ?thesis using Cons lst by (auto simp: k last_opt_def)
  next
    case False
    let ?b = "builder_seed m' tf' (last (cl (m', tf'))) b"
    have "?b ! candle_flat_index m tf = (if (m, tf) = k then Some (seeded (last (cl (m, tf)))) else b ! candle_flat_index m tf)"
      using Cons.prems(2) m' flat_index_bound [of m' tf'] flat_index_inj [of m tf m' tf']
      by (auto simp: builder_seed_def seeded_def k builder_ok_def Let_def nth_list_update)
    moreover have "b' ! candle_flat_index m tf =
        (if (m, tf) \<in> set ks \<and> cl (m, tf) \<noteq> [] then Some (seeded (last (cl (m, tf)))) else ?b ! candle_flat_index m tf)"
      using Cons.IH [of ?b] Cons.prems False lst builder_ok_seed [OF Cons.prems(2)] by (simp add: k last_opt_def)
    ultimately show ?thesis using False by (auto simp: k)
  qed
qed simp

text \<open>A tick of a later bucket closes the seeded candle, which was stored before.\<close>

lemma reclosed:
  assumes b: "builder_ok b" and m: "unat (tick_market_id t) < MARKET_COUNT"
    and slot: "b ! candle_flat_index (tick_market_id t) tf = Some (seeded c)"
    and new: "bucket_start_ns tf (tick_timestamp_ns t) \<noteq> cdl_timestamp_ns c"
  shows "closed_candles (tick_market_id t) tf (fst (on_tick t b)) = [candle_to_record (tick_market_id t) tf (seeded c)]"
  using new outputs_of_on_tick [OF b m, of tf t] slot
  by (simp add: closed_candles_def on_tick_buffer_def seeded_def Let_def)

end
