(* ===== verification/Engine_Lifetime.thy ===== *)
theory Engine_Lifetime
  imports Engine_Shutdown
begin

text \<open>
  The life of a database over any number of runs: it takes inputs, snapshots are written, it is shut down, and it is
  synced and opened again, in any order. The step relation says what each of these does; the invariant says that the files hold what the
  stores show.
\<close>

section \<open>Steps\<close>

text \<open>
  \<open>lifetime xs b n db\<close>: the inputs \<open>xs\<close> were taken in all the runs, \<open>b\<close> is the block of the last snapshot (0 before the
  first), \<open>n\<close> the number of inputs and shutdowns, and \<open>db\<close> is the database now. An event is taken behind the block of the last snapshot, and is not a
  \<open>PositionModified\<close>; a snapshot is written when the checkpoint is at the newest block, the stores are well-formed and no
  trader has more than 1000 daily rows: \<open>newest_snapshot\<close> says that of the block \<open>b'\<close> and the bytes \<open>p\<close> of the snapshot.
\<close>

definition newest_snapshot ::
  "(state_snapshot \<Rightarrow> u8 list option) \<Rightarrow> (u8 list \<Rightarrow> state_snapshot option) \<Rightarrow> (bool \<times> engine_input) list \<Rightarrow> u64 \<Rightarrow>
     snapshot_orders \<Rightarrow> perf_db \<Rightarrow> u64 \<Rightarrow> u8 list \<Rightarrow> bool" where
  "newest_snapshot sser sde xs b io db b' p \<longleftrightarrow>
     b' = cp_last_block (st_checkpoint (db_stores db)) \<and> b \<le> b' \<and> (\<forall>(due, x) \<in> set xs. covered b' x) \<and>
     stores_ok (db_stores db) \<and> snapshot_orders_ok io (db_stores db) \<and> few_daily (st_daily_stats (db_stores db)) \<and>
     sser (state_snapshot_of io (db_stores db)) = Some p \<and> sde p = Some (state_snapshot_of io (db_stores db))"

inductive lifetime ::
  "(wal_entry \<Rightarrow> u8 list option) \<Rightarrow> (u8 list \<Rightarrow> wal_entry option) \<Rightarrow> (state_snapshot \<Rightarrow> u8 list option) \<Rightarrow>
   (u8 list \<Rightarrow> state_snapshot option) \<Rightarrow> (u8 list \<Rightarrow> u32) \<Rightarrow> perf_db_config \<Rightarrow>
   (bool \<times> engine_input) list \<Rightarrow> u64 \<Rightarrow> nat \<Rightarrow> perf_db \<Rightarrow> bool"
  for ser de sser sde crc config where
  life_new: "perf_db_open sde de crc [] [] [segment_path 0] config empty_data_dir = Some (Inr db) \<Longrightarrow>
     lifetime ser de sser sde crc config [] 0 0 db"
| life_input: "lifetime ser de sser sde crc config xs b n db \<Longrightarrow>
     \<forall>(due, x) \<in> set ys. later b x \<and> entry_codec_ok ser de (input_entry x) \<Longrightarrow> n + length ys < SERIES_LIMIT \<Longrightarrow>
     db_run ser crc ys db = Some db' \<Longrightarrow> lifetime ser de sser sde crc config (xs @ ys) b (n + length ys) db'"
| life_snapshot: "lifetime ser de sser sde crc config xs b n db \<Longrightarrow> newest_snapshot sser sde xs b io db b' p \<Longrightarrow>
     lifetime ser de sser sde crc config xs b' n (snd (db_snapshot sser io db))"
| life_shutdown: "lifetime ser de sser sde crc config xs b n db \<Longrightarrow> newest_snapshot sser sde xs b io db b' p \<Longrightarrow>
     n < SERIES_LIMIT \<Longrightarrow> perf_db_shutdown sser io db = Some (Inr (), db') \<Longrightarrow>
     lifetime ser de sser sde crc config xs b' (Suc n) db'"
| life_reopen: "lifetime ser de sser sde crc config xs b n db \<Longrightarrow>
     enumerates wal_names (dom (dd_wal (data_dir_of (sync_wal db)))) \<Longrightarrow> enumerates snap_names (dom (db_snapshots db)) \<Longrightarrow>
     perf_db_open sde de crc snap_names wal_names wal_names config (data_dir_of (sync_wal db)) = Some (Inr db') \<Longrightarrow>
     lifetime ser de sser sde crc config xs b n db'"

lemma lifetime_config: "lifetime ser de sser sde crc config xs b n db \<Longrightarrow> config_ok config"
  by (induction rule: lifetime.induct) (auto intro: open_bus(1))

section \<open>The invariant\<close>

text \<open>The stores are those that replaying the log on the last snapshot gives, and show the last prices of the log.\<close>

definition durable_state :: "u64 \<Rightarrow> stores \<Rightarrow> wal_entry list \<Rightarrow> stores \<Rightarrow> bool" where
  "durable_state b base es s \<longleftrightarrow> prices_shown es (st_market_state s) \<and> similar s (fold (replay_wal_entry b) es base)"

interpretation durable: store_tracker "later b" "durable_state b base" for b base
proof
  show "durable_state b base (es @ [WalIndexedEvent ev]) (fst (apply_event ev (s, bus)))"
    if l: "later b (EventIn ev)" and st: "durable_state b base es s" for ev es s bus
  proof -
    have "last_price m (es @ [WalIndexedEvent ev]) = last_price m es" for m by (simp add: last_price_snoc)
    then have "prices_shown (es @ [WalIndexedEvent ev]) t = prices_shown es t" for t by (simp add: prices_shown_def)
    moreover have "prices_shown es (st_market_state (fst (apply_event ev (s, bus))))"
      by (rule prices_shown_part [of "st_market_state s"]) (use st in \<open>simp_all add: price_part_apply durable_state_def\<close>)
    ultimately show ?thesis
      using similar_applied [of ev b s "fold (replay_wal_entry b) es base" bus] l st by (simp add: durable_state_def)
  qed
  show "durable_state b base (es @ [tick_entry t]) (priced t s)"
    if "later b (TickIn t)" "durable_state b base es s" "length (st_market_state s) = MARKET_COUNT" for t es s
    using that(2) prices_shown_tick similar_priced [of s "fold (replay_wal_entry b) es base" t]
    by (simp add: durable_state_def tick_entry_def priced_def replay_wal_entry_def)
qed simp

text \<open>The snapshot that the next start loads, in whatever order the directory is listed.\<close>

definition loads :: "(u8 list \<Rightarrow> state_snapshot option) \<Rightarrow> dir \<Rightarrow> state_snapshot option \<Rightarrow> bool" where
  "loads sde d snap \<longleftrightarrow> (\<forall>names. enumerates names (dom d) \<longrightarrow> load_latest_snapshot sde names d = Inr snap)"

definition lifetime_inv ::
  "(wal_entry \<Rightarrow> u8 list option) \<Rightarrow> (u8 list \<Rightarrow> wal_entry option) \<Rightarrow> (u8 list \<Rightarrow> state_snapshot option) \<Rightarrow> (u8 list \<Rightarrow> u32) \<Rightarrow>
   (bool \<times> engine_input) list \<Rightarrow> u64 \<Rightarrow> nat \<Rightarrow> state_snapshot option \<Rightarrow> perf_db \<Rightarrow> bool" where
  "lifetime_inv ser de sde crc xs b n snap db \<longleftrightarrow>
     run_inv (durable_state b (snapshot_base snap)) ser crc n (map (\<lambda>y. input_entry (snd y)) xs) db \<and>
     (\<forall>y \<in> set xs. entry_codec_ok ser de (input_entry (snd y))) \<and>
     loads sde (db_snapshots db) snap \<and> snapshot_block snap = b \<and> snapshot_dir_ok (db_snapshots db) \<and>
     (\<forall>c. db_snapshots db (snapshot_filename c) \<noteq> None \<longrightarrow> c \<le> b)"

lemma price_part_erased: "erase_market t = erase_market u \<Longrightarrow> price_part t = price_part u"
proof -
  have "price_part t = map (\<lambda>sl. (sl_latest_price_bits sl, sl_last_update_ns sl)) (erase_market t)" for t
    by (simp add: price_part_def erase_market_def erase_slot_def)
  then show "erase_market t = erase_market u \<Longrightarrow> price_part t = price_part u" by simp
qed

lemma inv_new:
  assumes "perf_db_open sde de crc [] [] [segment_path 0] config empty_data_dir = Some (Inr db)"
  shows "lifetime_inv ser de sde crc [] 0 0 None db"
proof -
  have "durable_state 0 (snapshot_base None) [] stores_new"
    by (simp add: durable_state_def prices_shown_def last_price_def snapshot_base_def similar_def)
  note new = run_inv_open(1) [where tr = "durable_state 0 (snapshot_base None)" and ser = ser, OF assms this]
    run_inv_open(2) [where tr = "durable_state 0 (snapshot_base None)", OF assms this]
  have "loads sde Map.empty None" by (auto simp: loads_def enumerates_def)
  with new show ?thesis by (simp add: lifetime_inv_def snapshot_block_def snapshot_dir_ok_def)
qed

lemma inv_input:
  assumes "lifetime_inv ser de sde crc xs b n snap db"
    and "\<forall>(due, x) \<in> set ys. later b x \<and> entry_codec_ok ser de (input_entry x)" "n + length ys < SERIES_LIMIT"
    and "db_run ser crc ys db = Some db'"
  shows "lifetime_inv ser de sde crc (xs @ ys) b (n + length ys) snap db'"
proof -
  have inv: "run_inv (durable_state b (snapshot_base snap)) ser crc n (map (\<lambda>y. input_entry (snd y)) xs) db"
    using assms(1) by (simp add: lifetime_inv_def)
  have "\<forall>(due, x) \<in> set ys. later b x \<and> ser (input_entry x) \<noteq> None" using assms(2) entry_codec_ok_ser by fast
  from durable.run [OF inv assms(3) this] assms(4)
  have "run_inv (durable_state b (snapshot_base snap)) ser crc (n + length ys) (map (\<lambda>y. input_entry (snd y)) (xs @ ys)) db'"
    by simp
  then show ?thesis using assms(1,2) db_run_snapshots [OF assms(4)] by (auto simp: lifetime_inv_def)
qed

lemma covered_entries: "covered b x \<Longrightarrow> covered_entry b (input_entry x)"
  by (cases x) (simp_all add: tick_entry_def)

lemma inv_snapshot:
  assumes inv: "lifetime_inv ser de sde crc xs b n snap db"
    and newest_snap: "newest_snapshot sser sde xs b io db b' p"
  shows "lifetime_inv ser de sde crc xs b' n (Some (state_snapshot_of io (db_stores db))) (snd (db_snapshot sser io db))"
proof -
  let ?snap = "state_snapshot_of io (db_stores db)" and ?es = "map (\<lambda>y. input_entry (snd y)) xs"
  let ?dbs = "snd (db_snapshot sser io db)"
  have b': "b' = cp_last_block (st_checkpoint (db_stores db))" "b \<le> b'" and xs: "\<forall>(due, x) \<in> set xs. covered b' x"
    and ok: "stores_ok (db_stores db)" "snapshot_orders_ok io (db_stores db)" and few: "few_daily (st_daily_stats (db_stores db))"
    and codec: "sser (state_snapshot_of io (db_stores db)) = Some p" "sde p = Some (state_snapshot_of io (db_stores db))"
    using newest_snap unfolding newest_snapshot_def by blast+
  have run: "run_inv (durable_state b (snapshot_base snap)) ser crc n ?es db" and dir: "snapshot_dir_ok (db_snapshots db)"
    and old: "\<And>c. db_snapshots db (snapshot_filename c) \<noteq> None \<Longrightarrow> c \<le> b"
    using inv by (simp_all add: lifetime_inv_def)
  have newest: "c \<le> cp_last_block (st_checkpoint (db_stores db))" if "db_snapshots db (snapshot_filename c) \<noteq> None" for c
    using old [OF that] b' by simp
  have blk: "snapshot_block (Some ?snap) = b'" "snapshot_base (Some ?snap) = restore_snapshot ?snap stores_new"
    "sc_last_block (ss_checkpoint ?snap) = b'"
    by (simp_all add: snapshot_block_def snapshot_base_def b'(1) state_snapshot_of_def Let_def snapshot_checkpoint_of_def
        checkpoint_snapshot_of_def)
  have loads: "loads sde (db_snapshots ?dbs) (Some ?snap)"
    unfolding loads_def
  proof (intro allI impI)
    show "load_latest_snapshot sde names (db_snapshots ?dbs) = Inr (Some ?snap)" if "enumerates names (dom (db_snapshots ?dbs))" for names
      using that by (intro snapshot_and_restore(1) [where p = p] ok codec dir newest)
  qed
  have r: "restored (db_stores db) (restore_snapshot ?snap stores_new)" by (rule restore_snapshot_of [OF ok])
  have shown: "prices_shown ?es (st_market_state (db_stores db))" and len: "length (st_market_state (db_stores db)) = MARKET_COUNT"
    using run by (auto simp: run_inv_def durable_state_def series_ok_def)
  have "list_all (covered_entry b') ?es" using xs covered_entries by (fastforce simp: list_all_iff)
  then have cov: "covered_state b' ?es (db_stores db)" using shown by (simp add: covered_state_def)
  have "durable_state b' (snapshot_base (Some ?snap)) ?es (db_stores db)"
    using shown similar_restored [OF r _ few] ok(1) restored_replay [OF r cov len] by (simp add: durable_state_def blk stores_ok_def)
  from run_inv_snapshot [where tr' = "durable_state b' (snapshot_base (Some ?snap))", OF run this, of sser io]
  have run': "run_inv (durable_state b' (snapshot_base (Some ?snap))) ser crc n ?es ?dbs" .
  have d: "db_snapshots ?dbs = (db_snapshots db)(snapshot_filename b' \<mapsto> p)"
    using codec(1) by (simp add: db_snapshot_def write_snapshot_def split_beta Let_def blk(3))
  have "c \<le> b'" if "db_snapshots ?dbs (snapshot_filename c) \<noteq> None" for c
    using that newest [of c] by (cases "c = b'") (auto simp: d b'(1))
  then show ?thesis
    using inv run' loads snapshot_frame(3) [OF dir, of sser io] by (simp add: lifetime_inv_def blk(1))
qed

lemma inv_shutdown:
  assumes inv: "lifetime_inv ser de sde crc xs b n snap db" and new: "newest_snapshot sser sde xs b io db b' p"
    and lim: "n < SERIES_LIMIT" and sd: "perf_db_shutdown sser io db = Some (Inr (), db')"
  shows "lifetime_inv ser de sde crc xs b' (Suc n) (Some (state_snapshot_of io (db_stores db))) db'"
proof -
  obtain tks cl where s: "series_ok n db tks cl" using inv by (auto simp: lifetime_inv_def run_inv_def)
  have p: "sser (state_snapshot_of io (db_stores db)) = Some p" using new by (simp add: newest_snapshot_def)
  obtain db1 where db1: "perf_db_shutdown sser io db = Some (Inr (), snd (db_snapshot sser io db1))"
    "series_ok (Suc n) db1 tks (\<lambda>k. cl k @ live_candles (db_candle_builder db) k)" "db_stores db1 = db_stores db"
    "db_snapshots db1 = db_snapshots db" "db_wal db1 = wal_sync (db_wal db)"
    by (rule shutdown_ok [where sser = sser, OF s lim p])
  have "lifetime_inv ser de sde crc xs b (Suc n) snap db1"
  proof -
    have "run_inv (durable_state b (snapshot_base snap)) ser crc (Suc n) (map (\<lambda>y. input_entry (snd y)) xs) db1"
      using inv db1(2) unfolding lifetime_inv_def run_inv_def db1(3,5) by (metis le_SucI wal_holds_sync)
    then show ?thesis using inv by (simp add: lifetime_inv_def db1(4))
  qed
  moreover have "newest_snapshot sser sde xs b io db1 b' p" using new unfolding newest_snapshot_def db1(3) .
  ultimately have "lifetime_inv ser de sde crc xs b' (Suc n) (Some (state_snapshot_of io (db_stores db1))) (snd (db_snapshot sser io db1))"
    by (rule inv_snapshot)
  then show ?thesis using db1(1,3) sd by simp
qed

text \<open>Opening the synced files replays the log on the last snapshot.\<close>

lemma inv_replays:
  assumes inv: "lifetime_inv ser de sde crc xs b n snap db"
    and wal: "enumerates wal_names (dom (dd_wal (data_dir_of (sync_wal db))))" and snaps: "enumerates snap_names (dom (db_snapshots db))"
    and cfg: "config_ok config"
  obtains tks cl db' where "series_ok n (sync_wal db) tks cl"
    "perf_db_open sde de crc snap_names wal_names wal_names config (data_dir_of (sync_wal db)) = Some (Inr db')"
    "db_stores db' = fold (replay_wal_entry b) (map (\<lambda>y. input_entry (snd y)) xs) (snapshot_base snap)"
    "tick_store_repr (db_tick_store db') tks" "candle_store_repr (db_candle_store db') cl" "builder_ok (db_candle_builder db')"
    "wal_holds ser crc (map (\<lambda>y. input_entry (snd y)) xs) (db_wal db')"
    "\<forall>m. db_ticks db' m = db_ticks db m" "\<forall>m tf. db_candles db' m tf = db_candles db m tf"
proof -
  let ?es = "map (\<lambda>y. input_entry (snd y)) xs"
  have run: "run_inv (durable_state b (snapshot_base snap)) ser crc n ?es db"
    and load: "load_latest_snapshot sde snap_names (db_snapshots (sync_wal db)) = Inr snap" and blk: "snapshot_block snap = b"
    and codec: "\<forall>e \<in> set ?es. entry_codec_ok ser de e"
    using inv snaps by (auto simp: lifetime_inv_def loads_def)
  from run_inv_sync [OF run] obtain tks cl where s: "series_ok n (sync_wal db) tks cl"
    and w: "wal_holds ser crc ?es (db_wal (sync_wal db))"
    by (auto simp: run_inv_def)
  show thesis
    using open_replays [OF s w _ _ codec load cfg, of wal_names] wal that [OF s] by (auto simp: blk data_dir_of_def)
qed

text \<open>Opening the synced files succeeds and gives back the stores and the series.\<close>

lemma inv_opens:
  assumes inv: "lifetime_inv ser de sde crc xs b n snap db"
    and wal: "enumerates wal_names (dom (dd_wal (data_dir_of (sync_wal db))))" and snaps: "enumerates snap_names (dom (db_snapshots db))"
    and cfg: "config_ok config"
  shows "\<exists>db'. perf_db_open sde de crc snap_names wal_names wal_names config (data_dir_of (sync_wal db)) = Some (Inr db') \<and>
    similar (db_stores db) (db_stores db') \<and> lifetime_inv ser de sde crc xs b n snap db' \<and>
    (\<forall>m. db_ticks db' m = db_ticks db m) \<and> (\<forall>m tf. db_candles db' m tf = db_candles db m tf)"
proof -
  let ?es = "map (\<lambda>y. input_entry (snd y)) xs"
  obtain tks cl db' where s: "series_ok n (sync_wal db) tks cl"
    and db': "perf_db_open sde de crc snap_names wal_names wal_names config (data_dir_of (sync_wal db)) = Some (Inr db')"
    and st: "db_stores db' = fold (replay_wal_entry b) ?es (snapshot_base snap)"
    and repr: "tick_store_repr (db_tick_store db') tks" "candle_store_repr (db_candle_store db') cl" "builder_ok (db_candle_builder db')"
      "wal_holds ser crc ?es (db_wal db')"
    and same: "\<forall>m. db_ticks db' m = db_ticks db m" "\<forall>m tf. db_candles db' m tf = db_candles db m tf"
    by (rule inv_replays [OF assms])
  have dur: "durable_state b (snapshot_base snap) ?es (db_stores db)" "length ?es \<le> n"
    using inv by (simp_all add: lifetime_inv_def run_inv_def)
  have sim: "similar (db_stores db) (db_stores db')" using dur(1) st by (simp add: durable_state_def)
  then have em: "erase_market (st_market_state (db_stores db)) = erase_market (st_market_state (db_stores db'))"
    by (simp add: similar_def)
  have "length (st_market_state (db_stores db')) = length (st_market_state (db_stores db))"
    using arg_cong [OF em, of length] by (simp add: erase_market_def)
  then have s': "series_ok n db' tks cl" using s repr by (simp add: series_ok_def)
  have "prices_shown ?es (st_market_state (db_stores db'))"
    using dur(1) by (intro prices_shown_part [OF price_part_erased [OF em]]) (simp add: durable_state_def)
  then have "durable_state b (snapshot_base snap) ?es (db_stores db')" by (simp add: durable_state_def st similar_def)
  then have run': "run_inv (durable_state b (snapshot_base snap)) ser crc n ?es db'"
    using s' repr(4) dur(2) by (auto simp: run_inv_def)
  have "db_snapshots db' = db_snapshots db"
    using db' by (auto simp: perf_db_open_def data_dir_of_def Let_def split: sum.splits option.splits prod.splits)
  then have "lifetime_inv ser de sde crc xs b n snap db'" using inv run' by (simp add: lifetime_inv_def)
  then show ?thesis using db' sim same by auto
qed

lemma lifetime_keeps: "lifetime ser de sser sde crc config xs b n db \<Longrightarrow> \<exists>snap. lifetime_inv ser de sde crc xs b n snap db"
proof (induction rule: lifetime.induct)
  case (life_new db)
  then show ?case using inv_new by blast
next
  case (life_input xs b n db ys db')
  then show ?case using inv_input by blast
next
  case (life_snapshot xs b n db io b' p)
  then show ?case using inv_snapshot by blast
next
  case (life_shutdown xs b n db io b' p db')
  then show ?case using inv_shutdown by blast
next
  case (life_reopen xs b n db wal_names snap_names db')
  then obtain snap where "lifetime_inv ser de sde crc xs b n snap db" by blast
  from inv_opens [OF this life_reopen.hyps(2,3) open_bus(1) [OF life_reopen.hyps(4)]] life_reopen.hyps(4) show ?case by auto
qed

lemma lifetime_survives:
  assumes "lifetime ser de sser sde crc config xs b n db"
    and "enumerates wal_names (dom (dd_wal (data_dir_of (sync_wal db))))" "enumerates snap_names (dom (db_snapshots db))"
  shows "\<exists>db'. perf_db_open sde de crc snap_names wal_names wal_names config (data_dir_of (sync_wal db)) = Some (Inr db') \<and>
    similar (db_stores db) (db_stores db') \<and>
    (\<forall>m. db_ticks db' m = db_ticks db m) \<and> (\<forall>m tf. db_candles db' m tf = db_candles db m tf)"
  using lifetime_keeps [OF assms(1)] inv_opens [OF _ assms(2,3) lifetime_config [OF assms(1)]] by meson

text \<open>The next inputs are taken without a panic.\<close>

lemma lifetime_goes_on:
  assumes "lifetime ser de sser sde crc config xs b n db"
    and "\<forall>(due, x) \<in> set ys. later b x \<and> entry_codec_ok ser de (input_entry x)" "n + length ys < SERIES_LIMIT"
  shows "\<exists>db'. db_run ser crc ys db = Some db'"
proof -
  obtain snap where "lifetime_inv ser de sde crc xs b n snap db" using lifetime_keeps [OF assms(1)] by blast
  then have inv: "run_inv (durable_state b (snapshot_base snap)) ser crc n (map (\<lambda>y. input_entry (snd y)) xs) db"
    by (simp add: lifetime_inv_def)
  have "\<forall>(due, x) \<in> set ys. later b x \<and> ser (input_entry x) \<noteq> None" using assms(2) entry_codec_ok_ser by fast
  then show ?thesis using durable.run [OF inv assms(3)] by blast
qed

text \<open>The files can be listed.\<close>

lemma lifetime_names:
  assumes "lifetime ser de sser sde crc config xs b n db"
  shows "\<exists>wal_names snap_names. enumerates wal_names (dom (dd_wal (data_dir_of (sync_wal db)))) \<and>
    enumerates snap_names (dom (db_snapshots db))"
proof -
  obtain snap where inv: "lifetime_inv ser de sde crc xs b n snap db" using lifetime_keeps [OF assms] by blast
  then have "wal_holds ser crc (map (\<lambda>y. input_entry (snd y)) xs) (db_wal (sync_wal db))"
    using run_inv_sync by (fastforce simp: lifetime_inv_def run_inv_def)
  then obtain wal_names where "enumerates wal_names (dom (dd_wal (data_dir_of (sync_wal db))))"
    using wal_holds_names by (fastforce simp: data_dir_of_def)
  moreover have "finite (dom (db_snapshots db))"
    using assms
  proof (induction rule: lifetime.induct)
    case (life_new db)
    then show ?case using run_inv_open(2) [where tr = "\<lambda>_ _. True"] by simp
  next
    case (life_input xs b n db ys db')
    then show ?case using db_run_snapshots by metis
  next
    case (life_snapshot xs b n db io b' p)
    then have "db_snapshots (snd (db_snapshot sser io db)) =
        (db_snapshots db)(snapshot_filename (sc_last_block (ss_checkpoint (state_snapshot_of io (db_stores db)))) \<mapsto> p)"
      by (simp add: db_snapshot_def write_snapshot_def newest_snapshot_def split_beta Let_def)
    then show ?case using life_snapshot by (simp del: fun_upd_apply)
  next
    case (life_shutdown xs b n db io b' p db')
    then have "db_snapshots db' = (db_snapshots db)(snapshot_filename (sc_last_block (ss_checkpoint (state_snapshot_of io (db_stores db)))) \<mapsto> p)"
      by (auto simp: perf_db_shutdown_def db_snapshot_def write_snapshot_def newest_snapshot_def split_beta Let_def sync_wal_def
          split: sum.splits option.splits)
    then show ?case using life_shutdown by (simp del: fun_upd_apply)
  next
    case (life_reopen xs b n db wal_names snap_names db')
    then show ?case
      by (auto simp: perf_db_open_def data_dir_of_def Let_def split: sum.splits option.splits prod.splits)
  qed
  then obtain snap_names where "enumerates snap_names (dom (db_snapshots db))"
    using finite_distinct_list by (metis enumerates_def)
  ultimately show ?thesis by blast
qed

section \<open>Around a restart\<close>

text \<open>A shutdown leaves files that open again, with the live candles behind the stored ones.\<close>

lemma sync_again: "wal_holds ser crc es st \<Longrightarrow> snd (wal_sync (wal_sync st)) = snd (wal_sync st)"
proof -
  assume "wal_holds ser crc es st"
  then obtain w d c where "wal_sync st = (w, d)" "ww_buf w = []" "d (segment_path (ww_current_segment w)) = Some c"
    using wal_repr_sync [of _ _ st] wal_sync_fst [of st] unfolding wal_holds_def
    by (cases "wal_sync st") (fastforce elim!: wal_reprE)
  then show "snd (wal_sync (wal_sync st)) = snd (wal_sync st)"
    by (simp add: wal_sync_def flush_buf_def disk_append_some fun_upd_idem)
qed

lemma shutdown_reopens:
  assumes life: "lifetime ser de sser sde crc config xs b n db" and new: "newest_snapshot sser sde xs b io db b' p"
    and lim: "n < SERIES_LIMIT"
  shows "\<exists>db1. perf_db_shutdown sser io db = Some (Inr (), db1) \<and>
    (\<forall>wal_names snap_names. enumerates wal_names (dom (dd_wal (data_dir_of db1))) \<longrightarrow> enumerates snap_names (dom (db_snapshots db1)) \<longrightarrow>
      (\<exists>db2. perf_db_open sde de crc snap_names wal_names wal_names config (data_dir_of db1) = Some (Inr db2) \<and>
        similar (db_stores db) (db_stores db2) \<and> (\<forall>m. db_ticks db2 m = db_ticks db m) \<and>
        (\<forall>m tf. db_candles db2 m tf =
          map_option (\<lambda>cs. cs @ (case db_live_candle db m tf of None \<Rightarrow> [] | Some c \<Rightarrow> [c])) (db_candles db m tf))))"
proof -
  obtain snap where inv: "lifetime_inv ser de sde crc xs b n snap db" using lifetime_keeps [OF life] by blast
  then obtain tks cl where s: "series_ok n db tks cl" and w: "wal_holds ser crc (map (\<lambda>y. input_entry (snd y)) xs) (db_wal db)"
    by (auto simp: lifetime_inv_def run_inv_def)
  have p: "sser (state_snapshot_of io (db_stores db)) = Some p" using new by (simp add: newest_snapshot_def)
  obtain db1 where sd: "perf_db_shutdown sser io db = Some (Inr (), snd (db_snapshot sser io db1))"
    and s1: "series_ok (Suc n) db1 tks (\<lambda>k. cl k @ live_candles (db_candle_builder db) k)" "db_stores db1 = db_stores db"
      "db_snapshots db1 = db_snapshots db" "db_wal db1 = wal_sync (db_wal db)" "\<forall>m. db_ticks db1 m = db_ticks db m"
      "\<forall>m tf. db_candles db1 m tf = map_option (\<lambda>cs. cs @ live_candles (db_candle_builder db) (m, tf)) (db_candles db m tf)"
    by (rule shutdown_ok [where sser = sser, OF s lim p])
  let ?db = "snd (db_snapshot sser io db1)"
  have inv1: "lifetime_inv ser de sde crc xs b' (Suc n) (Some (state_snapshot_of io (db_stores db))) ?db"
    by (rule inv_shutdown [OF inv new lim sd])
  have same: "db_stores ?db = db_stores db" "db_wal ?db = wal_sync (db_wal db)" "db_ticks ?db m = db_ticks db1 m"
    "db_candles ?db m tf = db_candles db1 m tf" for m tf
    by (simp_all add: db_snapshot_def split_beta Let_def s1(2,4) db_ticks_def db_candles_def)
  have dd: "data_dir_of (sync_wal ?db) = data_dir_of ?db"
    using sync_again [OF w] by (simp add: data_dir_of_def sync_wal_def same(2))
  have live: "live_candles (db_candle_builder db) (m, tf) = (case db_live_candle db m tf of None \<Rightarrow> [] | Some c \<Rightarrow> [c])" for m tf
    by (simp add: live_candles_def db_live_candle_def)
  have "\<exists>db2. perf_db_open sde de crc snap_names wal_names wal_names config (data_dir_of ?db) = Some (Inr db2) \<and>
      similar (db_stores db) (db_stores db2) \<and> (\<forall>m. db_ticks db2 m = db_ticks db m) \<and>
      (\<forall>m tf. db_candles db2 m tf =
        map_option (\<lambda>cs. cs @ (case db_live_candle db m tf of None \<Rightarrow> [] | Some c \<Rightarrow> [c])) (db_candles db m tf))"
    if "enumerates wal_names (dom (dd_wal (data_dir_of ?db)))" "enumerates snap_names (dom (db_snapshots ?db))" for wal_names snap_names
    using inv_opens [OF inv1, unfolded dd, OF that lifetime_config [OF life]] s1(5,6) by (auto simp: same live)
  then show ?thesis using sd by (intro exI [of _ ?db]) simp
qed

text \<open>A start seeds the builder with the last stored candles; the first tick of a later bucket stores them again.\<close>

lemma open_seeds:
  "perf_db_open sde de crc snap_names wal_names wal_names' config dd = Some (Inr db) \<Longrightarrow>
    seed_builder (db_candle_store db) market_timeframes candle_builder_new = Some (db_candle_builder db)"
  by (auto simp: perf_db_open_def Let_def split: sum.splits option.splits prod.splits)

lemma candle_repeated:
  assumes life: "lifetime ser de sser sde crc config xs b n db"
    and names: "enumerates wal_names (dom (dd_wal (data_dir_of (sync_wal db))))" "enumerates snap_names (dom (db_snapshots db))"
    and o: "perf_db_open sde de crc snap_names wal_names wal_names config (data_dir_of (sync_wal db)) = Some (Inr db')"
    and t: "Suc n < SERIES_LIMIT" "price_tick_valid t" "unat (tick_market_id t) < MARKET_COUNT" "ser (tick_entry t) = Some p"
    and cs: "db_candles db (tick_market_id t) tf = Some cs" "cs \<noteq> []" "bucket_start_ns tf (tick_timestamp_ns t) \<noteq> cdl_timestamp_ns (last cs)"
  shows "\<exists>outs db''. ingest_tick ser crc due t db' = Some (Inr outs, db'') \<and>
    db_candles db'' (tick_market_id t) tf = Some (cs @ [candle_to_record (tick_market_id t) tf (seeded (last cs))])"
proof -
  let ?m = "tick_market_id t" and ?b = "db_candle_builder db'"
  obtain snap where inv: "lifetime_inv ser de sde crc xs b n snap db" using lifetime_keeps [OF life] by blast
  have inv': "lifetime_inv ser de sde crc xs b n snap db'" and same: "db_candles db' ?m tf = db_candles db ?m tf"
    using inv_opens [OF inv names lifetime_config [OF life]] o by auto
  then obtain tks cl where s: "series_ok n db' tks cl" by (auto simp: lifetime_inv_def run_inv_def)
  then have r: "candle_store_repr (db_candle_store db') cl" and b: "builder_ok ?b" by (simp_all add: series_ok_def)
  have cl: "cl (?m, tf) = cs" using same cs(1) t(3) by (simp add: db_candles_def candle_store_candles_repr [OF r])
  have slot: "?b ! candle_flat_index ?m tf = Some (seeded (last cs))"
    using seed_slot [OF r open_seeds [OF o] builder_ok_new subset_refl t(3)] t(3) cs(2) by (simp add: cl in_market_timeframes)
  have run: "run_inv (durable_state b (snapshot_base snap)) ser crc n (map (\<lambda>y. input_entry (snd y)) xs) db'"
    using inv' by (simp add: lifetime_inv_def)
  obtain w where w: "wal_append ser crc due (tick_entry t) (db_wal db') = (Inr (), w)"
    by (rule durable.append_ok [OF run t(1,4)])
  have "n < SERIES_LIMIT" using t(1) by simp
  then obtain db'' where i: "ingest_tick ser crc due t db' = Some (Inr (fst (on_tick t ?b)), db'')"
    "series_ok (Suc n) db'' (tks(?m := tks ?m @ [t])) (\<lambda>(m, tf). cl (m, tf) @ closed_candles m tf (fst (on_tick t ?b)))"
    using ingest_tick_ok [OF s _ t(2,3) w [unfolded tick_entry_def]] by blast
  then have "candle_store_repr (db_candle_store db'') (\<lambda>(m, tf). cl (m, tf) @ closed_candles m tf (fst (on_tick t ?b)))"
    by (simp add: series_ok_def)
  from candle_store_candles_repr [OF this, of ?m tf] have
    "db_candles db'' ?m tf = Some (cs @ [candle_to_record ?m tf (seeded (last cs))])"
    using reclosed [OF b t(3) slot cs(3)] t(3) by (simp add: db_candles_def cl)
  then show ?thesis using i(1) by blast
qed

end
