(* ===== verification/Log_Truncation.thy ===== *)
theory Log_Truncation
  imports Wal_Crash Engine_Lifetime
begin

text \<open>
  \<open>truncate_before\<close> behind a snapshot: the segments that were closed when the snapshot was written are not needed
  for a restart from it.
\<close>

section \<open>The segments of a run\<close>

text \<open>A run of appends leaves the closed segments as they are.\<close>

lemma append_run_segments:
  assumes "wal_repr (map (frames ser crc) ess) (frames ser crc l) st" "\<forall>(due, e) \<in> set xs. ser e \<noteq> None"
    and "length ess + length xs < 2 ^ 64"
  shows "\<exists>ess' l'. wal_repr (map (frames ser crc) (ess @ ess')) (frames ser crc l') (append_run ser crc xs st) \<and>
    concat ess' @ l' = l @ map snd xs"
  using assms
proof (induction xs arbitrary: ess l st)
  case Nil
  then show ?case by (intro exI [of _ "[]"] exI [of _ l]) simp
next
  case (Cons x xs)
  obtain due e where x: "x = (due, e)" by (cases x)
  obtain p where p: "ser e = Some p" using Cons.prems(2) by (auto simp: x)
  have n: "Suc (length (map (frames ser crc) ess)) < 2 ^ 64" using Cons.prems(3) by simp
  let ?st = "snd (wal_append ser crc due e st)"
  have fr: "frames ser crc l @ frame crc p = frames ser crc (l @ [e])" using p by simp
  from wal_repr_append [where due = due and crc = crc and ser = ser, OF Cons.prems(1) p n, unfolded fr] show ?case
  proof
    assume "wal_repr (map (frames ser crc) ess) (frames ser crc (l @ [e])) ?st"
    from Cons.IH [OF this] Cons.prems(2,3) show ?thesis by (simp add: x)
  next
    assume "wal_repr (map (frames ser crc) ess @ [frames ser crc (l @ [e])]) [] ?st"
    then have "wal_repr (map (frames ser crc) (ess @ [l @ [e]])) (frames ser crc []) ?st" by simp
    from Cons.IH [OF this] Cons.prems(2,3) obtain ess' l' where
      "wal_repr (map (frames ser crc) ((ess @ [l @ [e]]) @ ess')) (frames ser crc l') (append_run ser crc xs ?st)"
      "concat ess' @ l' = map snd xs" by auto
    then show ?thesis by (intro exI [of _ "(l @ [e]) # ess'"] exI [of _ l']) (simp add: x)
  qed
qed

lemma db_run_wal:
  assumes "db_run ser crc xs db = Some db'" "\<forall>(due, x) \<in> set xs. ser (input_entry x) \<noteq> None"
  shows "db_wal db' = append_run ser crc (map (\<lambda>(due, x). (due, input_entry x)) xs) (db_wal db)"
  using assms
proof (induction ser crc xs db rule: db_run.induct)
  case (2 ser crc due ev xs db)
  obtain p where "ser (WalIndexedEvent ev) = Some p" using "2.prems"(2) by auto
  then have "db_wal (snd (process_event ser crc due ev db)) = snd (wal_append ser crc due (WalIndexedEvent ev) (db_wal db))"
    by (simp add: process_event_def Let_def split_beta wal_append_def)
  then show ?case using 2 by simp
next
  case (3 ser crc due t xs db)
  obtain r db1 where i: "ingest_tick ser crc due t db = Some (r, db1)" "db_run ser crc xs db1 = Some db'"
    using "3.prems"(1) by (auto split: option.splits)
  then have "db_wal db1 = snd (wal_append ser crc due (tick_entry t) (db_wal db))"
    by (auto simp: ingest_tick_def tick_entry_def Let_def split_beta split: sum.splits option.splits prod.splits)
  then show ?case using "3.IH" [OF i(1) refl i(2)] "3.prems"(2) by simp
qed simp

section \<open>Truncation\<close>

lemma wal_repr_dir_ok:
  assumes "wal_repr closed cur (w, d)"
  shows "wal_dir_ok d"
  using assms by (auto simp: wal_repr_def wal_dir_ok_def)

text \<open>What is left of the log replays, and the writer finds its segment.\<close>

lemma truncated_log:
  assumes r: "wal_repr (map (frames ser crc) ess) (frames ser crc l) (w, d)" and buf: "ww_buf w = []"
    and names: "enumerates names (dom d)" and keep: "unat keep \<le> length ess"
    and ok: "\<forall>e \<in> set (concat ess @ l). entry_codec_ok ser de e"
  shows "\<exists>k d'. truncate_before keep names d = Inr (k, d') \<and>
    (\<forall>names'. enumerates names' (dom d') \<longrightarrow> snd (wal_open config names' d') = d' \<and>
      (\<forall>f s. \<exists>n. wal_replay de crc (\<lambda>e s. Inr (f e s)) names' d' s = Inr (n, fold f (concat (drop (unat keep) ess) @ l) s)))"
proof -
  let ?segs = "map (frames ser crc) ess @ [frames ser crc l]" and ?k = "unat keep"
  note files = wal_repr_files [OF r buf]
  obtain k d' where t: "truncate_before keep names d = Inr (k, d')"
    "\<And>i. d' (segment_path i) = (if i < keep then None else d (segment_path i))"
    "\<And>p. parse_numbered ''wal_'' p = None \<Longrightarrow> d' p = d p" "wal_dir_ok d'"
    using truncate_before_ok [OF wal_repr_dir_ok [OF r] names, of keep] by blast
  have at: "d' (segment_path i) = Some (?segs ! unat i)" if "?k \<le> unat i" "unat i < length ?segs" for i
    using that t(2) [of i] files(2) [of i] by (simp add: word_less_nat_alt)
  have dm: "dom d' = segment_path ` {i. ?k \<le> unat i \<and> unat i < length ?segs}"
  proof (intro set_eqI iffI)
    fix p assume p: "p \<in> dom d'"
    show "p \<in> segment_path ` {i. ?k \<le> unat i \<and> unat i < length ?segs}"
    proof (cases "parse_numbered ''wal_'' p")
      case None
      then have "p \<in> dom d" using t(3) p by (simp add: domIff)
      then show ?thesis using None parse_segment_path unfolding files(1) by auto
    next
      case (Some i)
      then have i: "p = segment_path i" using t(4) p by (auto simp: wal_dir_ok_def)
      then have "\<not> i < keep" "p \<in> dom d" using p t(2) [of i] by (auto simp: domIff split: if_splits)
      then have "unat i < length ?segs" unfolding files(1) i by auto
      then show ?thesis using \<open>\<not> i < keep\<close> i by (auto simp: word_less_nat_alt)
    qed
  qed (use at in auto)
  have codec: "map (replay_bytes de crc) ?segs = ess @ [l]"
  proof -
    have "replay_bytes de crc (frames ser crc xs) = xs" if "xs \<in> set ess \<or> xs = l" for xs
    proof -
      have "\<forall>e \<in> set xs. entry_codec_ok ser de e" using ok that by auto
      from replay_frames [OF this, of crc "[]"] show ?thesis by simp
    qed
    then show ?thesis by (auto intro: map_idI)
  qed
  have "snd (wal_open config names' d') = d' \<and>
      (\<forall>f s. \<exists>n. wal_replay de crc (\<lambda>e s. Inr (f e s)) names' d' s = Inr (n, fold f (concat (drop ?k ess) @ l) s))"
    if names': "enumerates names' (dom d')" for names'
  proof
    have "find_latest_segment names' = ww_current_segment w"
    proof -
      have ids: "set (list_segments names') = {i. ?k \<le> unat i \<and> unat i < length ?segs}"
        using list_segments_enumerates [OF names' [unfolded dm]] by (simp only: enumerates_def)
      have "ww_current_segment w \<in> set (list_segments names')" using files(4) keep by (simp add: ids)
      then have "ww_current_segment w \<le> find_latest_segment names'"
        using fold_max_ge by (simp add: find_latest_segment_def)
      moreover have "find_latest_segment names' \<le> ww_current_segment w"
      proof -
        have "find_latest_segment names' \<in> insert 0 (set (list_segments names'))"
          unfolding find_latest_segment_def by (rule fold_max_in)
        then have "unat (find_latest_segment names') < length ?segs" unfolding ids by auto
        then show ?thesis using files(4) by (simp add: word_le_nat_alt)
      qed
      ultimately show ?thesis by simp
    qed
    moreover have "d' (segment_path (ww_current_segment w)) \<noteq> None" using at files(4) keep by simp
    ultimately show "snd (wal_open config names' d') = d'" by (auto simp: wal_open_def Let_def open_append_def)
    show "\<forall>f s. \<exists>n. wal_replay de crc (\<lambda>e s. Inr (f e s)) names' d' s = Inr (n, fold f (concat (drop ?k ess) @ l) s)"
    proof (intro allI exI)
      fix f s
      have "concat (map (replay_bytes de crc) (drop ?k ?segs)) = concat (drop ?k ess) @ l"
        unfolding drop_map [symmetric] codec using keep by simp
      then show "wal_replay de crc (\<lambda>e s. Inr (f e s)) names' d' s =
          Inr (word_of_nat (length (concat (drop ?k ess) @ l)), fold f (concat (drop ?k ess) @ l) s)"
        using replay_from [OF dm at _ files(3) names', of de crc f s] by (simp add: Let_def)
    qed
  qed
  then show ?thesis using t(1) by blast
qed

section \<open>A restart from the truncated log\<close>

text \<open>What opening does with another log that replays to the same stores.\<close>

lemma open_other_log:
  assumes o: "perf_db_open sde de crc snap_names wal_names wal_names config dd = Some (Inr db)"
    and snap: "load_latest_snapshot sde snap_names (dd_snapshots dd) = Inr snap"
    and w: "snd (wal_open (pc_wal config) names d) = d"
    and r: "wal_replay de crc (\<lambda>e s. Inr (replay_wal_entry (snapshot_block snap) e s)) names d (snapshot_base snap) =
      Inr (k, db_stores db)"
  shows "perf_db_open sde de crc snap_names names names config (dd\<lparr>dd_wal := d\<rparr>) =
    Some (Inr (db\<lparr>db_wal := wal_open (pc_wal config) names d\<rparr>))"
  using o snap w r
  by (auto simp: perf_db_open_def Let_def snapshot_base_def snapshot_block_def split: sum.splits option.splits prod.splits)

lemma prices_shown_suffix:
  assumes "prices_shown (es @ es') t"
  shows "prices_shown es' t"
proof -
  have "last_price m es' = Some pt \<Longrightarrow> last_price m (es @ es') = Some pt" for m pt
  proof (induction es' rule: rev_induct)
    case (snoc e es')
    then show ?case
      by (cases e) (auto simp: last_price_snoc append_assoc [symmetric] simp del: append_assoc split: if_splits)
  qed (simp add: last_price_def)
  then show ?thesis using assms unfolding prices_shown_def by blast
qed

lemma covered_suffix: "covered_state b (es @ es') s \<Longrightarrow> covered_state b es' s"
  using prices_shown_suffix by (auto simp: covered_state_def)

text \<open>The log behind a snapshot: the segments from before it, of which a part is dropped, and what the inputs after it add.\<close>

lemma log_behind_snapshot:
  assumes h: "wal_holds ser crc es (db_wal db0)" and n: "length es + length ys < 2 ^ 64"
    and run: "db_run ser crc ys (snd (db_snapshot sser io db0)) = Some db" "\<forall>(due, x) \<in> set ys. ser (input_entry x) \<noteq> None"
    and codec: "\<forall>e \<in> set (es @ map (\<lambda>y. input_entry (snd y)) ys). entry_codec_ok ser de e"
    and keep: "keep \<le> ww_current_segment (fst (db_wal db0))"
    and names: "enumerates wal_names (dom (snd (db_wal (sync_wal db))))"
  obtains k d gone rest where "truncate_before keep wal_names (snd (db_wal (sync_wal db))) = Inr (k, d)" "es = gone @ rest"
    "\<forall>names. enumerates names (dom d) \<longrightarrow> snd (wal_open config names d) = d \<and>
      (\<forall>f s. \<exists>n. wal_replay de crc (\<lambda>e s. Inr (f e s)) names d s = Inr (n, fold f (rest @ map (\<lambda>y. input_entry (snd y)) ys) s))"
proof -
  let ?ys = "map (\<lambda>(due, x). (due, input_entry x)) ys" and ?k = "unat keep"
  obtain ess0 l0 where e0: "concat ess0 @ l0 = es" "length ess0 \<le> length es"
    and r0: "wal_repr (map (frames ser crc) ess0) (frames ser crc l0) (db_wal db0)"
    using h by (auto simp: wal_holds_def)
  have "db_wal (snd (db_snapshot sser io db0)) = db_wal db0" by (simp add: db_snapshot_def split_beta Let_def)
  then have w: "db_wal db = append_run ser crc ?ys (db_wal db0)" using db_run_wal [OF run] by simp
  have "length ess0 + length ?ys < 2 ^ 64" using e0(2) n by simp
  then obtain ess' l where r: "wal_repr (map (frames ser crc) (ess0 @ ess')) (frames ser crc l) (db_wal db)"
    and e: "concat ess' @ l = l0 @ map snd ?ys"
    using append_run_segments [OF r0, of ?ys] run(2) unfolding w by fastforce
  have e': "concat ess' @ l = l0 @ map (\<lambda>y. input_entry (snd y)) ys" using e by (simp add: split_beta comp_def)
  obtain w' d' where wd: "db_wal (sync_wal db) = (w', d')" by (cases "db_wal (sync_wal db)")
  have rs: "wal_repr (map (frames ser crc) (ess0 @ ess')) (frames ser crc l) (w', d')"
    using wal_repr_sync [OF r] wd by (simp add: sync_wal_def)
  have buf: "ww_buf w' = []" using sync_wal_frame(3) [of db] unfolding wd by simp
  have k0: "?k \<le> length ess0" using keep wal_repr_length [OF r0] by (simp add: word_le_nat_alt)
  then have k1: "?k \<le> length (ess0 @ ess')" by simp
  have all: "concat (ess0 @ ess') @ l = es @ map (\<lambda>y. input_entry (snd y)) ys" using e0(1) e' by auto
  have now: "concat (drop ?k (ess0 @ ess')) @ l = (concat (drop ?k ess0) @ l0) @ map (\<lambda>y. input_entry (snd y)) ys"
    using k0 e' by simp
  have cut: "es = concat (take ?k ess0) @ (concat (drop ?k ess0) @ l0)"
    using e0(1) by (metis append.assoc append_take_drop_id concat_append)
  have "enumerates wal_names (dom d')" using names by (simp add: wd)
  from truncated_log [OF rs buf this k1, of de config] codec [folded all] show thesis
    unfolding now using that [OF _ cut] by (auto simp: wd)
qed

text \<open>The entries that were dropped do not matter on top of the snapshot.\<close>

lemma dropped_replay:
  assumes inv: "lifetime_inv ser de sde crc xs b0 n snap0 db" and new: "newest_snapshot sser sde xs b0 io db b p"
    and split: "map (\<lambda>y. input_entry (snd y)) xs = gone @ rest"
  shows "fold (replay_wal_entry b) rest (restore_snapshot (state_snapshot_of io (db_stores db)) stores_new) =
    fold (replay_wal_entry b) (gone @ rest) (restore_snapshot (state_snapshot_of io (db_stores db)) stores_new)"
proof -
  have xs: "\<forall>(due, x) \<in> set xs. covered b x" and ok: "stores_ok (db_stores db)" "snapshot_orders_ok io (db_stores db)"
    using new unfolding newest_snapshot_def by blast+
  have "list_all (covered_entry b) (gone @ rest)"
    using xs covered_entries unfolding split [symmetric] by (fastforce simp: list_all_iff)
  moreover have "prices_shown (gone @ rest) (st_market_state (db_stores db))" and len: "length (st_market_state (db_stores db)) = MARKET_COUNT"
    using inv unfolding lifetime_inv_def split by (auto simp: run_inv_def durable_state_def series_ok_def)
  ultimately have cov: "covered_state b (gone @ rest) (db_stores db)" by (simp add: covered_state_def)
  note replay = restored_replay [OF restore_snapshot_of [OF ok] _ len]
  show ?thesis unfolding replay [OF cov] replay [OF covered_suffix [OF cov]] ..
qed

text \<open>
  A snapshot is written, further inputs are taken, and the log is truncated before a segment that was not closed when
  the snapshot was written: the next start gives the same as with the whole log.
\<close>

lemma truncation_behind_snapshot:
  assumes life: "lifetime ser de sser sde crc config xs b0 n db0" and new: "newest_snapshot sser sde xs b0 io db0 b p"
    and ys: "\<forall>(due, x) \<in> set ys. later b x \<and> entry_codec_ok ser de (input_entry x)" and lim: "n + length ys < SERIES_LIMIT"
    and run: "db_run ser crc ys (snd (db_snapshot sser io db0)) = Some db"
    and keep: "keep \<le> ww_current_segment (fst (db_wal db0))"
    and wal: "enumerates wal_names (dom (dd_wal (data_dir_of (sync_wal db))))" and snaps: "enumerates snap_names (dom (db_snapshots db))"
  shows "\<exists>db1 k d. perf_db_open sde de crc snap_names wal_names wal_names config (data_dir_of (sync_wal db)) = Some (Inr db1) \<and>
    truncate_before keep wal_names (dd_wal (data_dir_of (sync_wal db))) = Inr (k, d) \<and>
    (\<forall>names. enumerates names (dom d) \<longrightarrow>
      perf_db_open sde de crc snap_names names names config ((data_dir_of (sync_wal db))\<lparr>dd_wal := d\<rparr>) =
        Some (Inr (db1\<lparr>db_wal := wal_open (pc_wal config) names d\<rparr>)))"
proof -
  let ?es = "map (\<lambda>y. input_entry (snd y))" and ?snap = "state_snapshot_of io (db_stores db0)"
  obtain snap0 where inv0: "lifetime_inv ser de sde crc xs b0 n snap0 db0" using lifetime_keeps [OF life] by blast
  note inv = inv_input [OF inv_snapshot [OF inv0 new] ys lim run]
  have blk: "snapshot_block (Some ?snap) = b" using inv by (simp add: lifetime_inv_def)
  have base: "snapshot_base (Some ?snap) = restore_snapshot ?snap stores_new" by (simp add: snapshot_base_def)
  have codec: "\<forall>e \<in> set (?es xs @ ?es ys). entry_codec_ok ser de e" using inv by (auto simp: lifetime_inv_def)
  have load: "load_latest_snapshot sde snap_names (dd_snapshots (data_dir_of (sync_wal db))) = Inr (Some ?snap)"
    using inv snaps by (simp add: lifetime_inv_def loads_def data_dir_of_def)
  obtain tks cl db1 where db1: "perf_db_open sde de crc snap_names wal_names wal_names config (data_dir_of (sync_wal db)) = Some (Inr db1)"
    and st: "db_stores db1 = fold (replay_wal_entry b) (?es (xs @ ys)) (snapshot_base (Some ?snap))"
    by (rule inv_replays [OF inv wal snaps lifetime_config [OF life]])
  have h: "wal_holds ser crc (?es xs) (db_wal db0)" and n: "length (?es xs) + length ys < 2 ^ 64"
    using inv0 lim by (simp_all add: lifetime_inv_def run_inv_def SERIES_LIMIT_def)
  have ser: "\<forall>(due, x) \<in> set ys. ser (input_entry x) \<noteq> None" using ys entry_codec_ok_ser by fast
  have names: "enumerates wal_names (dom (snd (db_wal (sync_wal db))))" using wal by (simp add: data_dir_of_def)
  obtain k d gone rest where t: "truncate_before keep wal_names (snd (db_wal (sync_wal db))) = Inr (k, d)" and cut: "?es xs = gone @ rest"
    and left: "\<forall>names. enumerates names (dom d) \<longrightarrow> snd (wal_open (pc_wal config) names d) = d \<and>
      (\<forall>f (s :: stores). \<exists>n. wal_replay de crc (\<lambda>e s. Inr (f e s)) names d s = Inr (n, fold f (rest @ ?es ys) s))"
    by (rule log_behind_snapshot [OF h n run ser codec keep names])
  have same: "fold (replay_wal_entry b) (rest @ ?es ys) (snapshot_base (Some ?snap)) = db_stores db1"
    using dropped_replay [OF inv0 new cut] by (simp add: st base cut)
  have "perf_db_open sde de crc snap_names names names config ((data_dir_of (sync_wal db))\<lparr>dd_wal := d\<rparr>) =
      Some (Inr (db1\<lparr>db_wal := wal_open (pc_wal config) names d\<rparr>))" if nm: "enumerates names (dom d)" for names
  proof -
    obtain j where "wal_replay de crc (\<lambda>e s. Inr (replay_wal_entry b e s)) names d (snapshot_base (Some ?snap)) = Inr (j, db_stores db1)"
      using left [rule_format, OF nm, THEN conjunct2, rule_format, of "replay_wal_entry b" "snapshot_base (Some ?snap)"]
      unfolding same by blast
    then show ?thesis using open_other_log [OF db1 load] left nm by (simp add: blk)
  qed
  then show ?thesis using db1 t by (auto simp: data_dir_of_def)
qed

end
