(* ===== verification/Lifetime_Properties.thy ===== *)
theory Lifetime_Properties
  imports Log_Truncation Sample_Runs
begin

text \<open>The properties of the database over several runs, with their witnesses.\<close>

section \<open>Concrete lives\<close>

abbreviation sample_sde_run :: "u8 list \<Rightarrow> state_snapshot option" where
  "sample_sde_run \<equiv> \<lambda>_. Some (state_snapshot_of sample_run_io sample_stores)"

abbreviation sample_life :: "(bool \<times> engine_input) list \<Rightarrow> u64 \<Rightarrow> nat \<Rightarrow> perf_db \<Rightarrow> bool" where
  "sample_life \<equiv> lifetime sample_ser sample_de (\<lambda>_. Some [5]) sample_sde_run sample_crc perf_db_config_new"

abbreviation sample_first :: "(bool \<times> engine_input) list" where
  "sample_first \<equiv> [(False, EventIn sample_opened)]"

text \<open>A database that took the first event, at which a snapshot can be written, and the inputs that can follow.\<close>

lemma sample_life_first:
  obtains db where "sample_life sample_first 0 1 db" "newest_snapshot (\<lambda>_. Some [5]) sample_sde_run sample_first 0 sample_run_io db 5 [5]"
proof -
  obtain db0 db where db0: "perf_db_open sample_sde_run sample_de sample_crc [] [] [segment_path 0] perf_db_config_new empty_data_dir = Some (Inr db0)"
    and db: "db_run sample_ser sample_crc sample_first db0 = Some db" "db_stores db = sample_stores"
    using sample_first_run by blast
  have "later 0 (EventIn sample_opened)" by (simp add: sample_opened_def at_block_def replayed_def)
  then have "sample_life ([] @ sample_first) 0 (0 + length sample_first) db"
    by (intro life_input [OF life_new [OF db0] _ _ db(1)]) (simp_all add: SERIES_LIMIT_def)
  then have life: "sample_life sample_first 0 1 db" by (simp only: append_Nil list.size One_nat_def add_0)
  have "covered 5 (EventIn sample_opened)" by (simp add: sample_opened_def at_block_def)
  then have "newest_snapshot (\<lambda>_. Some [5]) sample_sde_run sample_first 0 sample_run_io db 5 [5]"
    unfolding newest_snapshot_def db(2) by (simp del: covered.simps)
  with life show thesis by (rule that)
qed

lemma sample_rest:
  "\<forall>(due, x) \<in> set (tl sample_inputs). later 5 x \<and> entry_codec_ok sample_ser sample_de (input_entry x)"
  "1 + length (tl sample_inputs) < SERIES_LIMIT"
proof -
  have "later 5 x \<and> entry_codec_ok sample_ser sample_de (input_entry x)" if "(d, x) \<in> set (tl sample_inputs)" for d x
  proof -
    have "(d, x) \<in> set sample_inputs" using that list.set_sel(2) by (fastforce simp: sample_inputs_def)
    moreover have "later 5 x"
      using that by (auto simp: sample_inputs_def sample_closed_def sample_deposit_def at_block_def replayed_def
          sample_tick_def sample_tick2_def price_tick_valid_def)
    ultimately show ?thesis using sample_codec_of by blast
  qed
  then show "\<forall>(due, x) \<in> set (tl sample_inputs). later 5 x \<and> entry_codec_ok sample_ser sample_de (input_entry x)" by auto
qed (simp add: sample_inputs_def SERIES_LIMIT_def)

text \<open>A snapshot after the first event, and the other inputs.\<close>

lemma sample_life_rest:
  assumes "sample_life sample_first 0 1 db0" "newest_snapshot (\<lambda>_. Some [5]) sample_sde_run sample_first 0 sample_run_io db0 5 [5]"
  obtains db where "db_run sample_ser sample_crc (tl sample_inputs) (snd (db_snapshot (\<lambda>_. Some [5]) sample_run_io db0)) = Some db"
    "sample_life (sample_first @ tl sample_inputs) 5 (1 + length (tl sample_inputs)) db"
proof -
  note snap = life_snapshot [OF assms]
  obtain db where db: "db_run sample_ser sample_crc (tl sample_inputs) (snd (db_snapshot (\<lambda>_. Some [5]) sample_run_io db0)) = Some db"
    using lifetime_goes_on [OF snap sample_rest] by blast
  show thesis by (rule that [OF db life_input [OF snap sample_rest db]])
qed

text \<open>A database that took two ticks of different seconds.\<close>

lemma sample_tick_life:
  obtains db where "sample_life [(False, TickIn sample_tick), (False, TickIn sample_tick2)] 0 2 db"
    "db_candles db 1 Sec1 = Some [candle_of_run 1 Sec1 [sample_tick]]"
proof -
  obtain db0 where db0: "perf_db_open sample_sde_run sample_de sample_crc [] [] [segment_path 0] perf_db_config_new empty_data_dir = Some (Inr db0)"
    using open_new by blast
  let ?ts = "[sample_tick, sample_tick2]" and ?xs = "[(False, TickIn sample_tick), (False, TickIn sample_tick2)]"
  have xs: "\<forall>(due, x) \<in> set ?xs. later 0 x \<and> entry_codec_ok sample_ser sample_de (input_entry x)"
  proof -
    have "entry_codec_ok sample_ser sample_de (input_entry (TickIn sample_tick))" "entry_codec_ok sample_ser sample_de (input_entry (TickIn sample_tick2))"
      using sample_codec_of [of True "TickIn sample_tick"] sample_codec_of [of False "TickIn sample_tick2"] by (simp_all add: sample_inputs_def)
    then show ?thesis by (simp add: sample_tick_def sample_tick2_def price_tick_valid_def)
  qed
  have ts: "\<forall>t \<in> set ?ts. price_tick_valid t \<and> unat (tick_market_id t) < MARKET_COUNT \<and> sample_ser (tick_entry t) \<noteq> None"
    using xs entry_codec_ok_ser by (auto simp: MARKET_COUNT_def simp del: not_None_eq) (simp_all add: sample_tick_def sample_tick2_def)
  have m: "length ?ts < SERIES_LIMIT" "unat (1 :: market_id) < MARKET_COUNT" by (simp_all add: SERIES_LIMIT_def MARKET_COUNT_def)
  have "tick_bucket Sec1 sample_tick \<noteq> tick_bucket Sec1 sample_tick2"
    by (simp add: bucket_start_ns_def sample_tick_def sample_tick2_def Let_def)
  moreover have "tick_market_id sample_tick = 1" "tick_market_id sample_tick2 = 1" by (simp_all add: sample_tick_def sample_tick2_def)
  ultimately obtain db where run: "ingest_ticks sample_ser sample_crc [] ?ts db0 = Some db"
    and cs: "db_candles db 1 Sec1 = Some [candle_of_run 1 Sec1 [sample_tick]]"
    using ticks_run [OF db0 ts m, of "[]" Sec1] by (auto simp: Let_def)
  have "db_run sample_ser sample_crc ?xs db0 = Some db" using run by (auto split: option.splits prod.splits)
  then have "sample_life ([] @ ?xs) 0 (0 + length ?xs) db"
    by (intro life_input [OF life_new [OF db0] xs]) (simp_all add: SERIES_LIMIT_def)
  then have "sample_life ?xs 0 2 db" by (simp add: numeral_2_eq_2)
  then show thesis using cs by (rule that)
qed

section \<open>Any number of restarts\<close>

text \<open>
  C4. Any number of restarts. A database takes ticks and events other than \<open>PositionModified\<close>, is saved as a snapshot,
  is shut down, is synced and opened again, in any order and any number of times; the events are of blocks behind the last snapshot,
  and a snapshot is written at the newest block, of well-formed stores in which no trader has more than 1000 daily records. At every
  moment opening its synced files succeeds and gives the same ticks and candles and the same stores, order books
  included, up to the fields that replay does not write, the event history and the order of the ids inside a price level.
\<close>

theorem restarts_keep_state:
  assumes "lifetime ser de sser sde crc config xs b n db"
    and "enumerates wal_names (dom (dd_wal (data_dir_of (sync_wal db))))" "enumerates snap_names (dom (db_snapshots db))"
  shows "\<exists>db'. perf_db_open sde de crc snap_names wal_names wal_names config (data_dir_of (sync_wal db)) = Some (Inr db') \<and>
    similar (db_stores db) (db_stores db') \<and>
    (\<forall>m. db_ticks db' m = db_ticks db m) \<and> (\<forall>m tf. db_candles db' m tf = db_candles db m tf)"
  by (rule lifetime_survives [OF assms])

theorem restarts_keep_state_witness:
  "\<exists>db db' db'' wal_names snap_names. sample_life (sample_first @ tl sample_inputs) 5 (1 + length (tl sample_inputs)) db \<and>
    sample_life (sample_first @ tl sample_inputs) 5 (1 + length (tl sample_inputs)) db' \<and> similar (db_stores db) (db_stores db') \<and>
    perf_db_open sample_sde_run sample_de sample_crc snap_names wal_names wal_names perf_db_config_new (data_dir_of (sync_wal db')) =
      Some (Inr db'') \<and> similar (db_stores db') (db_stores db'')"
proof -
  obtain db0 where "sample_life sample_first 0 1 db0" "newest_snapshot (\<lambda>_. Some [5]) sample_sde_run sample_first 0 sample_run_io db0 5 [5]"
    by (rule sample_life_first)
  from sample_life_rest [OF this] obtain db where db: "sample_life (sample_first @ tl sample_inputs) 5 (1 + length (tl sample_inputs)) db" by blast
  obtain wn sn where n: "enumerates wn (dom (dd_wal (data_dir_of (sync_wal db))))" "enumerates sn (dom (db_snapshots db))"
    using lifetime_names [OF db] by blast
  obtain db' where db': "perf_db_open sample_sde_run sample_de sample_crc sn wn wn perf_db_config_new (data_dir_of (sync_wal db)) = Some (Inr db')"
    "similar (db_stores db) (db_stores db')"
    using restarts_keep_state [OF db n] by blast
  have life': "sample_life (sample_first @ tl sample_inputs) 5 (1 + length (tl sample_inputs)) db'" by (rule life_reopen [OF db n db'(1)])
  obtain wn' sn' where n': "enumerates wn' (dom (dd_wal (data_dir_of (sync_wal db'))))" "enumerates sn' (dom (db_snapshots db'))"
    using lifetime_names [OF life'] by blast
  obtain db'' where "perf_db_open sample_sde_run sample_de sample_crc sn' wn' wn' perf_db_config_new (data_dir_of (sync_wal db')) = Some (Inr db'')"
    "similar (db_stores db') (db_stores db'')"
    using restarts_keep_state [OF life' n'] by blast
  then show ?thesis using db life' db'(2) by (intro exI conjI)
qed

section \<open>Shutdown\<close>

text \<open>
  C5. Shutdown and restart. At any moment of such a life (without \<open>PositionModified\<close>) at which a snapshot of the newest
  block can be written, of well-formed stores with at most 1000 daily records per trader, \<open>shutdown\<close> succeeds; opening the files that it leaves, without a further sync, succeeds and gives the same ticks,
  the candles followed by the live one of each market and timeframe, and the same stores as above, order books
  included.
\<close>

theorem shutdown_keeps_everything:
  assumes "lifetime ser de sser sde crc config xs b n db" "newest_snapshot sser sde xs b io db b' p" "n < SERIES_LIMIT"
  shows "\<exists>db1. perf_db_shutdown sser io db = Some (Inr (), db1) \<and>
    (\<forall>wal_names snap_names. enumerates wal_names (dom (dd_wal (data_dir_of db1))) \<longrightarrow> enumerates snap_names (dom (db_snapshots db1)) \<longrightarrow>
      (\<exists>db2. perf_db_open sde de crc snap_names wal_names wal_names config (data_dir_of db1) = Some (Inr db2) \<and>
        similar (db_stores db) (db_stores db2) \<and> (\<forall>m. db_ticks db2 m = db_ticks db m) \<and>
        (\<forall>m tf. db_candles db2 m tf =
          map_option (\<lambda>cs. cs @ (case db_live_candle db m tf of None \<Rightarrow> [] | Some c \<Rightarrow> [c])) (db_candles db m tf))))"
  by (rule shutdown_reopens [OF assms])

theorem shutdown_keeps_everything_witness:
  "\<exists>db db1. sample_life sample_first 0 1 db \<and> perf_db_shutdown (\<lambda>_. Some [5]) sample_run_io db = Some (Inr (), db1)"
proof -
  obtain db where db: "sample_life sample_first 0 1 db" "newest_snapshot (\<lambda>_. Some [5]) sample_sde_run sample_first 0 sample_run_io db 5 [5]"
    by (rule sample_life_first)
  have "1 < SERIES_LIMIT" by (simp add: SERIES_LIMIT_def)
  then show ?thesis using shutdown_keeps_everything [OF db] db(1) by blast
qed

text \<open>
  C19. A restart repeats a candle. After a start the first tick of a market that is not in the bucket of the last
  stored candle stores this candle a second time, with the same bucket and the same prices.
\<close>

theorem restart_repeats_candle:
  assumes "lifetime ser de sser sde crc config xs b n db"
    and "enumerates wal_names (dom (dd_wal (data_dir_of (sync_wal db))))" "enumerates snap_names (dom (db_snapshots db))"
    and "perf_db_open sde de crc snap_names wal_names wal_names config (data_dir_of (sync_wal db)) = Some (Inr db')"
    and "Suc n < SERIES_LIMIT" "price_tick_valid t" "unat (tick_market_id t) < MARKET_COUNT" "ser (tick_entry t) = Some p"
    and "db_candles db (tick_market_id t) tf = Some cs" "cs \<noteq> []" "bucket_start_ns tf (tick_timestamp_ns t) \<noteq> cdl_timestamp_ns (last cs)"
  shows "\<exists>outs db'' c. ingest_tick ser crc due t db' = Some (Inr outs, db'') \<and> db_candles db'' (tick_market_id t) tf = Some (cs @ [c]) \<and>
    cdl_timestamp_ns c = cdl_timestamp_ns (last cs) \<and> cdl_open c = cdl_open (last cs) \<and> cdl_high c = cdl_high (last cs) \<and>
    cdl_low c = cdl_low (last cs) \<and> cdl_close c = cdl_close (last cs) \<and> cdl_volume c = cdl_volume (last cs)"
  using candle_repeated [OF assms, of due] by (auto simp: candle_to_record_def seeded_def)

theorem restart_repeats_candle_witness:
  "\<exists>db db' outs db'' c. sample_life [(False, TickIn sample_tick), (False, TickIn sample_tick2)] 0 2 db \<and>
    db_candles db 1 Sec1 = Some [candle_of_run 1 Sec1 [sample_tick]] \<and>
    ingest_tick sample_ser sample_crc False sample_tick2 db' = Some (Inr outs, db'') \<and>
    db_candles db'' 1 Sec1 = Some [candle_of_run 1 Sec1 [sample_tick], c] \<and>
    cdl_timestamp_ns c = cdl_timestamp_ns (candle_of_run 1 Sec1 [sample_tick])"
proof -
  obtain db where db: "sample_life [(False, TickIn sample_tick), (False, TickIn sample_tick2)] 0 2 db"
    and cs: "db_candles db 1 Sec1 = Some [candle_of_run 1 Sec1 [sample_tick]]"
    by (rule sample_tick_life)
  obtain wn sn where n: "enumerates wn (dom (dd_wal (data_dir_of (sync_wal db))))" "enumerates sn (dom (db_snapshots db))"
    using lifetime_names [OF db] by blast
  obtain db' where db': "perf_db_open sample_sde_run sample_de sample_crc sn wn wn perf_db_config_new (data_dir_of (sync_wal db)) = Some (Inr db')"
    using lifetime_survives [OF db n] by blast
  have mk: "tick_market_id sample_tick2 = 1" by (simp add: sample_tick2_def)
  have v: "Suc 2 < SERIES_LIMIT" "price_tick_valid sample_tick2" "unat (tick_market_id sample_tick2) < MARKET_COUNT"
    by (simp_all add: SERIES_LIMIT_def MARKET_COUNT_def sample_tick2_def price_tick_valid_def)
  obtain p where p: "sample_ser (tick_entry sample_tick2) = Some p"
    using sample_codec_of [of False "TickIn sample_tick2"] entry_codec_ok_ser by (fastforce simp: sample_inputs_def)
  have cs': "db_candles db (tick_market_id sample_tick2) Sec1 = Some [candle_of_run 1 Sec1 [sample_tick]]" by (simp only: mk cs)
  have ne: "[candle_of_run 1 Sec1 [sample_tick]] \<noteq> []" by simp
  have "bucket_start_ns Sec1 (tick_timestamp_ns sample_tick2) \<noteq> cdl_timestamp_ns (last [candle_of_run 1 Sec1 [sample_tick]])"
    by (simp add: candle_of_run_def bucket_start_ns_def sample_tick_def sample_tick2_def Let_def)
  from restart_repeats_candle [OF db n db' v p cs' ne this, of False] show ?thesis using db cs unfolding mk by fastforce
qed

section \<open>Truncation of the log\<close>

text \<open>
  C7. Truncation behind a snapshot. A snapshot is written at the newest block, further inputs are taken, and the
  segments before one that was not yet closed when the snapshot was written are removed with \<open>truncate_before\<close>.
  This succeeds, and the next start gives exactly the database that the whole log would give, but for the log itself.
\<close>

theorem truncation_keeps_restart:
  assumes "lifetime ser de sser sde crc config xs b0 n db0" "newest_snapshot sser sde xs b0 io db0 b p"
    and "\<forall>(due, x) \<in> set ys. later b x \<and> entry_codec_ok ser de (input_entry x)" "n + length ys < SERIES_LIMIT"
    and "db_run ser crc ys (snd (db_snapshot sser io db0)) = Some db" "keep \<le> ww_current_segment (fst (db_wal db0))"
    and "enumerates wal_names (dom (dd_wal (data_dir_of (sync_wal db))))" "enumerates snap_names (dom (db_snapshots db))"
  shows "\<exists>db1 k d. perf_db_open sde de crc snap_names wal_names wal_names config (data_dir_of (sync_wal db)) = Some (Inr db1) \<and>
    truncate_before keep wal_names (dd_wal (data_dir_of (sync_wal db))) = Inr (k, d) \<and>
    (\<forall>names. enumerates names (dom d) \<longrightarrow>
      perf_db_open sde de crc snap_names names names config ((data_dir_of (sync_wal db))\<lparr>dd_wal := d\<rparr>) =
        Some (Inr (db1\<lparr>db_wal := wal_open (pc_wal config) names d\<rparr>)))"
  by (rule truncation_behind_snapshot [OF assms])

theorem truncation_keeps_restart_witness:
  "\<exists>db0 db db1 wal_names snap_names k d.
    db_run sample_ser sample_crc (tl sample_inputs) (snd (db_snapshot (\<lambda>_. Some [5]) sample_run_io db0)) = Some db \<and>
    truncate_before (ww_current_segment (fst (db_wal db0))) wal_names (dd_wal (data_dir_of (sync_wal db))) = Inr (k, d) \<and>
    perf_db_open sample_sde_run sample_de sample_crc snap_names wal_names wal_names perf_db_config_new (data_dir_of (sync_wal db)) = Some (Inr db1)"
proof -
  obtain db0 where db0: "sample_life sample_first 0 1 db0" "newest_snapshot (\<lambda>_. Some [5]) sample_sde_run sample_first 0 sample_run_io db0 5 [5]"
    by (rule sample_life_first)
  obtain db where run: "db_run sample_ser sample_crc (tl sample_inputs) (snd (db_snapshot (\<lambda>_. Some [5]) sample_run_io db0)) = Some db"
    and db: "sample_life (sample_first @ tl sample_inputs) 5 (1 + length (tl sample_inputs)) db"
    by (rule sample_life_rest [OF db0])
  obtain wn sn where n: "enumerates wn (dom (dd_wal (data_dir_of (sync_wal db))))" "enumerates sn (dom (db_snapshots db))"
    using lifetime_names [OF db] by blast
  show ?thesis using truncation_keeps_restart [OF db0 sample_rest run order_refl n] run by blast
qed

end
