(* ===== verification/Spec2Isabelle.thy ===== *)
theory Spec2Isabelle
  imports Storage_Properties State_Properties Cli_Properties Thread_Properties Lifetime_Properties
begin

text \<open>
  PerfDB is an embedded database for a perpetual-futures exchange: it ingests price ticks and
  indexed chain events, keeps the trading state in memory, persists ticks and candles in mapped
  files and recovers from a write-ahead log and snapshots. A command line tool opens a database and
  prints what it holds. This development models the crate under \<open>src/src\<close> and proves what makes it correct.

  \<^bold>\<open>Conventions.\<close> The release build is modelled: arithmetic on \<open>u8\<close> to \<open>u64\<close> is on words and wraps, \<open>i128\<close> is
  a wrapped 128-bit word with the signed order, \<open>f64\<close> is its bit pattern with IEEE comparison. A panic is
  \<open>None\<close> of the type \<open>panicking\<close>, an error is \<open>Inl\<close> of the type \<open>result\<close>. An operation of a component
  is a function on its state; the theories on concurrency give the same operations as programs of atomic accesses under
  the locks of the code. A hash map is a function to options; where the code iterates over
  one, the order of the iteration is an argument, assumed only to list each key once (\<open>iterates\<close>,
  \<open>enumerates\<close>); so is the order in which \<open>read_dir\<close> lists a directory. A directory is a map from file names to
  bytes. System calls succeed; a crash is a file cut at any byte. \<open>bincode\<close> and \<open>crc32fast\<close> are parameters
  (\<open>ser\<close>, \<open>de\<close>, \<open>crc\<close>); what is assumed of them, at the entries used, is that what is written reads
  back within the size limit (\<open>entry_codec_ok\<close>). Nothing is assumed of the checksum.

  \<^bold>\<open>Theories.\<close>
  \<^item> \<open>Prelude\<close>: integers, floats, little-endian bytes, iteration orders, stable sorting. \<open>Decimal\<close>: decimal text.
  \<^item> \<open>Core_Types\<close>, \<open>Market\<close>, \<open>Timeframes\<close>: \<open>core/types.rs\<close>, \<open>error.rs\<close>, \<open>core/market.rs\<close>, \<open>core/timeframe.rs\<close>.
  \<^item> \<open>Secondary_Index\<close> (locale \<open>indexed_table\<close>) and \<open>List_Index\<close> (locale \<open>vec_indexed\<close>): the contracts of a map with
    a set-valued or list-valued secondary index; interpreted in \<open>Positions\<close>, \<open>Orders\<close>, \<open>Balances\<close> and in
    \<open>Alerts\<close>, \<open>Api_Keys\<close>. \<open>Book_Levels\<close>: what the books show but for the order of the ids inside a price level (\<open>same_orders\<close>),
    which every operation respects, and that no active order is ever missing from its book, whatever the operations.
  \<^item> \<open>BTree_Map\<close>, \<open>Positions\<close>, \<open>Orders\<close>, \<open>Balances\<close>, \<open>Market_State\<close>, \<open>Pubsub\<close>: \<open>state/*.rs\<close>. Per table: a well-formedness
    predicate (\<open>positions_ok\<close>, \<open>orders_ok\<close>, \<open>balances_ok\<close>), its preservation by every operation, and that queries
    through the indices return exactly the matching records.
  \<^item> \<open>Users\<close>, \<open>Checkpoint\<close>, \<open>Referrals\<close>, \<open>Alerts\<close>, \<open>Api_Keys\<close>, \<open>Competitions\<close>: \<open>relational/*.rs\<close>.
  \<^item> \<open>Wal\<close>, \<open>Wal_Log\<close>, \<open>Wal_Crash\<close>: \<open>storage/wal.rs\<close>. \<open>wal_repr\<close> and \<open>wal_holds\<close> relate writer and directory to the list of
    entries; append, rotation, sync, replay, torn tails, truncation.
  \<^item> \<open>Mmap\<close>, \<open>Record_File\<close> (locale \<open>pod\<close>: fixed-size records in mapped files), \<open>Tick_Store\<close>, \<open>Candle_Store\<close>: \<open>storage/mmap.rs\<close>,
    \<open>tick_store.rs\<close>, \<open>candle_store.rs\<close>. \<open>tick_store_repr\<close> and \<open>candle_store_repr\<close> abstract a store to its lists.
  \<^item> \<open>Event_Store\<close>, \<open>Snapshot\<close>: \<open>storage/event_store.rs\<close>, \<open>snapshot.rs\<close>.
  \<^item> \<open>Candle_Builder\<close>, \<open>Stats\<close>, \<open>Leaderboard\<close>: \<open>aggregation/*.rs\<close>; candles are specified as summaries of the runs of ticks
    that share a bucket. \<open>Time_Range\<close>: \<open>query/time_range.rs\<close>.
  \<^item> \<open>Engine\<close>: \<open>engine.rs\<close>, every handler, replay, snapshot, opening and shutdown. \<open>Engine_Invariant\<close> (the stores'
    invariant), \<open>Engine_Accounting\<close> (trades, open interest, collateral), \<open>Engine_Steps\<close> (the calls as a transition
    system, with all events or only expected ones), \<open>Engine_Ingest\<close> (ticks), \<open>Engine_Replay\<close> (replay against processing), \<open>Engine_Recovery\<close> (log and files;
    locale \<open>store_tracker\<close>: a relation of log and stores that every input maintains), \<open>Engine_Snapshot\<close> (locale \<open>restorable\<close>;
    of the daily records only the latest 1000 of a trader survive, \<open>recent_daily\<close>; \<open>few_daily\<close> says that these are all),
    \<open>Engine_Lifecycle\<close> (one run from a new database), \<open>Engine_Restart\<close> (a snapshot and the log behind it, with two more
    interpretations of \<open>store_tracker\<close>; \<open>similar\<close> compares stores, books included, before and after).
  \<^item> \<open>Engine_Shutdown\<close> (the flush of the live candles, the seeding at the next start), \<open>Engine_Lifetime\<close> (the step relation
    \<open>lifetime\<close>: inputs, snapshots, shutdowns and restarts in any order, with the invariant that the files hold what the stores
    show), \<open>Log_Truncation\<close> (which segments a restart from a snapshot does not need).
  \<^item> \<open>Interleaving\<close> (threads, programs, locks, one step of one thread at a time; locks in rank order do not block, runs end),
    \<open>Schedules\<close> (a thread alone, invariants of every action), \<open>Lanes\<close> (programs on disjoint parts of the state), \<open>Two_Writers\<close>
    (locale \<open>two_writers\<close>: each call commits once and then stays in its lane) and \<open>Commuting\<close> (locale \<open>commuting_threads\<close>).
  \<^item> \<open>Concurrent_Tables\<close>, \<open>Concurrent_Stores\<close>, \<open>Concurrent_Engine\<close>, \<open>Concurrent_Calls\<close>: the same operations of \<open>state\<close>,
    \<open>relational\<close>, \<open>aggregation\<close>, \<open>event_store.rs\<close> and \<open>engine.rs\<close> as programs (names in \<open>_prog\<close>). An action is one access
    of an atomic, one call of a \<open>DashMap\<close> or one section under a lock; \<open>shard\<close> says which lock of a \<open>DashMap\<close> guards a key.
    Each program, run alone, is proved to be the operation of the sequential model.
  \<^item> \<open>Linearization\<close> (a feed thread, an indexer thread and readers end in a sequential run), \<open>Broadcast\<close> and \<open>Streams\<close> (the bus
    over the channels of tokio, a parameter with its documented behaviour; the price stream that a subscriber of the configured bus sees), \<open>Typed_State\<close> (an invariant of
    every moment), \<open>Position_Writers\<close> (commuting writers), \<open>Races\<close> and \<open>Torn_Snapshot\<close> (schedules that no
    sequential run equals).
  \<^item> \<open>Civil_Date\<close>: the Gregorian calendar, by counting days, against \<open>timestamp_to_date\<close> of \<open>engine.rs\<close>: the day count
    is split into eras, centuries, four-year cycles and years that begin in March.
  \<^item> \<open>Text_Format\<close> (columns, hexadecimal, exact decimals of floats, \<open>{:?}\<close>), \<open>Cli\<close> (arguments and text forms),
    \<open>Cli_Commands\<close> (the subcommands and \<open>main\<close>): \<open>main.rs\<close>. \<open>Cli_Text\<close> reads the printed forms back, \<open>Cli_Safety\<close> shows
    that the commands are total and change nothing but the leaderboards and the snapshot directory.
  \<^item> \<open>Samples\<close>, \<open>Sample_Runs\<close>: concrete inputs and runs. \<open>Storage_Properties\<close>, \<open>State_Properties\<close>, \<open>Cli_Properties\<close>,
    \<open>Thread_Properties\<close>, \<open>Lifetime_Properties\<close> and this theory: the properties.

  \<^bold>\<open>Bounds.\<close> The channels have the capacity of the configuration; a capacity of 0, or above half of the range of \<open>usize\<close>, is a panic
  of \<open>perf_db_open\<close>, as in tokio. A mapped file stays below \<open>MMAP_LIMIT\<close> (2 to the 62 bytes), so that doubling its size does not reach the
  end of the 64-bit range; \<open>SERIES_LIMIT\<close> (2 to the 48 inputs) keeps every tick and candle file below it. A log takes
  fewer than 2 to the 64 entries, so that segment numbers do not wrap. All loops are total functions: the
  replay of a segment ends because every entry takes bytes off, the growth loop because the capacity increases,
  the binary search because the interval shrinks.

  \<^bold>\<open>Not modelled.\<close> Argument parsing by \<open>clap\<close> (the commands take the parsed arguments) and the layout of JSON text by
  \<open>serde_json\<close> (the JSON values are modelled, the printer is a parameter, as are the Unicode tables behind case
  conversion of text that is not ASCII); benches and tests, module files; wall-clock time (the test of the sync interval is an
  argument) and the log messages of \<open>tracing\<close>; failing system calls and allocations; two processes on one directory.
  The calls of threads are those of \<open>engine_call\<close>: alerts, API keys, competitions and the updates by a closure of the client have
  sequential operations only, and a client that keeps the guard of an order book while it makes another call is not modelled. Threads see one order of all
  accesses (the weaker orderings of the atomics are not modelled), and a lookup inside a \<open>DashMap\<close> call is one action.
\<close>

section \<open>Recovery\<close>

text \<open>
  C1. Crash recovery. A database opened in an empty directory is fed with any sequence of chain events
  (other than \<open>PositionModified\<close>, with block numbers above 0) and price ticks, rejected ones included,
  and its log is synced. It never panics, and opening its files again rebuilds the in-memory stores,
  up to the fields that replay does not write (\<open>erase\<close>), and exactly the same ticks and candles.
\<close>

theorem recovery_rebuilds_state:
  assumes "\<forall>(due, x) \<in> set xs. recoverable x \<and> entry_codec_ok ser de (input_entry x)" "length xs < SERIES_LIMIT"
    and "perf_db_open sde de crc [] [] [segment_path 0] config empty_data_dir = Some (Inr db0)"
  shows "\<exists>db1. db_run ser crc xs db0 = Some db1 \<and>
    (\<forall>names. enumerates names (dom (dd_wal (data_dir_of (sync_wal db1)))) \<longrightarrow>
      (\<exists>db2. perf_db_open sde de crc [] names names config (data_dir_of (sync_wal db1)) = Some (Inr db2) \<and>
        erase (db_stores db1) = erase (db_stores db2) \<and>
        (\<forall>m. db_ticks db2 m = db_ticks db1 m) \<and> (\<forall>m tf. db_candles db2 m tf = db_candles db1 m tf)))"
  by (rule run_and_recover [OF assms])

theorem recovery_rebuilds_state_witness:
  "\<exists>db0 db1 db2 names.
    perf_db_open sample_sde sample_de sample_crc [] [] [segment_path 0] perf_db_config_new empty_data_dir = Some (Inr db0) \<and>
    db_run sample_ser sample_crc sample_inputs db0 = Some db1 \<and>
    enumerates names (dom (dd_wal (data_dir_of (sync_wal db1)))) \<and>
    perf_db_open sample_sde sample_de sample_crc [] names names perf_db_config_new (data_dir_of (sync_wal db1)) =
      Some (Inr db2) \<and> erase (db_stores db1) = erase (db_stores db2)"
proof -
  obtain db0 where db0: "perf_db_open sample_sde sample_de sample_crc [] [] [segment_path 0] perf_db_config_new
      empty_data_dir = Some (Inr db0)" and inv: "recovery_inv sample_ser sample_crc 0 [] db0"
    using open_new by blast
  have lim: "length sample_inputs < SERIES_LIMIT" by (simp add: sample_inputs_def SERIES_LIMIT_def)
  have "\<forall>(due, x) \<in> set sample_inputs. recoverable x \<and> sample_ser (input_entry x) \<noteq> None"
    using sample_inputs_codec entry_codec_ok_ser by fast
  then obtain db1 n es where db1: "db_run sample_ser sample_crc sample_inputs db0 = Some db1"
    "recovery_inv sample_ser sample_crc n es db1"
    using recovery_run [OF inv, of sample_inputs] lim by auto
  then obtain names where names: "enumerates names (dom (dd_wal (data_dir_of (sync_wal db1))))"
    using wal_holds_names [of sample_ser sample_crc es "db_wal (sync_wal db1)"] recovery_inv_sync
    by (fastforce simp: recovery_inv_def data_dir_of_def)
  obtain db2 where "perf_db_open sample_sde sample_de sample_crc [] names names perf_db_config_new
      (data_dir_of (sync_wal db1)) = Some (Inr db2)" "erase (db_stores db1) = erase (db_stores db2)"
    using recovery_rebuilds_state [OF sample_inputs_codec lim db0] db1(1) names by auto
  with db0 db1(1) names show ?thesis by blast
qed

text \<open>
  C8. Replaying the log entry of an event does to a state what processing the event did, up to the
  fields that replay does not write, for every kind of event but \<open>PositionModified\<close>.
\<close>

theorem replay_matches_processing:
  assumes "replayed (ie_event ev)" "snap_block < ie_block_number ev" "erase s = erase t"
  shows "erase (fst (apply_event ev (s, bus))) = erase (replay_wal_entry snap_block (WalIndexedEvent ev) t)"
  using replay_applied [OF assms(1,2), of s t bus] assms(3) by (simp add: same_erased_iff)

theorem replay_matches_processing_witness:
  "erase (fst (apply_event sample_opened (stores_new, sample_bus))) =
   erase (replay_wal_entry 4 (WalIndexedEvent sample_opened) stores_new)"
  by (rule replay_matches_processing) (simp_all add: sample_opened_def at_block_def replayed_def)

text \<open>
  C6. Restart from a snapshot and the log behind it. A database takes inputs up to a block, is saved as a
  snapshot at that block, of well-formed stores in which no trader has more than 1000 daily records, and takes further inputs
  of later blocks (other than \<open>PositionModified\<close>). Opening its synced
  files restores the snapshot and replays the whole log, skipping the blocks that the snapshot covers, and gives the
  same ticks and candles and the same stores, order books included, up to the fields that replay does not write, the event
  history and the order of the ids inside a price level (\<open>similar\<close>).
\<close>

theorem restart_rebuilds_state:
  fixes db1 io
  defines "b \<equiv> cp_last_block (st_checkpoint (db_stores db1))"
  assumes "\<forall>(due, x) \<in> set xs1. covered b x \<and> entry_codec_ok ser de (input_entry x)"
    and "\<forall>(due, x) \<in> set xs2. later b x \<and> entry_codec_ok ser de (input_entry x)"
    and "length xs1 + length xs2 < SERIES_LIMIT"
    and "perf_db_open sde de crc [] [] [segment_path 0] config empty_data_dir = Some (Inr db0)"
    and "db_run ser crc xs1 db0 = Some db1"
    and "stores_ok (db_stores db1)" "snapshot_orders_ok io (db_stores db1)" "few_daily (st_daily_stats (db_stores db1))"
    and "sser (state_snapshot_of io (db_stores db1)) = Some p" "sde p = Some (state_snapshot_of io (db_stores db1))"
  shows "\<exists>db2. db_run ser crc xs2 (snd (db_snapshot sser io db1)) = Some db2 \<and>
    (\<forall>names. enumerates names (dom (dd_wal (data_dir_of (sync_wal db2)))) \<longrightarrow>
      (\<exists>db3. perf_db_open sde de crc [snapshot_filename b] names names config (data_dir_of (sync_wal db2)) = Some (Inr db3) \<and>
        similar (db_stores db2) (db_stores db3) \<and>
        (\<forall>m. db_ticks db3 m = db_ticks db2 m) \<and> (\<forall>m tf. db_candles db3 m tf = db_candles db2 m tf)))"
  using assms(2-) unfolding b_def by (rule restart_from_snapshot)

theorem restart_rebuilds_state_witness:
  "\<exists>db0 db1 db2 io. perf_db_open (\<lambda>_. Some (state_snapshot_of io (db_stores db1))) sample_de sample_crc [] [] [segment_path 0]
      perf_db_config_new empty_data_dir = Some (Inr db0) \<and>
    db_run sample_ser sample_crc [(False, EventIn sample_opened)] db0 = Some db1 \<and>
    cp_last_block (st_checkpoint (db_stores db1)) = 5 \<and>
    db_run sample_ser sample_crc (tl sample_inputs) (snd (db_snapshot (\<lambda>_. Some [5]) io db1)) = Some db2"
proof -
  let ?io = "sample_io\<lparr>so_positions := [sample_id], so_users := [alice], so_trader_stats := [alice], so_daily_traders := [alice]\<rparr>"
  let ?S = "fst (apply_event sample_opened (stores_new, sample_bus))"
  let ?sde = "\<lambda>_. Some (state_snapshot_of ?io ?S)"
  obtain db0 where db0: "perf_db_open ?sde sample_de sample_crc [] [] [segment_path 0] perf_db_config_new empty_data_dir =
      Some (Inr db0)" and st: "db_stores db0 = stores_new"
    using open_new by blast
  note bus = open_bus(2) [OF db0]
  have codec: "entry_codec_ok sample_ser sample_de (input_entry x)" if "(d, x) \<in> set sample_inputs" for d x
    using sample_inputs_codec that by fast
  have opened: "entry_codec_ok sample_ser sample_de (WalIndexedEvent sample_opened)"
    using codec [of False "EventIn sample_opened"] by (simp add: sample_inputs_def)
  from entry_codec_ok_ser [OF this]
  obtain w where "wal_append sample_ser sample_crc False (WalIndexedEvent sample_opened) (db_wal db0) = (Inr (), w)"
    using wal_append_some by blast
  then obtain db1 where db1: "db_run sample_ser sample_crc [(False, EventIn sample_opened)] db0 = Some db1"
    and S: "db_stores db1 = ?S"
    by (simp add: process_event_ok st bus)
  have cp: "cp_last_block (st_checkpoint (db_stores db1)) = 5"
    by (simp add: S apply_event_def split_beta Let_def sample_opened_def at_block_def advance_block_def)
  have xs1: "\<forall>(due, x) \<in> set [(False, EventIn sample_opened)]. covered (cp_last_block (st_checkpoint (db_stores db1))) x \<and>
      entry_codec_ok sample_ser sample_de (input_entry x)"
    using opened by (simp add: cp) (simp add: sample_opened_def at_block_def)
  have "later 5 x" if "(d, x) \<in> set (tl sample_inputs)" for d x
    using that by (auto simp: sample_inputs_def sample_closed_def sample_deposit_def at_block_def replayed_def
        sample_tick_def sample_tick2_def price_tick_valid_def)
  then have xs2: "\<forall>(due, x) \<in> set (tl sample_inputs). later (cp_last_block (st_checkpoint (db_stores db1))) x \<and>
      entry_codec_ok sample_ser sample_de (input_entry x)"
    using codec unfolding cp by (fastforce simp: sample_inputs_def)
  have lim: "length [(False, EventIn sample_opened)] + length (tl sample_inputs) < SERIES_LIMIT"
    by (simp add: sample_inputs_def SERIES_LIMIT_def)
  have "event_fits stores_new sample_opened"
    by (simp add: event_fits_def stores_new_def positions_new_def sample_opened_def at_block_def)
  then have ok: "stores_ok (db_stores db1)" unfolding S by (rule stores_ok_apply [OF stores_ok_new])
  have io: "snapshot_orders_ok ?io (db_stores db1)"
    unfolding S sample_opened_def at_block_def
    by (simp add: snapshot_orders_ok_def iterates_def sample_io_def apply_event_def append_event_def
        on_position_opened_def opened_position_def publish_def stores_new_def positions_new_def positions_insert_def orders_new_def
        balances_new_def users_new_def stats_new_def daily_new_def users_ensure_def stats_ensure_def
        increment_open_positions_def Let_def)
  have few: "few_daily (st_daily_stats (db_stores db1))" using sample_few by (simp only: S sample_stores_def)
  obtain db2 where "db_run sample_ser sample_crc (tl sample_inputs) (snd (db_snapshot (\<lambda>_. Some [5]) ?io db1)) = Some db2"
    using restart_rebuilds_state [where sser = "\<lambda>_. Some [5]", OF xs1 xs2 lim db0 db1 ok io few refl] by (auto simp: S)
  with db0 db1 cp show ?thesis by (auto simp: S [symmetric])
qed

text \<open>
  C9. Snapshots. A snapshot written at the newest block is the one loaded at the next start, and
  restoring it into new stores gives back prices, positions, balances, users, checkpoint and
  trader statistics exactly, and the orders with books that hold exactly the active ones. The daily records come back as the
  latest 1000 of each trader, older ones being lost, and the event history is not part of a snapshot.
\<close>

theorem snapshot_restores_state:
  assumes "db_ok db" "snapshot_orders_ok io (db_stores db)"
    and "sser (state_snapshot_of io (db_stores db)) = Some p" "sde p = Some (state_snapshot_of io (db_stores db))"
    and "\<And>b. db_snapshots db (snapshot_filename b) \<noteq> None \<Longrightarrow> b \<le> cp_last_block (st_checkpoint (db_stores db))"
    and "enumerates names (dom (db_snapshots (snd (db_snapshot sser io db))))"
  shows "\<exists>snap. load_latest_snapshot sde names (db_snapshots (snd (db_snapshot sser io db))) = Inr (Some snap) \<and>
    restored (db_stores db) (restore_snapshot snap stores_new)"
proof -
  have ok: "stores_ok (db_stores db)" "snapshot_dir_ok (db_snapshots db)" using assms(1) by (simp_all add: db_ok_def)
  show ?thesis using snapshot_and_restore [where sser = sser and sde = sde, OF ok(1) assms(2,3,4) ok(2) assms(5,6)] by blast
qed

theorem snapshot_restores_state_witness:
  "\<exists>db snap. perf_db_open sample_sde sample_de sample_crc [] [] [segment_path 0] perf_db_config_new empty_data_dir =
      Some (Inr db) \<and>
    load_latest_snapshot (\<lambda>_. Some (state_snapshot_of sample_io (db_stores db))) [snapshot_filename 0]
      (db_snapshots (snd (db_snapshot (\<lambda>_. Some [0]) sample_io db))) = Inr (Some snap) \<and>
    restored (db_stores db) (restore_snapshot snap stores_new)"
proof -
  obtain db where db: "perf_db_open sample_sde sample_de sample_crc [] [] [segment_path 0] perf_db_config_new
      empty_data_dir = Some (Inr db)" and st: "db_stores db = stores_new" and sn: "db_snapshots db = Map.empty"
    using open_new by blast
  have io: "snapshot_orders_ok sample_io (db_stores db)"
    by (simp add: snapshot_orders_ok_def sample_io_def st stores_new_def iterates_def positions_new_def
        orders_new_def balances_new_def users_new_def stats_new_def daily_new_def)
  have d: "db_snapshots (snd (db_snapshot (\<lambda>_. Some [0]) sample_io db)) = [snapshot_filename 0 \<mapsto> [0]]"
    by (simp add: db_snapshot_def write_snapshot_def split_beta Let_def sn state_snapshot_of_def snapshot_checkpoint_of_def
        checkpoint_snapshot_of_def st stores_new_def checkpoint_empty_def checkpoint_new_def)
  have names: "enumerates [snapshot_filename 0] (dom (db_snapshots (snd (db_snapshot (\<lambda>_. Some [0]) sample_io db))))"
    by (simp add: d enumerates_def)
  have newest: "b \<le> cp_last_block (st_checkpoint (db_stores db))" if "db_snapshots db (snapshot_filename b) \<noteq> None" for b
    using that by (simp add: sn)
  show ?thesis
    using snapshot_restores_state [where sser = "\<lambda>_. Some [0]" and sde = "\<lambda>_. Some (state_snapshot_of sample_io (db_stores db))",
        OF db_ok_open [OF db] io refl refl newest names] db by blast
qed

text \<open>
  C10. In every state that any sequence of calls of the engine reaches from a new database, whatever the events,
  every trade is counted once as a win, a loss or a liquidation, the leaderboards are ranked
  and within their size, and snapshot files have canonical names. If in addition no event reopened a position id for another user or market
  or placed an order id that was active or of another user (\<open>event_fits\<close>, which the engine does not check), the
  indices of positions, orders and balances are exact and the books hold exactly the active orders.
\<close>

theorem reachable_states_ok:
  assumes "perf_db_open sde de crc [] [] [segment_path 0] config empty_data_dir = Some (Inr db0)"
    and "db_reach ser sser crc any_event db0 db"
  shows "db_counts_ok db \<and> (db_reach ser sser crc event_fits db0 db \<longrightarrow> db_ok db)"
proof -
  have new: "db_ok db0" by (rule db_ok_open [OF assms(1)])
  then have "db_counts_ok db" using db_counts_reach [OF assms(2)] by (simp add: db_ok_iff)
  then show ?thesis using db_ok_reach new by blast
qed

theorem reachable_states_ok_witness:
  "\<exists>db0. perf_db_open sample_sde sample_de sample_crc [] [] [segment_path 0] perf_db_config_new empty_data_dir =
      Some (Inr db0) \<and> db_ok (sync_wal (snd (process_event sample_ser sample_crc False sample_opened db0)))"
proof -
  obtain db0 where db: "perf_db_open sample_sde sample_de sample_crc [] [] [segment_path 0] perf_db_config_new
      empty_data_dir = Some (Inr db0)" and st: "db_stores db0 = stores_new"
    using open_new by blast
  have "event_fits (db_stores db0) sample_opened"
    by (simp add: event_fits_def st stores_new_def positions_new_def sample_opened_def at_block_def)
  then have reach: "db_reach sample_ser (\<lambda>_. None) sample_crc event_fits db0 (snd (process_event sample_ser sample_crc False sample_opened db0))"
    by (intro reach_step [OF reach_refl step_event]) simp
  have synced: "db_reach sample_ser (\<lambda>_. None) sample_crc event_fits db0
      (sync_wal (snd (process_event sample_ser sample_crc False sample_opened db0)))"
    by (rule reach_step [OF reach step_sync]) simp
  from reachable_states_ok [OF db db_reach_any [OF this]] this db show ?thesis by blast
qed

section \<open>Ticks and events\<close>

text \<open>
  C13. Ticks fed to a new database: each market's ticks are stored in order, the stored candles of a
  timeframe are the summaries of all but the last run of ticks in one bucket, the live candle is the
  summary of the last run, and the price shown is that of the last tick.
\<close>

theorem ticks_become_candles:
  assumes "perf_db_open sde de crc [] [] [segment_path 0] config empty_data_dir = Some (Inr db0)"
    and "\<forall>t \<in> set ts. price_tick_valid t \<and> unat (tick_market_id t) < MARKET_COUNT \<and> ser (tick_entry t) \<noteq> None"
    and "length ts < SERIES_LIMIT" "unat m < MARKET_COUNT"
  shows "\<exists>db. ingest_ticks ser crc dues ts db0 = Some db \<and>
    (let mine = filter (\<lambda>t. tick_market_id t = m) ts; gs = runs (tick_bucket tf) mine in
      db_ticks db m = Some mine \<and>
      db_candles db m tf = Some (map (candle_of_run m tf) (butlast gs)) \<and>
      db_live_candle db m tf = (if gs = [] then None else Some (candle_of_run m tf (last gs))) \<and>
      db_latest_price db m = (if mine = [] then F64 0 else tick_price (last mine)))"
  by (rule ticks_run [OF assms])

theorem ticks_become_candles_witness:
  "\<exists>db0 db. perf_db_open sample_sde sample_de sample_crc [] [] [segment_path 0] perf_db_config_new empty_data_dir =
      Some (Inr db0) \<and> ingest_ticks sample_ser sample_crc [] [sample_tick, sample_tick2] db0 = Some db \<and>
    db_ticks db 1 = Some [sample_tick, sample_tick2] \<and>
    db_candles db 1 Sec1 = Some [candle_of_run 1 Sec1 [sample_tick]] \<and>
    db_candles db 1 Min1 = Some [] \<and> db_latest_price db 1 = tick_price sample_tick2"
proof -
  obtain db0 where db0: "perf_db_open sample_sde sample_de sample_crc [] [] [segment_path 0] perf_db_config_new
      empty_data_dir = Some (Inr db0)"
    using open_new by blast
  have mk: "tick_market_id sample_tick = 1" "tick_market_id sample_tick2 = 1"
    by (simp_all add: sample_tick_def sample_tick2_def)
  have entries: "tick_entry sample_tick \<in> set sample_table" "tick_entry sample_tick2 \<in> set sample_table"
    by (simp_all add: sample_table_def sample_inputs_def)
  have ts: "\<forall>t \<in> set [sample_tick, sample_tick2]. price_tick_valid t \<and> unat (tick_market_id t) < MARKET_COUNT \<and>
      sample_ser (tick_entry t) \<noteq> None"
    using entry_codec_ok_ser [OF sample_codec] entries mk
    by (auto simp: price_tick_valid_def MARKET_COUNT_def simp del: not_None_eq) (simp_all add: sample_tick_def sample_tick2_def)
  have lim: "length [sample_tick, sample_tick2] < SERIES_LIMIT" "unat (1 :: market_id) < MARKET_COUNT"
    by (simp_all add: SERIES_LIMIT_def MARKET_COUNT_def)
  have "tick_bucket Sec1 sample_tick \<noteq> tick_bucket Sec1 sample_tick2" "tick_bucket Min1 sample_tick = tick_bucket Min1 sample_tick2"
    by (simp_all add: bucket_start_ns_def sample_tick_def sample_tick2_def Let_def)
  then show ?thesis
    using ticks_become_candles [OF db0 ts lim, of "[]" Sec1] ticks_become_candles [OF db0 ts lim, of "[]" Min1] mk db0
    by (auto simp: Let_def)
qed

text \<open>
  C21. The event history after a run of events from empty stores: a query by market or by trader returns
  exactly the events of the run that name that market or trader and lie in the block range, in the
  order of the run, and the total is the number of events.
\<close>

theorem event_history_is_the_run:
  "events_by_market (st_events (fst (fold apply_event evs (stores_new, bus)))) m from_b to_b =
     filter (\<lambda>ev. fst (extract_event_keys (ie_event ev)) = Some m \<and> in_block_range from_b to_b ev) evs \<and>
   events_by_trader (st_events (fst (fold apply_event evs (stores_new, bus)))) a from_b to_b =
     filter (\<lambda>ev. snd (extract_event_keys (ie_event ev)) = Some a \<and> in_block_range from_b to_b ev) evs \<and>
   es_total_count (st_events (fst (fold apply_event evs (stores_new, bus)))) = word_of_nat (length evs)"
proof -
  have "event_store_repr (routed evs) (st_events (fst (fold apply_event evs (stores_new, bus))))"
    using event_store_repr_run [OF event_store_repr_new, of "routed evs"] by (simp add: st_events_run stores_new_def)
  moreover have "log_market (routed evs) m = filter (\<lambda>ev. fst (extract_event_keys (ie_event ev)) = Some m) evs"
    by (simp add: log_market_def routed_def filter_map comp_def)
  moreover have "log_trader (routed evs) a = filter (\<lambda>ev. snd (extract_event_keys (ie_event ev)) = Some a) evs"
    by (simp add: log_trader_def routed_def filter_map comp_def)
  ultimately show ?thesis
    by (auto simp: event_store_repr_def events_by_market_def events_by_trader_def filter_by_block_range_def routed_def
        conj_commute filter_empty_conv)
qed

section \<open>Accounting\<close>

text \<open>
  C22. Opening a position adds its size to the open interest of its side and market; closing the
  position in full with the same size takes exactly that away again, in every market, whatever
  the sizes (the 128-bit sums may wrap).
\<close>

theorem open_interest_returns:
  assumes "length (st_market_state s) = MARKET_COUNT" "unat mid < MARKET_COUNT"
    and "ie_event ev = PositionOpened pid user mid lng sz lev price token amt"
    and "ie_event ev' = PositionClosed pid user mid sz price' pnl True"
  shows "open_interest (st_market_state (fst (apply_event ev (s, bus)))) mid =
      (fst (open_interest (st_market_state s) mid) + (if lng then sz else 0),
       snd (open_interest (st_market_state s) mid) + (if lng then 0 else sz)) \<and>
    open_interest (st_market_state (fst (apply_event ev' (apply_event ev (s, bus))))) n =
      open_interest (st_market_state s) n"
proof -
  let ?s1 = "fst (on_position_opened ev pid user mid lng sz lev price token amt (append_event ev s, bus))"
  have app: "st_market_state (append_event e x) = st_market_state x" "st_positions (append_event e x) = st_positions x" for e x
    by (simp_all add: append_event_def split_beta Let_def)
  have 1: "st_market_state (fst (apply_event ev (s, bus))) = st_market_state ?s1"
    "st_positions (fst (apply_event ev (s, bus))) = st_positions ?s1"
    by (simp_all add: apply_event_def assms(3) split_beta Let_def)
  have len: "length (st_market_state ?s1) = MARKET_COUNT" using assms(1) by (simp add: length_market_opened app)
  have opened: "open_interest (st_market_state ?s1) k = (if k = mid
      then (fst (open_interest (st_market_state s) k) + (if lng then sz else 0),
            snd (open_interest (st_market_state s) k) + (if lng then 0 else sz))
      else open_interest (st_market_state s) k)" for k
    using opened_open_interest [of "append_event ev s" mid] assms(1,2) by (simp add: app)
  define s2 where "s2 = append_event ev' (fst (apply_event ev (s, bus)))"
  have s2: "st_market_state s2 = st_market_state ?s1" "st_positions s2 = st_positions ?s1" by (simp_all add: s2_def app 1)
  have pos: "pt_positions (st_positions s2) pid = Some (opened_position ev pid user mid lng sz lev price token amt)"
    by (simp add: s2 opened_position_stored)
  have "open_interest (st_market_state (fst (apply_event ev' (apply_event ev (s, bus))))) n =
      open_interest (st_market_state (fst (on_position_closed ev' pid user mid sz price' pnl True
        (s2, snd (apply_event ev (s, bus)))))) n"
    by (simp add: apply_event_def [of ev'] assms(4) s2_def split_beta Let_def)
  also have "\<dots> = open_interest (st_market_state s) n"
    by (subst closed_open_interest [OF _ assms(2) pos]) (simp_all add: s2 len opened opened_position_def)
  finally show ?thesis using opened [of mid] by (simp add: 1)
qed

theorem open_interest_returns_witness:
  "open_interest (st_market_state (fst (apply_event sample_opened (stores_new, sample_bus)))) 1 = (0 + 5000, 0 + 0) \<and>
   open_interest (st_market_state (fst (apply_event sample_closed
      (apply_event sample_opened (stores_new, sample_bus))))) 1 = (0, 0)"
proof -
  have len: "length (st_market_state stores_new) = MARKET_COUNT" "unat (1 :: market_id) < MARKET_COUNT"
    by (simp_all add: MARKET_COUNT_def stores_new_def)
  have "ie_event sample_opened = PositionOpened sample_id alice 1 True 5000 2 42 usdc 10"
    "ie_event sample_closed = PositionClosed sample_id alice 1 5000 50 700 True"
    by (simp_all add: sample_opened_def sample_closed_def at_block_def)
  from open_interest_returns [OF len this, of sample_bus 1] show ?thesis
    using len(2) by (simp add: stores_new_def open_interest_def market_slot_new_def market_inner_default_def)
qed

text \<open>
  C23. A withdrawal takes the amount off the balance but never below zero, keeps the locked part and
  leaves what is above it available; the available balance is never negative nor above the amount.
  The 128-bit arithmetic does not wrap for non-negative balances and amounts.
\<close>

theorem withdrawal_never_overdraws:
  assumes "balances_get (st_balances s) user token = Some b"
    and "0 \<le> i128_val (bal_amount b)" "0 \<le> i128_val amt" "0 \<le> i128_val (bal_locked b)"
    and "balances_get (st_balances (fst (on_collateral_withdrawn user token amt (s, bus)))) user token = Some b'"
  shows "i128_val (bal_amount b') = max (i128_val (bal_amount b) - i128_val amt) 0 \<and> bal_locked b' = bal_locked b \<and>
    i128_val (bal_available b') = max (i128_val (bal_amount b') - i128_val (bal_locked b)) 0 \<and> balance_sane b'"
proof -
  have "bal_locked b' = bal_locked b" using assms(1,5) by (auto simp: withdrawn_balance Let_def)
  then show ?thesis using withdrawn_amount [OF assms] by blast
qed

theorem withdrawal_never_overdraws_witness:
  "\<exists>b'. balances_get (st_balances (fst (on_collateral_withdrawn alice usdc 1 (fst (apply_event sample_deposit
      (stores_new, sample_bus)), sample_bus)))) alice usdc = Some b' \<and> balance_sane b'"
proof -
  let ?s = "fst (apply_event sample_deposit (stores_new, sample_bus))"
  let ?b = "\<lparr>bal_user_address = alice, bal_token = usdc, bal_amount = 1000, bal_locked = 0, bal_available = 1000 - 0\<rparr>"
  have "st_balances ?s = st_balances (fst (on_collateral_deposited sample_deposit alice usdc 1000
      (append_event sample_deposit stores_new, sample_bus)))"
    by (simp add: apply_event_def sample_deposit_def at_block_def split_beta Let_def)
  moreover have "balances_get (st_balances (append_event sample_deposit stores_new)) alice usdc = None"
    by (simp add: append_event_def split_beta Let_def stores_new_def balances_new_def balances_get_def)
  ultimately have b: "balances_get (st_balances ?s) alice usdc = Some ?b" by (simp add: deposited_balance Let_def)
  have "i128_val 1000 = 1000" by (simp add: i128_val_def)
  then have nn: "0 \<le> i128_val (bal_amount ?b)" "0 \<le> i128_val 1" "0 \<le> i128_val (bal_locked ?b)" by simp_all
  obtain b' where b': "balances_get (st_balances (fst (on_collateral_withdrawn alice usdc 1 (?s, sample_bus))))
      alice usdc = Some b'"
    by (simp add: withdrawn_balance Let_def)
  from withdrawal_never_overdraws [OF b nn b'] b' show ?thesis by blast
qed

section \<open>Rejected and lost input\<close>

text \<open>
  C24. Rejected ticks. A tick that cannot be serialized is refused with an error and changes nothing at all, whatever its market
  and whatever the database. A tick that can be serialized but names a market that does not exist is refused with an
  invalid-argument error and changes no store and no series, but its log entry has been written before it is refused.
\<close>

theorem invalid_tick_rejected:
  "(ser (tick_entry t) = None \<longrightarrow> (\<exists>e. ingest_tick ser crc due t db = Some (Inl e, db))) \<and>
   (ser (tick_entry t) \<noteq> None \<longrightarrow> MARKET_COUNT \<le> unat (tick_market_id t) \<longrightarrow>
     (\<exists>e. ingest_tick ser crc due t db =
       Some (Inl (InvalidArgument e), db\<lparr>db_wal := snd (wal_append ser crc due (tick_entry t) (db_wal db))\<rparr>)))"
proof (cases "ser (tick_entry t)")
  case None
  then show ?thesis by (simp add: ingest_tick_def wal_append_def tick_entry_def)
next
  case (Some p)
  then obtain w where w: "wal_append ser crc due (tick_entry t) (db_wal db) = (Inr (), w)"
    using wal_append_some [of ser "tick_entry t" crc due "db_wal db"] by auto
  show ?thesis
  proof (cases "MARKET_COUNT \<le> unat (tick_market_id t)")
    case True
    then show ?thesis using ingest_tick_invalid [OF True, of ser crc due db w] w Some by (simp add: tick_entry_def)
  qed (simp add: Some)
qed

theorem invalid_tick_rejected_witness:
  "\<exists>db e e'. perf_db_open sample_sde sample_de sample_crc [] [] [segment_path 0] perf_db_config_new empty_data_dir =
      Some (Inr db) \<and>
    ingest_tick (\<lambda>_. Some [7]) sample_crc False (sample_tick\<lparr>tick_market_id := 18\<rparr>) db =
      Some (Inl (InvalidArgument e), db\<lparr>db_wal := snd (wal_append (\<lambda>_. Some [7]) sample_crc False
        (tick_entry (sample_tick\<lparr>tick_market_id := 18\<rparr>)) (db_wal db))\<rparr>) \<and>
    ingest_tick (\<lambda>_. None) sample_crc False sample_tick db = Some (Inl e', db) \<and> unat (tick_market_id sample_tick) < MARKET_COUNT"
proof -
  obtain db where db: "perf_db_open sample_sde sample_de sample_crc [] [] [segment_path 0] perf_db_config_new
      empty_data_dir = Some (Inr db)"
    using open_new by blast
  have "MARKET_COUNT \<le> unat (tick_market_id (sample_tick\<lparr>tick_market_id := 18\<rparr>))" "unat (tick_market_id sample_tick) < MARKET_COUNT"
    by (simp_all add: MARKET_COUNT_def sample_tick_def)
  then show ?thesis
    using invalid_tick_rejected [of "\<lambda>_. Some [7]" "sample_tick\<lparr>tick_market_id := 18\<rparr>" sample_crc False db]
      invalid_tick_rejected [of "\<lambda>_. None" sample_tick sample_crc False db] db by auto
qed

text \<open>
  \<open>PositionModified\<close> is applied when it arrives but not when it is replayed: after a restart the
  position has the size and the collateral it had before the event.
\<close>

theorem position_modified_not_replayed:
  assumes "ie_event ev = PositionModified pid sz col amt" "snap_block < ie_block_number ev"
    and "pt_positions (st_positions s) pid = Some p"
  shows "pt_positions (st_positions (fst (apply_event ev (s, bus)))) pid =
      Some (p\<lparr>pos_size_usd := sz, pos_collateral_usd := col, pos_collateral_amount := amt\<rparr>) \<and>
    pt_positions (st_positions (replay_wal_entry snap_block (WalIndexedEvent ev) s)) pid = Some p"
  using assms
  by (simp add: apply_event_def on_position_modified_def positions_update_def positions_get_def publish_def
      append_event_def replay_wal_entry_def replay_event_def Let_def)

theorem position_modified_not_replayed_witness:
  "pt_positions (st_positions (replay_wal_entry 0 (WalIndexedEvent (at_block 9 (PositionModified sample_id 77 7 7)))
      (fst (apply_event sample_opened (stores_new, sample_bus))))) sample_id = Some sample_position \<and>
   sample_position \<noteq> sample_position\<lparr>pos_size_usd := 77, pos_collateral_usd := 7, pos_collateral_amount := 7\<rparr>"
proof -
  let ?s = "fst (apply_event sample_opened (stores_new, sample_bus))"
  have "st_positions ?s = st_positions (fst (on_position_opened sample_opened sample_id alice 1 True 5000 2 42 usdc 10
      (append_event sample_opened stores_new, sample_bus)))"
    by (simp add: apply_event_def sample_opened_def at_block_def split_beta Let_def)
  then have p: "pt_positions (st_positions ?s) sample_id = Some sample_position"
    by (simp add: opened_position_stored sample_position_def)
  have ev: "ie_event (at_block 9 (PositionModified sample_id 77 7 7)) = PositionModified sample_id 77 7 7"
    "0 < ie_block_number (at_block 9 (PositionModified sample_id 77 7 7))"
    by (simp_all add: at_block_def)
  have "i128_bits (pos_collateral_amount sample_position) \<noteq> i128_bits 7"
    by (simp add: sample_position_def opened_position_def)
  moreover have "i128_bits (pos_collateral_amount (sample_position\<lparr>pos_size_usd := 77, pos_collateral_usd := 7,
      pos_collateral_amount := 7\<rparr>)) = i128_bits 7"
    by simp
  ultimately have "sample_position \<noteq> sample_position\<lparr>pos_size_usd := 77, pos_collateral_usd := 7, pos_collateral_amount := 7\<rparr>"
    by metis
  with position_modified_not_replayed [OF ev p] show ?thesis by blast
qed

end
